(* ===== verification/Prelude.thy ===== *)
theory Prelude
  imports Main "HOL-Library.Multiset"
begin

text \<open>
  Shared vocabulary of the development: the collections of facts the component theories
  fill (\<open>wf_intros\<close>: preservation of well-formedness, \<open>abs_simps\<close>: how the abstraction
  function commutes with an operation), and generic facts on association lists,
  \<open>takeWhile\<close>/\<open>dropWhile\<close> splits and prefixes that several components use.
\<close>

named_theorems wf_intros \<open>operations preserve the well-formedness of values\<close>
named_theorems abs_simps \<open>the abstraction function commutes with the operations\<close>

section \<open>Splitting a list at the first element that fails a test\<close>

lemma takeWhile_append_stop [simp]:
  "list_all P xs \<Longrightarrow> \<not> P y \<Longrightarrow> takeWhile P (xs @ y # ys) = xs"
  by (induction xs) auto

lemma dropWhile_append_stop [simp]:
  "list_all P xs \<Longrightarrow> \<not> P y \<Longrightarrow> dropWhile P (xs @ y # ys) = y # ys"
  by (induction xs) auto

lemma takeWhile_all [simp]: "list_all P xs \<Longrightarrow> takeWhile P xs = xs"
  by (induction xs) auto

lemma dropWhile_all [simp]: "list_all P xs \<Longrightarrow> dropWhile P xs = []"
  by (induction xs) auto

lemma length_dropWhile_less [simp]: "length (dropWhile P xs) < Suc (length xs)"
  using length_dropWhile_le [of P xs] by simp

text \<open>
  Two texts made of a run of \<open>P\<close>-characters and a rest that does not start with one are
  equal only if runs and rests are.
\<close>

definition stops :: "('a \<Rightarrow> bool) \<Rightarrow> 'a list \<Rightarrow> bool" where
  "stops P r \<longleftrightarrow> (case r of [] \<Rightarrow> True | c # _ \<Rightarrow> \<not> P c)"

lemma stops_Nil [simp]: "stops P []"
  and stops_Cons [simp]: "stops P (c # r) \<longleftrightarrow> \<not> P c"
  by (simp_all add: stops_def)

lemma takeWhile_append_stops:
  "list_all P xs \<Longrightarrow> stops P r \<Longrightarrow> takeWhile P (xs @ r) = xs"
  by (cases r) auto

lemma append_stops_eq:
  assumes "xs @ r = ys @ s" and "list_all P xs" and "list_all P ys"
    and "stops P r" and "stops P s"
  shows "xs = ys \<and> r = s"
proof -
  have "xs = takeWhile P (xs @ r)" using assms(2,4) by (simp add: takeWhile_append_stops)
  also have "\<dots> = takeWhile P (ys @ s)" using assms(1) by simp
  also have "\<dots> = ys" using assms(3,5) by (simp add: takeWhile_append_stops)
  finally show ?thesis using assms(1) by simp
qed

section \<open>Association lists\<close>

lemma map_of_mapsnd:
  "map_of (map (\<lambda>(k, v). (k, f v)) kvs) k = map_option f (map_of kvs k)"
  by (induction kvs) auto

lemma map_of_filter_key:
  "map_of (filter (\<lambda>(k, v). P k) kvs) k = (if P k then map_of kvs k else None)"
  by (induction kvs) auto

lemma map_of_None_iff: "map_of kvs k = None \<longleftrightarrow> k \<notin> set (map fst kvs)"
  by (simp add: map_of_eq_None_iff)

lemma key_lookup_iff: "k \<in> set (map fst kvs) \<longleftrightarrow> (\<exists>v. map_of kvs k = Some v)"
  by (metis map_of_None_iff not_None_eq)

lemma entry_lookup: "(k, v) \<in> set kvs \<Longrightarrow> \<exists>w. map_of kvs k = Some w"
  by (metis fst_conv image_eqI image_set key_lookup_iff)

lemma map_of_permute:
  "distinct (map fst xs) \<Longrightarrow> mset xs = mset ys \<Longrightarrow> map_of xs = map_of ys"
  by (metis distinct_map map_of_inject_set mset_eq_imp_distinct_iff mset_map set_mset_mset)

lemma list_all_filter [simp]: "list_all P xs \<Longrightarrow> list_all P (filter Q xs)"
  by (simp add: list_all_iff)

lemma map_eq_map_iff: "map f xs = map g ys \<longleftrightarrow> list_all2 (\<lambda>x y. f x = g y) xs ys"
  by (simp add: list_all2_map1 list_all2_map2 flip: list.rel_eq)

section \<open>Options and results\<close>

lemma case_option_map [simp]:
  "(case map_option f x of None \<Rightarrow> a | Some y \<Rightarrow> g y) = (case x of None \<Rightarrow> a | Some y \<Rightarrow> g (f y))"
  by (cases x) auto

section \<open>Results\<close>

text \<open>
  A computation that may throw returns a sum, \<open>Inl\<close> the error. \<open>bind_result\<close> is sequencing,
  \<open>require\<close> a guard that throws, \<open>traverse\<close> a \<open>map\<close> whose function may throw.
\<close>

definition bind_result :: "'e + 'a \<Rightarrow> ('a \<Rightarrow> 'e + 'b) \<Rightarrow> 'e + 'b" where
  "bind_result r f = (case r of Inl e \<Rightarrow> Inl e | Inr x \<Rightarrow> f x)"

definition require :: "bool \<Rightarrow> 'e \<Rightarrow> 'e + unit" where
  "require b e = (if b then Inr () else Inl e)"

fun traverse :: "('a \<Rightarrow> 'e + 'b) \<Rightarrow> 'a list \<Rightarrow> 'e + 'b list" where
  "traverse f [] = Inr []"
| "traverse f (x # xs) = bind_result (f x) (\<lambda>y. bind_result (traverse f xs) (\<lambda>ys. Inr (y # ys)))"

lemma bind_result_simps [simp]:
  "bind_result (Inl e) f = Inl e" "bind_result (Inr x) f = f x"
  by (simp_all add: bind_result_def)

lemma bind_result_ok [simp]: "bind_result r f = Inr y \<longleftrightarrow> (\<exists>x. r = Inr x \<and> f x = Inr y)"
  by (cases r) simp_all

lemma bind_result_error: "bind_result r f = Inl e \<longleftrightarrow> r = Inl e \<or> (\<exists>x. r = Inr x \<and> f x = Inl e)"
  by (cases r) simp_all

lemma require_ok [simp]: "require b e = Inr x \<longleftrightarrow> b"
  by (simp add: require_def)

lemma require_error: "require b e = Inl e' \<longleftrightarrow> \<not> b \<and> e' = e"
  by (auto simp: require_def)

lemma traverse_ok: "traverse f xs = Inr ys \<longleftrightarrow> list_all2 (\<lambda>x y. f x = Inr y) xs ys"
proof (induction xs arbitrary: ys)
  case (Cons x xs)
  then show ?case by (cases ys) auto
qed auto

lemma traverse_error: "traverse f xs = Inl e \<Longrightarrow> \<exists>x \<in> set xs. f x = Inl e"
  by (induction xs) (auto simp: bind_result_error)

end
