(* ===== verification/JsString.thy ===== *)
theory JsString
  imports Prelude "HOL-Library.Word"
begin

text \<open>
  The JavaScript strings of the program: sequences of UTF-16 code units. The theory has the
  string iterator (one code point per step, surrogate pairs joined), \<open>compareCodepoints\<close> of
  packages/yops/src/canonical.ts on top of it, and \<open>JSON.stringify\<close> on a string (the
  QuoteJSONString operation of ECMA-262, lone surrogates escaped).
\<close>

section \<open>Code units and literals\<close>

type_synonym code_unit = "16 word"
type_synonym jstring = "code_unit list"

text \<open>\<open>cu\<close> is the code unit of an ASCII character, \<open>u\<close> the string of an ASCII literal.\<close>

definition cu :: "char \<Rightarrow> code_unit" where
  "cu c = of_char c"

definition u :: "string \<Rightarrow> jstring" where
  "u s = map cu s"

lemma unat_cu: "unat (cu c) = of_char c"
proof -
  have "unat (of_nat (of_char c) :: code_unit) = of_char c"
    using less_trans [OF nat_of_char_less_256, of 65536 c] by (simp add: unat_of_nat take_bit_eq_mod)
  then show ?thesis by (simp add: cu_def of_nat_of_char)
qed

lemma cu_eq_iff [simp]: "cu a = cu b \<longleftrightarrow> a = b"
  by (metis unat_cu of_char_eq_iff)

lemma u_eq_iff [simp]: "u a = u b \<longleftrightarrow> a = b"
  unfolding u_def by (rule inj_map_eq_map) (simp add: inj_def)

lemma u_Nil [simp]: "u [] = []"
  and u_Cons: "u (c # s) = cu c # u s"
  and u_append: "u (s @ t) = u s @ u t"
  by (simp_all add: u_def)

lemma u_Nil_iff [simp]: "u s = [] \<longleftrightarrow> s = []" "[] = u s \<longleftrightarrow> s = []"
  by (auto simp: u_def)

section \<open>The string iterator: one code point per step\<close>

definition is_high_surrogate :: "code_unit \<Rightarrow> bool" where
  "is_high_surrogate c \<longleftrightarrow> 0xD800 \<le> unat c \<and> unat c \<le> 0xDBFF"

definition is_low_surrogate :: "code_unit \<Rightarrow> bool" where
  "is_low_surrogate c \<longleftrightarrow> 0xDC00 \<le> unat c \<and> unat c \<le> 0xDFFF"

fun codepoints :: "jstring \<Rightarrow> nat list" where
  "codepoints [] = []"
| "codepoints [c] = [unat c]"
| "codepoints (c # d # r) =
     (if is_high_surrogate c \<and> is_low_surrogate d
      then (0x10000 + (unat c - 0xD800) * 0x400 + (unat d - 0xDC00)) # codepoints r
      else unat c # codepoints (d # r))"

text \<open>UTF-16 encoding of one code point; it undoes the iterator, which is therefore injective.\<close>

definition utf16_encode :: "nat \<Rightarrow> jstring" where
  "utf16_encode cp =
     (if cp < 0x10000 then [of_nat cp]
      else [of_nat (0xD800 + (cp - 0x10000) div 0x400), of_nat (0xDC00 + (cp - 0x10000) mod 0x400)])"

lemma utf16_encode_unat [simp]: "utf16_encode (unat c) = [c]" for c :: code_unit
  using unsigned_less [of c, where ?'a = nat] by (simp add: utf16_encode_def)

lemma utf16_encode_pair:
  assumes "is_high_surrogate c" and "is_low_surrogate d"
  shows "utf16_encode (0x10000 + (unat c - 0xD800) * 0x400 + (unat d - 0xDC00)) = [c, d]"
proof -
  let ?h = "unat c - 0xD800" and ?l = "unat d - 0xDC00"
  have l: "?l < 0x400" using assms(2) by (auto simp: is_low_surrogate_def)
  have "(0x10000 + ?h * 0x400 + ?l - 0x10000) div 0x400 = ?h"
    and "(0x10000 + ?h * 0x400 + ?l - 0x10000) mod 0x400 = ?l"
    using l by simp_all
  moreover have "0xD800 + ?h = unat c" and "0xDC00 + ?l = unat d"
    using assms by (simp_all add: is_high_surrogate_def is_low_surrogate_def)
  ultimately show ?thesis by (simp add: utf16_encode_def)
qed

lemma utf16_roundtrip: "concat (map utf16_encode (codepoints s)) = s"
  by (induction s rule: codepoints.induct) (auto simp: utf16_encode_pair)

lemma codepoints_inj [simp]: "codepoints a = codepoints b \<longleftrightarrow> a = b"
  by (metis utf16_roundtrip)

section \<open>compareCodepoints\<close>

fun compare_points :: "nat list \<Rightarrow> nat list \<Rightarrow> int" where
  "compare_points [] [] = 0"
| "compare_points [] (b # bs) = -1"
| "compare_points (a # as) [] = 1"
| "compare_points (a # as) (b # bs) =
     (if a \<noteq> b then (if a < b then -1 else 1) else compare_points as bs)"

definition compareCodepoints :: "jstring \<Rightarrow> jstring \<Rightarrow> int" where
  "compareCodepoints a b = compare_points (codepoints a) (codepoints b)"

lemma compare_points_neg: "compare_points b a = - compare_points a b"
  by (induction a b rule: compare_points.induct) auto

lemma compare_points_0: "compare_points a b = 0 \<longleftrightarrow> a = b"
  by (induction a b rule: compare_points.induct) auto

lemma compare_points_trans:
  "compare_points a b \<le> 0 \<Longrightarrow> compare_points b c \<le> 0 \<Longrightarrow> compare_points a c \<le> 0"
proof (induction a b arbitrary: c rule: compare_points.induct)
  case (2 b bs)
  then show ?case by (cases c) auto
next
  case (4 a as b bs)
  then show ?case by (cases c) (auto split: if_splits)
qed auto

lemma compareCodepoints_neg: "compareCodepoints b a = - compareCodepoints a b"
  by (simp add: compareCodepoints_def compare_points_neg [of "codepoints a"])

lemma compareCodepoints_0 [simp]: "compareCodepoints a b = 0 \<longleftrightarrow> a = b"
  by (simp add: compareCodepoints_def compare_points_0)

lemma compareCodepoints_trans:
  "compareCodepoints a b \<le> 0 \<Longrightarrow> compareCodepoints b c \<le> 0 \<Longrightarrow> compareCodepoints a c \<le> 0"
  unfolding compareCodepoints_def by (rule compare_points_trans)

section \<open>JSON.stringify of a string\<close>

text \<open>Lower-case hexadecimal, four digits: the \<open>u\<close>-escape of a code unit.\<close>

definition hex_digit :: "nat \<Rightarrow> code_unit" where
  "hex_digit n = (if n < 10 then of_nat (48 + n) else of_nat (87 + n))"

definition hex4 :: "code_unit \<Rightarrow> jstring" where
  "hex4 c = [hex_digit (unat c div 4096), hex_digit (unat c div 256 mod 16),
             hex_digit (unat c div 16 mod 16), hex_digit (unat c mod 16)]"

definition esc_unit :: "code_unit \<Rightarrow> jstring" where
  "esc_unit c =
     (if c = 8 then [cu CHR 0x5C, cu CHR ''b''] else if c = 9 then [cu CHR 0x5C, cu CHR ''t''] else if c = 10 then [cu CHR 0x5C, cu CHR ''n'']
      else if c = 12 then [cu CHR 0x5C, cu CHR ''f''] else if c = 13 then [cu CHR 0x5C, cu CHR ''r'']
      else if c = cu CHR 0x22 then [cu CHR 0x5C, cu CHR 0x22]
      else if c = cu CHR 0x5C then [cu CHR 0x5C, cu CHR 0x5C]
      else if c < 32 \<or> is_high_surrogate c \<or> is_low_surrogate c
      then cu CHR 0x5C # cu CHR ''u'' # hex4 c
      else [c])"

fun json_escape :: "jstring \<Rightarrow> jstring" where
  "json_escape [] = []"
| "json_escape [c] = esc_unit c"
| "json_escape (c # d # r) =
     (if is_high_surrogate c \<and> is_low_surrogate d then c # d # json_escape r
      else esc_unit c @ json_escape (d # r))"

definition json_quote :: "jstring \<Rightarrow> jstring" where
  "json_quote s = cu CHR 0x22 # json_escape s @ [cu CHR 0x22]"

subsection \<open>Reading a quoted string back\<close>

definition hex_value :: "code_unit \<Rightarrow> nat" where
  "hex_value c = (if unat c < 58 then unat c - 48 else if unat c < 97 then unat c - 55 else unat c - 87)"

definition unesc_letter :: "code_unit \<Rightarrow> code_unit" where
  "unesc_letter k =
     (if k = cu CHR ''b'' then 8 else if k = cu CHR ''t'' then 9 else if k = cu CHR ''n'' then 10
      else if k = cu CHR ''f'' then 12 else if k = cu CHR ''r'' then 13 else k)"

definition unesc_unit :: "jstring \<Rightarrow> (code_unit \<times> jstring) option" where
  "unesc_unit s = (case s of [] \<Rightarrow> None | c # r \<Rightarrow>
     if c \<noteq> cu CHR 0x5C then Some (c, r)
     else (case r of [] \<Rightarrow> None | k # r1 \<Rightarrow>
       if k \<noteq> cu CHR ''u'' then Some (unesc_letter k, r1)
       else (case r1 of a # b # e # f # r2 \<Rightarrow>
               Some (of_nat (4096 * hex_value a + 256 * hex_value b + 16 * hex_value e + hex_value f), r2)
             | _ \<Rightarrow> None)))"

lemma unesc_unit_length: "unesc_unit s = Some (c, r) \<Longrightarrow> length r < length s"
  by (auto simp: unesc_unit_def split: list.splits if_splits)

function json_unescape :: "jstring \<Rightarrow> (jstring \<times> jstring) option" where
  "json_unescape s = (case s of [] \<Rightarrow> None | q # r \<Rightarrow>
     if q = cu CHR 0x22 then Some ([], r)
     else (case unesc_unit s of None \<Rightarrow> None
           | Some (c, s') \<Rightarrow> map_option (map_prod (Cons c) id) (json_unescape s')))"
  by pat_completeness auto
termination
  by (relation "measure length") (auto dest: unesc_unit_length)

declare json_unescape.simps [simp del]

lemma unat_hex_digit: "n < 16 \<Longrightarrow> unat (hex_digit n) = (if n < 10 then 48 + n else 87 + n)"
  by (auto simp: hex_digit_def unat_of_nat take_bit_eq_mod simp del: of_nat_add)

lemma hex_value_digit: "n < 16 \<Longrightarrow> hex_value (hex_digit n) = n"
  by (simp add: hex_value_def unat_hex_digit)

lemma four_hex_digits:
  "4096 * (n div 4096) + 256 * (n div 256 mod 16) + 16 * (n div 16 mod 16) + n mod 16 = (n::nat)"
proof -
  have "n div 16 div 16 = n div 256" and "n div 256 div 16 = n div 4096"
    by (simp_all flip: div_mult2_eq)
  then show ?thesis
    using mult_div_mod_eq [of 16 n] mult_div_mod_eq [of 16 "n div 16"]
      mult_div_mod_eq [of 16 "n div 256"]
    by linarith
qed

lemma unesc_hex4: "unesc_unit (cu CHR 0x5C # cu CHR ''u'' # hex4 c @ r) = Some (c, r)"
proof -
  have b: "unat c < 65536" using unsigned_less [of c, where ?'a = nat] by simp
  then have "unat c div 4096 < 16" by simp
  with b show ?thesis
    by (simp add: unesc_unit_def hex4_def hex_value_digit four_hex_digits del: of_nat_add of_nat_mult)
qed

lemma unesc_esc_unit: "unesc_unit (esc_unit c @ r) = Some (c, r)"
proof -
  have "unesc_letter (cu CHR ''b'') = 8" "unesc_letter (cu CHR ''t'') = 9"
    "unesc_letter (cu CHR ''n'') = 10" "unesc_letter (cu CHR ''f'') = 12"
    "unesc_letter (cu CHR ''r'') = 13" "unesc_letter (cu CHR 0x22) = cu CHR 0x22"
    "unesc_letter (cu CHR 0x5C) = cu CHR 0x5C"
    by (simp_all add: unesc_letter_def)
  then show ?thesis
    using unesc_hex4 [of c r] unfolding esc_unit_def by (auto simp: unesc_unit_def)
qed

lemma esc_unit_hd: "\<exists>h t. esc_unit c = h # t \<and> h \<noteq> cu CHR 0x22"
  by (auto simp: esc_unit_def)

lemma surrogate_units:
  "is_high_surrogate c \<Longrightarrow> c \<noteq> cu x" "is_low_surrogate c \<Longrightarrow> c \<noteq> cu x"
proof -
  have "unat (cu x) < 256" by (simp add: unat_cu)
  then show "is_high_surrogate c \<Longrightarrow> c \<noteq> cu x" and "is_low_surrogate c \<Longrightarrow> c \<noteq> cu x"
    by (auto simp: is_high_surrogate_def is_low_surrogate_def)
qed

lemma json_unescape_unit:
  "json_unescape (esc_unit c @ r) = map_option (map_prod (Cons c) id) (json_unescape r)"
proof -
  obtain h t where h: "esc_unit c = h # t" "h \<noteq> cu CHR 0x22" using esc_unit_hd by blast
  then show ?thesis
    using unesc_esc_unit [of c r] by (subst json_unescape.simps) (simp)
qed

lemma json_unescape_raw:
  "c \<noteq> cu CHR 0x22 \<Longrightarrow> c \<noteq> cu CHR 0x5C \<Longrightarrow>
   json_unescape (c # r) = map_option (map_prod (Cons c) id) (json_unescape r)"
  by (subst json_unescape.simps) (simp add: unesc_unit_def)

lemma json_unescape_roundtrip:
  "json_unescape (json_escape s @ cu CHR 0x22 # r) = Some (s, r)"
proof (induction s rule: json_escape.induct)
  case 1
  then show ?case by (subst json_unescape.simps) simp
next
  case (2 c)
  have "json_unescape (cu CHR 0x22 # r) = Some ([], r)" by (subst json_unescape.simps) simp
  then show ?case by (simp add: json_unescape_unit)
next
  case (3 c d r')
  then show ?case
    by (auto simp: json_unescape_raw surrogate_units json_unescape_unit)
qed

lemma json_quote_inject: "json_quote a @ r = json_quote b @ s \<Longrightarrow> a = b \<and> r = s"
proof -
  assume "json_quote a @ r = json_quote b @ s"
  then have "json_escape a @ cu CHR 0x22 # r = json_escape b @ cu CHR 0x22 # s"
    by (simp add: json_quote_def)
  then have "Some (a, r) = Some (b, s)"
    by (metis json_unescape_roundtrip)
  then show ?thesis by simp
qed

end
