(* ===== verification/JsNumber.thy ===== *)
theory JsNumber
  imports JsString
begin

text \<open>
  The finite JavaScript numbers. ECMA-262 prints a number \<open>x\<close> from the unique shortest
  decimal \<open>s * 10 ^ e\<close> that reads back as \<open>x\<close>; a number is represented here by that decimal,
  so the type holds every finite double (minus zero is zero: the program never tells them
  apart). \<open>number_to_string\<close> is Number::toString, which \<open>String(n)\<close> and \<open>JSON.stringify(n)\<close>
  both use; comparison is by value.
\<close>

section \<open>Decimal digits\<close>

definition digit :: "nat \<Rightarrow> code_unit" where
  "digit n = of_nat (48 + n)"

definition is_digit :: "code_unit \<Rightarrow> bool" where
  "is_digit c \<longleftrightarrow> 48 \<le> unat c \<and> unat c \<le> 57"

fun dec_digits :: "nat \<Rightarrow> jstring" where
  "dec_digits n = (if n < 10 then [digit n] else dec_digits (n div 10) @ [digit (n mod 10)])"

declare dec_digits.simps [simp del]

definition digits_value :: "jstring \<Rightarrow> nat" where
  "digits_value s = foldl (\<lambda>a c. 10 * a + (unat c - 48)) 0 s"

lemma unat_digit: "n < 10 \<Longrightarrow> unat (digit n) = 48 + n"
  by (simp add: digit_def unat_of_nat take_bit_eq_mod del: of_nat_add)

lemma is_digit_digit [simp]: "n < 10 \<Longrightarrow> is_digit (digit n)"
  by (simp add: is_digit_def unat_digit)

lemma digits_value_snoc: "digits_value (s @ [c]) = 10 * digits_value s + (unat c - 48)"
  by (simp add: digits_value_def)

lemma digits_value_Nil [simp]: "digits_value [] = 0"
  by (simp add: digits_value_def)

lemma digits_value_dec [simp]: "digits_value (dec_digits n) = n"
proof (induction n rule: dec_digits.induct)
  case (1 n)
  then show ?case
    using digits_value_snoc [of "[]" "digit n"]
    by (subst dec_digits.simps) (auto simp: digits_value_snoc unat_digit)
qed

lemma dec_digits_digits: "list_all is_digit (dec_digits n)"
proof (induction n rule: dec_digits.induct)
  case (1 n)
  then show ?case by (subst dec_digits.simps) auto
qed

lemma dec_digits_nonempty [simp]: "dec_digits n \<noteq> []"
  by (subst dec_digits.simps) simp

lemma dec_digits_inj: "dec_digits m = dec_digits n \<longleftrightarrow> m = n"
  by (metis digits_value_dec)

lemma digits_value_append:
  "digits_value (s @ t) = digits_value s * 10 ^ length t + digits_value t"
proof (induction t rule: rev_induct)
  case (snoc c t)
  then show ?case
    using digits_value_snoc [of "s @ t" c] by (simp add: digits_value_snoc algebra_simps)
qed simp

lemma digits_value_zeros [simp]: "digits_value (replicate j (digit 0)) = 0"
proof (induction j)
  case (Suc j)
  then show ?case
    using digits_value_append [of "[digit 0]" "replicate j (digit 0)"] digits_value_snoc [of "[]" "digit 0"]
    by (simp add: unat_digit)
qed simp

section \<open>Numbers as shortest decimals\<close>

fun normal_decimal :: "int \<times> int \<Rightarrow> bool" where
  "normal_decimal (s, e) \<longleftrightarrow> (if s = 0 then e = 0 else \<not> 10 dvd s)"

typedef jsnum = "{d. normal_decimal d}"
  by (rule exI [of _ "(0, 0)"]) simp

setup_lifting type_definition_jsnum

function normalize :: "int \<Rightarrow> int \<Rightarrow> int \<times> int" where
  "normalize s e = (if s = 0 then (0, 0) else if 10 dvd s then normalize (s div 10) (e + 1) else (s, e))"
  by pat_completeness auto
termination
  by (relation "measure (\<lambda>(s, e). nat \<bar>s\<bar>)") (auto elim!: dvdE simp: abs_mult)

declare normalize.simps [simp del]

lemma normalize_normal: "normal_decimal (normalize s e)"
proof (induction s e rule: normalize.induct)
  case (1 s e)
  then show ?case by (subst normalize.simps) auto
qed

lemma normalize_id: "normal_decimal (s, e) \<Longrightarrow> normalize s e = (s, e)"
  by (subst normalize.simps) (auto split: if_splits)

lemma normalize_scale: "normal_decimal (s, e) \<Longrightarrow> s \<noteq> 0 \<Longrightarrow> normalize (s * 10 ^ j) x = (s, x + int j)"
proof (induction j arbitrary: x)
  case 0
  then show ?case by (subst normalize.simps) simp
next
  case (Suc j)
  have "normalize (s * 10 ^ Suc j) x = normalize (s * 10 ^ j) (x + 1)"
    using Suc.prems by (subst normalize.simps) simp
  with Suc show ?case by simp
qed

lift_definition mk_num :: "int \<Rightarrow> int \<Rightarrow> jsnum" is normalize
  by (simp add: normalize_normal)

lift_definition num_decimal :: "jsnum \<Rightarrow> int \<times> int" is "\<lambda>d. d" .

abbreviation num_int :: "int \<Rightarrow> jsnum" where
  "num_int n \<equiv> mk_num n 0"

lemma num_decimal_mk [simp]: "num_decimal (mk_num s e) = normalize s e"
  by transfer simp

lemma num_decimal_inject: "num_decimal x = num_decimal y \<longleftrightarrow> x = y"
  by transfer simp

lemma num_decimal_normal: "normal_decimal (num_decimal x)"
  by transfer simp

lemma mk_num_eq_iff [simp]: "mk_num s e = mk_num t f \<longleftrightarrow> normalize s e = normalize t f"
  by transfer simp

instantiation jsnum :: equal
begin
definition equal_jsnum :: "jsnum \<Rightarrow> jsnum \<Rightarrow> bool" where
  "equal_jsnum x y \<longleftrightarrow> num_decimal x = num_decimal y"
instance
  by standard (simp add: equal_jsnum_def num_decimal_inject)
end

subsection \<open>Order by value\<close>

text \<open>Two decimals are compared after scaling both to a common exponent.\<close>

definition scaled :: "int \<Rightarrow> int \<times> int \<Rightarrow> int" where
  "scaled k d = fst d * 10 ^ nat (snd d - k)"

definition decimal_le :: "int \<times> int \<Rightarrow> int \<times> int \<Rightarrow> bool" where
  "decimal_le d d' = (let m = min (snd d) (snd d') in scaled m d \<le> scaled m d')"

lemma scaled_shift:
  assumes "k \<le> m" and "m \<le> snd d"
  shows "scaled k d = scaled m d * 10 ^ nat (m - k)"
proof -
  have "nat (snd d - k) = nat (snd d - m) + nat (m - k)" using assms by linarith
  then show ?thesis by (simp add: scaled_def power_add)
qed

lemma decimal_le_scale:
  assumes "k \<le> snd d" and "k \<le> snd d'"
  shows "decimal_le d d' \<longleftrightarrow> scaled k d \<le> scaled k d'"
  using assms by (simp add: decimal_le_def Let_def scaled_shift [of k "min (snd d) (snd d')"])

lemma decimal_le_antisym:
  assumes "normal_decimal d" "normal_decimal d'" "decimal_le d d'" "decimal_le d' d"
  shows "d = d'"
proof -
  obtain s e t f where d: "d = (s, e)" "d' = (t, f)" by fastforce
  let ?m = "min e f"
  have "s * 10 ^ nat (e - ?m) = t * 10 ^ nat (f - ?m)"
    using assms(3,4) decimal_le_scale [of ?m d d'] decimal_le_scale [of ?m d' d]
    by (simp add: d scaled_def)
  then show ?thesis
    using assms(1,2) by (cases "e = f"; cases "e < f"; cases "nat (e - ?m)"; cases "nat (f - ?m)")
      (auto simp: d split: if_splits)
qed

instantiation jsnum :: linorder
begin

lift_definition less_eq_jsnum :: "jsnum \<Rightarrow> jsnum \<Rightarrow> bool" is decimal_le .

definition less_jsnum :: "jsnum \<Rightarrow> jsnum \<Rightarrow> bool" where
  "less_jsnum x y \<longleftrightarrow> x \<le> y \<and> \<not> y \<le> x"

instance
proof
  fix x y z :: jsnum
  show "x < y \<longleftrightarrow> x \<le> y \<and> \<not> y \<le> x" by (rule less_jsnum_def)
  show "x \<le> x" by transfer (simp add: decimal_le_def)
  show "x \<le> y \<or> y \<le> x"
  proof transfer
    fix d d' :: "int \<times> int"
    show "decimal_le d d' \<or> decimal_le d' d"
      by (simp add: decimal_le_scale [of "min (snd d) (snd d')"] linear)
  qed
  show "x \<le> y \<Longrightarrow> y \<le> x \<Longrightarrow> x = y" by transfer (simp add: decimal_le_antisym)
  show "x \<le> y \<Longrightarrow> y \<le> z \<Longrightarrow> x \<le> z"
  proof transfer
    fix a b c :: "int \<times> int"
    assume le: "decimal_le a b" "decimal_le b c"
    obtain k where "k \<le> snd a" "k \<le> snd b" "k \<le> snd c"
      by (meson linorder_linear order_trans)
    with le show "decimal_le a c" by (simp add: decimal_le_scale [of k])
  qed
qed

end

section \<open>Number::toString\<close>

definition sign_digits :: "int \<Rightarrow> jstring" where
  "sign_digits n = (if n < 0 then cu CHR ''-'' else cu CHR ''+'') # dec_digits (nat \<bar>n\<bar>)"

definition format_decimal :: "jstring \<Rightarrow> int \<Rightarrow> jstring" where
  "format_decimal ds e =
     (let k = int (length ds); n = k + e in
      if k \<le> n \<and> n \<le> 21 then ds @ replicate (nat (n - k)) (digit 0)
      else if 0 < n \<and> n \<le> 21 then take (nat n) ds @ cu CHR ''.'' # drop (nat n) ds
      else if -6 < n \<and> n \<le> 0 then digit 0 # cu CHR ''.'' # replicate (nat (- n)) (digit 0) @ ds
      else if k = 1 then ds @ cu CHR ''e'' # sign_digits (n - 1)
      else take 1 ds @ cu CHR ''.'' # drop 1 ds @ cu CHR ''e'' # sign_digits (n - 1))"

definition decimal_to_string :: "int \<times> int \<Rightarrow> jstring" where
  "decimal_to_string d =
     (if fst d < 0 then cu CHR ''-'' # format_decimal (dec_digits (nat (- fst d))) (snd d)
      else format_decimal (dec_digits (nat (fst d))) (snd d))"

definition number_to_string :: "jsnum \<Rightarrow> jstring" where
  "number_to_string x = decimal_to_string (num_decimal x)"

subsection \<open>Reading a printed number back\<close>

definition exponent_value :: "jstring \<Rightarrow> int" where
  "exponent_value s = (case s of [] \<Rightarrow> 0 | c # r \<Rightarrow>
     if c = cu CHR ''-'' then - int (digits_value r)
     else if c = cu CHR ''+'' then int (digits_value r) else int (digits_value s))"

definition read_unsigned :: "jstring \<Rightarrow> int \<times> int" where
  "read_unsigned s =
     (let mant = takeWhile (\<lambda>c. c \<noteq> cu CHR ''e'') s;
          ex = drop 1 (dropWhile (\<lambda>c. c \<noteq> cu CHR ''e'') s);
          ip = takeWhile is_digit mant;
          fp = drop 1 (dropWhile is_digit mant)
      in (int (digits_value (ip @ fp)), exponent_value ex - int (length fp)))"

lemma is_digit_cu: "is_digit (cu c) \<longleftrightarrow> 48 \<le> (of_char c :: nat) \<and> of_char c \<le> (57 :: nat)"
  by (simp add: is_digit_def unat_cu)

lemma not_digit [simp]:
  "\<not> is_digit (cu CHR ''e'')" "\<not> is_digit (cu CHR ''.'')" "\<not> is_digit (cu CHR ''-'')"
  "\<not> is_digit (cu CHR ''+'')"
  by (simp_all add: is_digit_cu)

lemma digits_no_e: "list_all is_digit s \<Longrightarrow> list_all (\<lambda>c. c \<noteq> cu CHR ''e'') s"
  by (auto simp: list_all_iff)

lemma list_all_take_drop [simp]:
  "list_all P s \<Longrightarrow> list_all P (take n s)" "list_all P s \<Longrightarrow> list_all P (drop n s)"
  by (auto simp: list_all_iff dest: in_set_takeD in_set_dropD)

lemma read_plain:
  "list_all is_digit s \<Longrightarrow> read_unsigned s = (int (digits_value s), 0)"
  by (simp add: read_unsigned_def digits_no_e exponent_value_def)

lemma read_fraction:
  "list_all is_digit s \<Longrightarrow> list_all is_digit t \<Longrightarrow>
   read_unsigned (s @ cu CHR ''.'' # t) = (int (digits_value (s @ t)), - int (length t))"
  by (simp add: read_unsigned_def digits_no_e exponent_value_def)

lemma exponent_value_sign [simp]: "exponent_value (sign_digits n) = n"
  by (simp add: exponent_value_def sign_digits_def)

lemma read_exponent:
  "list_all is_digit s \<Longrightarrow> read_unsigned (s @ cu CHR ''e'' # sign_digits n) = (int (digits_value s), n)"
  by (simp add: read_unsigned_def digits_no_e)

lemma read_fraction_exponent:
  assumes "list_all is_digit s" and "list_all is_digit t"
  shows "read_unsigned (s @ cu CHR ''.'' # t @ cu CHR ''e'' # sign_digits n)
    = (int (digits_value (s @ t)), n - int (length t))"
proof -
  have "list_all (\<lambda>c. c \<noteq> cu CHR ''e'') (s @ cu CHR ''.'' # t)"
    using assms by (simp add: digits_no_e)
  then have "takeWhile (\<lambda>c. c \<noteq> cu CHR ''e'') ((s @ cu CHR ''.'' # t) @ cu CHR ''e'' # sign_digits n)
      = s @ cu CHR ''.'' # t"
    and "dropWhile (\<lambda>c. c \<noteq> cu CHR ''e'') ((s @ cu CHR ''.'' # t) @ cu CHR ''e'' # sign_digits n)
      = cu CHR ''e'' # sign_digits n"
    by (rule takeWhile_append_stop dropWhile_append_stop; simp)+
  then show ?thesis using assms by (simp add: read_unsigned_def)
qed

lemma read_format:
  assumes ds: "list_all is_digit ds" "ds \<noteq> []"
    and n: "normal_decimal (int (digits_value ds), e)" "digits_value ds \<noteq> 0"
  shows "case_prod normalize (read_unsigned (format_decimal ds e)) = (int (digits_value ds), e)"
proof -
  let ?k = "int (length ds)" and ?s = "int (digits_value ds)"
  let ?n = "?k + e"
  note digits_value_append [simp]
  have z: "list_all is_digit (replicate j (digit 0))" for j by (simp add: list_all_iff)
  have id: "normalize ?s e = (?s, e)" using n(1) by (rule normalize_id)
  consider (1) "?k \<le> ?n" "?n \<le> 21" | (2) "?n < ?k" "0 < ?n" "?n \<le> 21"
    | (3) "-6 < ?n" "?n \<le> 0" | (4) "?n \<le> -6 \<or> 21 < ?n" "?k = 1" | (5) "?n \<le> -6 \<or> 21 < ?n" "?k \<noteq> 1"
    by linarith
  then show ?thesis
  proof cases
    case 1
    then show ?thesis
      using normalize_scale [OF n(1), of "nat e" 0] n(2) ds z
      by (simp add: format_decimal_def Let_def read_plain)
  next
    case 2
    have f: "format_decimal ds e = take (nat ?n) ds @ cu CHR ''.'' # drop (nat ?n) ds"
      using 2 by (simp add: format_decimal_def Let_def)
    have "digits_value (take (nat ?n) ds @ drop (nat ?n) ds) = digits_value ds" by (simp only: append_take_drop_id)
    then have "read_unsigned (format_decimal ds e) = (?s, - int (length (drop (nat ?n) ds)))"
      unfolding f using ds by (simp only: read_fraction list_all_take_drop)
    also have "- int (length (drop (nat ?n) ds)) = e" using 2 by simp
    finally show ?thesis using id by simp
  next
    case 3
    have f: "format_decimal ds e = [digit 0] @ cu CHR ''.'' # (replicate (nat (- ?n)) (digit 0) @ ds)"
    proof -
      have "e < 0" using 3 ds(2) by (cases ds) auto
      with 3 show ?thesis by (simp add: format_decimal_def Let_def)
    qed
    have "digits_value ([digit 0] @ (replicate (nat (- ?n)) (digit 0) @ ds)) = digits_value ds"
      using digits_value_zeros [of "Suc (nat (- ?n))"]
        digits_value_append [of "replicate (Suc (nat (- ?n))) (digit 0)" ds] by simp
    then have "read_unsigned (format_decimal ds e)
        = (?s, - int (length (replicate (nat (- ?n)) (digit 0) @ ds)))"
      unfolding f using ds z read_fraction [of "[digit 0]" "replicate (nat (- ?n)) (digit 0) @ ds"]
      by simp
    also have "- int (length (replicate (nat (- ?n)) (digit 0) @ ds)) = e" using 3 by simp
    finally show ?thesis using id by simp
  next
    case 4
    then have f: "format_decimal ds e = ds @ cu CHR ''e'' # sign_digits (?n - 1)"
      by (auto simp: format_decimal_def Let_def)
    then show ?thesis using id 4 by (simp add: f read_exponent ds)
  next
    case 5
    then have f: "format_decimal ds e
        = take 1 ds @ cu CHR ''.'' # drop 1 ds @ cu CHR ''e'' # sign_digits (?n - 1)"
      using ds(2) by (cases ds) (auto simp: format_decimal_def Let_def)
    have "digits_value (take 1 ds @ drop 1 ds) = digits_value ds" by (simp only: append_take_drop_id)
    moreover have "?n - 1 - int (length (drop 1 ds)) = e" using ds(2) by (cases ds) simp_all
    ultimately show ?thesis
      unfolding f using id read_fraction_exponent [of "take 1 ds" "drop 1 ds" "?n - 1"] ds by simp
  qed
qed

definition read_number :: "jstring \<Rightarrow> int \<times> int" where
  "read_number s = (case s of [] \<Rightarrow> (0, 0) | c # r \<Rightarrow>
     if c = cu CHR ''-'' then (case read_unsigned r of (m, x) \<Rightarrow> normalize (- m) x)
     else case_prod normalize (read_unsigned s))"

lemma normalize_neg: "normalize (- m) x = (- fst (normalize m x), snd (normalize m x))"
proof (induction m x rule: normalize.induct)
  case (1 s e)
  show ?case
  proof (cases "s = 0 \<or> \<not> 10 dvd s")
    case True
    then show ?thesis by (auto simp: normalize.simps [of s] normalize.simps [of "- s"])
  next
    case False
    then have "- s div 10 = - (s div 10)" by (auto elim!: dvdE)
    with False 1 show ?thesis by (simp add: normalize.simps [of s] normalize.simps [of "- s"])
  qed
qed

lemma format_decimal_0: "format_decimal (dec_digits 0) 0 = [digit 0]"
  by (simp add: format_decimal_def dec_digits.simps Let_def)

lemma format_decimal_digits_hd:
  assumes "list_all is_digit ds" "ds \<noteq> []"
  shows "\<exists>c r. format_decimal ds e = c # r \<and> is_digit c"
proof -
  obtain d ds' where [simp]: "ds = d # ds'" using assms(2) by (cases ds) auto
  have "is_digit d" using assms(1) by simp
  then show ?thesis
    by (cases "nat (int (length ds) + e)") (auto simp: format_decimal_def Let_def)
qed

lemma read_number_roundtrip: "read_number (number_to_string x) = num_decimal x"
proof -
  obtain s e where x: "num_decimal x = (s, e)" by fastforce
  have n: "normal_decimal (s, e)" using num_decimal_normal [of x] by (simp add: x)
  show ?thesis
  proof (cases "s = 0")
    case True
    then have "number_to_string x = [digit 0]" and "e = 0"
      using n by (auto simp: number_to_string_def decimal_to_string_def x format_decimal_0)
    moreover have "digit 0 \<noteq> cu CHR ''-''" using is_digit_digit [of 0] not_digit(3) by (metis zero_less_numeral)
    moreover have "read_unsigned [digit 0] = (0, 0)"
      using digits_value_zeros [of 1] by (simp add: read_plain)
    ultimately show ?thesis
      using True by (simp add: read_number_def x normalize.simps)
  next
    case False
    let ?ds = "dec_digits (nat \<bar>s\<bar>)"
    have ds: "list_all is_digit ?ds" "?ds \<noteq> []" by (simp_all add: dec_digits_digits)
    have m: "normal_decimal (int (digits_value ?ds), e)" "digits_value ?ds \<noteq> 0"
      using n False by auto
    note fmt = read_format [OF ds m]
    obtain c r where c: "format_decimal ?ds e = c # r" "is_digit c"
      using format_decimal_digits_hd [OF ds] by blast
    then have nc: "c \<noteq> cu CHR ''-''" using not_digit(3) by blast
    show ?thesis
    proof (cases "s < 0")
      case True
      then have "number_to_string x = cu CHR ''-'' # format_decimal ?ds e"
        by (simp add: number_to_string_def decimal_to_string_def x)
      then show ?thesis
        using fmt True by (auto simp: read_number_def x normalize_neg split: prod.splits)
    next
      case False
      then have "number_to_string x = format_decimal ?ds e"
        by (simp add: number_to_string_def decimal_to_string_def x)
      then show ?thesis
        using fmt False nc c(1) by (simp add: read_number_def x)
    qed
  qed
qed

lemma number_to_string_inj [simp]: "number_to_string x = number_to_string y \<longleftrightarrow> x = y"
  by (metis read_number_roundtrip num_decimal_inject)

text \<open>The characters of a printed number, and its first one.\<close>

definition is_number_char :: "code_unit \<Rightarrow> bool" where
  "is_number_char c \<longleftrightarrow> is_digit c \<or> c = cu CHR ''-'' \<or> c = cu CHR ''+'' \<or> c = cu CHR ''.'' \<or> c = cu CHR ''e''"

lemma list_all_digits_number: "list_all is_digit s \<Longrightarrow> list_all is_number_char s"
  by (auto simp: list_all_iff is_number_char_def)

lemma sign_digits_chars: "list_all is_number_char (sign_digits n)"
  using list_all_digits_number [OF dec_digits_digits]
  by (simp add: sign_digits_def is_number_char_def)

lemma format_decimal_chars:
  assumes "list_all is_digit ds"
  shows "list_all is_number_char (format_decimal ds e)"
proof -
  have ds: "list_all is_number_char ds" using assms by (rule list_all_digits_number)
  have z: "list_all is_number_char (replicate j (digit 0))" for j
    by (simp add: list_all_iff is_number_char_def)
  have c: "is_number_char (digit 0)" "is_number_char (cu CHR ''.'')" "is_number_char (cu CHR ''e'')"
    by (simp_all add: is_number_char_def)
  show ?thesis unfolding format_decimal_def Let_def by (simp add: ds z c sign_digits_chars)
qed

lemma number_to_string_chars: "list_all is_number_char (number_to_string x)"
  by (simp add: number_to_string_def decimal_to_string_def format_decimal_chars dec_digits_digits
      is_number_char_def)

lemma number_to_string_hd:
  "\<exists>c r. number_to_string x = c # r \<and> (is_digit c \<or> c = cu CHR ''-'')"
proof -
  have "\<exists>c r. format_decimal (dec_digits n) e = c # r \<and> is_digit c" for n e
    by (rule format_decimal_digits_hd [OF dec_digits_digits dec_digits_nonempty])
  then show ?thesis by (fastforce simp: number_to_string_def decimal_to_string_def)
qed

end
