(* ===== verification/JsObject.thy ===== *)
theory JsObject
  imports JsNumber
begin

text \<open>
  A JavaScript object used as a mapping: its own enumerable properties in the order
  \<open>Object.keys\<close> lists them, which is array-index keys in ascending order first and then the
  other keys in order of insertion. \<open>obj_set\<close> is \<open>setOwnKey\<close> of packages/yops/src/paths.ts
  (define an own data property), \<open>has_own\<close> is \<open>hasOwnKey\<close>. The locale \<open>keyed_store\<close> is what
  the components above rely on: lookup after an update and after a deletion.
\<close>

type_synonym 'v jobject = "(jstring \<times> 'v) list"

definition array_index :: "jstring \<Rightarrow> nat option" where
  "array_index s =
     (if s \<noteq> [] \<and> list_all is_digit s \<and> dec_digits (digits_value s) = s \<and> digits_value s < 4294967295
      then Some (digits_value s) else None)"

definition has_own :: "'v jobject \<Rightarrow> jstring \<Rightarrow> bool" where
  "has_own m k \<longleftrightarrow> map_of m k \<noteq> None"

fun insert_index_key :: "nat \<Rightarrow> jstring \<Rightarrow> 'v \<Rightarrow> 'v jobject \<Rightarrow> 'v jobject" where
  "insert_index_key n k v [] = [(k, v)]"
| "insert_index_key n k v ((k', v') # r) =
     (case array_index k' of
        Some n' \<Rightarrow> if n' < n then (k', v') # insert_index_key n k v r else (k, v) # (k', v') # r
      | None \<Rightarrow> (k, v) # (k', v') # r)"

definition obj_set :: "'v jobject \<Rightarrow> jstring \<Rightarrow> 'v \<Rightarrow> 'v jobject" where
  "obj_set m k v =
     (if has_own m k then map (\<lambda>(k', v'). (k', if k' = k then v else v')) m
      else (case array_index k of Some n \<Rightarrow> insert_index_key n k v m | None \<Rightarrow> m @ [(k, v)]))"

definition obj_delete :: "'v jobject \<Rightarrow> jstring \<Rightarrow> 'v jobject" where
  "obj_delete m k = filter (\<lambda>(k', v'). k' \<noteq> k) m"

text \<open>Setting the entries of a list one after the other, starting from the empty object.\<close>

definition obj_set_all :: "'v jobject \<Rightarrow> (jstring \<times> 'v) list \<Rightarrow> 'v jobject" where
  "obj_set_all m kvs = foldl (\<lambda>m (k, v). obj_set m k v) m kvs"

abbreviation obj_build :: "(jstring \<times> 'v) list \<Rightarrow> 'v jobject" where
  "obj_build kvs \<equiv> obj_set_all [] kvs"

section \<open>Property order\<close>

definition key_before :: "jstring \<Rightarrow> jstring \<Rightarrow> bool" where
  "key_before a b \<longleftrightarrow>
     a \<noteq> b \<and> (case array_index b of None \<Rightarrow> True
      | Some n \<Rightarrow> (case array_index a of None \<Rightarrow> False | Some m \<Rightarrow> m < n))"

definition wf_keys :: "jstring list \<Rightarrow> bool" where
  "wf_keys ks \<longleftrightarrow> sorted_wrt key_before ks"

abbreviation wf_object :: "'v jobject \<Rightarrow> bool" where
  "wf_object m \<equiv> wf_keys (map fst m)"

lemma wf_keys_distinct: "wf_keys ks \<Longrightarrow> distinct ks"
  unfolding wf_keys_def by (induction ks) (auto simp: key_before_def)

lemma wf_keys_Nil [simp]: "wf_keys []"
  by (simp add: wf_keys_def)

lemma wf_keys_filter: "wf_keys ks \<Longrightarrow> wf_keys (filter P ks)"
  unfolding wf_keys_def by (rule sorted_wrt_filter)

lemma array_index_inj: "array_index a = Some n \<Longrightarrow> array_index b = Some n \<Longrightarrow> a = b"
  unfolding array_index_def by (metis option.distinct(1) option.inject)

section \<open>Lookup laws\<close>

lemma has_own_iff: "has_own m k \<longleftrightarrow> k \<in> set (map fst m)"
  by (auto simp: has_own_def map_of_eq_None_iff)

lemma map_of_insert_index_key:
  "k \<notin> set (map fst m) \<Longrightarrow> map_of (insert_index_key n k v m) = (map_of m)(k \<mapsto> v)"
  by (induction n k v m rule: insert_index_key.induct) (auto split: option.splits simp: fun_upd_twist)

lemma map_of_obj_set [simp]: "map_of (obj_set m k v) = (map_of m)(k \<mapsto> v)"
proof (cases "has_own m k")
  case True
  have "map_of (map (\<lambda>(k', v'). (k', if k' = k then v else v')) m) k'
      = (if k' = k \<and> map_of m k \<noteq> None then Some v else map_of m k')" for k'
    by (induction m) auto
  with True show ?thesis by (auto simp: obj_set_def has_own_def fun_eq_iff)
next
  case False
  then have k: "k \<notin> set (map fst m)" by (simp add: has_own_iff)
  then have n: "map_of m k = None" by (simp add: map_of_eq_None_iff)
  show ?thesis
    using False k n by (auto simp: obj_set_def map_of_insert_index_key fun_eq_iff map_add_def
        split: option.splits)
qed

lemma map_of_obj_delete [simp]: "map_of (obj_delete m k) = (map_of m)(k := None)"
  by (auto simp: obj_delete_def map_of_filter_key [where P = "\<lambda>k'. k' \<noteq> k"] fun_eq_iff)

lemma set_insert_index_key:
  "set (map fst (insert_index_key n k v m)) = insert k (set (map fst m))"
  by (induction n k v m rule: insert_index_key.induct) (auto split: option.splits)

lemma keys_obj_set: "set (map fst (obj_set m k v)) = insert k (set (map fst m))"
  by (metis (no_types) dom_fun_upd dom_map_of_conv_image_fst image_set map_of_obj_set option.distinct(1))

lemma wf_insert_index_key:
  assumes "wf_object m" and "k \<notin> set (map fst m)" and "array_index k = Some n"
  shows "wf_object (insert_index_key n k v m)"
  using assms
proof (induction n k v m rule: insert_index_key.induct)
  case (2 n k v k' v' r)
  have neq: "n' \<noteq> n" if "array_index k' = Some n'" for n'
    using that 2 array_index_inj [of k n k'] by auto
  show ?case
  proof (cases "\<exists>n'. array_index k' = Some n' \<and> n' < n")
    case True
    then obtain n' where n': "array_index k' = Some n'" "n' < n" by blast
    have "wf_object (insert_index_key n k v r)"
      using 2 n' by (simp add: wf_keys_def)
    moreover have "key_before k' x" if "x \<in> set (map fst (insert_index_key n k v r))" for x
    proof (cases "x = k")
      case True
      then show ?thesis using 2(3,4) n' by (auto simp: key_before_def)
    next
      case False
      then have "x \<in> set (map fst r)" using that set_insert_index_key [of n k v r] by auto
      then show ?thesis using 2(2) by (auto simp: wf_keys_def)
    qed
    ultimately show ?thesis using n' by (simp add: wf_keys_def)
  next
    case False
    then have i: "insert_index_key n k v ((k', v') # r) = (k, v) # (k', v') # r"
      by (auto split: option.splits)
    have kk: "key_before k k'"
      using False neq 2 by (auto simp: key_before_def split: option.splits)
    have "key_before k x" if "x \<in> set (map fst r)" for x
    proof -
      have "key_before k' x" using that 2(2) by (auto simp: wf_keys_def)
      then show ?thesis
        using kk 2(3) that 2(4) by (auto simp: key_before_def split: option.splits)
    qed
    with kk 2 show ?thesis unfolding i by (simp add: wf_keys_def)
  qed
qed (simp add: wf_keys_def)

lemma wf_obj_set [wf_intros]:
  assumes "wf_object m" shows "wf_object (obj_set m k v)"
proof (cases "has_own m k")
  case True
  then have "map fst (obj_set m k v) = map fst m"
    by (auto simp: obj_set_def)
  with assms show ?thesis by simp
next
  case False
  then have k: "k \<notin> set (map fst m)" by (simp add: has_own_iff)
  show ?thesis
  proof (cases "array_index k")
    case None
    have "sorted_wrt key_before (map fst m @ [k])"
      using assms None k by (auto simp: wf_keys_def sorted_wrt_append key_before_def)
    with None False show ?thesis by (simp add: obj_set_def wf_keys_def)
  next
    case (Some n)
    with False assms k show ?thesis by (simp add: obj_set_def wf_insert_index_key)
  qed
qed

lemma wf_obj_delete [wf_intros]: "wf_object m \<Longrightarrow> wf_object (obj_delete m k)"
proof -
  have "map fst (obj_delete m k) = filter (\<lambda>k'. k' \<noteq> k) (map fst m)"
    by (induction m) (auto simp: obj_delete_def)
  then show "wf_object m \<Longrightarrow> wf_object (obj_delete m k)" by (simp add: wf_keys_filter)
qed

section \<open>The interface of a keyed store\<close>

locale keyed_store =
  fixes get :: "'m \<Rightarrow> 'k \<Rightarrow> 'v option"
    and put :: "'m \<Rightarrow> 'k \<Rightarrow> 'v \<Rightarrow> 'm"
    and del :: "'m \<Rightarrow> 'k \<Rightarrow> 'm"
    and inv :: "'m \<Rightarrow> bool"
  assumes get_put: "get (put m k v) k' = (if k' = k then Some v else get m k')"
    and get_del: "get (del m k) k' = (if k' = k then None else get m k')"
    and inv_put: "inv m \<Longrightarrow> inv (put m k v)"
    and inv_del: "inv m \<Longrightarrow> inv (del m k)"
begin

lemma inv_put_all: "inv m \<Longrightarrow> inv (foldl (\<lambda>m (k, v). put m k v) m kvs)"
  by (induction kvs arbitrary: m) (auto intro: inv_put)

lemma inv_del_all: "inv m \<Longrightarrow> inv (foldl del m ks)"
  by (induction ks arbitrary: m) (auto intro: inv_del)

lemma get_put_all:
  "get (foldl (\<lambda>m (k, v). put m k v) m kvs) k =
     (case map_of (rev kvs) k of Some v \<Rightarrow> Some v | None \<Rightarrow> get m k)"
proof (induction kvs arbitrary: m)
  case (Cons kv kvs)
  obtain a b where "kv = (a, b)" by fastforce
  then show ?case
    using Cons by (auto simp: get_put map_add_def split: option.splits)
qed simp

lemma get_del_all: "get (foldl del m ks) k = (if k \<in> set ks then None else get m k)"
  by (induction ks arbitrary: m) (auto simp: get_del)

end

interpretation obj: keyed_store map_of obj_set obj_delete wf_object
  by unfold_locales (auto intro: wf_obj_set wf_obj_delete)

lemma wf_obj_set_all [wf_intros]: "wf_object m \<Longrightarrow> wf_object (obj_set_all m kvs)"
  unfolding obj_set_all_def by (rule obj.inv_put_all)

lemma map_of_obj_set_all:
  "map_of (obj_set_all m kvs) k = (case map_of (rev kvs) k of Some v \<Rightarrow> Some v | None \<Rightarrow> map_of m k)"
  unfolding obj_set_all_def by (rule obj.get_put_all)

section \<open>Rebuilding an object from its entries\<close>

lemma obj_set_last:
  assumes "wf_keys (map fst m @ [k])"
  shows "obj_set m k v = m @ [(k, v)]"
proof -
  have k: "k \<notin> set (map fst m)" using wf_keys_distinct [OF assms] by simp
  have "insert_index_key n k v m = m @ [(k, v)]" if "array_index k = Some n" for n
    using assms that unfolding wf_keys_def
    by (induction n k v m rule: insert_index_key.induct) (auto simp: key_before_def split: option.splits)
  with k show ?thesis by (auto simp: obj_set_def has_own_iff split: option.splits)
qed

lemma obj_build_wf: "wf_object m \<Longrightarrow> obj_build m = m"
proof (induction m rule: rev_induct)
  case (snoc kv m)
  obtain k v where [simp]: "kv = (k, v)" by fastforce
  have "wf_object m" using snoc.prems by (simp add: wf_keys_def sorted_wrt_append)
  with snoc have "obj_build (m @ [kv]) = obj_set m k v" by (simp add: obj_set_all_def)
  also have "\<dots> = m @ [kv]" using snoc.prems obj_set_last [of m k v] by simp
  finally show ?case .
qed (simp add: obj_set_all_def)

text \<open>A key that starts with no digit is no array index.\<close>

lemma alpha_index: "\<not> is_digit (cu c) \<Longrightarrow> array_index (u (c # s)) = None"
  by (simp add: array_index_def u_Cons)

end
