(* ===== verification/YValue.thy ===== *)
theory YValue
  imports JsObject
begin

text \<open>
  The YOPS document model of packages/yops/src/types.ts (\<open>YValue\<close>), its well-formedness
  invariant (every mapping is a well-formed object, see \<open>JsObject\<close>), and the recursive copies
  of the code: \<open>deepClone\<close> of packages/yops/src/paths.ts and the platform's structuredClone
  that packages/yops/src/recipes.ts calls. On well-formed values both are the identity, which is
  what lets the later theories treat a copied document as the document.
\<close>

datatype yvalue =
    YNull
  | YBool bool
  | YNum jsnum
  | YStr jstring
  | YSeq "yvalue list"
  | YMap "(jstring \<times> yvalue) list"

lemma yvalue_induct [case_names Null Bool Num Str Seq Map]:
  assumes "P YNull" "\<And>b. P (YBool b)" "\<And>n. P (YNum n)" "\<And>s. P (YStr s)"
    and "\<And>xs. (\<And>x. x \<in> set xs \<Longrightarrow> P x) \<Longrightarrow> P (YSeq xs)"
    and "\<And>kvs. (\<And>k v. (k, v) \<in> set kvs \<Longrightarrow> P v) \<Longrightarrow> P (YMap kvs)"
  shows "P v"
  by (induction v) (use assms in \<open>auto simp: snds.simps\<close>)

primrec wf_yvalue :: "yvalue \<Rightarrow> bool" where
  "wf_yvalue YNull = True"
| "wf_yvalue (YBool b) = True"
| "wf_yvalue (YNum n) = True"
| "wf_yvalue (YStr s) = True"
| "wf_yvalue (YSeq xs) = list_all wf_yvalue xs"
| "wf_yvalue (YMap kvs) =
     (wf_object kvs \<and> list_all (pred_prod (\<lambda>_. True) wf_yvalue) kvs)"

abbreviation wf_entries :: "(jstring \<times> yvalue) list \<Rightarrow> bool" where
  "wf_entries kvs \<equiv> list_all (pred_prod (\<lambda>_. True) wf_yvalue) kvs"

lemma wf_entries_iff: "wf_entries kvs \<longleftrightarrow> (\<forall>k v. (k, v) \<in> set kvs \<longrightarrow> wf_yvalue v)"
  by (auto simp: list_all_iff pred_prod_beta)

lemma wf_entries_lookup: "wf_entries kvs \<Longrightarrow> map_of kvs k = Some v \<Longrightarrow> wf_yvalue v"
  by (auto simp: wf_entries_iff dest: map_of_SomeD)

lemma wf_map_lookup: "wf_yvalue (YMap kvs) \<Longrightarrow> map_of kvs k = Some v \<Longrightarrow> wf_yvalue v"
  by (auto dest: wf_entries_lookup)

lemma wf_seq_nth: "wf_yvalue (YSeq xs) \<Longrightarrow> i < length xs \<Longrightarrow> wf_yvalue (xs ! i)"
  by (simp add: list_all_length)

subsection \<open>Building well-formed mappings\<close>

lemma entries_insert_index_key:
  "set (insert_index_key n k v m) = insert (k, v) (set m)"
  by (induction n k v m rule: insert_index_key.induct) (auto split: option.splits)

lemma entries_obj_set: "set (obj_set m k v) \<subseteq> insert (k, v) (set m)"
  by (auto simp: obj_set_def entries_insert_index_key split: option.splits if_splits)

lemma wf_entries_obj_set [wf_intros]:
  "wf_entries m \<Longrightarrow> wf_yvalue v \<Longrightarrow> wf_entries (obj_set m k v)"
  using entries_obj_set [of m k v] by (fastforce simp: wf_entries_iff)

lemma wf_entries_obj_delete [wf_intros]: "wf_entries m \<Longrightarrow> wf_entries (obj_delete m k)"
  by (auto simp: wf_entries_iff obj_delete_def)

lemma wf_entries_obj_set_all [wf_intros]:
  "wf_entries m \<Longrightarrow> wf_entries kvs \<Longrightarrow> wf_entries (obj_set_all m kvs)"
  unfolding obj_set_all_def
proof (induction kvs arbitrary: m)
  case (Cons kv kvs)
  obtain k v where [simp]: "kv = (k, v)" by fastforce
  have "wf_entries (obj_set m k v)" using Cons.prems by (intro wf_entries_obj_set) simp_all
  then show ?case using Cons by simp
qed simp

lemma wf_map_obj_set [wf_intros]:
  "wf_yvalue (YMap m) \<Longrightarrow> wf_yvalue v \<Longrightarrow> wf_yvalue (YMap (obj_set m k v))"
  by (simp add: wf_obj_set wf_entries_obj_set)

lemma wf_map_obj_delete [wf_intros]: "wf_yvalue (YMap m) \<Longrightarrow> wf_yvalue (YMap (obj_delete m k))"
  by (simp add: wf_obj_delete wf_entries_obj_delete)

lemma wf_map_obj_build [wf_intros]: "wf_entries kvs \<Longrightarrow> wf_yvalue (YMap (obj_build kvs))"
  by (simp add: wf_obj_set_all wf_entries_obj_set_all)

subsection \<open>Recursive copies\<close>

primrec deepClone :: "yvalue \<Rightarrow> yvalue" where
  "deepClone YNull = YNull"
| "deepClone (YBool b) = YBool b"
| "deepClone (YNum n) = YNum n"
| "deepClone (YStr s) = YStr s"
| "deepClone (YSeq xs) = YSeq (map deepClone xs)"
| "deepClone (YMap kvs) = YMap (obj_build (map (map_prod id deepClone) kvs))"

lemma deepClone_id: "wf_yvalue v \<Longrightarrow> deepClone v = v"
proof (induction v rule: yvalue_induct)
  case (Seq xs)
  then show ?case by (simp add: list_all_iff map_idI)
next
  case (Map kvs)
  have "map (map_prod id deepClone) kvs = kvs"
    using Map by (intro map_idI) (auto simp: wf_entries_iff)
  with Map.prems show ?case by (simp add: obj_build_wf)
qed simp_all

lemma deepClone_wf: "wf_yvalue (deepClone v)"
proof (induction v rule: yvalue_induct)
  case (Map kvs)
  then have "wf_entries (map (map_prod id deepClone) kvs)" by (auto simp: wf_entries_iff)
  then show ?case using wf_map_obj_build [of "map (map_prod id deepClone) kvs"] by simp
qed (auto simp: list_all_iff)

text \<open>
  structuredClone of a YValue: the platform copies the own enumerable properties of each object
  in their order into a fresh object, which is the same recursion.
\<close>

definition cloneYValue :: "yvalue \<Rightarrow> yvalue" where
  "cloneYValue v = deepClone v"

lemma cloneYValue_id [simp]: "wf_yvalue v \<Longrightarrow> cloneYValue v = v"
  by (simp add: cloneYValue_def deepClone_id)

end
