(* ===== verification/Paths.thy ===== *)
theory Paths
  imports YValue
begin

text \<open>
  packages/yops/src/paths.ts: the path grammar (\<open>tryParsePath\<close>, the permissive \<open>parsePath\<close>) and
  the three operations on documents that every handler is made of: \<open>resolvePathSegments\<close>,
  \<open>setAtPathSegments\<close> (which throws, so its result is a sum) and \<open>deleteAtPathSegments\<close> (which
  returns false, so its result is an option). A scan position of the source is the rest of the
  text from that position together with its offset. An array index is a natural number: digits
  beyond the safe integer range are refused by the strict parser, and in the permissive one the
  rounded value and the exact one are both past the end of every array.
\<close>

abbreviation slash :: code_unit where "slash \<equiv> cu CHR ''/''"
abbreviation dquote :: code_unit where "dquote \<equiv> cu CHR 0x22"
abbreviation bslash :: code_unit where "bslash \<equiv> cu CHR 0x5C"
abbreviation lbracket :: code_unit where "lbracket \<equiv> cu CHR ''[''"
abbreviation rbracket :: code_unit where "rbracket \<equiv> cu CHR '']''"
abbreviation equals_sign :: code_unit where "equals_sign \<equiv> cu CHR ''=''"

section \<open>Segments\<close>

datatype path_segment =
    SegKey jstring
  | SegIndex nat
  | SegMatch jstring jstring

datatype path_error_code =
    UNCLOSED_QUOTE
  | INVALID_ESCAPE
  | INVALID_INDEX_SYNTAX
  | INVALID_MATCH_SYNTAX
  | INDEX_OUT_OF_RANGE

type_synonym path_error = "path_error_code \<times> nat"

text \<open>The two regular expressions, with the groups they capture.\<close>

definition index_regex :: "jstring \<Rightarrow> jstring option" where
  "index_regex raw = (case raw of [] \<Rightarrow> None | c # r \<Rightarrow>
     if c = lbracket \<and> r \<noteq> [] \<and> last r = rbracket \<and> butlast r \<noteq> [] \<and> list_all is_digit (butlast r)
     then Some (butlast r) else None)"

definition match_regex :: "jstring \<Rightarrow> (jstring \<times> jstring) option" where
  "match_regex raw = (case raw of [] \<Rightarrow> None | c # r \<Rightarrow>
     (let key = takeWhile (\<lambda>c. c \<noteq> equals_sign \<and> c \<noteq> rbracket) r;
          rest = dropWhile (\<lambda>c. c \<noteq> equals_sign \<and> c \<noteq> rbracket) r
      in if c = lbracket \<and> key \<noteq> [] \<and> rest \<noteq> [] \<and> hd rest = equals_sign \<and> tl rest \<noteq> []
            \<and> last rest = rbracket \<and> list_all (\<lambda>c. c \<noteq> rbracket) (butlast (tl rest))
         then Some (key, butlast (tl rest)) else None))"

definition classifyRawSegment :: "jstring \<Rightarrow> path_segment" where
  "classifyRawSegment raw =
     (case index_regex raw of Some ds \<Rightarrow> SegIndex (digits_value ds)
      | None \<Rightarrow> (case match_regex raw of Some (k, v) \<Rightarrow> SegMatch k v
                | None \<Rightarrow> SegKey raw))"

definition MAX_SAFE_INTEGER :: nat where
  "MAX_SAFE_INTEGER = 9007199254740991"

definition classifyStrictRawSegment :: "jstring \<Rightarrow> nat \<Rightarrow> path_error + path_segment" where
  "classifyStrictRawSegment raw offset =
     (if raw \<noteq> [] \<and> hd raw = lbracket
      then (case index_regex raw of
              Some ds \<Rightarrow> if digits_value ds > MAX_SAFE_INTEGER then Inl (INDEX_OUT_OF_RANGE, offset)
                         else Inr (SegIndex (digits_value ds))
            | None \<Rightarrow> (case match_regex raw of
                Some (k, v) \<Rightarrow> Inr (SegMatch k v)
              | None \<Rightarrow> Inl (if equals_sign \<in> set raw then INVALID_MATCH_SYNTAX else INVALID_INDEX_SYNTAX,
                            offset)))
      else Inr (SegKey raw))"

section \<open>tryParsePath\<close>

text \<open>The scan of a quoted segment: from after the opening quote at \<open>start\<close>, at offset \<open>i\<close>.\<close>

fun read_quoted :: "nat \<Rightarrow> nat \<Rightarrow> jstring \<Rightarrow> jstring \<Rightarrow> path_error + (jstring \<times> nat \<times> jstring)" where
  "read_quoted start i [] value = Inl (UNCLOSED_QUOTE, start)"
| "read_quoted start i [c] value =
     (if c = bslash then Inl (INVALID_ESCAPE, i)
      else if c = dquote then Inr (value, i + 1, [])
      else Inl (UNCLOSED_QUOTE, start))"
| "read_quoted start i (c # d # r) value =
     (if c = bslash
      then (if d = dquote \<or> d = bslash then read_quoted start (i + 2) r (value @ [d])
            else Inl (INVALID_ESCAPE, i))
      else if c = dquote then Inr (value, i + 1, d # r)
      else read_quoted start (i + 1) (d # r) (value @ [c]))"

text \<open>One segment, quoted or plain: the segment, the offset after it and the rest of the text.\<close>

definition read_segment :: "nat \<Rightarrow> jstring \<Rightarrow> path_error + (path_segment \<times> nat \<times> jstring)" where
  "read_segment i s =
     (if hd s = dquote
      then (case read_quoted i (i + 1) (tl s) [] of
              Inl e \<Rightarrow> Inl e
            | Inr (value, j, r) \<Rightarrow> Inr (SegKey value, j, r))
      else (let raw = takeWhile (\<lambda>c. c \<noteq> slash) s in
            case classifyStrictRawSegment raw i of
              Inl e \<Rightarrow> Inl e
            | Inr seg \<Rightarrow> Inr (seg, i + length raw, dropWhile (\<lambda>c. c \<noteq> slash) s)))"

lemma read_quoted_length: "read_quoted start i s acc = Inr (v, j, r) \<Longrightarrow> length r < length s"
  by (induction start i s acc rule: read_quoted.induct) (auto split: if_splits)

lemma read_segment_length:
  "read_segment i s = Inr (seg, j, r) \<Longrightarrow> s \<noteq> [] \<Longrightarrow> length r \<le> length s"
  by (cases s) (auto simp: read_segment_def Let_def length_dropWhile_le le_SucI
      dest: read_quoted_length split: if_splits sum.splits)

lemma drop1_dropWhile_less:
  "xs \<noteq> [] \<Longrightarrow> length xs \<le> n \<Longrightarrow> length (dropWhile P xs) - Suc 0 < n"
  using length_dropWhile_le [of P xs] by (cases xs) auto

text \<open>
  The main loop at offset \<open>i\<close>. Text that goes on directly after a segment (after a closing
  quote) is appended to it; then a slash is skipped if there is one, and the loop goes on. At the
  end of the text the loop pushes an empty key.
\<close>

function parse_loop :: "nat \<Rightarrow> jstring \<Rightarrow> path_segment list \<Rightarrow> path_error + path_segment list" where
  "parse_loop i s segments =
     (if s = [] then Inr (segments @ [SegKey []])
      else case read_segment i s of
        Inl e \<Rightarrow> Inl e
      | Inr (seg, j, rest) \<Rightarrow>
          (if rest = [] then Inr (segments @ [seg])
           else let trailing = takeWhile (\<lambda>c. c \<noteq> slash) rest;
                    rest' = dropWhile (\<lambda>c. c \<noteq> slash) rest;
                    seg' = (if hd rest \<noteq> slash
                            then (case seg of SegKey v \<Rightarrow> SegKey (v @ trailing) | _ \<Rightarrow> SegKey trailing)
                            else seg);
                    j' = j + length trailing + (if rest' \<noteq> [] then 1 else 0)
                in parse_loop j' (drop 1 rest') (segments @ [seg'])))"
  by pat_completeness auto
termination
  by (relation "measure (\<lambda>(i, s, segments). length s)")
     (auto dest!: read_segment_length intro!: drop1_dropWhile_less)

declare parse_loop.simps [simp del]

definition tryParsePath :: "jstring \<Rightarrow> path_error + path_segment list" where
  "tryParsePath path = (if path = [] then Inr [] else parse_loop 0 path [])"

text \<open>\<open>path.split('/')\<close>.\<close>

fun split_slash :: "jstring \<Rightarrow> jstring list" where
  "split_slash [] = [[]]"
| "split_slash (c # r) =
     (if c = slash then [] # split_slash r
      else (case split_slash r of [] \<Rightarrow> [[c]] | x # xs \<Rightarrow> (c # x) # xs))"

definition parsePath :: "jstring \<Rightarrow> path_segment list" where
  "parsePath path =
     (case tryParsePath path of
        Inr segments \<Rightarrow> segments
      | Inl _ \<Rightarrow> if path = [] then [] else map classifyRawSegment (split_slash path))"

section \<open>Matching an array item\<close>

definition matchEquals :: "yvalue \<Rightarrow> jstring \<Rightarrow> bool" where
  "matchEquals actual expected =
     (case actual of
        YStr s \<Rightarrow> s = expected
      | YNum n \<Rightarrow> number_to_string n = expected
      | YBool b \<Rightarrow> (if b then u ''true'' else u ''false'') = expected
      | _ \<Rightarrow> False)"

definition itemMatchesSeg :: "jstring \<Rightarrow> jstring \<Rightarrow> yvalue \<Rightarrow> bool" where
  "itemMatchesSeg key value item =
     (case item of
        YMap m \<Rightarrow> (case map_of m key of Some v \<Rightarrow> matchEquals v value | None \<Rightarrow> False)
      | _ \<Rightarrow> False)"

text \<open>\<open>Array.prototype.findIndex\<close>, \<open>None\<close> for -1.\<close>

fun find_index :: "('a \<Rightarrow> bool) \<Rightarrow> 'a list \<Rightarrow> nat option" where
  "find_index P [] = None"
| "find_index P (x # xs) = (if P x then Some 0 else map_option Suc (find_index P xs))"

lemma find_index_Some: "find_index P xs = Some i \<Longrightarrow> i < length xs \<and> P (xs ! i) \<and> (\<forall>j < i. \<not> P (xs ! j))"
  by (induction xs arbitrary: i) (auto split: if_splits simp: less_Suc_eq_0_disj nth_Cons')

lemma find_index_None: "find_index P xs = None \<longleftrightarrow> (\<forall>x \<in> set xs. \<not> P x)"
  by (induction xs) auto

section \<open>resolvePathSegments\<close>

fun resolvePathSegments :: "yvalue \<Rightarrow> path_segment list \<Rightarrow> yvalue option" where
  "resolvePathSegments current [] = Some current"
| "resolvePathSegments current (SegKey k # segs) =
     (case current of
        YMap m \<Rightarrow> (case map_of m k of Some v \<Rightarrow> resolvePathSegments v segs | None \<Rightarrow> None)
      | _ \<Rightarrow> None)"
| "resolvePathSegments current (SegIndex i # segs) =
     (case current of
        YSeq xs \<Rightarrow> if i < length xs then resolvePathSegments (xs ! i) segs else None
      | _ \<Rightarrow> None)"
| "resolvePathSegments current (SegMatch k v # segs) =
     (case current of
        YSeq xs \<Rightarrow> (case find_index (itemMatchesSeg k v) xs of
                      Some i \<Rightarrow> resolvePathSegments (xs ! i) segs | None \<Rightarrow> None)
      | _ \<Rightarrow> None)"

definition resolvePath :: "yvalue \<Rightarrow> jstring \<Rightarrow> yvalue option" where
  "resolvePath doc path = resolvePathSegments doc (parsePath path)"

section \<open>setAtPathSegments\<close>

datatype set_error =
    KeyOnNonMapping jstring
  | NonMappingIntermediate jstring
  | IndexOnNonArray nat
  | IndexOutOfBounds nat nat
  | MatchOnNonArray
  | NoMatchingItem jstring jstring

fun is_object_or_array :: "yvalue \<Rightarrow> bool" where
  "is_object_or_array (YSeq _) = True"
| "is_object_or_array (YMap _) = True"
| "is_object_or_array _ = False"

definition map_sum_right :: "('a \<Rightarrow> 'b) \<Rightarrow> 'e + 'a \<Rightarrow> 'e + 'b" where
  "map_sum_right f r = (case r of Inl e \<Rightarrow> Inl e | Inr x \<Rightarrow> Inr (f x))"

lemma map_sum_right_simps [simp]:
  "map_sum_right f (Inl e) = Inl e" "map_sum_right f (Inr x) = Inr (f x)"
  "map_sum_right f r = Inr y \<longleftrightarrow> (\<exists>x. r = Inr x \<and> y = f x)"
  "map_sum_right f r = Inl e \<longleftrightarrow> r = Inl e"
  by (auto simp: map_sum_right_def split: sum.splits)

text \<open>
  \<open>_setRecursive\<close>: the mutation of the node \<open>current\<close> is the returned node; \<open>isLast\<close> is that
  no segment is left. The function is never called without a segment; the first equation is the
  last segment's assignment of the copied value.
\<close>

fun setRecursive :: "yvalue \<Rightarrow> path_segment list \<Rightarrow> yvalue \<Rightarrow> set_error + yvalue" where
  "setRecursive current [] value = Inr (deepClone value)"
| "setRecursive current (SegKey k # segs) value =
     (case current of
        YMap m \<Rightarrow>
          if segs = [] then Inr (YMap (obj_set m k (deepClone value)))
          else (case map_of m k of
                  None \<Rightarrow> map_sum_right (\<lambda>v. YMap (obj_set m k v)) (setRecursive (YMap []) segs value)
                | Some child \<Rightarrow>
                    if is_object_or_array child
                    then map_sum_right (\<lambda>v. YMap (obj_set m k v)) (setRecursive child segs value)
                    else Inl (NonMappingIntermediate k))
      | _ \<Rightarrow> Inl (KeyOnNonMapping k))"
| "setRecursive current (SegIndex i # segs) value =
     (case current of
        YSeq xs \<Rightarrow>
          if MAX_SAFE_INTEGER < i \<or> length xs \<le> i then Inl (IndexOutOfBounds i (length xs))
          else if segs = [] then Inr (YSeq (xs[i := deepClone value]))
          else map_sum_right (\<lambda>v. YSeq (xs[i := v])) (setRecursive (xs ! i) segs value)
      | _ \<Rightarrow> Inl (IndexOnNonArray i))"
| "setRecursive current (SegMatch k v # segs) value =
     (case current of
        YSeq xs \<Rightarrow>
          (case find_index (itemMatchesSeg k v) xs of
             None \<Rightarrow> Inl (NoMatchingItem k v)
           | Some i \<Rightarrow>
               if segs = [] then Inr (YSeq (xs[i := deepClone value]))
               else map_sum_right (\<lambda>v. YSeq (xs[i := v])) (setRecursive (xs ! i) segs value))
      | _ \<Rightarrow> Inl MatchOnNonArray)"

definition setAtPathSegments :: "yvalue \<Rightarrow> path_segment list \<Rightarrow> yvalue \<Rightarrow> set_error + yvalue" where
  "setAtPathSegments doc segs value =
     (if segs = [] then Inr (deepClone value) else setRecursive (deepClone doc) segs value)"

definition setAtPath :: "yvalue \<Rightarrow> jstring \<Rightarrow> yvalue \<Rightarrow> set_error + yvalue" where
  "setAtPath doc path value = setAtPathSegments doc (parsePath path) value"

section \<open>deleteAtPathSegments\<close>

definition splice1 :: "nat \<Rightarrow> 'a list \<Rightarrow> 'a list" where
  "splice1 i xs = take i xs @ drop (Suc i) xs"

fun deleteRecursive :: "yvalue \<Rightarrow> path_segment list \<Rightarrow> yvalue option" where
  "deleteRecursive current [] = None"
| "deleteRecursive current (SegKey k # segs) =
     (case current of
        YMap m \<Rightarrow>
          (case map_of m k of
             None \<Rightarrow> None
           | Some child \<Rightarrow>
               if segs = [] then Some (YMap (obj_delete m k))
               else map_option (\<lambda>v. YMap (obj_set m k v)) (deleteRecursive child segs))
      | _ \<Rightarrow> None)"
| "deleteRecursive current (SegIndex i # segs) =
     (case current of
        YSeq xs \<Rightarrow>
          if length xs \<le> i then None
          else if segs = [] then Some (YSeq (splice1 i xs))
          else map_option (\<lambda>v. YSeq (xs[i := v])) (deleteRecursive (xs ! i) segs)
      | _ \<Rightarrow> None)"
| "deleteRecursive current (SegMatch k v # segs) =
     (case current of
        YSeq xs \<Rightarrow>
          (case find_index (itemMatchesSeg k v) xs of
             None \<Rightarrow> None
           | Some i \<Rightarrow>
               if segs = [] then Some (YSeq (splice1 i xs))
               else map_option (\<lambda>v. YSeq (xs[i := v])) (deleteRecursive (xs ! i) segs))
      | _ \<Rightarrow> None)"

definition deleteAtPathSegments :: "yvalue \<Rightarrow> path_segment list \<Rightarrow> yvalue option" where
  "deleteAtPathSegments doc segs =
     (if segs = [] then None
      else if resolvePathSegments doc segs = None then None
      else deleteRecursive (deepClone doc) segs)"

definition deleteAtPath :: "yvalue \<Rightarrow> jstring \<Rightarrow> yvalue option" where
  "deleteAtPath doc path = deleteAtPathSegments doc (parsePath path)"

end
