(* ===== verification/JsSort.thy ===== *)
theory JsSort
  imports Prelude
begin

text \<open>
  \<open>Array.prototype.sort\<close> with a comparator: the language promises a stable sort whenever the
  comparator is consistent. \<open>js_sort\<close> is a stable insertion sort, and the locale
  \<open>js_comparator\<close> is the contract of a consistent comparator: under it the result is sorted, a
  permutation, stable, and the only list with these three properties, so nothing depends on the
  algorithm an engine uses.
\<close>

fun js_insert :: "('a \<Rightarrow> 'a \<Rightarrow> int) \<Rightarrow> 'a \<Rightarrow> 'a list \<Rightarrow> 'a list" where
  "js_insert cmp x [] = [x]"
| "js_insert cmp x (y # ys) = (if cmp x y \<le> 0 then x # y # ys else y # js_insert cmp x ys)"

definition js_sort :: "('a \<Rightarrow> 'a \<Rightarrow> int) \<Rightarrow> 'a list \<Rightarrow> 'a list" where
  "js_sort cmp xs = foldr (js_insert cmp) xs []"

lemma js_sort_Nil [simp]: "js_sort cmp [] = []"
  and js_sort_Cons [simp]: "js_sort cmp (x # xs) = js_insert cmp x (js_sort cmp xs)"
  by (simp_all add: js_sort_def)

lemma mset_js_insert [simp]: "mset (js_insert cmp x ys) = add_mset x (mset ys)"
  by (induction ys) auto

lemma mset_js_sort [simp]: "mset (js_sort cmp xs) = mset xs"
  by (induction xs) auto

lemma set_js_insert [simp]: "set (js_insert cmp x ys) = insert x (set ys)"
  by (induction ys) auto

lemma set_js_sort [simp]: "set (js_sort cmp xs) = set xs"
  by (induction xs) auto

lemma length_js_sort [simp]: "length (js_sort cmp xs) = length xs"
  by (metis mset_js_sort size_mset)

lemma distinct_js_sort [simp]: "distinct (js_sort cmp xs) = distinct xs"
  by (metis mset_eq_imp_distinct_iff mset_js_sort)

text \<open>Comparators that agree on related elements sort related lists into related lists.\<close>

lemma js_insert_rel:
  assumes "list_all2 R xs ys" and "R x y"
    and "\<And>a b a' b'. a \<in> insert x (set xs) \<Longrightarrow> a' \<in> insert x (set xs) \<Longrightarrow> R a b \<Longrightarrow> R a' b' \<Longrightarrow> cmp a a' = cmp' b b'"
  shows "list_all2 R (js_insert cmp x xs) (js_insert cmp' y ys)"
  using assms by (induction xs ys rule: list_all2_induct) auto

lemma js_sort_rel:
  assumes "list_all2 R xs ys"
    and "\<And>a b a' b'. a \<in> set xs \<Longrightarrow> a' \<in> set xs \<Longrightarrow> R a b \<Longrightarrow> R a' b' \<Longrightarrow> cmp a a' = cmp' b b'"
  shows "list_all2 R (js_sort cmp xs) (js_sort cmp' ys)"
  using assms
proof (induction xs ys rule: list_all2_induct)
  case (Cons x xs y ys)
  then have "list_all2 R (js_sort cmp xs) (js_sort cmp' ys)" by auto
  then show ?case
    unfolding js_sort_Cons using Cons.hyps(1)
    by (rule js_insert_rel) (rule Cons.prems, auto)
qed simp

lemma js_sort_map: "js_sort cmp (map f xs) = map f (js_sort (\<lambda>a b. cmp (f a) (f b)) xs)"
proof -
  have "list_all2 (\<lambda>a b. a = f b) (js_sort cmp (map f xs)) (js_sort (\<lambda>a b. cmp (f a) (f b)) xs)"
    by (rule js_sort_rel) (auto simp: list_all2_conv_all_nth)
  then show ?thesis by (auto simp: list_all2_conv_all_nth intro!: nth_equalityI)
qed

lemma filter_eq_replicate: "filter (\<lambda>b. a = b) xs = replicate (count (mset xs) a) a"
  by (induction xs) auto

section \<open>The contract of a consistent comparator\<close>

locale js_comparator =
  fixes cmp :: "'a \<Rightarrow> 'a \<Rightarrow> int"
  assumes flip: "cmp y x \<le> 0 \<longleftrightarrow> 0 \<le> cmp x y"
    and trans: "cmp x y \<le> 0 \<Longrightarrow> cmp y z \<le> 0 \<Longrightarrow> cmp x z \<le> 0"
begin

lemma refl: "cmp x x = 0"
  using flip [of x x] by linarith

lemma equiv_iff: "cmp x y = 0 \<longleftrightarrow> cmp x y \<le> 0 \<and> cmp y x \<le> 0"
  using flip [of x y] flip [of y x] by auto

lemma equiv_sym: "cmp x y = 0 \<Longrightarrow> cmp y x = 0"
  by (simp add: equiv_iff)

lemma equiv_trans: "cmp x y = 0 \<Longrightarrow> cmp y z = 0 \<Longrightarrow> cmp x z = 0"
  unfolding equiv_iff by (blast intro: trans)

lemma keyed: "js_comparator (\<lambda>a b. cmp (f a) (f b))"
  by unfold_locales (rule flip, erule (1) trans)

lemma reversed: "js_comparator (\<lambda>a b. - cmp a b)"
proof
  fix x y z
  show "- cmp y x \<le> 0 \<longleftrightarrow> 0 \<le> - cmp x y" using flip [of x y] by linarith
  assume "- cmp x y \<le> 0" and "- cmp y z \<le> 0"
  then have "cmp z y \<le> 0" and "cmp y x \<le> 0" by (simp_all add: flip)
  then have "cmp z x \<le> 0" by (rule trans)
  then show "- cmp x z \<le> 0" by (simp add: flip)
qed

lemma sorted_insert:
  "sorted_wrt (\<lambda>a b. cmp a b \<le> 0) ys \<Longrightarrow> sorted_wrt (\<lambda>a b. cmp a b \<le> 0) (js_insert cmp x ys)"
proof (induction ys)
  case (Cons y ys)
  show ?case
  proof (cases "cmp x y \<le> 0")
    case True
    with Cons.prems show ?thesis by (auto intro: trans)
  next
    case False
    then have "cmp y x \<le> 0" using flip [of x y] by linarith
    with False Cons show ?thesis by auto
  qed
qed simp

lemma sorted_sort: "sorted_wrt (\<lambda>a b. cmp a b \<le> 0) (js_sort cmp xs)"
  by (induction xs) (auto intro: sorted_insert)

lemma stable_insert:
  "filter (\<lambda>b. cmp a b = 0) (js_insert cmp x ys) = filter (\<lambda>b. cmp a b = 0) (x # ys)"
proof (induction ys)
  case (Cons y ys)
  show ?case
  proof (cases "cmp x y \<le> 0")
    case False
    then have "\<not> (cmp a x = 0 \<and> cmp a y = 0)"
      by (metis equiv_sym equiv_trans order_refl)
    with False Cons show ?thesis by auto
  qed simp
qed simp

lemma stable_sort: "filter (\<lambda>b. cmp a b = 0) (js_sort cmp xs) = filter (\<lambda>b. cmp a b = 0) xs"
  by (induction xs) (auto simp: stable_insert)

text \<open>A sorted list whose classes of equal elements are those of another sorted list is that list.\<close>

lemma sorted_stable_unique:
  assumes "sorted_wrt (\<lambda>a b. cmp a b \<le> 0) xs" and "sorted_wrt (\<lambda>a b. cmp a b \<le> 0) ys"
    and "mset xs = mset ys" and "\<And>a. filter (\<lambda>b. cmp a b = 0) xs = filter (\<lambda>b. cmp a b = 0) ys"
  shows "xs = ys"
  using assms
proof (induction xs arbitrary: ys)
  case (Cons x xs)
  then obtain y ys' where ys: "ys = y # ys'" by (cases ys) auto
  have set: "insert x (set xs) = insert y (set ys')"
    using mset_eq_setD [OF Cons.prems(3)] by (simp add: ys)
  have "y \<in> insert x (set xs)" unfolding set by simp
  moreover have "x \<in> insert y (set ys')" unfolding set [symmetric] by simp
  ultimately have "y \<in> insert x (set xs)" "x \<in> insert y (set ys')" by blast+
  note mem = this
  have "cmp x y \<le> 0"
  proof (cases "x = y")
    case False
    then have "y \<in> set xs" using mem(1) by simp
    with Cons.prems(1) show ?thesis by simp
  qed (simp add: refl)
  moreover have "cmp y x \<le> 0"
  proof (cases "x = y")
    case False
    then have "x \<in> set ys'" using mem(2) by simp
    with Cons.prems(2) show ?thesis by (simp add: ys)
  qed (simp add: refl)
  ultimately have "cmp x y = 0" by (simp add: equiv_iff)
  with Cons.prems(4) [of x] have xy: "x = y" by (simp add: ys refl)
  have "filter (\<lambda>b. cmp a b = 0) xs = filter (\<lambda>b. cmp a b = 0) ys'" for a
    using Cons.prems(4) [of a] by (simp add: ys xy split: if_splits)
  then have "xs = ys'"
    by (intro Cons.IH) (use Cons.prems(1-3) in \<open>simp_all add: ys xy\<close>)
  then show ?case by (simp add: ys xy)
qed simp

theorem sort_unique:
  assumes "sorted_wrt (\<lambda>a b. cmp a b \<le> 0) ys" and "mset ys = mset xs"
    and "\<And>a. filter (\<lambda>b. cmp a b = 0) ys = filter (\<lambda>b. cmp a b = 0) xs"
  shows "js_sort cmp xs = ys"
  by (rule sorted_stable_unique) (use assms in \<open>simp_all add: sorted_sort stable_sort\<close>)

lemma sort_perm_eq:
  assumes "mset xs = mset ys" and "\<And>x y. cmp x y = 0 \<Longrightarrow> x = y"
  shows "js_sort cmp xs = js_sort cmp ys"
proof (rule sort_unique)
  have id: "cmp a b = 0 \<longleftrightarrow> a = b" for a b using assms(2) refl by blast
  show "filter (\<lambda>b. cmp a b = 0) (js_sort cmp ys) = filter (\<lambda>b. cmp a b = 0) xs" for a
    unfolding stable_sort id by (simp add: filter_eq_replicate assms(1))
qed (simp_all add: sorted_sort assms(1))

end

end
