(* ===== verification/Canonical.thy ===== *)
theory Canonical
  imports YValue JsSort
begin

text \<open>
  packages/yops/src/canonical.ts: the canonical text of a value (\<open>canonicalKey\<close>, mapping keys in
  code point order, JSON scalars) and the total preorder \<open>compareYValues\<close> that \<open>sort\<close> uses. The
  \<open>js_comparator\<close> contract is interpreted on \<open>compareCodepoints\<close> and on \<open>compareYValues\<close>.
\<close>

interpretation codepoint_order: js_comparator compareCodepoints
proof
  fix x y z
  show "compareCodepoints y x \<le> 0 \<longleftrightarrow> 0 \<le> compareCodepoints x y"
    using compareCodepoints_neg [of y x] by linarith
  show "compareCodepoints x y \<le> 0 \<Longrightarrow> compareCodepoints y z \<le> 0 \<Longrightarrow> compareCodepoints x z \<le> 0"
    by (rule compareCodepoints_trans)
qed

section \<open>canonicalKey\<close>

text \<open>\<open>Array.prototype.join\<close> with a one-character separator.\<close>

fun join :: "code_unit \<Rightarrow> jstring list \<Rightarrow> jstring" where
  "join c [] = []"
| "join c [x] = x"
| "join c (x # y # ys) = x @ c # join c (y # ys)"

primrec canonicalKey :: "yvalue \<Rightarrow> jstring" where
  "canonicalKey YNull = u ''null''"
| "canonicalKey (YBool b) = (if b then u ''true'' else u ''false'')"
| "canonicalKey (YNum n) = number_to_string n"
| "canonicalKey (YStr s) = json_quote s"
| "canonicalKey (YSeq xs) = cu CHR ''['' # join (cu CHR '','') (map canonicalKey xs) @ [cu CHR '']'']"
| "canonicalKey (YMap kvs) =
     (let obj = map (map_prod id canonicalKey) kvs;
          keys = js_sort compareCodepoints (map fst kvs)
      in cu CHR ''{'' #
         join (cu CHR '','') (map (\<lambda>k. json_quote k @ cu CHR '':'' # the (map_of obj k)) keys) @
         [cu CHR ''}''])"

definition canonicalJson :: "yvalue \<Rightarrow> jstring" where
  "canonicalJson v = canonicalKey v"

section \<open>compareYValues\<close>

fun rankOf :: "yvalue \<Rightarrow> int" where
  "rankOf YNull = 0"
| "rankOf (YBool _) = 1"
| "rankOf (YNum _) = 2"
| "rankOf (YStr _) = 3"
| "rankOf (YSeq _) = 4"
| "rankOf (YMap _) = 5"

definition compareYValues :: "yvalue \<Rightarrow> yvalue \<Rightarrow> int" where
  "compareYValues a b =
     (if rankOf a \<noteq> rankOf b then rankOf a - rankOf b
      else (case (a, b) of
          (YNull, YNull) \<Rightarrow> 0
        | (YBool x, YBool y) \<Rightarrow> (if x = y then 0 else if x then 1 else -1)
        | (YNum x, YNum y) \<Rightarrow> (if x < y then -1 else if y < x then 1 else 0)
        | (YStr x, YStr y) \<Rightarrow> compareCodepoints x y
        | _ \<Rightarrow> compareCodepoints (canonicalKey a) (canonicalKey b)))"

lemma compareYValues_neg: "compareYValues b a = - compareYValues a b"
proof -
  have keys: "compareCodepoints (canonicalKey b) (canonicalKey a)
      = - compareCodepoints (canonicalKey a) (canonicalKey b)"
    by (rule compareCodepoints_neg)
  have str: "compareCodepoints t s = - compareCodepoints s t" if "a = YStr s" "b = YStr t" for s t
    by (rule compareCodepoints_neg)
  show ?thesis
    by (cases a; cases b)
      (use keys in \<open>auto simp: compareYValues_def simp del: canonicalKey.simps dest: str\<close>)
qed

text \<open>Values of the same rank are compared through one key each; the key of a value.\<close>

lemma compareYValues_rank_le: "compareYValues a b \<le> 0 \<Longrightarrow> rankOf a \<le> rankOf b"
  by (auto simp: compareYValues_def split: if_splits)

lemma compareYValues_rank_less: "rankOf a < rankOf b \<Longrightarrow> compareYValues a b < 0"
  by (simp add: compareYValues_def)

lemma compareYValues_trans_same:
  assumes "rankOf a = rankOf b" "rankOf b = rankOf c"
    and "compareYValues a b \<le> 0" "compareYValues b c \<le> 0"
  shows "compareYValues a c \<le> 0"
  using assms by (cases a; cases b; cases c)
    (auto simp: compareYValues_def split: if_splits intro: compareCodepoints_trans)

interpretation yvalue_order: js_comparator compareYValues
proof
  fix x y z
  show "compareYValues y x \<le> 0 \<longleftrightarrow> 0 \<le> compareYValues x y"
    using compareYValues_neg [of y x] by linarith
  assume xy: "compareYValues x y \<le> 0" and yz: "compareYValues y z \<le> 0"
  note le = compareYValues_rank_le [OF xy] compareYValues_rank_le [OF yz]
  show "compareYValues x z \<le> 0"
  proof (cases "rankOf x = rankOf z")
    case True
    with le xy yz show ?thesis by (intro compareYValues_trans_same [of x y z]) simp_all
  next
    case False
    with le have "rankOf x < rankOf z" by linarith
    then show ?thesis using compareYValues_rank_less [of x z] by linarith
  qed
qed

end
