(* ===== verification/DocModel.thy ===== *)
theory DocModel
  imports Canonical "HOL-Library.Finite_Map"
begin

text \<open>
  The abstract document: a mapping is a finite map, so the order of its keys is gone.
  \<open>abs_val\<close> is the abstraction function, and the main fact is that two well-formed values have
  the same canonical text exactly when they are the same abstract document
  (\<open>canonicalKey_eq_iff\<close>): the comment in packages/yops/src/canonical.ts that two YValues are
  equal iff their canonical encodings are equal.
\<close>

datatype jdoc =
    DNull
  | DBool bool
  | DNum jsnum
  | DStr jstring
  | DSeq "jdoc list"
  | DMap "(jstring, jdoc) fmap"

primrec abs_val :: "yvalue \<Rightarrow> jdoc" where
  "abs_val YNull = DNull"
| "abs_val (YBool b) = DBool b"
| "abs_val (YNum n) = DNum n"
| "abs_val (YStr s) = DStr s"
| "abs_val (YSeq xs) = DSeq (map abs_val xs)"
| "abs_val (YMap kvs) = DMap (fmap_of_list (map (map_prod id abs_val) kvs))"

definition abs_obj :: "(jstring \<times> yvalue) list \<Rightarrow> (jstring, jdoc) fmap" where
  "abs_obj kvs = fmap_of_list (map (map_prod id abs_val) kvs)"

lemma abs_val_map [simp]: "abs_val (YMap kvs) = DMap (abs_obj kvs)"
  by (simp add: abs_obj_def)

declare abs_val.simps(6) [simp del]

lemma map_of_map_prod: "map_of (map (map_prod id f) kvs) k = map_option f (map_of kvs k)"
  by (induction kvs) auto

lemma abs_obj_lookup [simp]: "fmlookup (abs_obj kvs) k = map_option abs_val (map_of kvs k)"
  by (simp add: abs_obj_def fmlookup_of_list map_of_map_prod)

lemma abs_obj_eq_iff:
  "abs_obj m = abs_obj m' \<longleftrightarrow> (\<forall>k. map_option abs_val (map_of m k) = map_option abs_val (map_of m' k))"
  by (metis abs_obj_lookup fmap_ext)

lemma abs_empty:
  assumes "abs_val v = abs_val (YMap [])"
  shows "v = YMap []"
proof (cases v)
  case (YMap m)
  then have "map_option abs_val (map_of m k) = None" for k
    using assms unfolding YMap abs_val_map by (simp add: abs_obj_eq_iff)
  then have "map_of m (fst (hd m)) = None" by simp
  then show ?thesis using YMap by (cases m) auto
qed (use assms in auto)

interpretation doc: keyed_store fmlookup "\<lambda>m k v. fmupd k v m" "\<lambda>m k. fmdrop k m" "\<lambda>_. True"
  by unfold_locales auto

lemma abs_obj_Nil [abs_simps]: "abs_obj [] = fmempty"
  by (simp add: abs_obj_def)

lemma abs_obj_set [abs_simps]: "abs_obj (obj_set m k v) = fmupd k (abs_val v) (abs_obj m)"
  by (rule fmap_ext) simp

lemma abs_obj_delete [abs_simps]: "abs_obj (obj_delete m k) = fmdrop k (abs_obj m)"
  by (rule fmap_ext) simp

section \<open>Uniquely readable texts\<close>

text \<open>
  An encoding is read back from a text that goes on with a separator or a closing bracket;
  then a bracketed, comma-separated list of encodings is read back too.
\<close>

definition separator :: "code_unit \<Rightarrow> bool" where
  "separator c \<longleftrightarrow> c = cu CHR '','' \<or> c = cu CHR '']'' \<or> c = cu CHR ''}''"

locale delimited_text =
  fixes enc :: "'a \<Rightarrow> jstring"
    and same :: "'a \<Rightarrow> 'a \<Rightarrow> bool"
    and left :: "'a \<Rightarrow> bool"
    and right :: "'a \<Rightarrow> bool"
  assumes read: "left x \<Longrightarrow> right y \<Longrightarrow> stops is_number_char r \<Longrightarrow> stops is_number_char s \<Longrightarrow>
      enc x @ r = enc y @ s \<Longrightarrow> same x y \<and> r = s"
    and start: "\<exists>c t. enc x = c # t \<and> \<not> separator c"
begin

lemma read_tail:
  assumes "list_all left xs" "list_all right ys" "separator z" "z \<noteq> cu CHR '',''"
    and "concat (map (\<lambda>x. cu CHR '','' # enc x) xs) @ z # r
       = concat (map (\<lambda>y. cu CHR '','' # enc y) ys) @ z # s"
  shows "list_all2 same xs ys \<and> r = s"
  using assms
proof (induction xs arbitrary: ys)
  case Nil
  then show ?case by (cases ys) auto
next
  case (Cons x xs)
  obtain y ys' where ys: "ys = y # ys'" using Cons.prems by (cases ys) auto
  let ?R = "concat (map (\<lambda>x. cu CHR '','' # enc x) xs) @ z # r"
  let ?S = "concat (map (\<lambda>y. cu CHR '','' # enc y) ys') @ z # s"
  have nc: "\<not> is_number_char c" if "separator c" for c
    using that by (auto simp: separator_def is_number_char_def is_digit_cu)
  have "\<not> is_number_char z" and "\<not> is_number_char (cu CHR '','')"
    using Cons.prems(3) nc by (auto simp: separator_def)
  then have st: "stops is_number_char (concat (map (\<lambda>x. cu CHR '','' # enc x) zs) @ z # t)" for zs t
    by (cases zs) simp_all
  have "stops is_number_char ?R" "stops is_number_char ?S" by (rule st)+
  moreover have "enc x @ ?R = enc y @ ?S" using Cons.prems(5) by (simp add: ys)
  ultimately have "same x y \<and> ?R = ?S"
    using Cons.prems(1,2) by (intro read) (simp_all add: ys)
  then have "list_all2 same xs ys' \<and> r = s"
    using Cons.prems(1-4) by (intro Cons.IH) (simp_all add: ys)
  with \<open>same x y \<and> ?R = ?S\<close> show ?case by (simp add: ys)
qed

lemma join_Cons: "join c (x # xs) = x @ concat (map ((#) c) xs)"
  by (induction xs arbitrary: x) auto

lemma read_list:
  assumes "list_all left xs" "list_all right ys" "separator z" "z \<noteq> cu CHR '',''"
    and eq: "join (cu CHR '','') (map enc xs) @ z # r = join (cu CHR '','') (map enc ys) @ z # s"
  shows "list_all2 same xs ys \<and> r = s"
proof (cases "xs = [] \<or> ys = []")
  case True
  then have "xs = []" "ys = []"
    using eq assms(3) start [of "hd xs"] start [of "hd ys"]
    by (cases xs; cases ys; auto simp: join_Cons)+
  with eq show ?thesis by simp
next
  case False
  then obtain x xs' y ys' where "xs = x # xs'" "ys = y # ys'" by (meson neq_Nil_conv)
  moreover have "concat (map ((#) c) (map enc zs)) = concat (map (\<lambda>x. c # enc x) zs)" for c zs
    by (simp add: comp_def)
  ultimately show ?thesis
    using eq read_tail [OF assms(1-4), of r s] by (simp add: join_Cons)
qed

end

section \<open>Canonical texts are read back\<close>

definition token_rank :: "code_unit \<Rightarrow> int" where
  "token_rank c =
     (if c = cu CHR ''n'' then 0 else if c = cu CHR ''t'' \<or> c = cu CHR ''f'' then 1
      else if is_digit c \<or> c = cu CHR ''-'' then 2 else if c = cu CHR 0x22 then 3
      else if c = cu CHR ''['' then 4 else if c = cu CHR ''{'' then 5 else -1)"

lemma digit_not_letter: "is_digit c \<Longrightarrow> c \<noteq> cu CHR ''n'' \<and> c \<noteq> cu CHR ''t'' \<and> c \<noteq> cu CHR ''f''
    \<and> c \<noteq> cu CHR '','' \<and> c \<noteq> cu CHR '']'' \<and> c \<noteq> cu CHR ''}''"
  by (auto simp: is_digit_cu)

lemma canonicalKey_hd: "\<exists>c t. canonicalKey v = c # t \<and> token_rank c = rankOf v \<and> \<not> separator c"
proof (cases v)
  case (YNum n)
  then show ?thesis
    using number_to_string_hd [of n] digit_not_letter by (fastforce simp: token_rank_def separator_def)
qed (auto simp: token_rank_def separator_def u_Cons json_quote_def Let_def is_digit_cu)

lemma rankOf_canonicalKey: "canonicalKey v @ r = canonicalKey w @ s \<Longrightarrow> rankOf v = rankOf w"
  using canonicalKey_hd [of v] canonicalKey_hd [of w] by auto

definition sorted_entries :: "(jstring \<times> yvalue) list \<Rightarrow> (jstring \<times> yvalue) list" where
  "sorted_entries kvs = map (\<lambda>k. (k, the (map_of kvs k))) (js_sort compareCodepoints (map fst kvs))"

definition entry_text :: "jstring \<times> yvalue \<Rightarrow> jstring" where
  "entry_text e = json_quote (fst e) @ cu CHR '':'' # canonicalKey (snd e)"

lemma canonicalKey_map:
  "canonicalKey (YMap kvs) =
     cu CHR ''{'' # join (cu CHR '','') (map entry_text (sorted_entries kvs)) @ [cu CHR ''}'']"
proof -
  have "the (map_of (map (map_prod id canonicalKey) kvs) k) = canonicalKey (the (map_of kvs k))"
    if "k \<in> set (map fst kvs)" for k
    using that by (auto simp: map_of_map_prod dest: entry_lookup)
  then have "map (\<lambda>k. json_quote k @ cu CHR '':'' # the (map_of (map (map_prod id canonicalKey) kvs) k))
        (js_sort compareCodepoints (map fst kvs))
      = map (\<lambda>k. entry_text (k, the (map_of kvs k))) (js_sort compareCodepoints (map fst kvs))"
    by (intro map_cong refl) (simp add: entry_text_def)
  then show ?thesis
    by (simp only: canonicalKey.simps Let_def sorted_entries_def map_map comp_def)
qed

declare canonicalKey.simps(6) [simp del]

lemma sorted_entries_lookup: "map_of (sorted_entries kvs) = map_of kvs"
proof
  fix k
  have "map_of (map (\<lambda>k. (k, the (map_of kvs k))) ks) k
      = (if k \<in> set ks then Some (the (map_of kvs k)) else None)" for ks
    by (induction ks) auto
  then show "map_of (sorted_entries kvs) k = map_of kvs k"
    by (simp only: sorted_entries_def set_js_sort key_lookup_iff) auto
qed

lemma set_sorted_entries:
  "(k, v) \<in> set (sorted_entries kvs) \<longleftrightarrow> map_of kvs k = Some v"
proof -
  have "(k, v) \<in> set (sorted_entries kvs)
      \<longleftrightarrow> k \<in> set (map fst kvs) \<and> v = the (map_of kvs k)"
    by (auto simp: sorted_entries_def)
  then show ?thesis by (simp only: key_lookup_iff) auto
qed

lemma sorted_entries_wf:
  assumes "wf_yvalue (YMap kvs)"
  shows "list_all (\<lambda>e. e \<in> set kvs \<and> wf_yvalue (snd e)) (sorted_entries kvs)"
proof -
  have "(k, v) \<in> set kvs \<and> wf_yvalue v" if "(k, v) \<in> set (sorted_entries kvs)" for k v
    using that assms unfolding set_sorted_entries by (blast dest: map_of_SomeD wf_map_lookup)
  then show ?thesis by (auto simp: list_all_iff)
qed

lemma abs_obj_entries:
  assumes "list_all2 (\<lambda>e e'. fst e = fst e' \<and> abs_val (snd e) = abs_val (snd e'))
    (sorted_entries kvs) (sorted_entries kvs')"
  shows "abs_obj kvs = abs_obj kvs'"
proof -
  have "map_option abs_val (map_of es k) = map_option abs_val (map_of es' k)"
    if "list_all2 (\<lambda>e e'. fst e = fst e' \<and> abs_val (snd e) = abs_val (snd e')) es es'" for es es' k
    using that by (induction es es' rule: list_all2_induct) auto
  from this [OF assms] show ?thesis by (simp add: abs_obj_eq_iff sorted_entries_lookup)
qed

text \<open>Reading an entry: the key is quoted, then the value as above.\<close>

lemma entry_read:
  assumes "\<And>w r s. wf_yvalue w \<Longrightarrow> stops is_number_char r \<Longrightarrow> stops is_number_char s \<Longrightarrow>
      canonicalKey v @ r = canonicalKey w @ s \<Longrightarrow> abs_val v = abs_val w \<and> r = s"
    and "wf_yvalue (snd e)" "stops is_number_char r" "stops is_number_char s"
    and "entry_text (k, v) @ r = entry_text e @ s"
  shows "k = fst e \<and> abs_val v = abs_val (snd e) \<and> r = s"
  using assms json_quote_inject [of k "cu CHR '':'' # canonicalKey v @ r" "fst e"
      "cu CHR '':'' # canonicalKey (snd e) @ s"]
  by (auto simp: entry_text_def)

lemma entry_text_start: "\<exists>c t. entry_text e = c # t \<and> \<not> separator c"
  by (simp add: entry_text_def json_quote_def separator_def)

lemma canonicalKey_start: "\<exists>c t. canonicalKey v = c # t \<and> \<not> separator c"
  using canonicalKey_hd by blast

lemma canonicalKey_read:
  assumes "wf_yvalue v" "wf_yvalue w" "stops is_number_char r" "stops is_number_char s"
    and "canonicalKey v @ r = canonicalKey w @ s"
  shows "abs_val v = abs_val w \<and> r = s"
  using assms
proof (induction v arbitrary: w r s rule: yvalue_induct)
  case Null
  with rankOf_canonicalKey [OF Null(5)] show ?case by (cases w) auto
next
  case (Bool b)
  with rankOf_canonicalKey [OF Bool(5)] show ?case by (cases w) (auto simp: u_Cons split: if_splits)
next
  case (Num n)
  with rankOf_canonicalKey [OF Num(5)] obtain m where w: "w = YNum m" by (cases w) auto
  with Num have "number_to_string n = number_to_string m \<and> r = s"
    by (intro append_stops_eq [where P = is_number_char]) (simp_all add: number_to_string_chars)
  then show ?case by (simp add: w)
next
  case (Str t)
  with rankOf_canonicalKey [OF Str(5)] obtain t' where w: "w = YStr t'" by (cases w) auto
  with Str json_quote_inject [of t r t' s] show ?case by simp
next
  case (Seq xs)
  with rankOf_canonicalKey [OF Seq.prems(5)] obtain ys where w: "w = YSeq ys" by (cases w) auto
  have "delimited_text canonicalKey (\<lambda>a b. abs_val a = abs_val b) (\<lambda>x. x \<in> set xs \<and> wf_yvalue x) wf_yvalue"
    by unfold_locales (use Seq.IH canonicalKey_start in blast)+
  from delimited_text.read_list [OF this, of xs ys "cu CHR '']''" r s] Seq.prems
  have "list_all2 (\<lambda>a b. abs_val a = abs_val b) xs ys \<and> r = s"
    by (simp add: w separator_def list_all_iff)
  then show ?case by (auto simp: w list_all2_conv_all_nth intro: nth_equalityI)
next
  case (Map kvs)
  with rankOf_canonicalKey [OF Map.prems(5)] obtain kvs' where w: "w = YMap kvs'" by (cases w) auto
  let ?same = "\<lambda>e e'. fst e = fst e' \<and> abs_val (snd e) = abs_val (snd e')"
  have "delimited_text entry_text ?same (\<lambda>e. e \<in> set kvs \<and> wf_yvalue (snd e)) (\<lambda>e. wf_yvalue (snd e))"
  proof
    fix x y r s
    assume x: "x \<in> set kvs \<and> wf_yvalue (snd x)" and y: "wf_yvalue (snd y)"
      and r: "stops is_number_char r" and s: "stops is_number_char s"
      and eq: "entry_text x @ r = entry_text y @ s"
    obtain k v where xv: "x = (k, v)" by fastforce
    have "k = fst y \<and> abs_val v = abs_val (snd y) \<and> r = s"
      by (rule entry_read [OF _ y r s]) (use Map.IH [of k v] x xv eq in auto)
    then show "?same x y \<and> r = s" by (simp add: xv)
  qed (rule entry_text_start)
  moreover have "list_all (\<lambda>e. e \<in> set kvs \<and> wf_yvalue (snd e)) (sorted_entries kvs)"
    using Map.prems(1) by (rule sorted_entries_wf)
  moreover have "list_all (\<lambda>e. wf_yvalue (snd e)) (sorted_entries kvs')"
    using sorted_entries_wf [of kvs'] Map.prems(2) by (simp add: w list_all_iff)
  ultimately have "list_all2 ?same (sorted_entries kvs) (sorted_entries kvs') \<and> r = s"
    using Map.prems(5) by (intro delimited_text.read_list [where z = "cu CHR ''}''"])
      (simp_all add: w separator_def canonicalKey_map)
  then show ?case by (simp add: w abs_obj_entries)
qed

interpretation canonical: delimited_text canonicalKey "\<lambda>a b. abs_val a = abs_val b" wf_yvalue wf_yvalue
proof
  fix v w r s
  assume "wf_yvalue v" "wf_yvalue w" "stops is_number_char r" "stops is_number_char s"
    and "canonicalKey v @ r = canonicalKey w @ s"
  then show "abs_val v = abs_val w \<and> r = s" by (rule canonicalKey_read)
qed (rule canonicalKey_start)

section \<open>Canonical equality is equality of abstract documents\<close>

lemma sorted_entries_keys: "map fst (sorted_entries kvs) = js_sort compareCodepoints (map fst kvs)"
  by (simp add: sorted_entries_def comp_def)

lemma abs_obj_keys: "abs_obj m = abs_obj m' \<Longrightarrow> set (map fst m) = set (map fst m')"
proof -
  assume "abs_obj m = abs_obj m'"
  then have "map_of m k = None \<longleftrightarrow> map_of m' k = None" for k
    by (metis abs_obj_eq_iff map_option_is_None)
  then have "k \<in> set (map fst m) \<longleftrightarrow> k \<in> set (map fst m')" for k
    unfolding key_lookup_iff by (metis not_None_eq)
  then show ?thesis by blast
qed

text \<open>
  An encoding of values that visits the entries of a mapping in the order of a comparator of keys
  is the same for all values that differ only in the order of keys.
\<close>

locale sorted_encoding =
  fixes enc :: "yvalue \<Rightarrow> 'a"
    and cmp :: "jstring \<Rightarrow> jstring \<Rightarrow> int"
    and node :: "(jstring \<times> 'a) list \<Rightarrow> 'a"
    and items :: "'a list \<Rightarrow> 'a"
  assumes order: "js_comparator cmp"
    and strict: "cmp a b = 0 \<Longrightarrow> a = b"
    and enc_map: "distinct (map fst kvs) \<Longrightarrow> enc (YMap kvs) =
      node (map (\<lambda>k. (k, the (map_of (map (map_prod id enc) kvs) k))) (js_sort cmp (map fst kvs)))"
    and enc_seq: "enc (YSeq xs) = items (map enc xs)"
begin

lemma cong: "wf_yvalue v \<Longrightarrow> wf_yvalue w \<Longrightarrow> abs_val v = abs_val w \<Longrightarrow> enc v = enc w"
proof (induction v arbitrary: w rule: yvalue_induct)
  case (Seq xs)
  then obtain ys where w: "w = YSeq ys" and eq: "map abs_val xs = map abs_val ys"
    by (cases w) auto
  have "list_all2 (\<lambda>x y. enc x = enc y) xs ys"
    using eq [unfolded map_eq_map_iff] by (rule list.rel_mono_strong)
      (use Seq w in \<open>auto simp: list_all_iff\<close>)
  then have "map enc xs = map enc ys" by (simp flip: map_eq_map_iff)
  then show ?case by (simp add: w enc_seq)
next
  case (Map kvs)
  then obtain kvs' where w: "w = YMap kvs'" and eq: "abs_obj kvs = abs_obj kvs'"
    by (cases w) auto
  have d: "distinct (map fst kvs)" "distinct (map fst kvs')"
    using Map.prems by (auto simp: w dest: wf_keys_distinct)
  then have "mset (map fst kvs) = mset (map fst kvs')"
    using abs_obj_keys [OF eq] by (metis set_eq_iff_mset_eq_distinct)
  then have keys: "js_sort cmp (map fst kvs) = js_sort cmp (map fst kvs')"
    by (rule js_comparator.sort_perm_eq [OF order]) (rule strict)
  have "map_option enc (map_of kvs k) = map_option enc (map_of kvs' k)" for k
  proof (cases "map_of kvs k")
    case None
    then show ?thesis using eq unfolding abs_obj_eq_iff by (metis map_option_is_None)
  next
    case (Some v)
    have "map_option abs_val (map_of kvs k) = map_option abs_val (map_of kvs' k)"
      using eq unfolding abs_obj_eq_iff by blast
    with Some obtain v' where v': "map_of kvs' k = Some v'" "abs_val v = abs_val v'"
      by (cases "map_of kvs' k") auto
    have "enc v = enc v'"
    proof (rule Map.IH [OF map_of_SomeD [OF Some]])
      show "wf_yvalue v" using Map.prems(1) Some by (rule wf_map_lookup)
      show "wf_yvalue v'" using Map.prems(2) v'(1) unfolding w by (rule wf_map_lookup)
    qed (rule v'(2))
    with Some v' show ?thesis by simp
  qed
  then show ?case unfolding w enc_map [OF d(1)] enc_map [OF d(2)] keys by (simp add: map_of_map_prod)
qed (case_tac w; auto)+

end

interpretation canonical_key: sorted_encoding canonicalKey compareCodepoints
  "\<lambda>es. cu CHR ''{'' # join (cu CHR '','') (map (\<lambda>(k, t). json_quote k @ cu CHR '':'' # t) es) @ [cu CHR ''}'']"
  "\<lambda>ts. cu CHR ''['' # join (cu CHR '','') ts @ [cu CHR '']'']"
  by unfold_locales (simp_all add: canonicalKey.simps Let_def comp_def codepoint_order.js_comparator_axioms)

lemmas canonicalKey_cong = canonical_key.cong

lemma canonicalKey_eq_iff_abs:
  "wf_yvalue v \<Longrightarrow> wf_yvalue w \<Longrightarrow> canonicalKey v = canonicalKey w \<longleftrightarrow> abs_val v = abs_val w"
proof
  assume "canonicalKey v = canonicalKey w" and "wf_yvalue v" "wf_yvalue w"
  then show "abs_val v = abs_val w" using canonicalKey_read [of v w "[]" "[]"] by auto
qed (rule canonicalKey_cong)

end
