(* ===== verification/PathLaws.thy ===== *)
theory PathLaws
  imports Paths DocModel
begin

text \<open>
  What packages/yops/src/paths.ts promises. The three operations keep documents well formed, and
  they refine the same operations on abstract documents (\<open>aresolve\<close>, \<open>aset\<close>, \<open>adelete\<close>: mappings
  as finite maps), so they never depend on the order of mapping keys. The locale
  \<open>document_store\<close> states the read/write/delete laws that \<open>move\<close>, \<open>clone\<close> and the recipes rely on.
\<close>

section \<open>One step of a path\<close>

text \<open>
  The operations of the source inline the step for each kind of segment; here the step is named:
  the child a segment selects, its replacement, its removal, and the node that a write descends
  into (an absent key is an empty mapping, a scalar is refused before the last segment).
\<close>

definition seg_pos :: "path_segment \<Rightarrow> yvalue list \<Rightarrow> nat option" where
  "seg_pos s xs = (case s of
     SegKey k \<Rightarrow> None
   | SegIndex i \<Rightarrow> if i < length xs then Some i else None
   | SegMatch k v \<Rightarrow> find_index (itemMatchesSeg k v) xs)"

definition get_child :: "yvalue \<Rightarrow> path_segment \<Rightarrow> yvalue option" where
  "get_child d s = (case d of
     YMap m \<Rightarrow> (case s of SegKey k \<Rightarrow> map_of m k | _ \<Rightarrow> None)
   | YSeq xs \<Rightarrow> map_option (nth xs) (seg_pos s xs)
   | _ \<Rightarrow> None)"

definition put_child :: "yvalue \<Rightarrow> path_segment \<Rightarrow> yvalue \<Rightarrow> yvalue" where
  "put_child d s c = (case d of
     YMap m \<Rightarrow> (case s of SegKey k \<Rightarrow> YMap (obj_set m k c) | _ \<Rightarrow> d)
   | YSeq xs \<Rightarrow> (case seg_pos s xs of Some i \<Rightarrow> YSeq (xs[i := c]) | None \<Rightarrow> d)
   | _ \<Rightarrow> d)"

definition del_child :: "yvalue \<Rightarrow> path_segment \<Rightarrow> yvalue" where
  "del_child d s = (case d of
     YMap m \<Rightarrow> (case s of SegKey k \<Rightarrow> YMap (obj_delete m k) | _ \<Rightarrow> d)
   | YSeq xs \<Rightarrow> (case seg_pos s xs of Some i \<Rightarrow> YSeq (splice1 i xs) | None \<Rightarrow> d)
   | _ \<Rightarrow> d)"

definition descend :: "yvalue \<Rightarrow> path_segment \<Rightarrow> bool \<Rightarrow> set_error + yvalue" where
  "descend d s isLast = (case s of
     SegKey k \<Rightarrow> (case d of
         YMap m \<Rightarrow> (case map_of m k of
             None \<Rightarrow> Inr (YMap [])
           | Some c \<Rightarrow> if isLast \<or> is_object_or_array c then Inr c else Inl (NonMappingIntermediate k))
       | _ \<Rightarrow> Inl (KeyOnNonMapping k))
   | SegIndex i \<Rightarrow> (case d of
         YSeq xs \<Rightarrow> if MAX_SAFE_INTEGER < i \<or> length xs \<le> i then Inl (IndexOutOfBounds i (length xs))
                    else Inr (xs ! i)
       | _ \<Rightarrow> Inl (IndexOnNonArray i))
   | SegMatch k v \<Rightarrow> (case d of
         YSeq xs \<Rightarrow> (case find_index (itemMatchesSeg k v) xs of
             None \<Rightarrow> Inl (NoMatchingItem k v) | Some i \<Rightarrow> Inr (xs ! i))
       | _ \<Rightarrow> Inl MatchOnNonArray))"

lemmas step_defs = get_child_def put_child_def del_child_def descend_def seg_pos_def

lemma resolve_Cons:
  "resolvePathSegments d (s # p) = Option.bind (get_child d s) (\<lambda>c. resolvePathSegments c p)"
  by (cases s) (auto simp: step_defs split: yvalue.splits option.splits)

lemma deleteRecursive_Cons:
  "deleteRecursive d (s # p) = (case get_child d s of None \<Rightarrow> None
     | Some c \<Rightarrow> if p = [] then Some (del_child d s)
                else map_option (put_child d s) (deleteRecursive c p))"
  by (cases s) (auto simp: step_defs split: yvalue.splits option.splits intro!: option.map_cong)

lemma setRecursive_Cons:
  "setRecursive d (s # p) v = (case descend d s (p = []) of Inl e \<Rightarrow> Inl e
     | Inr c \<Rightarrow> map_sum_right (put_child d s) (setRecursive c p v))"
  by (cases s) (auto simp: step_defs map_sum_right_def split: yvalue.splits option.splits sum.splits)

lemmas path_op_simps =
  resolvePathSegments.simps(1) resolve_Cons
  deleteRecursive.simps(1) deleteRecursive_Cons
  setRecursive.simps(1) setRecursive_Cons

declare resolvePathSegments.simps(2-4) [simp del] deleteRecursive.simps(2-4) [simp del]
  setRecursive.simps(2-4) [simp del]

section \<open>Laws of one step\<close>

lemma seg_pos_less: "seg_pos s xs = Some i \<Longrightarrow> i < length xs"
  by (auto simp: seg_pos_def split: path_segment.splits if_splits dest: find_index_Some)

lemma list_all_list_update: "list_all P xs \<Longrightarrow> P x \<Longrightarrow> list_all P (xs[i := x])"
  by (auto simp: list_all_iff dest: set_update_subset_insert [THEN subsetD])

lemma list_all_splice1: "list_all P xs \<Longrightarrow> list_all P (splice1 i xs)"
  by (auto simp: list_all_iff splice1_def dest: in_set_takeD in_set_dropD)

lemma get_child_wf: "get_child d s = Some c \<Longrightarrow> wf_yvalue d \<Longrightarrow> wf_yvalue c"
  by (auto simp: get_child_def list_all_length dest!: seg_pos_less intro: wf_entries_lookup
      split: yvalue.splits path_segment.splits)

lemma put_child_wf: "wf_yvalue d \<Longrightarrow> wf_yvalue c \<Longrightarrow> wf_yvalue (put_child d s c)"
  by (auto simp: put_child_def split: yvalue.splits path_segment.splits option.splits
      intro: list_all_list_update wf_obj_set wf_entries_obj_set)

lemma del_child_wf: "wf_yvalue d \<Longrightarrow> wf_yvalue (del_child d s)"
  by (auto simp: del_child_def split: yvalue.splits path_segment.splits option.splits
      intro: list_all_splice1 wf_obj_delete wf_entries_obj_delete)

lemma descend_get: "descend d s b = Inr c \<Longrightarrow>
    get_child d s = Some c \<or> get_child d s = None \<and> c = YMap [] \<and> (\<exists>m k. d = YMap m \<and> s = SegKey k)"
  by (auto simp: descend_def get_child_def seg_pos_def
      split: yvalue.splits path_segment.splits option.splits if_splits)

lemma descend_wf: "descend d s b = Inr c \<Longrightarrow> wf_yvalue d \<Longrightarrow> wf_yvalue c"
  by (auto dest!: descend_get intro: get_child_wf)

section \<open>Well-formedness\<close>

lemma resolve_wf [wf_intros]:
  "resolvePathSegments d p = Some v \<Longrightarrow> wf_yvalue d \<Longrightarrow> wf_yvalue v"
  by (induction p arbitrary: d) (auto simp: path_op_simps bind_eq_Some_conv dest: get_child_wf)

lemma setRecursive_wf:
  "setRecursive d p v = Inr d' \<Longrightarrow> wf_yvalue d \<Longrightarrow> wf_yvalue v \<Longrightarrow> wf_yvalue d'"
  by (induction p arbitrary: d d')
     (auto simp: path_op_simps deepClone_id intro!: put_child_wf dest: descend_wf split: sum.splits)

lemma deleteRecursive_wf: "deleteRecursive d p = Some d' \<Longrightarrow> wf_yvalue d \<Longrightarrow> wf_yvalue d'"
  by (induction p arbitrary: d d')
     (auto simp: path_op_simps intro: put_child_wf del_child_wf dest: get_child_wf
       split: option.splits if_splits)

lemma setAtPathSegments_eq:
  "wf_yvalue d \<Longrightarrow> setAtPathSegments d p v = setRecursive d p v"
  by (cases p) (simp_all add: setAtPathSegments_def deepClone_id)

lemma deleteRecursive_None_iff: "p \<noteq> [] \<Longrightarrow> deleteRecursive d p = None \<longleftrightarrow> resolvePathSegments d p = None"
proof (induction p arbitrary: d)
  case (Cons s p)
  then show ?case by (cases p) (auto simp: path_op_simps split: option.splits)
qed simp

lemma deleteAtPathSegments_eq: "wf_yvalue d \<Longrightarrow> deleteAtPathSegments d p = deleteRecursive d p"
  by (cases "p = []") (auto simp: deleteAtPathSegments_def deepClone_id dest: deleteRecursive_None_iff [THEN iffD2])

lemma setAtPathSegments_wf [wf_intros]:
  "setAtPathSegments d p v = Inr d' \<Longrightarrow> wf_yvalue d \<Longrightarrow> wf_yvalue v \<Longrightarrow> wf_yvalue d'"
  by (simp add: setAtPathSegments_eq setRecursive_wf)

lemma deleteAtPathSegments_wf [wf_intros]:
  "deleteAtPathSegments d p = Some d' \<Longrightarrow> wf_yvalue d \<Longrightarrow> wf_yvalue d'"
  by (simp add: deleteAtPathSegments_eq deleteRecursive_wf)

section \<open>Refinement of abstract documents\<close>

text \<open>The same operations on abstract documents, where a mapping is a finite map.\<close>

definition amatches :: "jstring \<Rightarrow> jstring \<Rightarrow> jdoc \<Rightarrow> bool" where
  "amatches k v item = (case item of
     DMap m \<Rightarrow> (case fmlookup m k of
         Some (DStr s) \<Rightarrow> s = v
       | Some (DNum n) \<Rightarrow> number_to_string n = v
       | Some (DBool b) \<Rightarrow> (if b then u ''true'' else u ''false'') = v
       | _ \<Rightarrow> False)
   | _ \<Rightarrow> False)"

definition apos :: "path_segment \<Rightarrow> jdoc list \<Rightarrow> nat option" where
  "apos s xs = (case s of
     SegKey k \<Rightarrow> None
   | SegIndex i \<Rightarrow> if i < length xs then Some i else None
   | SegMatch k v \<Rightarrow> find_index (amatches k v) xs)"

definition achild :: "jdoc \<Rightarrow> path_segment \<Rightarrow> jdoc option" where
  "achild d s = (case d of
     DMap m \<Rightarrow> (case s of SegKey k \<Rightarrow> fmlookup m k | _ \<Rightarrow> None)
   | DSeq xs \<Rightarrow> map_option (nth xs) (apos s xs)
   | _ \<Rightarrow> None)"

definition aput :: "jdoc \<Rightarrow> path_segment \<Rightarrow> jdoc \<Rightarrow> jdoc" where
  "aput d s c = (case d of
     DMap m \<Rightarrow> (case s of SegKey k \<Rightarrow> DMap (fmupd k c m) | _ \<Rightarrow> d)
   | DSeq xs \<Rightarrow> (case apos s xs of Some i \<Rightarrow> DSeq (xs[i := c]) | None \<Rightarrow> d)
   | _ \<Rightarrow> d)"

definition adel :: "jdoc \<Rightarrow> path_segment \<Rightarrow> jdoc" where
  "adel d s = (case d of
     DMap m \<Rightarrow> (case s of SegKey k \<Rightarrow> DMap (fmdrop k m) | _ \<Rightarrow> d)
   | DSeq xs \<Rightarrow> (case apos s xs of Some i \<Rightarrow> DSeq (splice1 i xs) | None \<Rightarrow> d)
   | _ \<Rightarrow> d)"

fun is_node :: "jdoc \<Rightarrow> bool" where
  "is_node (DSeq _) = True"
| "is_node (DMap _) = True"
| "is_node _ = False"

definition adescend :: "jdoc \<Rightarrow> path_segment \<Rightarrow> bool \<Rightarrow> set_error + jdoc" where
  "adescend d s isLast = (case s of
     SegKey k \<Rightarrow> (case d of
         DMap m \<Rightarrow> (case fmlookup m k of
             None \<Rightarrow> Inr (DMap fmempty)
           | Some c \<Rightarrow> if isLast \<or> is_node c then Inr c else Inl (NonMappingIntermediate k))
       | _ \<Rightarrow> Inl (KeyOnNonMapping k))
   | SegIndex i \<Rightarrow> (case d of
         DSeq xs \<Rightarrow> if MAX_SAFE_INTEGER < i \<or> length xs \<le> i then Inl (IndexOutOfBounds i (length xs))
                    else Inr (xs ! i)
       | _ \<Rightarrow> Inl (IndexOnNonArray i))
   | SegMatch k v \<Rightarrow> (case d of
         DSeq xs \<Rightarrow> (case find_index (amatches k v) xs of
             None \<Rightarrow> Inl (NoMatchingItem k v) | Some i \<Rightarrow> Inr (xs ! i))
       | _ \<Rightarrow> Inl MatchOnNonArray))"

fun aresolve :: "jdoc \<Rightarrow> path_segment list \<Rightarrow> jdoc option" where
  "aresolve d [] = Some d"
| "aresolve d (s # p) = Option.bind (achild d s) (\<lambda>c. aresolve c p)"

fun aset :: "jdoc \<Rightarrow> path_segment list \<Rightarrow> jdoc \<Rightarrow> set_error + jdoc" where
  "aset d [] v = Inr v"
| "aset d (s # p) v = (case adescend d s (p = []) of Inl e \<Rightarrow> Inl e
     | Inr c \<Rightarrow> map_sum_right (aput d s) (aset c p v))"

fun adelete :: "jdoc \<Rightarrow> path_segment list \<Rightarrow> jdoc option" where
  "adelete d [] = None"
| "adelete d (s # p) = (case achild d s of None \<Rightarrow> None
     | Some c \<Rightarrow> if p = [] then Some (adel d s) else map_option (aput d s) (adelete c p))"

lemma abs_val_cases [simp]:
  "abs_val x = DNull \<longleftrightarrow> x = YNull"
  "abs_val x = DBool b \<longleftrightarrow> x = YBool b"
  "abs_val x = DNum n \<longleftrightarrow> x = YNum n"
  "abs_val x = DStr t \<longleftrightarrow> x = YStr t"
  "abs_val x = DSeq ys \<longleftrightarrow> (\<exists>xs. x = YSeq xs \<and> ys = map abs_val xs)"
  "abs_val x = DMap m \<longleftrightarrow> (\<exists>kvs. x = YMap kvs \<and> m = abs_obj kvs)"
  by (cases x; auto)+

lemma amatches_abs [simp]: "amatches k v (abs_val item) = itemMatchesSeg k v item"
  by (cases item) (auto simp: amatches_def itemMatchesSeg_def matchEquals_def
      split: option.splits jdoc.splits yvalue.splits)

lemma find_index_map [simp]: "find_index P (map f xs) = find_index (\<lambda>x. P (f x)) xs"
  by (induction xs) auto

lemma apos_abs [simp]: "apos s (map abs_val xs) = seg_pos s xs"
  by (cases s) (simp_all add: apos_def seg_pos_def)

lemma is_node_abs [simp]: "is_node (abs_val v) = is_object_or_array v"
  by (cases v) simp_all

lemma splice1_map: "map f (splice1 i xs) = splice1 i (map f xs)"
  by (simp add: splice1_def take_map drop_map)

lemma seg_nth_map: "map_option (nth (map f xs)) (seg_pos s xs) = map_option f (map_option (nth xs) (seg_pos s xs))"
  by (cases "seg_pos s xs") (auto dest: seg_pos_less)

lemma achild_abs [abs_simps]: "achild (abs_val d) s = map_option abs_val (get_child d s)"
  by (cases d) (auto simp: achild_def get_child_def seg_nth_map simp del: option.map_comp
      split: path_segment.splits)

lemma aput_abs [abs_simps]: "aput (abs_val d) s (abs_val c) = abs_val (put_child d s c)"
  by (cases d) (auto simp: aput_def put_child_def abs_obj_set map_update
      split: path_segment.splits option.splits)

lemma adel_abs [abs_simps]: "adel (abs_val d) s = abs_val (del_child d s)"
  by (cases d) (auto simp: adel_def del_child_def abs_obj_delete splice1_map
      split: path_segment.splits option.splits)

lemma adescend_abs [abs_simps]: "adescend (abs_val d) s b = map_sum_right abs_val (descend d s b)"
  by (cases d) (auto simp: adescend_def descend_def map_sum_right_def abs_obj_Nil
      split: path_segment.splits option.splits dest: find_index_Some)

lemma resolve_abs: "aresolve (abs_val d) p = map_option abs_val (resolvePathSegments d p)"
proof (induction p arbitrary: d)
  case (Cons s p)
  show ?case by (cases "get_child d s") (simp_all add: Cons path_op_simps achild_abs)
qed simp

lemma setRecursive_abs:
  "wf_yvalue v \<Longrightarrow> aset (abs_val d) p (abs_val v) = map_sum_right abs_val (setRecursive d p v)"
proof (induction p arbitrary: d)
  case (Cons s p)
  show ?case
  proof (cases "descend d s (p = [])")
    case (Inr c)
    then show ?thesis
      using Cons by (cases "setRecursive c p v") (simp_all add: path_op_simps adescend_abs aput_abs)
  qed (simp add: path_op_simps adescend_abs)
qed (simp add: deepClone_id)

lemma deleteRecursive_abs: "adelete (abs_val d) p = map_option abs_val (deleteRecursive d p)"
proof (induction p arbitrary: d)
  case (Cons s p)
  show ?case
  proof (cases "get_child d s")
    case (Some c)
    then show ?thesis
      using Cons by (cases "deleteRecursive c p") (simp_all add: path_op_simps achild_abs adel_abs aput_abs)
  qed (simp add: path_op_simps achild_abs)
qed simp

section \<open>Laws of a document store\<close>

text \<open>
  A plain path selects by keys and indexes; a path is removable when its last segment is a key.
  Two paths diverge when they select different children of a common node.
\<close>

fun plain_segment :: "path_segment \<Rightarrow> bool" where
  "plain_segment (SegMatch _ _) = False"
| "plain_segment _ = True"

fun is_key :: "path_segment \<Rightarrow> bool" where
  "is_key (SegKey _) = True"
| "is_key _ = False"

definition plain_path :: "path_segment list \<Rightarrow> bool" where
  "plain_path p \<longleftrightarrow> list_all plain_segment p"

definition removable :: "path_segment list \<Rightarrow> bool" where
  "removable p \<longleftrightarrow> plain_path p \<and> p \<noteq> [] \<and> is_key (last p)"

fun diverge :: "path_segment list \<Rightarrow> path_segment list \<Rightarrow> bool" where
  "diverge (SegKey a # p) (SegKey b # q) = (a \<noteq> b \<or> diverge p q)"
| "diverge (SegIndex i # p) (SegIndex j # q) = (i \<noteq> j \<or> diverge p q)"
| "diverge _ _ = False"

lemma diverge_sym: "diverge p q \<Longrightarrow> diverge q p"
  by (induction p q rule: diverge.induct) auto

lemma diverge_Cons:
  "plain_segment s \<Longrightarrow> diverge (s # p) q \<Longrightarrow> \<exists>t q'. q = t # q' \<and> plain_segment t \<and>
     (s \<noteq> t \<and> is_key s = is_key t \<or> s = t \<and> diverge p q')"
  by (cases "(s # p, q)" rule: diverge.cases) auto

lemma get_put_same: "plain_segment s \<Longrightarrow> descend d s b = Inr c \<Longrightarrow> get_child (put_child d s x) s = Some x"
  by (auto simp: step_defs split: yvalue.splits path_segment.splits option.splits if_splits)

lemma get_put_other:
  "plain_segment s \<Longrightarrow> plain_segment t \<Longrightarrow> s \<noteq> t \<Longrightarrow> get_child (put_child d s x) t = get_child d t"
  by (auto simp: step_defs split: yvalue.splits path_segment.splits option.splits if_splits)

lemma get_del_same: "is_key s \<Longrightarrow> get_child (del_child d s) s = None"
  by (auto simp: step_defs split: yvalue.splits path_segment.splits)

lemma get_del_other: "is_key s \<Longrightarrow> s \<noteq> t \<Longrightarrow> get_child (del_child d s) t = get_child d t"
  by (auto simp: step_defs split: yvalue.splits path_segment.splits)

lemma get_child_put: "plain_segment s \<Longrightarrow> get_child d s = Some c \<Longrightarrow> get_child (put_child d s x) s = Some x"
  by (auto simp: step_defs split: yvalue.splits path_segment.splits option.splits if_splits)

lemma set_get:
  "plain_path p \<Longrightarrow> setRecursive d p v = Inr d' \<Longrightarrow> resolvePathSegments d' p = Some (deepClone v)"
  by (induction p arbitrary: d d')
     (auto simp: path_op_simps plain_path_def get_put_same split: sum.splits)

lemma resolve_empty_map: "p \<noteq> [] \<Longrightarrow> resolvePathSegments (YMap []) p = None"
  by (cases p) (auto simp: path_op_simps get_child_def split: path_segment.splits)

lemma set_frame:
  "plain_path p \<Longrightarrow> setRecursive d p v = Inr d' \<Longrightarrow> diverge p q \<Longrightarrow>
     resolvePathSegments d' q = resolvePathSegments d q"
proof (induction p arbitrary: d d' q)
  case (Cons s p)
  from Cons.prems have s: "plain_segment s" "plain_path p" by (auto simp: plain_path_def)
  from diverge_Cons [OF s(1) Cons.prems(3)] obtain t q' where q: "q = t # q'" "plain_segment t"
    and cases: "s \<noteq> t \<and> is_key s = is_key t \<or> s = t \<and> diverge p q'" by blast
  from Cons.prems(2) obtain c e where c: "descend d s (p = []) = Inr c" "setRecursive c p v = Inr e"
      and d': "d' = put_child d s e"
    by (auto simp: path_op_simps split: sum.splits)
  show ?case
  proof (cases "s = t")
    case True
    with cases have dv: "diverge p q'" by blast
    then have "q' \<noteq> []" by (cases "(p, q')" rule: diverge.cases) auto
    moreover have "resolvePathSegments e q' = resolvePathSegments c q'"
      by (rule Cons.IH [OF s(2) c(2) dv])
    ultimately show ?thesis
      using True descend_get [OF c(1)] get_put_same [OF s(1) c(1), of e]
      by (auto simp: d' q path_op_simps resolve_empty_map)
  next
    case False
    then show ?thesis using s(1) q by (simp add: d' path_op_simps get_put_other)
  qed
qed simp

lemma delete_get: "removable p \<Longrightarrow> deleteRecursive d p = Some d' \<Longrightarrow> resolvePathSegments d' p = None"
proof (induction p arbitrary: d d')
  case (Cons s p)
  then show ?case
    by (cases "p = []") (auto simp: path_op_simps removable_def plain_path_def get_del_same get_child_put
        split: option.splits)
qed simp

lemma delete_frame:
  "removable p \<Longrightarrow> deleteRecursive d p = Some d' \<Longrightarrow> diverge p q \<Longrightarrow>
     resolvePathSegments d' q = resolvePathSegments d q"
proof (induction p arbitrary: d d' q)
  case (Cons s p)
  from Cons.prems have s: "plain_segment s" "p \<noteq> [] \<Longrightarrow> removable p" "p = [] \<Longrightarrow> is_key s"
    by (auto simp: removable_def plain_path_def)
  from diverge_Cons [OF s(1) Cons.prems(3)] obtain t q' where q: "q = t # q'" "plain_segment t"
    and cases: "s \<noteq> t \<and> is_key s = is_key t \<or> s = t \<and> diverge p q'" by blast
  from Cons.prems(2) obtain c where c: "get_child d s = Some c"
    by (auto simp: path_op_simps split: option.splits)
  show ?case
  proof (cases "p = []")
    case True
    with cases have "s \<noteq> t" by auto
    with True c Cons.prems(2) s(3) show ?thesis
      by (auto simp: q path_op_simps get_del_other)
  next
    case False
    with Cons.prems(2) c obtain e where e: "deleteRecursive c p = Some e" "d' = put_child d s e"
      by (auto simp: path_op_simps)
    from cases show ?thesis
    proof
      assume "s \<noteq> t \<and> is_key s = is_key t"
      then show ?thesis using s(1) q by (simp add: e path_op_simps get_put_other)
    next
      assume "s = t \<and> diverge p q'"
      then show ?thesis
        using Cons.IH [OF s(2) e(1), of q'] False c get_child_put [OF s(1) c, of e]
        by (auto simp: q e path_op_simps)
    qed
  qed
qed (simp add: removable_def)

locale document_store =
  fixes get :: "'d \<Rightarrow> 'p \<Rightarrow> 'd option"
    and put :: "'d \<Rightarrow> 'p \<Rightarrow> 'd \<Rightarrow> 'e + 'd"
    and del :: "'d \<Rightarrow> 'p \<Rightarrow> 'd option"
    and inv :: "'d \<Rightarrow> bool"
    and writable :: "'p \<Rightarrow> bool"
    and erasable :: "'p \<Rightarrow> bool"
    and apart :: "'p \<Rightarrow> 'p \<Rightarrow> bool"
  assumes inv_get: "get d p = Some v \<Longrightarrow> inv d \<Longrightarrow> inv v"
    and inv_put: "put d p v = Inr d' \<Longrightarrow> inv d \<Longrightarrow> inv v \<Longrightarrow> inv d'"
    and inv_del: "del d p = Some d' \<Longrightarrow> inv d \<Longrightarrow> inv d'"
    and get_put: "inv d \<Longrightarrow> inv v \<Longrightarrow> writable p \<Longrightarrow> put d p v = Inr d' \<Longrightarrow> get d' p = Some v"
    and put_frame: "inv d \<Longrightarrow> inv v \<Longrightarrow> writable p \<Longrightarrow> put d p v = Inr d' \<Longrightarrow> apart p q \<Longrightarrow>
      get d' q = get d q"
    and del_defined: "inv d \<Longrightarrow> erasable p \<Longrightarrow> get d p \<noteq> None \<Longrightarrow> del d p \<noteq> None"
    and get_del: "inv d \<Longrightarrow> erasable p \<Longrightarrow> del d p = Some d' \<Longrightarrow> get d' p = None"
    and del_frame: "inv d \<Longrightarrow> erasable p \<Longrightarrow> del d p = Some d' \<Longrightarrow> apart p q \<Longrightarrow> get d' q = get d q"
    and apart_sym: "apart p q \<Longrightarrow> apart q p"
begin

text \<open>Writing a value elsewhere and erasing it at its old place moves it, and nothing else.\<close>

lemma move:
  assumes "inv d" "get d from = Some v" "put d to v = Inr d1"
    and "writable to" "erasable from" "apart to from"
  shows "\<exists>d2. del d1 from = Some d2 \<and> inv d2 \<and> get d2 to = Some v \<and> get d2 from = None
     \<and> (\<forall>q. apart to q \<longrightarrow> apart from q \<longrightarrow> get d2 q = get d q)"
proof -
  have v: "inv v" using assms(1,2) inv_get by blast
  have d1: "inv d1" using assms v inv_put by blast
  have "get d1 from = Some v" using assms v put_frame [of d v to d1 "from"] by simp
  then obtain d2 where d2: "del d1 from = Some d2" using del_defined d1 assms(5) by fastforce
  have "get d2 to = get d1 to" using del_frame [OF d1 assms(5) d2] apart_sym assms(6) by blast
  moreover have "get d1 to = Some v" using assms v get_put by blast
  moreover have "get d2 q = get d q" if "apart to q" "apart from q" for q
    using that del_frame [OF d1 assms(5) d2, of q] put_frame [of d v to d1 q] assms v by simp
  ultimately show ?thesis using d2 get_del [OF d1 assms(5) d2] inv_del [OF d2 d1] by auto
qed

text \<open>Two writes to places apart are both seen, whatever their order.\<close>

lemma put_put:
  assumes "inv d" "inv v" "inv w" "writable p" "writable q" "apart p q"
    and "put d p v = Inr d1" "put d1 q w = Inr d2"
  shows "get d2 p = Some v \<and> get d2 q = Some w"
proof -
  have d1: "inv d1" using inv_put assms by blast
  have "get d2 p = get d1 p" using put_frame [OF d1 _ _ assms(8)] apart_sym assms by blast
  with assms d1 show ?thesis using get_put by metis
qed

end

interpretation store: document_store resolvePathSegments setAtPathSegments deleteAtPathSegments
  wf_yvalue plain_path removable diverge
proof (unfold_locales, goal_cases)
  case (4 d v p d')
  then show ?case using set_get [of p d v d'] by (simp add: setAtPathSegments_eq deepClone_id)
next
  case (5 d v p d' q)
  then show ?case using set_frame [of p d v d' q] by (simp add: setAtPathSegments_eq)
next
  case (6 d p)
  then show ?case
    using deleteRecursive_None_iff [of p d] by (simp add: deleteAtPathSegments_eq removable_def)
next
  case (7 d p d')
  then show ?case using delete_get [of p d d'] by (simp add: deleteAtPathSegments_eq)
next
  case (8 d p d' q)
  then show ?case using delete_frame [of p d d' q] by (simp add: deleteAtPathSegments_eq)
qed (auto intro: resolve_wf setAtPathSegments_wf deleteAtPathSegments_wf diverge_sym)

end
