(* ===== verification/YopsTypes.thy ===== *)
theory YopsTypes
  imports PathLaws
begin

text \<open>
  packages/yops/src/types.ts and errors.ts: the 18 operations, the error codes, and how an
  operation lies in a document (\<open>op_value\<close>: \<open>{ <name>: <fields>, source? }\<close>). The handlers of the
  source read their fields out of the payload with casts (\<open>fields.path as string\<close>);
  \<open>decode_op\<close> is that reading with the cast checked.
\<close>

section \<open>Errors\<close>

datatype yops_error_code =
    PATH_NOT_FOUND
  | ALREADY_EXISTS
  | NOT_A_MAPPING
  | NOT_A_SEQUENCE
  | NOT_SIBLINGS
  | NOT_FOLDABLE
  | INVALID_PATH
  | ASSERTION_FAILED
  | UNKNOWN_OP
  | INVALID_OP

text \<open>The human-readable message of an error is not modelled.\<close>

record yops_error =
  error_code :: yops_error_code
  op_index :: nat

definition yopsError :: "yops_error_code \<Rightarrow> nat \<Rightarrow> yops_error" where
  "yopsError c i = \<lparr>error_code = c, op_index = i\<rparr>"

section \<open>Operations\<close>

datatype node_kind = Mapping | Sequence | Scalar

datatype sort_order = Asc | Desc

datatype yop =
    Define jstring
  | Drop jstring
  | Rename jstring jstring
  | SetOp jstring yvalue
  | Unset jstring
  | Populate jstring "(jstring \<times> yvalue) list"
  | Append jstring yvalue
  | Move jstring jstring
  | Clone jstring jstring
  | Nest jstring "jstring list" jstring
  | Split jstring "(jstring \<times> jstring list) list"
  | Fold jstring
  | Merge jstring "jstring list" jstring
  | Sort jstring "jstring option" "sort_order option"
  | Unique jstring "jstring option"
  | Pick jstring "jstring list"
  | Omit jstring "jstring list"
  | Assert jstring "yvalue option" "bool option" "node_kind option"

fun op_name :: "yop \<Rightarrow> string" where
  "op_name (Define _) = ''define''"
| "op_name (Drop _) = ''drop''"
| "op_name (Rename _ _) = ''rename''"
| "op_name (SetOp _ _) = ''set''"
| "op_name (Unset _) = ''unset''"
| "op_name (Populate _ _) = ''populate''"
| "op_name (Append _ _) = ''append''"
| "op_name (Move _ _) = ''move''"
| "op_name (Clone _ _) = ''clone''"
| "op_name (Nest _ _ _) = ''nest''"
| "op_name (Split _ _) = ''split''"
| "op_name (Fold _) = ''fold''"
| "op_name (Merge _ _ _) = ''merge''"
| "op_name (Sort _ _ _) = ''sort''"
| "op_name (Unique _ _) = ''unique''"
| "op_name (Pick _ _) = ''pick''"
| "op_name (Omit _ _) = ''omit''"
| "op_name (Assert _ _ _ _) = ''assert''"

definition kind_name :: "node_kind \<Rightarrow> string" where
  "kind_name k = (case k of Mapping \<Rightarrow> ''mapping'' | Sequence \<Rightarrow> ''sequence'' | Scalar \<Rightarrow> ''scalar'')"

definition order_name :: "sort_order \<Rightarrow> string" where
  "order_name r = (case r of Asc \<Rightarrow> ''asc'' | Desc \<Rightarrow> ''desc'')"

definition opt_entry :: "string \<Rightarrow> ('a \<Rightarrow> yvalue) \<Rightarrow> 'a option \<Rightarrow> (jstring \<times> yvalue) list" where
  "opt_entry k f x = (case x of None \<Rightarrow> [] | Some y \<Rightarrow> [(u k, f y)])"

definition str_seq :: "jstring list \<Rightarrow> yvalue" where
  "str_seq ks = YSeq (map YStr ks)"

text \<open>The payload of an operation.\<close>

fun op_fields :: "yop \<Rightarrow> (jstring \<times> yvalue) list" where
  "op_fields (Define p) = [(u ''path'', YStr p)]"
| "op_fields (Drop p) = [(u ''path'', YStr p)]"
| "op_fields (Rename p t) = [(u ''path'', YStr p), (u ''to'', YStr t)]"
| "op_fields (SetOp p v) = [(u ''path'', YStr p), (u ''value'', v)]"
| "op_fields (Unset p) = [(u ''path'', YStr p)]"
| "op_fields (Populate p vs) = [(u ''path'', YStr p), (u ''values'', YMap vs)]"
| "op_fields (Append p v) = [(u ''path'', YStr p), (u ''value'', v)]"
| "op_fields (Move f t) = [(u ''from'', YStr f), (u ''to'', YStr t)]"
| "op_fields (Clone f t) = [(u ''from'', YStr f), (u ''to'', YStr t)]"
| "op_fields (Nest p ks n) = [(u ''path'', YStr p), (u ''keys'', str_seq ks), (u ''under'', YStr n)]"
| "op_fields (Split p gs) = [(u ''path'', YStr p), (u ''into'', YMap (map (map_prod id str_seq) gs))]"
| "op_fields (Fold p) = [(u ''path'', YStr p)]"
| "op_fields (Merge p ks n) = [(u ''path'', YStr p), (u ''keys'', str_seq ks), (u ''into'', YStr n)]"
| "op_fields (Sort p b r) =
     (u ''path'', YStr p) # opt_entry ''by'' YStr b @ opt_entry ''order'' (\<lambda>r. YStr (u (order_name r))) r"
| "op_fields (Unique p b) = (u ''path'', YStr p) # opt_entry ''by'' YStr b"
| "op_fields (Pick p ks) = [(u ''path'', YStr p), (u ''keys'', str_seq ks)]"
| "op_fields (Omit p ks) = [(u ''path'', YStr p), (u ''keys'', str_seq ks)]"
| "op_fields (Assert p e x t) =
     (u ''path'', YStr p) # opt_entry ''equals'' id e @ opt_entry ''exists'' YBool x
     @ opt_entry ''type'' (\<lambda>t. YStr (u (kind_name t))) t"

definition op_value :: "yop \<Rightarrow> yvalue option \<Rightarrow> yvalue" where
  "op_value op source = YMap ((u (op_name op), YMap (op_fields op)) # opt_entry ''source'' id source)"

section \<open>Reading the fields of a payload\<close>

fun as_string :: "yvalue \<Rightarrow> jstring option" where
  "as_string (YStr s) = Some s"
| "as_string _ = None"

fun as_bool :: "yvalue \<Rightarrow> bool option" where
  "as_bool (YBool b) = Some b"
| "as_bool _ = None"

fun as_map :: "yvalue \<Rightarrow> (jstring \<times> yvalue) list option" where
  "as_map (YMap m) = Some m"
| "as_map _ = None"

fun all_some :: "'a option list \<Rightarrow> 'a list option" where
  "all_some [] = Some []"
| "all_some (x # xs) = Option.bind x (\<lambda>y. map_option ((#) y) (all_some xs))"

definition as_strings :: "yvalue \<Rightarrow> jstring list option" where
  "as_strings v = (case v of YSeq xs \<Rightarrow> all_some (map as_string xs) | _ \<Rightarrow> None)"

definition as_groups :: "yvalue \<Rightarrow> (jstring \<times> jstring list) list option" where
  "as_groups v = (case v of
     YMap m \<Rightarrow> all_some (map (\<lambda>(k, x). map_option (Pair k) (as_strings x)) m) | _ \<Rightarrow> None)"

definition as_order :: "yvalue \<Rightarrow> sort_order option" where
  "as_order v = (if v = YStr (u ''asc'') then Some Asc else if v = YStr (u ''desc'') then Some Desc else None)"

definition as_kind :: "yvalue \<Rightarrow> node_kind option" where
  "as_kind v = (if v = YStr (u ''mapping'') then Some Mapping
     else if v = YStr (u ''sequence'') then Some Sequence
     else if v = YStr (u ''scalar'') then Some Scalar else None)"

definition field :: "(yvalue \<Rightarrow> 'a option) \<Rightarrow> (jstring \<times> yvalue) list \<Rightarrow> string \<Rightarrow> 'a option" where
  "field cast flds k = Option.bind (map_of flds (u k)) cast"

definition opt_field :: "(yvalue \<Rightarrow> 'a option) \<Rightarrow> (jstring \<times> yvalue) list \<Rightarrow> string \<Rightarrow> 'a option option" where
  "opt_field cast flds k =
     (case map_of flds (u k) of None \<Rightarrow> Some None | Some v \<Rightarrow> map_option Some (cast v))"

definition lift1 :: "('a \<Rightarrow> 'b) \<Rightarrow> 'a option \<Rightarrow> 'b option" where
  "lift1 f a = map_option f a"

definition lift2 :: "('a \<Rightarrow> 'b \<Rightarrow> 'c) \<Rightarrow> 'a option \<Rightarrow> 'b option \<Rightarrow> 'c option" where
  "lift2 f a b = Option.bind a (\<lambda>x. map_option (f x) b)"

definition lift3 :: "('a \<Rightarrow> 'b \<Rightarrow> 'c \<Rightarrow> 'd) \<Rightarrow> 'a option \<Rightarrow> 'b option \<Rightarrow> 'c option \<Rightarrow> 'd option" where
  "lift3 f a b c = Option.bind a (\<lambda>x. lift2 (f x) b c)"

definition decoders :: "(string \<times> ((jstring \<times> yvalue) list \<Rightarrow> yop option)) list" where
  "decoders =
    [(''define'', \<lambda>f. lift1 Define (field as_string f ''path'')),
     (''drop'', \<lambda>f. lift1 Drop (field as_string f ''path'')),
     (''rename'', \<lambda>f. lift2 Rename (field as_string f ''path'') (field as_string f ''to'')),
     (''set'', \<lambda>f. lift2 SetOp (field as_string f ''path'') (field Some f ''value'')),
     (''unset'', \<lambda>f. lift1 Unset (field as_string f ''path'')),
     (''populate'', \<lambda>f. lift2 Populate (field as_string f ''path'') (field as_map f ''values'')),
     (''append'', \<lambda>f. lift2 Append (field as_string f ''path'') (field Some f ''value'')),
     (''move'', \<lambda>f. lift2 Move (field as_string f ''from'') (field as_string f ''to'')),
     (''clone'', \<lambda>f. lift2 Clone (field as_string f ''from'') (field as_string f ''to'')),
     (''nest'', \<lambda>f. lift3 Nest (field as_string f ''path'') (field as_strings f ''keys'')
        (field as_string f ''under'')),
     (''split'', \<lambda>f. lift2 Split (field as_string f ''path'') (field as_groups f ''into'')),
     (''fold'', \<lambda>f. lift1 Fold (field as_string f ''path'')),
     (''merge'', \<lambda>f. lift3 Merge (field as_string f ''path'') (field as_strings f ''keys'')
        (field as_string f ''into'')),
     (''sort'', \<lambda>f. lift3 Sort (field as_string f ''path'') (opt_field as_string f ''by'')
        (opt_field as_order f ''order'')),
     (''unique'', \<lambda>f. lift2 Unique (field as_string f ''path'') (opt_field as_string f ''by'')),
     (''pick'', \<lambda>f. lift2 Pick (field as_string f ''path'') (field as_strings f ''keys'')),
     (''omit'', \<lambda>f. lift2 Omit (field as_string f ''path'') (field as_strings f ''keys'')),
     (''assert'', \<lambda>f. lift2 (\<lambda>g t. g t) (lift3 Assert (field as_string f ''path'')
        (opt_field Some f ''equals'') (opt_field as_bool f ''exists'')) (opt_field as_kind f ''type''))]"

definition decode_op :: "jstring \<Rightarrow> (jstring \<times> yvalue) list \<Rightarrow> yop option" where
  "decode_op opName flds =
     (case map_of (map (map_prod u id) decoders) opName of Some d \<Rightarrow> d flds | None \<Rightarrow> None)"

lemmas lift_defs = lift1_def lift2_def lift3_def

lemma all_some_map: "all_some (map f xs) = Some ys \<longleftrightarrow> list_all2 (\<lambda>x y. f x = Some y) xs ys"
  by (induction xs arbitrary: ys) (auto simp: bind_eq_Some_conv list_all2_Cons1)

lemma as_strings_str_seq [simp]: "as_strings (str_seq ks) = Some ks"
  by (simp add: as_strings_def str_seq_def comp_def all_some_map list_all2_same)

lemma as_groups_map [simp]: "as_groups (YMap (map (map_prod id str_seq) gs)) = Some gs"
  by (simp add: as_groups_def, induction gs) auto

lemma as_order_name [simp]: "as_order (YStr (u (order_name r))) = Some r"
  by (cases r) (simp_all add: as_order_def order_name_def)

lemma as_kind_name [simp]: "as_kind (YStr (u (kind_name k))) = Some k"
  by (cases k) (simp_all add: as_kind_def kind_name_def)

lemma map_of_decoders: "map_of (map (map_prod u id) decoders) (u n) = map_of decoders n"
proof -
  have "map_of (map (map_prod u id) xs) (u n) = map_of xs n" for xs :: "(string \<times> 'a) list"
    by (induction xs) auto
  then show ?thesis .
qed

lemma decode_simps:
  "decode_op (u ''define'') f = lift1 Define (field as_string f ''path'')"
  "decode_op (u ''drop'') f = lift1 Drop (field as_string f ''path'')"
  "decode_op (u ''rename'') f = lift2 Rename (field as_string f ''path'') (field as_string f ''to'')"
  "decode_op (u ''set'') f = lift2 SetOp (field as_string f ''path'') (field Some f ''value'')"
  "decode_op (u ''unset'') f = lift1 Unset (field as_string f ''path'')"
  "decode_op (u ''populate'') f = lift2 Populate (field as_string f ''path'') (field as_map f ''values'')"
  "decode_op (u ''append'') f = lift2 Append (field as_string f ''path'') (field Some f ''value'')"
  "decode_op (u ''move'') f = lift2 Move (field as_string f ''from'') (field as_string f ''to'')"
  "decode_op (u ''clone'') f = lift2 Clone (field as_string f ''from'') (field as_string f ''to'')"
  "decode_op (u ''nest'') f = lift3 Nest (field as_string f ''path'') (field as_strings f ''keys'')
     (field as_string f ''under'')"
  "decode_op (u ''split'') f = lift2 Split (field as_string f ''path'') (field as_groups f ''into'')"
  "decode_op (u ''fold'') f = lift1 Fold (field as_string f ''path'')"
  "decode_op (u ''merge'') f = lift3 Merge (field as_string f ''path'') (field as_strings f ''keys'')
     (field as_string f ''into'')"
  "decode_op (u ''sort'') f = lift3 Sort (field as_string f ''path'') (opt_field as_string f ''by'')
     (opt_field as_order f ''order'')"
  "decode_op (u ''unique'') f = lift2 Unique (field as_string f ''path'') (opt_field as_string f ''by'')"
  "decode_op (u ''pick'') f = lift2 Pick (field as_string f ''path'') (field as_strings f ''keys'')"
  "decode_op (u ''omit'') f = lift2 Omit (field as_string f ''path'') (field as_strings f ''keys'')"
  "decode_op (u ''assert'') f = lift2 (\<lambda>g t. g t) (lift3 Assert (field as_string f ''path'')
     (opt_field Some f ''equals'') (opt_field as_bool f ''exists'')) (opt_field as_kind f ''type'')"
  by (simp_all add: decode_op_def map_of_decoders decoders_def)

lemma lift_defined:
  "\<exists>x. a = Some x \<Longrightarrow> \<exists>y. lift1 f a = Some y"
  "\<exists>x. a = Some x \<Longrightarrow> \<exists>x. b = Some x \<Longrightarrow> \<exists>y. lift2 g a b = Some y"
  "\<exists>x. a = Some x \<Longrightarrow> \<exists>x. b = Some x \<Longrightarrow> \<exists>x. c = Some x \<Longrightarrow> \<exists>y. lift3 h a b c = Some y"
  by (auto simp: lift_defs)

lemma decode_op_fields: "decode_op (u (op_name op)) (op_fields op) = Some op"
  by (cases op) (simp_all add: decode_op_def map_of_decoders decoders_def lift_defs field_def
      opt_field_def opt_entry_def split: option.splits)

end
