(* ===== verification/Spec.thy ===== *)
theory Spec
  imports YopsTypes
begin

text \<open>
  packages/yops/src/spec.ts: the normalisation that \<open>parseSpec\<close> applies to the loaded YAML (the
  YAML loader itself is a library), and the data of packages/yops/yops.yaml that the engine, the
  registry and the validator read: category, status, path fields, fields and error codes of the
  18 operations. Descriptions, rules and test cases are prose and fixtures and are left out.
\<close>

section \<open>Raw and parsed specifications\<close>

record raw_field =
  r_type :: jstring
  r_required :: "bool option"
  r_status :: "yvalue option"
  r_enum :: "jstring list option"
  r_deprecated_in :: "yvalue option"
  r_replacement_field :: "yvalue option"

record path_fields =
  primary :: "jstring option"
  source_path :: "jstring option"
  destination :: "jstring option"

record raw_op =
  r_category :: jstring
  r_op_status :: "yvalue option"
  r_path_fields :: "path_fields option"
  r_fields :: "(jstring \<times> raw_field) list option"
  r_errors :: "jstring list option"

record field_spec =
  field_type :: jstring
  required :: bool
  field_status :: jstring
  field_enum :: "jstring list option"
  deprecated_in :: "jstring option"
  replacement_field :: "jstring option"

record op_spec =
  spec_name :: jstring
  category :: jstring
  op_status :: jstring
  op_path_fields :: path_fields
  spec_fields :: "(jstring \<times> field_spec) list"
  spec_errors :: "jstring list"

type_synonym yops_spec = "(jstring \<times> op_spec) list"

datatype spec_error = MissingStatus jstring | UnknownStatus jstring | EmptyString jstring

section \<open>parseSpec\<close>

text \<open>The characters that \<open>String.prototype.trim\<close> removes.\<close>

definition is_js_space :: "code_unit \<Rightarrow> bool" where
  "is_js_space c \<longleftrightarrow> (let n = unat c in
     (9 \<le> n \<and> n \<le> 13) \<or> n = 32 \<or> n = 160 \<or> n = 0x1680 \<or> (0x2000 \<le> n \<and> n \<le> 0x200A) \<or>
     n = 0x2028 \<or> n = 0x2029 \<or> n = 0x202F \<or> n = 0x205F \<or> n = 0x3000 \<or> n = 0xFEFF)"

definition js_trim :: "jstring \<Rightarrow> jstring" where
  "js_trim s = rev (dropWhile is_js_space (rev (dropWhile is_js_space s)))"

definition STABILITY_STATUSES :: "jstring list" where
  "STABILITY_STATUSES = [u ''frozen'', u ''evolving'', u ''experimental'']"

definition parseStabilityStatus :: "yvalue option \<Rightarrow> jstring \<Rightarrow> spec_error + jstring" where
  "parseStabilityStatus v context =
     (case v of
        Some (YStr s) \<Rightarrow>
          if s = [] then Inl (MissingStatus context)
          else if s \<notin> set STABILITY_STATUSES then Inl (UnknownStatus context)
          else Inr s
      | _ \<Rightarrow> Inl (MissingStatus context))"

definition parseOptionalString :: "yvalue option \<Rightarrow> jstring \<Rightarrow> spec_error + jstring option" where
  "parseOptionalString v context =
     (case v of
        None \<Rightarrow> Inr None
      | Some (YStr s) \<Rightarrow> if js_trim s = [] then Inl (EmptyString context) else Inr (Some s)
      | Some _ \<Rightarrow> Inl (EmptyString context))"

definition bind_sum :: "'e + 'a \<Rightarrow> ('a \<Rightarrow> 'e + 'b) \<Rightarrow> 'e + 'b" where
  "bind_sum r f = (case r of Inl e \<Rightarrow> Inl e | Inr x \<Rightarrow> f x)"

text \<open>
  Plain assignment \<open>target[key] = value\<close>: the key \<open>__proto__\<close> reaches the setter of
  \<open>Object.prototype\<close> and never becomes an own property, unless there is an own one already.
\<close>

definition obj_assign :: "'v jobject \<Rightarrow> jstring \<Rightarrow> 'v \<Rightarrow> 'v jobject" where
  "obj_assign m k v = (if k = u ''__proto__'' \<and> \<not> has_own m k then m else obj_set m k v)"

definition parse_field :: "jstring \<Rightarrow> jstring \<Rightarrow> raw_field \<Rightarrow> spec_error + field_spec" where
  "parse_field opName fieldName f =
     (let ctxt = opName @ u ''.'' @ fieldName in
      bind_sum (parseStabilityStatus (r_status f) ctxt) (\<lambda>st.
      bind_sum (parseOptionalString (r_deprecated_in f) (ctxt @ u ''.deprecated_in'')) (\<lambda>dep.
      bind_sum (parseOptionalString (r_replacement_field f) (ctxt @ u ''.replacement_field'')) (\<lambda>rep.
      Inr \<lparr>field_type = r_type f, required = (r_required f \<noteq> Some False), field_status = st,
           field_enum = r_enum f, deprecated_in = dep, replacement_field = rep\<rparr>))))"

fun parse_fields :: "jstring \<Rightarrow> (jstring \<times> field_spec) list \<Rightarrow> (jstring \<times> raw_field) list \<Rightarrow>
    spec_error + (jstring \<times> field_spec) list" where
  "parse_fields opName acc [] = Inr acc"
| "parse_fields opName acc ((n, f) # rest) =
     bind_sum (parse_field opName n f) (\<lambda>fs. parse_fields opName (obj_assign acc n fs) rest)"

definition parse_op :: "jstring \<Rightarrow> raw_op \<Rightarrow> spec_error + op_spec" where
  "parse_op opName r =
     bind_sum (parseStabilityStatus (r_op_status r) opName) (\<lambda>st.
     bind_sum (parse_fields opName [] (case r_fields r of None \<Rightarrow> [] | Some fs \<Rightarrow> fs)) (\<lambda>fs.
     Inr \<lparr>spec_name = opName, category = r_category r, op_status = st,
          op_path_fields = (case r_path_fields r of
            None \<Rightarrow> \<lparr>primary = None, source_path = None, destination = None\<rparr> | Some pf \<Rightarrow> pf),
          spec_fields = fs,
          spec_errors = (case r_errors r of None \<Rightarrow> [] | Some es \<Rightarrow> es)\<rparr>))"

fun parse_ops :: "yops_spec \<Rightarrow> (jstring \<times> raw_op) list \<Rightarrow> spec_error + yops_spec" where
  "parse_ops acc [] = Inr acc"
| "parse_ops acc ((n, r) # rest) =
     bind_sum (parse_op n r) (\<lambda>os. parse_ops (obj_assign acc n os) rest)"

definition parseSpec :: "(jstring \<times> raw_op) list \<Rightarrow> spec_error + yops_spec" where
  "parseSpec raw = parse_ops [] raw"

section \<open>yops.yaml\<close>

definition frozen_field :: "string \<Rightarrow> string \<Rightarrow> bool \<Rightarrow> string list option \<Rightarrow> jstring \<times> raw_field" where
  "frozen_field n t req en = (u n, \<lparr>r_type = u t, r_required = Some req, r_status = Some (YStr (u ''frozen'')),
     r_enum = map_option (map u) en, r_deprecated_in = None, r_replacement_field = None\<rparr>)"

definition frozen_op :: "string \<Rightarrow> string \<Rightarrow> path_fields \<Rightarrow> (jstring \<times> raw_field) list \<Rightarrow> string list \<Rightarrow>
    jstring \<times> raw_op" where
  "frozen_op n cat pf fs es = (u n, \<lparr>r_category = u cat, r_op_status = Some (YStr (u ''frozen'')),
     r_path_fields = Some pf, r_fields = Some fs, r_errors = Some (map u es)\<rparr>)"

definition primary_path :: path_fields where
  "primary_path = \<lparr>primary = Some (u ''path''), source_path = None, destination = None\<rparr>"

definition from_to :: path_fields where
  "from_to = \<lparr>primary = None, source_path = Some (u ''from''), destination = Some (u ''to'')\<rparr>"

abbreviation req :: "string \<Rightarrow> string \<Rightarrow> jstring \<times> raw_field" where
  "req n t \<equiv> frozen_field n t True None"

definition raw_ddl_dml :: "(jstring \<times> raw_op) list" where
  "raw_ddl_dml =
    [frozen_op ''define'' ''ddl'' primary_path [req ''path'' ''string'']
       [''PATH_NOT_FOUND'', ''ALREADY_EXISTS'', ''NOT_A_MAPPING'', ''INVALID_PATH''],
     frozen_op ''drop'' ''ddl'' primary_path [req ''path'' ''string''] [''PATH_NOT_FOUND''],
     frozen_op ''rename'' ''ddl'' primary_path [req ''path'' ''string'', req ''to'' ''string'']
       [''PATH_NOT_FOUND'', ''ALREADY_EXISTS'', ''INVALID_PATH''],
     frozen_op ''set'' ''dml'' primary_path [req ''path'' ''string'', req ''value'' ''any''] [''INVALID_PATH''],
     frozen_op ''unset'' ''dml'' primary_path [req ''path'' ''string''] [''NOT_A_MAPPING''],
     frozen_op ''populate'' ''dml'' primary_path [req ''path'' ''string'', req ''values'' ''mapping'']
       [''PATH_NOT_FOUND'', ''NOT_A_MAPPING'', ''INVALID_PATH''],
     frozen_op ''append'' ''dml'' primary_path [req ''path'' ''string'', req ''value'' ''any'']
       [''PATH_NOT_FOUND'', ''NOT_A_SEQUENCE'']]"

definition raw_dtl_dcl :: "(jstring \<times> raw_op) list" where
  "raw_dtl_dcl =
    [frozen_op ''move'' ''dtl'' from_to [req ''from'' ''string'', req ''to'' ''string'']
       [''PATH_NOT_FOUND'', ''ALREADY_EXISTS'', ''INVALID_PATH''],
     frozen_op ''clone'' ''dtl'' from_to [req ''from'' ''string'', req ''to'' ''string'']
       [''PATH_NOT_FOUND'', ''ALREADY_EXISTS''],
     frozen_op ''nest'' ''dtl'' primary_path
       [req ''path'' ''string'', req ''keys'' ''sequence'', req ''under'' ''string'']
       [''PATH_NOT_FOUND'', ''NOT_A_MAPPING'', ''NOT_SIBLINGS'', ''ALREADY_EXISTS''],
     frozen_op ''split'' ''dtl'' primary_path [req ''path'' ''string'', req ''into'' ''mapping'']
       [''PATH_NOT_FOUND'', ''NOT_A_MAPPING'', ''ALREADY_EXISTS'', ''INVALID_OP''],
     frozen_op ''fold'' ''dtl'' primary_path [req ''path'' ''string''] [''PATH_NOT_FOUND'', ''NOT_FOLDABLE''],
     frozen_op ''merge'' ''dtl'' primary_path
       [req ''path'' ''string'', req ''keys'' ''sequence'', req ''into'' ''string'']
       [''PATH_NOT_FOUND'', ''NOT_A_MAPPING'', ''NOT_SIBLINGS''],
     frozen_op ''sort'' ''dtl'' primary_path
       [req ''path'' ''string'', frozen_field ''by'' ''string'' False None,
        frozen_field ''order'' ''string'' False (Some [''asc'', ''desc''])]
       [''PATH_NOT_FOUND'', ''NOT_A_SEQUENCE'', ''INVALID_OP''],
     frozen_op ''unique'' ''dtl'' primary_path
       [req ''path'' ''string'', frozen_field ''by'' ''string'' False None]
       [''PATH_NOT_FOUND'', ''NOT_A_SEQUENCE'', ''INVALID_OP''],
     frozen_op ''pick'' ''dtl'' primary_path [req ''path'' ''string'', req ''keys'' ''sequence'']
       [''PATH_NOT_FOUND'', ''NOT_A_MAPPING''],
     frozen_op ''omit'' ''dtl'' primary_path [req ''path'' ''string'', req ''keys'' ''sequence'']
       [''PATH_NOT_FOUND'', ''NOT_A_MAPPING''],
     frozen_op ''assert'' ''dcl'' primary_path
       [req ''path'' ''string'', frozen_field ''equals'' ''any'' False None,
        frozen_field ''exists'' ''boolean'' False None,
        frozen_field ''type'' ''string'' False (Some [''mapping'', ''sequence'', ''scalar''])]
       [''ASSERTION_FAILED'']]"

definition raw_yops :: "(jstring \<times> raw_op) list" where
  "raw_yops = raw_ddl_dml @ raw_dtl_dcl"

text \<open>\<open>parseSpec(SPEC_YAML)\<close>, the specification that the package runs with.\<close>

definition yops_spec :: yops_spec where
  "yops_spec = (case parseSpec raw_yops of Inr s \<Rightarrow> s | Inl _ \<Rightarrow> [])"

section \<open>The parsed specification\<close>

text \<open>
  On the data above every check of \<open>parseSpec\<close> passes and every key is new, so the parsed
  specification is the raw one with the defaults filled in.
\<close>

definition plain_field :: "raw_field \<Rightarrow> field_spec" where
  "plain_field f = \<lparr>field_type = r_type f, required = (r_required f \<noteq> Some False),
     field_status = u ''frozen'', field_enum = r_enum f, deprecated_in = None, replacement_field = None\<rparr>"

definition plain_op :: "jstring \<Rightarrow> raw_op \<Rightarrow> op_spec" where
  "plain_op n r = \<lparr>spec_name = n, category = r_category r, op_status = u ''frozen'',
     op_path_fields = the (r_path_fields r), spec_fields = map (\<lambda>(n, f). (n, plain_field f)) (the (r_fields r)),
     spec_errors = the (r_errors r)\<rparr>"

definition alphabetic :: "jstring \<Rightarrow> bool" where
  "alphabetic k \<longleftrightarrow> k \<noteq> [] \<and> \<not> is_digit (hd k) \<and> hd k \<noteq> cu CHR ''_''"

definition frozen_raw :: "raw_field \<Rightarrow> bool" where
  "frozen_raw f \<longleftrightarrow> r_status f = Some (YStr (u ''frozen'')) \<and> r_deprecated_in f = None \<and> r_replacement_field f = None"

lemma obj_assign_new:
  assumes "alphabetic k" "k \<notin> set (map fst m)"
  shows "obj_assign m k v = m @ [(k, v)]"
proof -
  have "k \<noteq> u ''__proto__''" using assms(1) by (auto simp: alphabetic_def u_Cons)
  moreover have "array_index k = None"
    using assms(1) by (cases k) (auto simp: alphabetic_def array_index_def)
  moreover have "\<not> has_own m k" using assms(2) by (simp add: has_own_iff)
  ultimately show ?thesis by (simp add: obj_assign_def obj_set_def)
qed

lemma fst_plain_fields: "map fst (map (\<lambda>(n, f). (n, plain_field f)) fs) = map fst fs"
  by (induction fs) auto

lemma parse_fields_frozen:
  "list_all (\<lambda>(n, f). alphabetic n \<and> frozen_raw f) fs \<Longrightarrow> distinct (map fst acc @ map fst fs) \<Longrightarrow>
     parse_fields opName acc fs = Inr (acc @ map (\<lambda>(n, f). (n, plain_field f)) fs)"
proof (induction fs arbitrary: acc)
  case (Cons e fs)
  obtain n f where e: "e = (n, f)" by fastforce
  have "parse_field opName n f = Inr (plain_field f)"
    using Cons.prems(1) by (simp add: e parse_field_def frozen_raw_def bind_sum_def parseStabilityStatus_def
        parseOptionalString_def STABILITY_STATUSES_def plain_field_def Let_def)
  moreover have "obj_assign acc n (plain_field f) = acc @ [(n, plain_field f)]"
    using Cons.prems by (intro obj_assign_new) (auto simp: e)
  moreover have "distinct (map fst (acc @ [(n, plain_field f)]) @ map fst fs)"
    using Cons.prems(2) by (simp add: e)
  ultimately show ?case
    using Cons.IH [of "acc @ [(n, plain_field f)]"] Cons.prems(1) by (simp add: e bind_sum_def)
qed simp

definition frozen_raw_op :: "raw_op \<Rightarrow> bool" where
  "frozen_raw_op r \<longleftrightarrow> r_op_status r = Some (YStr (u ''frozen'')) \<and> r_path_fields r \<noteq> None \<and> r_errors r \<noteq> None
     \<and> r_fields r \<noteq> None \<and> list_all (\<lambda>(n, f). alphabetic n \<and> frozen_raw f) (the (r_fields r))
     \<and> distinct (map fst (the (r_fields r)))"

lemma parse_ops_frozen:
  "list_all (\<lambda>(n, r). alphabetic n \<and> frozen_raw_op r) ops \<Longrightarrow>
     distinct (map fst acc @ map fst ops) \<Longrightarrow>
     parse_ops acc ops = Inr (acc @ map (\<lambda>(n, r). (n, plain_op n r)) ops)"
proof (induction ops arbitrary: acc)
  case (Cons e ops)
  obtain n r where e: "e = (n, r)" by fastforce
  have r: "frozen_raw_op r" "alphabetic n" using Cons.prems(1) by (simp_all add: e)
  have "parse_fields n [] (the (r_fields r)) = Inr ([] @ map (\<lambda>(n, f). (n, plain_field f)) (the (r_fields r)))"
    using r(1) by (intro parse_fields_frozen) (auto simp: frozen_raw_op_def comp_def)
  then have "parse_op n r = Inr (plain_op n r)"
    using r(1) by (auto simp: parse_op_def frozen_raw_op_def bind_sum_def parseStabilityStatus_def
        STABILITY_STATUSES_def plain_op_def)
  moreover have "obj_assign acc n (plain_op n r) = acc @ [(n, plain_op n r)]"
    using Cons.prems r by (intro obj_assign_new) (auto simp: e)
  moreover have "distinct (map fst (acc @ [(n, plain_op n r)]) @ map fst ops)"
    using Cons.prems(2) by (simp add: e)
  ultimately show ?case
    using Cons.IH [of "acc @ [(n, plain_op n r)]"] Cons.prems(1) by (simp add: e bind_sum_def)
qed simp

lemmas raw_defs = raw_yops_def raw_ddl_dml_def raw_dtl_dcl_def frozen_op_def frozen_field_def

lemma raw_frozen: "list_all (\<lambda>(n, r). alphabetic n \<and> frozen_raw_op r) raw_yops"
  by (simp add: raw_defs frozen_raw_op_def frozen_raw_def alphabetic_def u_Cons is_digit_cu)

lemma raw_distinct: "distinct (map fst raw_yops)"
  by (simp add: raw_defs)

lemma fst_plain_ops: "map fst (map (\<lambda>(n, r). (n, plain_op n r)) ops) = map fst ops"
  by (induction ops) auto

lemma parseSpec_yops: "parseSpec raw_yops = Inr (map (\<lambda>(n, r). (n, plain_op n r)) raw_yops)"
  using parse_ops_frozen [OF raw_frozen, of "[]"] raw_distinct
  by (simp only: parseSpec_def append_Nil list.map)

lemma yops_spec_eq: "yops_spec = map (\<lambda>(n, r). (n, plain_op n r)) raw_yops"
  by (simp add: yops_spec_def parseSpec_yops)

lemma map_of_plain_ops: "map_of (map (\<lambda>(n, r). (n, plain_op n r)) ops) n = map_option (plain_op n) (map_of ops n)"
  by (induction ops) auto

lemma yops_spec_lookup: "map_of yops_spec n = map_option (plain_op n) (map_of raw_yops n)"
  by (simp only: yops_spec_eq map_of_plain_ops)

lemma yops_spec_names: "map fst yops_spec = map u [''define'', ''drop'', ''rename'', ''set'', ''unset'', ''populate'',
    ''append'', ''move'', ''clone'', ''nest'', ''split'', ''fold'', ''merge'', ''sort'', ''unique'', ''pick'',
    ''omit'', ''assert'']"
  by (simp only: yops_spec_eq fst_plain_ops) (simp add: raw_defs)

end
