(* ===== verification/Handlers.thy ===== *)
theory Handlers
  imports YopsTypes
begin

text \<open>
  packages/yops/src/handlers: one definition per operation handler, over the typed operation.
  A handler returns a document and possibly an error, or throws (an uncaught exception of
  \<open>setAtPath\<close>, which the engine turns into an error). \<open>mutate_at\<close> is the in-place mutation of a
  node that a handler found with \<open>resolvePathSegments\<close> in its own deep clone of the document.
\<close>

datatype op_result = OpResult yvalue "yops_error option" | Throws

definition ok :: "yvalue \<Rightarrow> op_result" where
  "ok doc = OpResult doc None"

definition fail :: "yvalue \<Rightarrow> yops_error_code \<Rightarrow> nat \<Rightarrow> op_result" where
  "fail doc c i = OpResult doc (Some (yopsError c i))"

text \<open>\<open>return { doc: setAtPath(...) }\<close>: the exception of the write is not caught.\<close>

definition written :: "set_error + yvalue \<Rightarrow> op_result" where
  "written r = (case r of Inl _ \<Rightarrow> Throws | Inr doc \<Rightarrow> ok doc)"

fun mutate_at :: "yvalue \<Rightarrow> path_segment list \<Rightarrow> (yvalue \<Rightarrow> yvalue) \<Rightarrow> yvalue" where
  "mutate_at d [] f = f d"
| "mutate_at d (s # p) f =
     (case get_child d s of None \<Rightarrow> d | Some c \<Rightarrow> put_child d s (mutate_at c p f))"

text \<open>\<open>path === '' ? key : `${path}/${key}`\<close>, and the deletion loop of nest, merge and split.\<close>

definition key_path :: "jstring \<Rightarrow> jstring \<Rightarrow> jstring" where
  "key_path path key = (if path = [] then key else path @ slash # key)"

definition delete_if_present :: "jstring \<Rightarrow> yvalue \<Rightarrow> jstring \<Rightarrow> yvalue" where
  "delete_if_present path doc key =
     (case deleteAtPath doc (key_path path key) of Some doc' \<Rightarrow> doc' | None \<Rightarrow> doc)"

definition delete_keys :: "yvalue \<Rightarrow> jstring \<Rightarrow> jstring list \<Rightarrow> yvalue" where
  "delete_keys doc path keys = foldl (delete_if_present path) doc keys"

section \<open>Definition operations\<close>

definition defineHandler :: "yvalue \<Rightarrow> jstring \<Rightarrow> nat \<Rightarrow> op_result" where
  "defineHandler doc path i =
     (let segments = parsePath path
      in if \<not> list_all is_key segments then fail doc INVALID_PATH i
         else if segments = [] then fail doc INVALID_PATH i
         else let parentSegments = butlast segments
              in case (resolvePathSegments doc parentSegments, last segments) of
                   (None, _) \<Rightarrow> fail doc PATH_NOT_FOUND i
                 | (Some (YMap parent), SegKey finalKey) \<Rightarrow>
                     if has_own parent finalKey then fail doc ALREADY_EXISTS i
                     else ok (mutate_at (deepClone doc) parentSegments
                       (\<lambda>v. case v of YMap m \<Rightarrow> YMap (obj_set m finalKey (YMap [])) | _ \<Rightarrow> v))
                 | _ \<Rightarrow> fail doc NOT_A_MAPPING i)"

definition dropHandler :: "yvalue \<Rightarrow> jstring \<Rightarrow> nat \<Rightarrow> op_result" where
  "dropHandler doc path i =
     (case deleteAtPath doc path of
        None \<Rightarrow> fail doc PATH_NOT_FOUND i
      | Some result \<Rightarrow> ok result)"

definition renamed_entries ::
  "jstring \<Rightarrow> jstring \<Rightarrow> (jstring \<times> yvalue) list \<Rightarrow> (jstring \<times> yvalue) list" where
  "renamed_entries oldKey to m = obj_build (map (\<lambda>(k, v). (if k = oldKey then to else k, v)) m)"

definition renameHandler :: "yvalue \<Rightarrow> jstring \<Rightarrow> jstring \<Rightarrow> nat \<Rightarrow> op_result" where
  "renameHandler doc path to i =
     (let segments = parsePath path
      in case resolvePathSegments doc segments of
           None \<Rightarrow> fail doc PATH_NOT_FOUND i
         | Some _ \<Rightarrow>
             if segments = [] then Throws
             else (case last segments of
                 SegKey oldKey \<Rightarrow>
                   (let parentSegments = butlast segments
                    in case resolvePathSegments doc parentSegments of
                         Some (YMap parentMap) \<Rightarrow>
                           if has_own parentMap to then fail doc ALREADY_EXISTS i
                           else ok (mutate_at (deepClone doc) parentSegments
                             (\<lambda>v. case v of YMap m \<Rightarrow> YMap (renamed_entries oldKey to m) | _ \<Rightarrow> v))
                       | _ \<Rightarrow> Throws)
               | _ \<Rightarrow> fail doc INVALID_PATH i))"

section \<open>Value operations\<close>

definition setHandler :: "yvalue \<Rightarrow> jstring \<Rightarrow> yvalue \<Rightarrow> nat \<Rightarrow> op_result" where
  "setHandler doc path v i =
     (case setAtPath doc path v of
        Inr result \<Rightarrow> ok result
      | Inl _ \<Rightarrow> fail doc INVALID_PATH i)"

definition unsetHandler :: "yvalue \<Rightarrow> jstring \<Rightarrow> nat \<Rightarrow> op_result" where
  "unsetHandler doc path i =
     (let segments = parsePath path
      in if segments = [] \<or> \<not> is_key (last segments) then fail doc NOT_A_MAPPING i
         else (case resolvePathSegments doc (butlast segments) of
             None \<Rightarrow> (case deleteAtPathSegments doc segments of
                 None \<Rightarrow> ok (deepClone doc) | Some result \<Rightarrow> ok result)
           | Some (YMap _) \<Rightarrow> (case deleteAtPathSegments doc segments of
                 None \<Rightarrow> ok (deepClone doc) | Some result \<Rightarrow> ok result)
           | Some _ \<Rightarrow> fail doc NOT_A_MAPPING i))"

fun populate_loop :: "yvalue \<Rightarrow> jstring \<Rightarrow> (jstring \<times> yvalue) list \<Rightarrow> set_error + yvalue" where
  "populate_loop current path [] = Inr current"
| "populate_loop current path ((key, v) # rest) =
     (case setAtPath current (key_path path key) v of
        Inl e \<Rightarrow> Inl e
      | Inr current' \<Rightarrow> populate_loop current' path rest)"

definition populateHandler :: "yvalue \<Rightarrow> jstring \<Rightarrow> (jstring \<times> yvalue) list \<Rightarrow> nat \<Rightarrow> op_result" where
  "populateHandler doc path vs i =
     (case resolvePath doc path of
        None \<Rightarrow> fail doc PATH_NOT_FOUND i
      | Some (YMap _) \<Rightarrow> (case populate_loop doc path vs of
            Inl _ \<Rightarrow> fail doc INVALID_PATH i
          | Inr current \<Rightarrow> ok current)
      | Some _ \<Rightarrow> fail doc NOT_A_MAPPING i)"

definition appendHandler :: "yvalue \<Rightarrow> jstring \<Rightarrow> yvalue \<Rightarrow> nat \<Rightarrow> op_result" where
  "appendHandler doc path v i =
     (case resolvePath doc path of
        None \<Rightarrow> fail doc PATH_NOT_FOUND i
      | Some (YSeq target) \<Rightarrow> written (setAtPath doc path (YSeq (target @ [deepClone v])))
      | Some _ \<Rightarrow> fail doc NOT_A_SEQUENCE i)"

section \<open>Transformations of places\<close>

definition starts_with :: "jstring \<Rightarrow> jstring \<Rightarrow> bool" where
  "starts_with s prefix \<longleftrightarrow> take (length prefix) s = prefix"

definition moveHandler :: "yvalue \<Rightarrow> jstring \<Rightarrow> jstring \<Rightarrow> nat \<Rightarrow> op_result" where
  "moveHandler doc src to i =
     (if to = src then fail doc ALREADY_EXISTS i
      else if starts_with to (src @ [slash]) then fail doc INVALID_PATH i
      else case resolvePath doc src of
        None \<Rightarrow> fail doc PATH_NOT_FOUND i
      | Some sourceValue \<Rightarrow>
          if resolvePath doc to \<noteq> None then fail doc ALREADY_EXISTS i
          else (case setAtPath (deepClone doc) to sourceValue of
              Inl _ \<Rightarrow> Throws
            | Inr cloned \<Rightarrow> (case deleteAtPath cloned src of
                  None \<Rightarrow> fail doc PATH_NOT_FOUND i
                | Some deleted \<Rightarrow> ok deleted)))"

definition cloneHandler :: "yvalue \<Rightarrow> jstring \<Rightarrow> jstring \<Rightarrow> nat \<Rightarrow> op_result" where
  "cloneHandler doc src to i =
     (case resolvePath doc src of
        None \<Rightarrow> fail doc PATH_NOT_FOUND i
      | Some sourceValue \<Rightarrow>
          if resolvePath doc to \<noteq> None then fail doc ALREADY_EXISTS i
          else written (setAtPath doc to (deepClone sourceValue)))"

definition foldHandler :: "yvalue \<Rightarrow> jstring \<Rightarrow> nat \<Rightarrow> op_result" where
  "foldHandler doc path i =
     (let segments = parsePath path
      in case resolvePathSegments doc segments of
           None \<Rightarrow> fail doc PATH_NOT_FOUND i
         | Some (YMap [(childKey, child)]) \<Rightarrow>
             (case deleteAtPathSegments (deepClone doc) segments of
                None \<Rightarrow> fail doc NOT_FOLDABLE i
              | Some deleted \<Rightarrow>
                  written (setAtPathSegments deleted (butlast segments @ [SegKey childKey]) (deepClone child)))
         | Some _ \<Rightarrow> fail doc NOT_FOLDABLE i)"

section \<open>Transformations of a mapping\<close>

definition sub_mapping :: "(jstring \<times> yvalue) list \<Rightarrow> jstring list \<Rightarrow> (jstring \<times> yvalue) list" where
  "sub_mapping targetMap keys = obj_build (map (\<lambda>k. (k, deepClone (the (map_of targetMap k)))) keys)"

definition nestHandler :: "yvalue \<Rightarrow> jstring \<Rightarrow> jstring list \<Rightarrow> jstring \<Rightarrow> nat \<Rightarrow> op_result" where
  "nestHandler doc path keys underKey i =
     (case resolvePath doc path of
        None \<Rightarrow> fail doc PATH_NOT_FOUND i
      | Some (YMap targetMap) \<Rightarrow>
          if list_ex (\<lambda>k. \<not> has_own targetMap k) keys then fail doc NOT_SIBLINGS i
          else if has_own targetMap underKey \<and> underKey \<notin> set keys then fail doc ALREADY_EXISTS i
          else written (setAtPath (delete_keys (deepClone doc) path keys) (key_path path underKey)
                 (YMap (sub_mapping targetMap keys)))
      | Some _ \<Rightarrow> fail doc NOT_A_MAPPING i)"

text \<open>split: \<open>create_groups\<close> is its last loop.\<close>

fun create_groups :: "yvalue \<Rightarrow> jstring \<Rightarrow> (jstring \<times> yvalue) list \<Rightarrow> set_error + yvalue" where
  "create_groups cloned path [] = Inr cloned"
| "create_groups cloned path ((groupName, groupMap) # rest) =
     (case setAtPath cloned (key_path path groupName) groupMap of
        Inl e \<Rightarrow> Inl e
      | Inr cloned' \<Rightarrow> create_groups cloned' path rest)"

definition splitHandler ::
  "yvalue \<Rightarrow> jstring \<Rightarrow> (jstring \<times> jstring list) list \<Rightarrow> nat \<Rightarrow> op_result" where
  "splitHandler doc path into i =
     (case resolvePath doc path of
        None \<Rightarrow> fail doc PATH_NOT_FOUND i
      | Some (YMap targetMap) \<Rightarrow>
          (let sourceKeys = concat (map snd into); allMovedKeys = remdups sourceKeys
           in if \<not> distinct sourceKeys then fail doc INVALID_OP i
              else if list_ex (\<lambda>k. \<not> has_own targetMap k) sourceKeys then fail doc PATH_NOT_FOUND i
              else if list_ex (\<lambda>g. has_own targetMap g \<and> g \<notin> set allMovedKeys) (map fst into)
              then fail doc ALREADY_EXISTS i
              else let groups = obj_build (map (\<lambda>(g, ks). (g, YMap (sub_mapping targetMap ks))) into)
                   in written (create_groups (delete_keys (deepClone doc) path allMovedKeys) path groups))
      | Some _ \<Rightarrow> fail doc NOT_A_MAPPING i)"

fun is_mapping :: "yvalue \<Rightarrow> bool" where
  "is_mapping (YMap _) = True"
| "is_mapping _ = False"

definition entries_of :: "yvalue \<Rightarrow> (jstring \<times> yvalue) list" where
  "entries_of v = (case v of YMap m \<Rightarrow> m | _ \<Rightarrow> [])"

definition merged_mapping :: "(jstring \<times> yvalue) list \<Rightarrow> jstring list \<Rightarrow> (jstring \<times> yvalue) list" where
  "merged_mapping targetMap keys =
     obj_build (concat (map (\<lambda>k. entries_of (deepClone (the (map_of targetMap k)))) keys))"

definition mergeHandler :: "yvalue \<Rightarrow> jstring \<Rightarrow> jstring list \<Rightarrow> jstring \<Rightarrow> nat \<Rightarrow> op_result" where
  "mergeHandler doc path keys into i =
     (case resolvePath doc path of
        None \<Rightarrow> fail doc PATH_NOT_FOUND i
      | Some (YMap targetMap) \<Rightarrow>
          if list_ex (\<lambda>k. \<not> has_own targetMap k) keys then fail doc NOT_SIBLINGS i
          else if list_ex (\<lambda>k. \<not> is_mapping (the (map_of targetMap k))) keys then fail doc NOT_A_MAPPING i
          else written (setAtPath (delete_keys (deepClone doc) path keys) (key_path path into)
                 (YMap (merged_mapping targetMap keys)))
      | Some _ \<Rightarrow> fail doc NOT_A_MAPPING i)"

definition keep_entries :: "(jstring \<Rightarrow> bool) \<Rightarrow> (jstring \<times> yvalue) list \<Rightarrow> (jstring \<times> yvalue) list" where
  "keep_entries P m = obj_build (map (map_prod id deepClone) (filter (\<lambda>(k, v). P k) m))"

definition pickHandler :: "yvalue \<Rightarrow> jstring \<Rightarrow> jstring list \<Rightarrow> nat \<Rightarrow> op_result" where
  "pickHandler doc path keys i =
     (case resolvePath doc path of
        None \<Rightarrow> fail doc PATH_NOT_FOUND i
      | Some (YMap targetMap) \<Rightarrow>
          written (setAtPath doc path (YMap (keep_entries (\<lambda>k. k \<in> set keys) targetMap)))
      | Some _ \<Rightarrow> fail doc NOT_A_MAPPING i)"

definition omitHandler :: "yvalue \<Rightarrow> jstring \<Rightarrow> jstring list \<Rightarrow> nat \<Rightarrow> op_result" where
  "omitHandler doc path keys i =
     (case resolvePath doc path of
        None \<Rightarrow> fail doc PATH_NOT_FOUND i
      | Some (YMap targetMap) \<Rightarrow>
          written (setAtPath doc path (YMap (keep_entries (\<lambda>k. k \<notin> set keys) targetMap)))
      | Some _ \<Rightarrow> fail doc NOT_A_MAPPING i)"

section \<open>Transformations of a sequence\<close>

definition item_has_key :: "jstring \<Rightarrow> yvalue \<Rightarrow> bool" where
  "item_has_key by item = (case item of YMap m \<Rightarrow> has_own m by | _ \<Rightarrow> False)"

definition item_key :: "jstring option \<Rightarrow> yvalue \<Rightarrow> yvalue" where
  "item_key by item = (case by of
     None \<Rightarrow> item
   | Some k \<Rightarrow> (case item of YMap m \<Rightarrow> the (map_of m k) | _ \<Rightarrow> YNull))"

definition sort_compare :: "jstring option \<Rightarrow> sort_order \<Rightarrow> yvalue \<Rightarrow> yvalue \<Rightarrow> int" where
  "sort_compare by order a b =
     (let cmp = compareYValues (item_key by a) (item_key by b)
      in if order = Desc then - cmp else cmp)"

definition keys_missing :: "jstring option \<Rightarrow> yvalue list \<Rightarrow> bool" where
  "keys_missing by items = (case by of None \<Rightarrow> False | Some k \<Rightarrow> \<not> list_all (item_has_key k) items)"

definition sortHandler ::
  "yvalue \<Rightarrow> jstring \<Rightarrow> jstring option \<Rightarrow> sort_order option \<Rightarrow> nat \<Rightarrow> op_result" where
  "sortHandler doc path by order i =
     (case resolvePath doc path of
        None \<Rightarrow> fail doc PATH_NOT_FOUND i
      | Some (YSeq target) \<Rightarrow>
          (let clonedArr = map deepClone target
           in if keys_missing by clonedArr then fail doc INVALID_OP i
              else written (setAtPath doc path
                (YSeq (js_sort (sort_compare by (case order of Some r \<Rightarrow> r | None \<Rightarrow> Asc)) clonedArr))))
      | Some _ \<Rightarrow> fail doc NOT_A_SEQUENCE i)"

text \<open>The loop of unique: \<open>seen\<close> is the set of canonical texts met so far.\<close>

fun unique_loop :: "jstring option \<Rightarrow> jstring set \<Rightarrow> yvalue list \<Rightarrow> yvalue list" where
  "unique_loop by seen [] = []"
| "unique_loop by seen (item # rest) =
     (let key = canonicalKey (item_key by item)
      in if key \<in> seen then unique_loop by seen rest
         else deepClone item # unique_loop by (insert key seen) rest)"

definition uniqueHandler :: "yvalue \<Rightarrow> jstring \<Rightarrow> jstring option \<Rightarrow> nat \<Rightarrow> op_result" where
  "uniqueHandler doc path by i =
     (case resolvePath doc path of
        None \<Rightarrow> fail doc PATH_NOT_FOUND i
      | Some (YSeq target) \<Rightarrow>
          if keys_missing by target then fail doc INVALID_OP i
          else written (setAtPath doc path (YSeq (unique_loop by {} target)))
      | Some _ \<Rightarrow> fail doc NOT_A_SEQUENCE i)"

section \<open>Control\<close>

fun kind_of :: "yvalue \<Rightarrow> node_kind" where
  "kind_of (YSeq _) = Sequence"
| "kind_of (YMap _) = Mapping"
| "kind_of _ = Scalar"

definition assertHandler ::
  "yvalue \<Rightarrow> jstring \<Rightarrow> yvalue option \<Rightarrow> bool option \<Rightarrow> node_kind option \<Rightarrow> nat \<Rightarrow> op_result" where
  "assertHandler doc path equals exists kind i =
     (let v = resolvePath doc path; pathExists = v \<noteq> None
      in if exists = Some True \<and> \<not> pathExists then fail doc ASSERTION_FAILED i
         else if exists = Some False \<and> pathExists then fail doc ASSERTION_FAILED i
         else if (case equals of None \<Rightarrow> False
                  | Some e \<Rightarrow> (case v of None \<Rightarrow> True | Some w \<Rightarrow> canonicalKey w \<noteq> canonicalKey e))
         then fail doc ASSERTION_FAILED i
         else if (case kind of None \<Rightarrow> False
                  | Some t \<Rightarrow> (case v of None \<Rightarrow> True | Some w \<Rightarrow> kind_of w \<noteq> t))
         then fail doc ASSERTION_FAILED i
         else ok doc)"

section \<open>The registered handlers\<close>

fun handle :: "yop \<Rightarrow> yvalue \<Rightarrow> nat \<Rightarrow> op_result" where
  "handle (Define p) doc i = defineHandler doc p i"
| "handle (Drop p) doc i = dropHandler doc p i"
| "handle (Rename p t) doc i = renameHandler doc p t i"
| "handle (SetOp p v) doc i = setHandler doc p v i"
| "handle (Unset p) doc i = unsetHandler doc p i"
| "handle (Populate p vs) doc i = populateHandler doc p vs i"
| "handle (Append p v) doc i = appendHandler doc p v i"
| "handle (Move f t) doc i = moveHandler doc f t i"
| "handle (Clone f t) doc i = cloneHandler doc f t i"
| "handle (Nest p ks n) doc i = nestHandler doc p ks n i"
| "handle (Split p gs) doc i = splitHandler doc p gs i"
| "handle (Fold p) doc i = foldHandler doc p i"
| "handle (Merge p ks n) doc i = mergeHandler doc p ks n i"
| "handle (Sort p b r) doc i = sortHandler doc p b r i"
| "handle (Unique p b) doc i = uniqueHandler doc p b i"
| "handle (Pick p ks) doc i = pickHandler doc p ks i"
| "handle (Omit p ks) doc i = omitHandler doc p ks i"
| "handle (Assert p e x t) doc i = assertHandler doc p e x t i"

end
