(* ===== verification/SameDoc.thy ===== *)
theory SameDoc
  imports Handlers
begin

text \<open>
  Two well-formed values that are the same abstract document, and that every operation the
  handlers are made of respects this relation. \<open>same v v\<close> is well-formedness, so one statement
  gives both preservation of the invariant and independence of the order of mapping keys.
\<close>

definition same :: "yvalue \<Rightarrow> yvalue \<Rightarrow> bool" where
  "same v w \<longleftrightarrow> wf_yvalue v \<and> wf_yvalue w \<and> abs_val v = abs_val w"

named_theorems same_intros \<open>operations respect sameness of documents\<close>

lemma same_refl [simp]: "same v v \<longleftrightarrow> wf_yvalue v"
  by (simp add: same_def)

lemma same_sym: "same v w \<Longrightarrow> same w v"
  by (simp add: same_def)

lemma same_trans: "same v w \<Longrightarrow> same w x \<Longrightarrow> same v x"
  by (simp add: same_def)

lemma same_wf: "same v w \<Longrightarrow> wf_yvalue v" "same v w \<Longrightarrow> wf_yvalue w"
  by (simp_all add: same_def)

lemma same_canonicalKey: "same v w \<Longrightarrow> canonicalKey v = canonicalKey w"
  by (simp add: same_def canonicalKey_cong)

lemma same_iff_canonicalKey:
  "wf_yvalue v \<Longrightarrow> wf_yvalue w \<Longrightarrow> same v w \<longleftrightarrow> canonicalKey v = canonicalKey w"
  by (simp add: same_def canonicalKey_eq_iff_abs)

lemma same_cases [consumes 1, case_names Scalar Seq Map]:
  assumes "same v w"
  obtains "v = w" "\<not> is_object_or_array v"
    | xs ys where "v = YSeq xs" "w = YSeq ys" "list_all2 same xs ys"
    | m m' where "v = YMap m" "w = YMap m'" "same (YMap m) (YMap m')"
proof (cases v)
  case (YSeq xs)
  with assms obtain ys where w: "w = YSeq ys" by (cases w) (auto simp: same_def)
  have "list_all2 same xs ys"
    using assms by (auto simp: YSeq w same_def map_eq_map_iff list_all_iff list_all2_conv_all_nth)
  with that(2) YSeq w show thesis by blast
next
  case (YMap m)
  with assms obtain m' where "w = YMap m'" by (cases w) (auto simp: same_def)
  with that(3) YMap assms show thesis by blast
qed (use assms that(1) in \<open>cases w; auto simp: same_def\<close>)+

lemma same_Seq_iff [simp]: "same (YSeq xs) (YSeq ys) \<longleftrightarrow> list_all2 same xs ys"
  by (auto simp: same_def map_eq_map_iff list_all_length list_all2_conv_all_nth)

lemma same_MapD: "same (YMap m) w \<Longrightarrow> \<exists>m'. w = YMap m'"
  by (cases w) (auto simp: same_def)

lemma same_Map_iff:
  "same (YMap m) (YMap m') \<longleftrightarrow> wf_yvalue (YMap m) \<and> wf_yvalue (YMap m')
     \<and> (\<forall>k. map_option abs_val (map_of m k) = map_option abs_val (map_of m' k))"
  by (simp add: same_def abs_obj_eq_iff)

lemma same_Map_lookup: "same (YMap m) (YMap m') \<Longrightarrow> rel_option same (map_of m k) (map_of m' k)"
proof -
  assume s: "same (YMap m) (YMap m')"
  then have "map_option abs_val (map_of m k) = map_option abs_val (map_of m' k)"
    by (simp only: same_Map_iff)
  moreover have "wf_yvalue v" if "map_of m k = Some v" for v
    using s that by (auto simp only: same_Map_iff intro: wf_map_lookup)
  moreover have "wf_yvalue v" if "map_of m' k = Some v" for v
    using s that by (auto simp only: same_Map_iff intro: wf_map_lookup)
  ultimately show ?thesis by (cases "map_of m k"; cases "map_of m' k") (auto simp: same_def)
qed

lemma same_has_own: "same (YMap m) (YMap m') \<Longrightarrow> has_own m k = has_own m' k"
  using same_Map_lookup [of m m' k] by (auto simp: has_own_def elim: option.rel_cases)

lemma same_obj_set [same_intros]:
  "same (YMap m) (YMap m') \<Longrightarrow> same v v' \<Longrightarrow> same (YMap (obj_set m k v)) (YMap (obj_set m' k v'))"
  unfolding same_Map_iff by (auto simp: same_def intro!: wf_obj_set wf_entries_obj_set)

lemma same_obj_delete [same_intros]:
  "same (YMap m) (YMap m') \<Longrightarrow> same (YMap (obj_delete m k)) (YMap (obj_delete m' k))"
  unfolding same_Map_iff by (auto intro!: wf_obj_delete wf_entries_obj_delete)

lemma same_obj_set_all [same_intros]:
  "same (YMap m) (YMap m') \<Longrightarrow> list_all2 (rel_prod (=) same) xs ys \<Longrightarrow>
     same (YMap (obj_set_all m xs)) (YMap (obj_set_all m' ys))"
proof (induction xs arbitrary: m m' ys)
  case (Cons x xs)
  then obtain k v v' ys' where "x = (k, v)" "ys = (k, v') # ys'" "same v v'"
      "list_all2 (rel_prod (=) same) xs ys'"
    by (cases x) (auto simp: list_all2_Cons1)
  then show ?case
    using Cons.IH [of "obj_set m k v" "obj_set m' k v'" ys'] Cons.prems(1)
    by (simp add: obj_set_all_def same_obj_set)
qed (simp add: obj_set_all_def)

lemma same_obj_set_all_map [same_intros]:
  assumes "same (YMap m) (YMap m')" "same (YMap e) (YMap e')"
  shows "same (YMap (obj_set_all m e)) (YMap (obj_set_all m' e'))"
proof -
  have rev: "map_of (rev e) = map_of e" if "wf_yvalue (YMap e)" for e
    using that wf_keys_distinct [of "map fst e"] by (intro map_of_permute) (simp_all add: rev_map [symmetric])
  have w: "wf_yvalue (YMap e)" "wf_yvalue (YMap e')" using assms(2) same_wf by blast+
  have "map_option abs_val (map_of (obj_set_all m e) k) = map_option abs_val (map_of (obj_set_all m' e') k)" for k
  proof -
    have "map_option abs_val (map_of m k) = map_option abs_val (map_of m' k)"
      and "map_option abs_val (map_of e k) = map_option abs_val (map_of e' k)"
      using assms unfolding same_Map_iff by blast+
    then show ?thesis
      unfolding map_of_obj_set_all rev [OF w(1)] rev [OF w(2)] by (auto split: option.splits)
  qed
  then show ?thesis
    using assms by (auto simp: same_Map_iff intro: wf_obj_set_all wf_entries_obj_set_all)
qed

section \<open>Paths\<close>

lemma resolve_same: "same d d' \<Longrightarrow> rel_option same (resolvePathSegments d p) (resolvePathSegments d' p)"
proof -
  assume s: "same d d'"
  then have "map_option abs_val (resolvePathSegments d p) = map_option abs_val (resolvePathSegments d' p)"
    by (simp add: same_def flip: resolve_abs)
  then show ?thesis
    using s resolve_wf [of d p] resolve_wf [of d' p]
    by (cases "resolvePathSegments d p"; cases "resolvePathSegments d' p") (auto simp: same_def)
qed

lemma set_same:
  "same d d' \<Longrightarrow> same v v' \<Longrightarrow> rel_sum (=) same (setAtPathSegments d p v) (setAtPathSegments d' p v')"
proof -
  assume s: "same d d'" "same v v'"
  have "map_sum_right abs_val (setRecursive d p v) = map_sum_right abs_val (setRecursive d' p v')"
    using s setRecursive_abs [of v d p] setRecursive_abs [of v' d' p] by (simp add: same_def)
  then show ?thesis
    using s setRecursive_wf [of d p v] setRecursive_wf [of d' p v']
    by (cases "setRecursive d p v"; cases "setRecursive d' p v'")
       (auto simp: same_def setAtPathSegments_eq)
qed

lemma delete_same: "same d d' \<Longrightarrow> rel_option same (deleteAtPathSegments d p) (deleteAtPathSegments d' p)"
proof -
  assume s: "same d d'"
  then have "map_option abs_val (deleteRecursive d p) = map_option abs_val (deleteRecursive d' p)"
    by (simp add: same_def flip: deleteRecursive_abs)
  then show ?thesis
    using s deleteRecursive_wf [of d p] deleteRecursive_wf [of d' p]
    by (cases "deleteRecursive d p"; cases "deleteRecursive d' p")
       (auto simp: same_def deleteAtPathSegments_eq)
qed

lemma put_child_same:
  "same d d' \<Longrightarrow> same c c' \<Longrightarrow> same (put_child d s c) (put_child d' s c')"
proof -
  assume s: "same d d'" "same c c'"
  have "abs_val (put_child d s c) = abs_val (put_child d' s c')"
    using s by (simp add: same_def flip: aput_abs)
  with s show ?thesis by (simp add: same_def put_child_wf)
qed

lemma get_child_same: "same d d' \<Longrightarrow> rel_option same (get_child d s) (get_child d' s)"
  using resolve_same [of d d' "[s]"] by (simp add: path_op_simps)

lemma mutate_same:
  "same d d' \<Longrightarrow>
    (\<And>v w. resolvePathSegments d p = Some v \<Longrightarrow> resolvePathSegments d' p = Some w \<Longrightarrow> same v w \<Longrightarrow>
       same (f v) (f w)) \<Longrightarrow>
    same (mutate_at d p f) (mutate_at d' p f)"
proof (induction p arbitrary: d d')
  case (Cons s p)
  from get_child_same [OF Cons.prems(1), of s] show ?case
  proof (cases rule: option.rel_cases)
    case (Some c c')
    have "same (mutate_at c p f) (mutate_at c' p f)"
      by (rule Cons.IH [OF Some(3)], rule Cons.prems(2)) (simp_all add: path_op_simps Some(1,2))
    with Some Cons.prems(1) show ?thesis by (simp add: put_child_same)
  qed (use Cons.prems(1) in simp)
qed simp

lemma resolve_append:
  "resolvePathSegments d (p @ q) = Option.bind (resolvePathSegments d p) (\<lambda>c. resolvePathSegments c q)"
  by (induction p arbitrary: d) (auto simp: path_op_simps split: bind_splits)

lemma resolve_last_key:
  assumes "p \<noteq> []" "last p = SegKey k" "resolvePathSegments d p = Some v"
  shows "\<exists>m. resolvePathSegments d (butlast p) = Some (YMap m) \<and> map_of m k = Some v"
proof -
  have "p = butlast p @ [SegKey k]" using assms(1,2) by (metis append_butlast_last_id)
  then have "Option.bind (resolvePathSegments d (butlast p)) (\<lambda>c. get_child c (SegKey k)) = Some v"
    using assms(3) resolve_append [of d "butlast p" "[SegKey k]"] by (simp add: path_op_simps)
  then obtain c where c: "resolvePathSegments d (butlast p) = Some c" "get_child c (SegKey k) = Some v"
    by (auto simp: bind_eq_Some_conv)
  then show ?thesis by (cases c) (auto simp: get_child_def seg_pos_def)
qed

lemma deepClone_same: "same v w \<Longrightarrow> same (deepClone v) (deepClone w)"
  by (simp add: same_def deepClone_id)

end
