(* ===== verification/HandlerLaws.thy ===== *)
theory HandlerLaws
  imports SameDoc
begin

text \<open>
  The contract that every handler of packages/yops/src/handlers keeps and the engine relies on,
  as the locale \<open>op_handler\<close>: on documents that agree up to the order of mapping keys the results
  agree in the same sense (in particular the result is well formed), and an error comes with the
  unchanged document and the index of the operation. It is interpreted on \<open>handle\<close>.
\<close>

definition same_result :: "op_result \<Rightarrow> op_result \<Rightarrow> bool" where
  "same_result r r' = (case (r, r') of
     (OpResult d e, OpResult d' e') \<Rightarrow> same d d' \<and> e = e'
   | (Throws, Throws) \<Rightarrow> True
   | _ \<Rightarrow> False)"

lemma same_result_simps [simp]:
  "same_result Throws Throws"
  "same_result (ok d) (ok d') \<longleftrightarrow> same d d'"
  "same_result (fail d c i) (fail d' c i) \<longleftrightarrow> same d d'"
  "same_result (OpResult d e) (OpResult d' e') \<longleftrightarrow> same d d' \<and> e = e'"
  by (auto simp: same_result_def ok_def fail_def)

lemma written_same: "rel_sum (=) same r r' \<Longrightarrow> same_result (written r) (written r')"
  by (auto simp: written_def elim: rel_sum.cases)

section \<open>Case distinctions on a resolved node\<close>

lemma on_value:
  "rel_option same x y \<Longrightarrow> same_result n n' \<Longrightarrow> (\<And>v w. same v w \<Longrightarrow> same_result (f v) (f' w)) \<Longrightarrow>
     same_result (case x of None \<Rightarrow> n | Some v \<Rightarrow> f v) (case y of None \<Rightarrow> n' | Some v \<Rightarrow> f' v)"
  by (erule option.rel_cases) simp_all

lemma on_mapping:
  assumes "same v w" "same_result e e'" "\<And>m m'. same (YMap m) (YMap m') \<Longrightarrow> same_result (f m) (f' m')"
  shows "same_result (case v of YMap m \<Rightarrow> f m | _ \<Rightarrow> e) (case w of YMap m \<Rightarrow> f' m | _ \<Rightarrow> e')"
  using assms(1)
proof (cases rule: same_cases)
  case Scalar
  with assms(2) show ?thesis by (cases w) auto
qed (simp_all only: yvalue.case assms(2,3))

lemma on_sequence:
  assumes "same v w" "same_result e e'" "\<And>xs ys. list_all2 same xs ys \<Longrightarrow> same_result (f xs) (f' ys)"
  shows "same_result (case v of YSeq xs \<Rightarrow> f xs | _ \<Rightarrow> e) (case w of YSeq xs \<Rightarrow> f' xs | _ \<Rightarrow> e')"
  using assms(1)
proof (cases rule: same_cases)
  case Scalar
  with assms(2) show ?thesis by (cases w) auto
qed (simp_all only: yvalue.case assms(2,3))

lemma on_mapping_self:
  assumes "same v w" "\<And>m m'. same (YMap m) (YMap m') \<Longrightarrow> same (f m) (f' m')"
  shows "same (case v of YMap m \<Rightarrow> f m | _ \<Rightarrow> v) (case w of YMap m \<Rightarrow> f' m | _ \<Rightarrow> w)"
  using assms(1)
proof (cases rule: same_cases)
  case Scalar
  with assms(1) show ?thesis by (cases w) auto
next
  case (Seq xs ys)
  with assms(1) show ?thesis by simp
qed (simp_all only: yvalue.case assms(2))

lemma on_set:
  assumes "rel_sum (=) same x y" "\<And>e. same_result (f e) (f' e)" "\<And>v w. same v w \<Longrightarrow> same_result (g v) (g' w)"
  shows "same_result (case x of Inl e \<Rightarrow> f e | Inr v \<Rightarrow> g v) (case y of Inl e \<Rightarrow> f' e | Inr v \<Rightarrow> g' v)"
  using assms by (auto elim: rel_sum.cases)

lemma on_if:
  "b = b' \<Longrightarrow> (b \<Longrightarrow> same_result x x') \<Longrightarrow> (\<not> b \<Longrightarrow> same_result y y') \<Longrightarrow>
     same_result (if b then x else y) (if b' then x' else y')"
  by simp

lemma resolvePath_same: "same d d' \<Longrightarrow> rel_option same (resolvePath d p) (resolvePath d' p)"
  by (simp add: resolvePath_def resolve_same)

lemma setAtPath_same:
  "same d d' \<Longrightarrow> same v v' \<Longrightarrow> rel_sum (=) same (setAtPath d p v) (setAtPath d' p v')"
  by (simp add: setAtPath_def set_same)

lemma deleteAtPath_same: "same d d' \<Longrightarrow> rel_option same (deleteAtPath d p) (deleteAtPath d' p)"
  by (simp add: deleteAtPath_def delete_same)

lemma rel_option_None_iff: "rel_option R x y \<Longrightarrow> (x = None) = (y = None)"
  by (auto elim: option.rel_cases)

section \<open>Each handler respects sameness\<close>

lemma last_key: "list_all is_key segs \<Longrightarrow> segs \<noteq> [] \<Longrightarrow> \<exists>k. last segs = SegKey k"
  by (metis is_key.elims(2) last_in_set list_all_iff)

lemma define_same: "same d d' \<Longrightarrow> same_result (defineHandler d p i) (defineHandler d' p i)"
proof -
  assume s: "same d d'"
  let ?segs = "parsePath p"
  show ?thesis
  proof (cases "list_all is_key ?segs \<and> ?segs \<noteq> []")
    case True
    then obtain k where k: "last ?segs = SegKey k" using last_key by blast
    show ?thesis
      unfolding defineHandler_def Let_def k
      by (simp add: True split del: if_split,
          intro on_value on_mapping on_if resolve_same s)
         (auto simp: s same_has_own intro!: mutate_same deepClone_same s on_mapping_self same_obj_set)
  qed (use s in \<open>auto simp: defineHandler_def Let_def\<close>)
qed

lemma drop_same: "same d d' \<Longrightarrow> same_result (dropHandler d p i) (dropHandler d' p i)"
  unfolding dropHandler_def by (intro on_value deleteAtPath_same) simp_all

lemma renamed_lookup:
  assumes "to \<notin> set (map fst m)" "oldKey \<noteq> to"
  shows "map_of (map (\<lambda>(k, v). (if k = oldKey then to else k, v)) m) k =
     (if k = to then map_of m oldKey else if k = oldKey then None else map_of m k)"
  using assms
proof (induction m)
  case (Cons e m)
  obtain a b where e: "e = (a, b)" by fastforce
  have "to \<notin> set (map fst m)" "a \<noteq> to" using Cons.prems by (auto simp: e)
  with Cons show ?case by (cases "a = oldKey"; cases "k = to"; cases "k = oldKey") (simp_all add: e)
qed simp

lemma renamed_entries_lookup:
  assumes "wf_object m" "to \<notin> set (map fst m)" "oldKey \<in> set (map fst m)"
  shows "map_of (renamed_entries oldKey to m) k =
     (if k = to then map_of m oldKey else if k = oldKey then None else map_of m k)"
proof -
  let ?r = "\<lambda>(k, v). (if k = oldKey then to else k, v)"
  have "oldKey \<noteq> to" using assms(2,3) by blast
  have d: "distinct (map fst m)" using assms(1) by (rule wf_keys_distinct)
  have "map fst (map ?r m) = map (\<lambda>k. if k = oldKey then to else k) (map fst m)"
    by (simp add: split_beta comp_def)
  moreover have "distinct (map (\<lambda>k. if k = oldKey then to else k) (map fst m))"
    using d assms(2) by (auto simp: distinct_map inj_on_def)
  ultimately have d': "distinct (map fst (map ?r m))" by metis
  then have "map_of (rev (map ?r m)) = map_of (map ?r m)"
    by (intro map_of_permute) (simp_all add: rev_map [symmetric])
  then have "map_of (renamed_entries oldKey to m) k = map_of (map ?r m) k"
    by (simp add: renamed_entries_def map_of_obj_set_all split: option.split)
  also have "\<dots> = (if k = to then map_of m oldKey else if k = oldKey then None else map_of m k)"
    using assms(2) \<open>oldKey \<noteq> to\<close> by (rule renamed_lookup)
  finally show ?thesis .
qed

lemma renamed_same:
  assumes "same (YMap m) (YMap m')" "\<not> has_own m to" "has_own m oldKey"
  shows "same (YMap (renamed_entries oldKey to m)) (YMap (renamed_entries oldKey to m'))"
proof -
  have m': "\<not> has_own m' to" "has_own m' oldKey" using assms same_has_own by blast+
  have wf: "wf_yvalue (YMap (renamed_entries oldKey to e))" if "wf_yvalue (YMap e)" for e
    unfolding renamed_entries_def using that
    by (intro wf_map_obj_build) (auto simp: wf_entries_iff)
  have "map_option abs_val (map_of (renamed_entries oldKey to m) k) =
      map_option abs_val (map_of (renamed_entries oldKey to m') k)" for k
    using assms m' unfolding same_Map_iff by (simp add: renamed_entries_lookup has_own_iff)
  then show ?thesis using assms(1) wf unfolding same_Map_iff by blast
qed

lemma rename_same: "same d d' \<Longrightarrow> same_result (renameHandler d p t i) (renameHandler d' p t i)"
proof -
  assume s: "same d d'"
  let ?segs = "parsePath p"
  have wf: "wf_yvalue d" "wf_yvalue d'" using s same_wf by blast+
  from resolve_same [OF s, of ?segs] show ?thesis
  proof (cases rule: option.rel_cases)
    case None
    with s show ?thesis by (simp add: renameHandler_def)
  next
    case (Some v v')
    show ?thesis
    proof (cases "?segs \<noteq> [] \<and> is_key (last ?segs)")
      case True
      then obtain k where k: "last ?segs = SegKey k" by (cases "last ?segs") auto
      obtain m where m: "resolvePathSegments d (butlast ?segs) = Some (YMap m)" "map_of m k = Some v"
        using resolve_last_key [OF _ k Some(1)] True by blast
      obtain m' where m': "resolvePathSegments d' (butlast ?segs) = Some (YMap m')" "map_of m' k = Some v'"
        using resolve_last_key [OF _ k Some(2)] True by blast
      have mm: "same (YMap m) (YMap m')" using resolve_same [OF s, of "butlast ?segs"] m m' by simp
      have "same (mutate_at d (butlast ?segs) f) (mutate_at d' (butlast ?segs) f)"
        if "\<not> has_own m t" and f: "f = (\<lambda>v. case v of YMap m \<Rightarrow> YMap (renamed_entries k t m) | _ \<Rightarrow> v)" for f
      proof (rule mutate_same [OF s])
        fix v w assume "resolvePathSegments d (butlast ?segs) = Some v" "resolvePathSegments d' (butlast ?segs) = Some w"
        then have "v = YMap m" "w = YMap m'" using m m' by simp_all
        moreover have "has_own m k" using m(2) by (simp add: has_own_def)
        ultimately show "same (f v) (f w)"
          unfolding f using renamed_same [OF mm that(1)] by (simp only: yvalue.case)
      qed
      then show ?thesis
        using True s wf same_has_own [OF mm, of t]
        by (simp add: renameHandler_def Let_def Some k m m' deepClone_id)
    next
      case False
      with s Some show ?thesis
        by (cases "last ?segs") (auto simp: renameHandler_def Let_def)
    qed
  qed
qed

lemma set_handler_same:
  "same d d' \<Longrightarrow> same v v' \<Longrightarrow> same_result (setHandler d p v i) (setHandler d' p v' i)"
  unfolding setHandler_def by (intro on_set setAtPath_same) simp_all

lemma unset_same: "same d d' \<Longrightarrow> same_result (unsetHandler d p i) (unsetHandler d' p i)"
  unfolding unsetHandler_def Let_def
  by (intro on_if refl on_value on_mapping resolve_same delete_same) (simp_all add: deepClone_same)

lemma populate_loop_same:
  "same d d' \<Longrightarrow> wf_entries vs \<Longrightarrow> rel_sum (=) same (populate_loop d p vs) (populate_loop d' p vs)"
proof (induction vs arbitrary: d d')
  case (Cons kv vs)
  obtain k v where kv: "kv = (k, v)" by fastforce
  from setAtPath_same [OF Cons.prems(1), of v v "key_path p k"] Cons.prems(2)
  have "rel_sum (=) same (setAtPath d (key_path p k) v) (setAtPath d' (key_path p k) v)" by (simp add: kv)
  then show ?case using Cons.prems(2) by (cases rule: rel_sum.cases) (simp_all add: kv Cons.IH)
qed simp

lemma populate_same:
  "same d d' \<Longrightarrow> wf_entries vs \<Longrightarrow> same_result (populateHandler d p vs i) (populateHandler d' p vs i)"
  unfolding populateHandler_def
  by (intro on_value on_mapping on_set resolvePath_same populate_loop_same) simp_all

lemma append_same:
  "same d d' \<Longrightarrow> wf_yvalue v \<Longrightarrow> same_result (appendHandler d p v i) (appendHandler d' p v i)"
  unfolding appendHandler_def
  by (intro on_value on_sequence resolvePath_same written_same setAtPath_same)
     (simp_all add: list_all2_appendI deepClone_wf)

lemma move_same: "same d d' \<Longrightarrow> same_result (moveHandler d f t i) (moveHandler d' f t i)"
  unfolding moveHandler_def
  by (intro on_if refl on_value on_set resolvePath_same setAtPath_same deleteAtPath_same deepClone_same)
     (simp_all add: rel_option_None_iff [OF resolvePath_same])

lemma clone_same: "same d d' \<Longrightarrow> same_result (cloneHandler d f t i) (cloneHandler d' f t i)"
  unfolding cloneHandler_def
  by (intro on_if refl on_value written_same resolvePath_same setAtPath_same deepClone_same)
     (simp_all add: rel_option_None_iff [OF resolvePath_same])

lemma same_length: "same (YMap m) (YMap m') \<Longrightarrow> length m = length m'"
proof -
  assume s: "same (YMap m) (YMap m')"
  then have "abs_obj m = abs_obj m'" by (simp add: same_def)
  then have "set (map fst m) = set (map fst m')" by (rule abs_obj_keys)
  moreover have "distinct (map fst m)" "distinct (map fst m')"
    using s by (auto simp: same_def dest: wf_keys_distinct)
  ultimately show ?thesis by (metis distinct_card length_map)
qed

lemma same_singleton: "same (YMap [(k, c)]) (YMap m') \<Longrightarrow> \<exists>c'. m' = [(k, c')] \<and> same c c'"
proof -
  assume s: "same (YMap [(k, c)]) (YMap m')"
  from same_length [OF s] obtain e where "m' = [e]" by (cases m') auto
  moreover obtain k' c' where "e = (k', c')" by fastforce
  ultimately show ?thesis
    using same_Map_lookup [OF s, of k] by (auto split: if_splits)
qed

lemma fold_same: "same d d' \<Longrightarrow> same_result (foldHandler d p i) (foldHandler d' p i)"
proof -
  assume s: "same d d'"
  let ?segs = "parsePath p"
  have other: "foldHandler e p i = fail e NOT_FOLDABLE i"
    if "resolvePathSegments e ?segs = Some v" "\<nexists>k c. v = YMap [(k, c)]" for e v
    using that by (auto simp: foldHandler_def Let_def split: yvalue.splits list.splits)
  from resolve_same [OF s, of ?segs] show ?thesis
  proof (cases rule: option.rel_cases)
    case None
    with s show ?thesis by (simp add: foldHandler_def)
  next
    case (Some v v')
    show ?thesis
    proof (cases "\<exists>k c. v = YMap [(k, c)]")
      case True
      then obtain k c where v: "v = YMap [(k, c)]" by blast
      with Some(3) obtain m' where "v' = YMap m'" by (cases rule: same_cases) auto
      with Some(3) v same_singleton obtain c' where v': "v' = YMap [(k, c')]" "same c c'" by blast
      show ?thesis
        unfolding foldHandler_def Let_def Some v v'(1)
        by (simp, intro on_value written_same delete_same set_same deepClone_same s v'(2)) (simp_all add: s)
    next
      case False
      have "\<nexists>k c. v' = YMap [(k, c)]"
      proof
        assume "\<exists>k c. v' = YMap [(k, c)]"
        then obtain k c where v': "v' = YMap [(k, c)]" by blast
        from Some(3) obtain m where m: "v = YMap m" by (cases rule: same_cases) (auto simp: v')
        then have "same (YMap [(k, c)]) (YMap m)" using Some(3) v' same_sym by blast
        with m False same_singleton show False by blast
      qed
      then show ?thesis using s False other [OF Some(1)] other [OF Some(2)] by simp
    qed
  qed
qed

lemma delete_keys_same: "same d d' \<Longrightarrow> same (delete_keys d p ks) (delete_keys d' p ks)"
proof (induction ks arbitrary: d d')
  case (Cons k ks)
  have "same (delete_if_present p d k) (delete_if_present p d' k)"
    using deleteAtPath_same [OF Cons.prems, of "key_path p k"] Cons.prems
    by (cases rule: option.rel_cases) (simp_all add: delete_if_present_def)
  then show ?case using Cons.IH by (simp add: delete_keys_def)
qed (simp add: delete_keys_def)

lemma same_Nil [simp]: "same (YMap []) (YMap [])"
  by simp

lemma lookup_same:
  "same (YMap m) (YMap m') \<Longrightarrow> has_own m k \<Longrightarrow> same (the (map_of m k)) (the (map_of m' k))"
  using same_Map_lookup [of m m' k] by (auto simp: has_own_def elim: option.rel_cases)

lemma sub_mapping_same:
  assumes "same (YMap m) (YMap m')" "\<not> list_ex (\<lambda>k. \<not> has_own m k) ks"
  shows "same (YMap (sub_mapping m ks)) (YMap (sub_mapping m' ks))"
  unfolding sub_mapping_def
  by (rule same_obj_set_all [OF same_Nil])
    (use assms in \<open>auto simp: list_ex_iff list_all2_conv_all_nth intro!: deepClone_same lookup_same\<close>)

lemma nest_same: "same d d' \<Longrightarrow> same_result (nestHandler d p ks n i) (nestHandler d' p ks n i)"
  unfolding nestHandler_def
  by (intro on_value on_mapping on_if resolvePath_same written_same setAtPath_same delete_keys_same
      deepClone_same sub_mapping_same) (simp_all add: same_has_own)

lemma create_groups_same:
  "same d d' \<Longrightarrow> list_all2 (rel_prod (=) same) gs gs' \<Longrightarrow>
     rel_sum (=) same (create_groups d p gs) (create_groups d' p gs')"
proof (induction gs arbitrary: d d' gs')
  case (Cons g gs)
  then obtain k v v' gs'' where g: "g = (k, v)" "gs' = (k, v') # gs''" "same v v'"
      "list_all2 (rel_prod (=) same) gs gs''"
    by (cases g) (auto simp: list_all2_Cons1)
  from setAtPath_same [OF Cons.prems(1) g(3), of "key_path p k"] show ?case
    by (cases rule: rel_sum.cases) (simp_all add: g Cons.IH)
qed simp

text \<open>Objects with related values under the same keys in the same order.\<close>

lemma keys_rel: "list_all2 (rel_prod (=) R) m m' \<Longrightarrow> map fst m = map fst m'"
  by (induction m m' rule: list_all2_induct) auto

lemma has_own_rel: "list_all2 (rel_prod (=) R) m m' \<Longrightarrow> has_own m k = has_own m' k"
  unfolding has_own_iff using keys_rel [of R m m'] by simp

lemma insert_index_key_rel:
  "list_all2 (rel_prod (=) R) m m' \<Longrightarrow> R v v' \<Longrightarrow>
     list_all2 (rel_prod (=) R) (insert_index_key n k v m) (insert_index_key n k v' m')"
  by (induction m m' rule: list_all2_induct) (auto split: option.splits)

lemma obj_set_rel:
  assumes "list_all2 (rel_prod (=) R) m m'" "R v v'"
  shows "list_all2 (rel_prod (=) R) (obj_set m k v) (obj_set m' k v')"
proof -
  have "list_all2 (rel_prod (=) R) (map (\<lambda>(k', w). (k', if k' = k then v else w)) m)
      (map (\<lambda>(k', w). (k', if k' = k then v' else w)) m')"
    using assms by (induction m m' rule: list_all2_induct) auto
  then show ?thesis
    using assms has_own_rel [OF assms(1)]
    by (auto simp: obj_set_def insert_index_key_rel list_all2_appendI split: option.splits)
qed

lemma obj_set_all_rel:
  "list_all2 (rel_prod (=) R) xs ys \<Longrightarrow> list_all2 (rel_prod (=) R) m m' \<Longrightarrow>
     list_all2 (rel_prod (=) R) (obj_set_all m xs) (obj_set_all m' ys)"
proof (induction xs ys arbitrary: m m' rule: list_all2_induct)
  case (Cons x xs y ys)
  obtain k v v' where "x = (k, v)" "y = (k, v')" "R v v'" using Cons(1) by (cases x; cases y) auto
  with Cons show ?case by (simp add: obj_set_all_def obj_set_rel)
qed (simp add: obj_set_all_def)

lemma split_same: "same d d' \<Longrightarrow> same_result (splitHandler d p gs i) (splitHandler d' p gs i)"
proof -
  assume s: "same d d'"
  have groups: "list_all2 (rel_prod (=) same)
      (obj_build (map (\<lambda>(g, ks). (g, YMap (sub_mapping m ks))) gs))
      (obj_build (map (\<lambda>(g, ks). (g, YMap (sub_mapping m' ks))) gs))"
    if mm: "same (YMap m) (YMap m')" and own: "\<not> list_ex (\<lambda>k. \<not> has_own m k) (concat (map snd gs))" for m m'
  proof (rule obj_set_all_rel)
    have "same (YMap (sub_mapping m ks)) (YMap (sub_mapping m' ks))" if "(g, ks) \<in> set gs" for g ks
      using own that by (intro sub_mapping_same [OF mm]) (fastforce simp: list_ex_iff)
    then show "list_all2 (rel_prod (=) same) (map (\<lambda>(g, ks). (g, YMap (sub_mapping m ks))) gs)
        (map (\<lambda>(g, ks). (g, YMap (sub_mapping m' ks))) gs)"
      by (auto simp only: list_all2_map1 list_all2_map2 rel_prod_inject simp_thms intro!: list.rel_refl_strong split: prod.splits)
  qed simp
  show ?thesis
    unfolding splitHandler_def Let_def
    by (intro on_value on_mapping on_if resolvePath_same written_same create_groups_same delete_keys_same
        deepClone_same groups s refl) (simp_all add: s same_has_own)
qed

lemma entries_of_map: "is_mapping v \<Longrightarrow> YMap (entries_of v) = v"
  by (cases v) (simp_all add: entries_of_def)

lemma merged_same:
  assumes mm: "same (YMap m) (YMap m')"
    and own: "\<not> list_ex (\<lambda>k. \<not> has_own m k) ks" and maps: "\<not> list_ex (\<lambda>k. \<not> is_mapping (the (map_of m k))) ks"
  shows "same (YMap (merged_mapping m ks)) (YMap (merged_mapping m' ks))"
proof -
  let ?f = "\<lambda>m k. entries_of (deepClone (the (map_of m k)))"
  have step: "same (YMap (?f m k)) (YMap (?f m' k))" if "k \<in> set ks" for k
  proof -
    have vv: "same (the (map_of m k)) (the (map_of m' k))"
      using own that by (intro lookup_same [OF mm]) (auto simp: list_ex_iff)
    have "is_mapping (the (map_of m k))" using maps that by (auto simp: list_ex_iff)
    then obtain e where e: "the (map_of m k) = YMap e" by (cases "the (map_of m k)") auto
    from vv obtain e' where "the (map_of m' k) = YMap e'" unfolding e using same_MapD by blast
    with e vv show ?thesis using same_wf [OF vv] by (simp add: entries_of_def deepClone_id del: deepClone.simps)
  qed
  have "same (YMap (obj_set_all a (concat (map (?f m) ks)))) (YMap (obj_set_all b (concat (map (?f m') ks))))"
    if "same (YMap a) (YMap b)" for a b
    using that step
  proof (induction ks arbitrary: a b)
    case (Cons k ks)
    have "same (YMap (obj_set_all a (?f m k))) (YMap (obj_set_all b (?f m' k)))"
      by (rule same_obj_set_all_map [OF Cons.prems(1)]) (rule Cons.prems(2), simp)
    then have "same (YMap (obj_set_all (obj_set_all a (?f m k)) (concat (map (?f m) ks))))
        (YMap (obj_set_all (obj_set_all b (?f m' k)) (concat (map (?f m') ks))))"
      by (rule Cons.IH) (rule Cons.prems(2), simp)
    then show ?case by (simp add: obj_set_all_def)
  qed (simp add: obj_set_all_def)
  from this [OF same_Nil] show ?thesis unfolding merged_mapping_def .
qed

lemma merge_same: "same d d' \<Longrightarrow> same_result (mergeHandler d p ks n i) (mergeHandler d' p ks n i)"
proof -
  assume s: "same d d'"
  have maps: "list_ex (\<lambda>k. \<not> is_mapping (the (map_of m k))) ks = list_ex (\<lambda>k. \<not> is_mapping (the (map_of m' k))) ks"
    if "same (YMap m) (YMap m')" "\<not> list_ex (\<lambda>k. \<not> has_own m k) ks" for m m'
  proof (rule list_ex_cong)
    fix k assume "k \<in> set ks"
    then have "same (the (map_of m k)) (the (map_of m' k))"
      using that by (intro lookup_same) (auto simp: list_ex_iff)
    then show "(\<not> is_mapping (the (map_of m k))) = (\<not> is_mapping (the (map_of m' k)))"
      by (cases rule: same_cases) simp_all
  qed simp
  show ?thesis
    unfolding mergeHandler_def
    by (intro on_value on_mapping on_if resolvePath_same written_same setAtPath_same delete_keys_same
        deepClone_same merged_same maps s) (simp_all add: s same_has_own)
qed

lemma keep_entries_lookup:
  assumes "wf_yvalue (YMap m)"
  shows "keep_entries P m = filter (\<lambda>(k, v). P k) m"
proof -
  have "wf_yvalue v" if "(k, v) \<in> set m" for k v using assms that by (auto simp: wf_entries_iff)
  then have "map (map_prod id deepClone) (filter (\<lambda>(k, v). P k) m) = filter (\<lambda>(k, v). P k) m"
    by (intro map_idI) (auto simp: deepClone_id)
  moreover have "wf_object (filter (\<lambda>(k, v). P k) m)"
  proof -
    have "map fst (filter (\<lambda>(k, v). P k) m) = filter P (map fst m)" by (induction m) auto
    then show ?thesis using assms by (simp add: wf_keys_filter)
  qed
  ultimately show ?thesis by (simp add: keep_entries_def obj_build_wf)
qed

lemma keep_same:
  assumes "same (YMap m) (YMap m')"
  shows "same (YMap (keep_entries P m)) (YMap (keep_entries P m'))"
proof -
  have wf: "wf_yvalue (YMap (keep_entries P e))" if "wf_yvalue (YMap e)" for e
    unfolding keep_entries_def using that
    by (intro wf_map_obj_build) (auto simp: wf_entries_iff deepClone_wf)
  have "map_of (keep_entries P e) k = (if P k then map_of e k else None)" if "wf_yvalue (YMap e)" for e k
    unfolding keep_entries_lookup [OF that] by (rule map_of_filter_key)
  with assms wf show ?thesis unfolding same_Map_iff by simp
qed

lemma pick_same: "same d d' \<Longrightarrow> same_result (pickHandler d p ks i) (pickHandler d' p ks i)"
  unfolding pickHandler_def
  by (intro on_value on_mapping resolvePath_same written_same setAtPath_same keep_same) simp_all

lemma omit_same: "same d d' \<Longrightarrow> same_result (omitHandler d p ks i) (omitHandler d' p ks i)"
  unfolding omitHandler_def
  by (intro on_value on_mapping resolvePath_same written_same setAtPath_same keep_same) simp_all

lemma item_has_key_same: "same v w \<Longrightarrow> item_has_key k v = item_has_key k w"
  by (erule same_cases) (simp_all add: item_has_key_def same_has_own split: yvalue.split)

lemma keys_missing_same: "list_all2 same xs ys \<Longrightarrow> keys_missing b xs = keys_missing b ys"
  by (induction xs ys rule: list_all2_induct)
     (auto simp: keys_missing_def item_has_key_same split: option.splits)

lemma item_key_same:
  assumes "same v w" "case b of None \<Rightarrow> True | Some k \<Rightarrow> item_has_key k v"
  shows "same (item_key b v) (item_key b w)"
proof (cases b)
  case (Some k)
  then obtain m where v: "v = YMap m" "has_own m k"
    using assms(2) by (cases v) (auto simp: item_has_key_def)
  then obtain m' where "w = YMap m'" using assms(1) same_MapD by blast
  then show ?thesis using v assms(1) by (simp add: item_key_def Some lookup_same)
qed (simp add: item_key_def assms)

lemma rankOf_same: "same v w \<Longrightarrow> rankOf v = rankOf w"
  by (erule same_cases) simp_all

lemma compare_nodes:
  "is_object_or_array v \<or> is_object_or_array w \<Longrightarrow> compareYValues v w =
     (if rankOf v \<noteq> rankOf w then rankOf v - rankOf w
      else compareCodepoints (canonicalKey v) (canonicalKey w))"
  by (cases v; cases w) (simp_all add: compareYValues_def del: canonicalKey.simps)

lemma compareYValues_same:
  assumes "same v v'" "same w w'"
  shows "compareYValues v w = compareYValues v' w'"
proof (cases "is_object_or_array v \<or> is_object_or_array w")
  case True
  have "is_object_or_array x = is_object_or_array x'" if "same x x'" for x x'
    using that by (cases rule: same_cases) simp_all
  with True assms show ?thesis
    by (simp add: compare_nodes rankOf_same [OF assms(1)] rankOf_same [OF assms(2)]
        same_canonicalKey [OF assms(1)] same_canonicalKey [OF assms(2)])
next
  case False
  have "x = x'" if "same x x'" "\<not> is_object_or_array x" for x x'
    using that by (cases rule: same_cases) simp_all
  with False assms show ?thesis by blast
qed

lemma deepClone_items: "list_all2 same xs ys \<Longrightarrow> list_all2 same (map deepClone xs) (map deepClone ys)"
  by (simp add: list_all2_map1 list_all2_map2 list.rel_mono_strong deepClone_same)

lemma sort_items_same:
  assumes "list_all2 same xs ys" "\<not> keys_missing b xs"
  shows "list_all2 same (js_sort (sort_compare b r) xs) (js_sort (sort_compare b r) ys)"
  using assms(1)
proof (rule js_sort_rel)
  fix v w v' w' assume "v \<in> set xs" "w \<in> set xs" and vw: "same v v'" "same w w'"
  then have "case b of None \<Rightarrow> True | Some k \<Rightarrow> item_has_key k v"
    "case b of None \<Rightarrow> True | Some k \<Rightarrow> item_has_key k w"
    using assms(2) by (auto simp: keys_missing_def list_all_iff split: option.splits)
  then show "sort_compare b r v w = sort_compare b r v' w'"
    using vw compareYValues_same [OF item_key_same item_key_same] by (simp add: sort_compare_def)
qed

lemma sort_same: "same d d' \<Longrightarrow> same_result (sortHandler d p b r i) (sortHandler d' p b r i)"
  unfolding sortHandler_def Let_def
  by (intro on_value on_sequence on_if resolvePath_same written_same setAtPath_same)
     (simp_all add: keys_missing_same [OF deepClone_items] sort_items_same deepClone_items)

lemma unique_loop_same:
  "list_all2 same xs ys \<Longrightarrow> \<not> keys_missing b xs \<Longrightarrow> list_all2 same (unique_loop b S xs) (unique_loop b S ys)"
proof (induction xs ys arbitrary: S rule: list_all2_induct)
  case (Cons x xs y ys)
  have *: "\<not> keys_missing b xs" "case b of None \<Rightarrow> True | Some k \<Rightarrow> item_has_key k x"
    using Cons.prems by (auto simp: keys_missing_def split: option.splits)
  have "canonicalKey (item_key b x) = canonicalKey (item_key b y)"
    by (rule same_canonicalKey, rule item_key_same [OF Cons(1) *(2)])
  then show ?case
    using Cons.IH [OF *(1)] deepClone_same [OF Cons(1)] by (simp add: Let_def)
qed simp

lemma unique_same: "same d d' \<Longrightarrow> same_result (uniqueHandler d p b i) (uniqueHandler d' p b i)"
  unfolding uniqueHandler_def
  by (intro on_value on_sequence on_if resolvePath_same written_same setAtPath_same)
     (simp_all add: keys_missing_same unique_loop_same)

lemma kind_of_same: "same v w \<Longrightarrow> kind_of v = kind_of w"
  by (erule same_cases) simp_all

lemma assert_same:
  "same d d' \<Longrightarrow> same_result (assertHandler d p e x t i) (assertHandler d' p e x t i)"
  using resolvePath_same [of d d' p]
  by (cases "resolvePath d p"; cases "resolvePath d' p")
     (auto simp: assertHandler_def Let_def same_canonicalKey kind_of_same split: option.splits)

section \<open>The contract\<close>

text \<open>The values inside an operation are well formed.\<close>

fun wf_op :: "yop \<Rightarrow> bool" where
  "wf_op (SetOp _ v) = wf_yvalue v"
| "wf_op (Populate _ vs) = wf_yvalue (YMap vs)"
| "wf_op (Append _ v) = wf_yvalue v"
| "wf_op (Split _ gs) = wf_object gs"
| "wf_op (Assert _ (Some e) _ _) = wf_yvalue e"
| "wf_op _ = True"

lemma handle_same: "wf_op op \<Longrightarrow> same d d' \<Longrightarrow> same_result (handle op d i) (handle op d' i)"
  by (cases op)
     (simp_all add: define_same drop_same rename_same set_handler_same unset_same populate_same append_same
       move_same clone_same nest_same split_same fold_same merge_same sort_same unique_same pick_same
       omit_same assert_same)

definition keeps :: "yvalue \<Rightarrow> nat \<Rightarrow> op_result \<Rightarrow> bool" where
  "keeps d i r \<longleftrightarrow> (\<forall>d' e. r = OpResult d' (Some e) \<longrightarrow> d' = d \<and> op_index e = i)"

lemma keeps_simps [simp]:
  "keeps d i Throws" "keeps d i (ok d')" "keeps d i (fail d c i)" "keeps d i (written r)"
  by (auto simp: keeps_def ok_def fail_def yopsError_def written_def split: sum.splits)

lemma keeps_fold: "keeps d i (foldHandler d p i)"
  unfolding foldHandler_def Let_def
  by (cases "resolvePathSegments d (parsePath p)") (auto split: yvalue.split list.split option.split)

lemmas handler_defs = defineHandler_def dropHandler_def renameHandler_def setHandler_def unsetHandler_def
  populateHandler_def appendHandler_def moveHandler_def cloneHandler_def nestHandler_def splitHandler_def
  mergeHandler_def sortHandler_def uniqueHandler_def pickHandler_def omitHandler_def assertHandler_def

lemma handle_keeps: "keeps d i (handle op d i)"
proof (cases op)
  case (Fold p)
  then show ?thesis by (simp add: keeps_fold)
qed (simp_all add: handler_defs Let_def split: option.split yvalue.split path_segment.split sum.split)

locale op_handler =
  fixes run :: "'op \<Rightarrow> yvalue \<Rightarrow> nat \<Rightarrow> op_result"
    and valid :: "'op \<Rightarrow> bool"
  assumes respects: "valid op \<Longrightarrow> same d d' \<Longrightarrow> same_result (run op d i) (run op d' i)"
    and error_keeps: "run op d i = OpResult d' (Some e) \<Longrightarrow> d' = d \<and> op_index e = i"
begin

lemma result_wf: "valid op \<Longrightarrow> wf_yvalue d \<Longrightarrow> run op d i = OpResult d' e \<Longrightarrow> wf_yvalue d'"
  using respects [of op d d i] by simp

lemma same_outcome:
  "valid op \<Longrightarrow> same d d' \<Longrightarrow> run op d i = OpResult r None \<Longrightarrow> \<exists>r'. run op d' i = OpResult r' None \<and> same r r'"
  using respects [of op d d' i] by (cases "run op d' i") (auto simp: same_result_def)

end

interpretation handler: op_handler handle wf_op
proof
  fix op d d' i e
  show "handle op d i = OpResult d' (Some e) \<Longrightarrow> d' = d \<and> op_index e = i"
    using handle_keeps [of d i op] by (simp add: keeps_def)
qed (rule handle_same)

end
