(* ===== verification/Registry.thy ===== *)
theory Registry
  imports Spec HandlerLaws
begin

text \<open>
  packages/yops/src/opShape.ts, registry.ts, classify.ts and handlers/index.ts: the operation key
  of an op object, the registry of handlers checked against the specification, the paths that an
  operation carries, and the category of an operation.
\<close>

section \<open>opShape.ts\<close>

definition OP_METADATA_KEYS :: "jstring list" where
  "OP_METADATA_KEYS = [u ''source'']"

fun isMappingObject :: "yvalue \<Rightarrow> bool" where
  "isMappingObject (YMap _) = True"
| "isMappingObject _ = False"

fun first_op_key :: "jstring list \<Rightarrow> jstring option" where
  "first_op_key [] = None"
| "first_op_key (k # ks) = (if k \<notin> set OP_METADATA_KEYS then Some k else first_op_key ks)"

definition resolveOpName :: "yvalue \<Rightarrow> jstring option" where
  "resolveOpName op = (case op of YMap m \<Rightarrow> first_op_key (map fst m) | _ \<Rightarrow> None)"

section \<open>registry.ts\<close>

type_synonym handler = "yvalue \<Rightarrow> (jstring \<times> yvalue) list \<Rightarrow> nat \<Rightarrow> op_result"

record registry =
  reg_spec :: yops_spec
  reg_handlers :: "jstring \<rightharpoonup> handler"

datatype registry_error = UnknownHandlerOp jstring | MissingHandlers "jstring list"

definition newRegistry :: "yops_spec \<Rightarrow> registry" where
  "newRegistry s = \<lparr>reg_spec = s, reg_handlers = Map.empty\<rparr>"

definition register :: "registry \<Rightarrow> jstring \<Rightarrow> handler \<Rightarrow> registry_error + registry" where
  "register r opName h =
     (if \<not> has_own (reg_spec r) opName then Inl (UnknownHandlerOp opName)
      else Inr (r\<lparr>reg_handlers := (reg_handlers r)(opName \<mapsto> h)\<rparr>))"

definition validate_registry :: "registry \<Rightarrow> registry_error + unit" where
  "validate_registry r =
     (let missing = filter (\<lambda>n. reg_handlers r n = None) (map fst (reg_spec r))
      in if missing \<noteq> [] then Inl (MissingHandlers missing) else Inr ())"

definition getHandler :: "registry \<Rightarrow> jstring \<Rightarrow> handler option" where
  "getHandler r opName = reg_handlers r opName"

definition getOpSpec :: "registry \<Rightarrow> jstring \<Rightarrow> op_spec option" where
  "getOpSpec r opName = map_of (reg_spec r) opName"

definition getPathFields :: "registry \<Rightarrow> jstring \<Rightarrow> path_fields option" where
  "getPathFields r opName = map_option op_path_fields (map_of (reg_spec r) opName)"

datatype path_role = Primary | Source | Destination

definition role_field :: "path_fields \<Rightarrow> path_role \<Rightarrow> jstring option" where
  "role_field pf role = (case role of
     Primary \<Rightarrow> primary pf | Source \<Rightarrow> source_path pf | Destination \<Rightarrow> destination pf)"

definition role_path :: "path_fields \<Rightarrow> (jstring \<times> yvalue) list \<Rightarrow> path_role \<Rightarrow> (path_role \<times> jstring) list" where
  "role_path pf inner role =
     (case role_field pf role of
        None \<Rightarrow> []
      | Some f \<Rightarrow> (case map_of inner f of
            Some (YStr s) \<Rightarrow> if s \<noteq> [] then [(role, s)] else []
          | _ \<Rightarrow> []))"

definition getOpPaths :: "registry \<Rightarrow> (jstring \<times> yvalue) list \<Rightarrow> (path_role \<times> jstring) list" where
  "getOpPaths r op =
     (case resolveOpName (YMap op) of
        None \<Rightarrow> []
      | Some opName \<Rightarrow> (case getPathFields r opName of
            None \<Rightarrow> []
          | Some pf \<Rightarrow> (case map_of op opName of
                Some (YMap inner) \<Rightarrow> concat (map (role_path pf inner) [Primary, Source, Destination])
              | _ \<Rightarrow> [])))"

definition operationNames :: "registry \<Rightarrow> jstring list" where
  "operationNames r = map fst (reg_spec r)"

section \<open>handlers/index.ts\<close>

text \<open>
  A registered handler reads its fields out of the payload. The engine checks the payload against
  the schema before; a payload without the fields of its operation is outside the casts of the
  source and never reaches a handler (\<open>Engine\<close>).
\<close>

definition handler_for :: "jstring \<Rightarrow> handler" where
  "handler_for opName doc flds i =
     (case decode_op opName flds of Some op \<Rightarrow> handle op doc i | None \<Rightarrow> Throws)"

definition handler_names :: "jstring list" where
  "handler_names = map u [''define'', ''drop'', ''rename'', ''set'', ''unset'', ''populate'', ''append'',
     ''move'', ''clone'', ''nest'', ''split'', ''fold'', ''merge'', ''sort'', ''unique'', ''pick'', ''omit'',
     ''assert'']"

fun register_all :: "registry \<Rightarrow> jstring list \<Rightarrow> registry_error + registry" where
  "register_all r [] = Inr r"
| "register_all r (n # ns) = bind_sum (register r n (handler_for n)) (\<lambda>r'. register_all r' ns)"

definition registerAllHandlers :: "registry \<Rightarrow> registry_error + registry" where
  "registerAllHandlers r = register_all r handler_names"

text \<open>The bootstrap of packages/yops/src/index.ts.\<close>

definition yops_registry :: registry where
  "yops_registry =
     (case registerAllHandlers (newRegistry yops_spec) of Inr r \<Rightarrow> r | Inl _ \<Rightarrow> newRegistry yops_spec)"

section \<open>classify.ts\<close>

text \<open>
  The names that a read \<open>operations[opName]\<close> finds on \<open>Object.prototype\<close> when the table has no own
  entry; what it finds has no \<open>category\<close>, so the result is \<open>undefined\<close> (\<open>None\<close>).
\<close>

definition PROTOTYPE_NAMES :: "jstring list" where
  "PROTOTYPE_NAMES = map u [''constructor'', ''__defineGetter__'', ''__defineSetter__'', ''hasOwnProperty'',
     ''__lookupGetter__'', ''__lookupSetter__'', ''isPrototypeOf'', ''propertyIsEnumerable'', ''toString'',
     ''valueOf'', ''__proto__'', ''toLocaleString'']"

definition classifyYOp :: "yops_spec option \<Rightarrow> yvalue \<Rightarrow> jstring option" where
  "classifyYOp spec op =
     (case (spec, resolveOpName op) of
        (Some s, Some opName) \<Rightarrow> (case map_of s opName of
            Some os \<Rightarrow> Some (category os)
          | None \<Rightarrow> if opName \<in> set PROTOTYPE_NAMES then None else Some (u ''dtl''))
      | _ \<Rightarrow> Some (u ''dtl''))"

section \<open>The registry is complete\<close>

lemma register_all_names:
  "\<forall>n \<in> set ns. has_own (reg_spec r) n \<Longrightarrow> \<exists>r'. register_all r ns = Inr r' \<and> reg_spec r' = reg_spec r
     \<and> reg_handlers r' = (\<lambda>n. if n \<in> set ns then Some (handler_for n) else reg_handlers r n)"
proof (induction ns arbitrary: r)
  case (Cons n ns)
  let ?r = "r\<lparr>reg_handlers := (reg_handlers r)(n \<mapsto> handler_for n)\<rparr>"
  have "register r n (handler_for n) = Inr ?r" using Cons.prems by (simp add: register_def)
  moreover obtain r' where "register_all ?r ns = Inr r'" "reg_spec r' = reg_spec r"
      "reg_handlers r' = (\<lambda>m. if m \<in> set ns then Some (handler_for m) else reg_handlers ?r m)"
    using Cons.IH [of ?r] Cons.prems by auto
  ultimately show ?case by (auto simp: bind_sum_def fun_eq_iff)
qed simp

lemma spec_names: "map fst yops_spec = handler_names"
  by (simp only: yops_spec_names handler_names_def)

lemma spec_has_own: "has_own yops_spec n \<longleftrightarrow> n \<in> set handler_names"
  by (simp only: has_own_iff spec_names)

lemma new_handlers: "reg_handlers (newRegistry s) = Map.empty"
  by (simp add: newRegistry_def)

lemma yops_registry_spec: "registerAllHandlers (newRegistry yops_spec) = Inr yops_registry
     \<and> reg_spec yops_registry = yops_spec
     \<and> reg_handlers yops_registry = (\<lambda>n. if n \<in> set handler_names then Some (handler_for n) else None)"
proof -
  obtain r' where "register_all (newRegistry yops_spec) handler_names = Inr r'" "reg_spec r' = yops_spec"
      "reg_handlers r' = (\<lambda>n. if n \<in> set handler_names then Some (handler_for n) else None)"
    using register_all_names [of handler_names "newRegistry yops_spec", unfolded new_handlers] spec_has_own
    by (auto simp: newRegistry_def)
  then show ?thesis by (simp add: yops_registry_def registerAllHandlers_def)
qed

lemma yops_registry_valid: "validate_registry yops_registry = Inr ()"
  using yops_registry_spec by (auto simp: validate_registry_def spec_names filter_empty_conv)

section \<open>The contract of a registered handler\<close>

text \<open>Payloads whose values are well formed decode to operations whose values are.\<close>

lemma field_Some: "field cast flds k = Some x \<Longrightarrow> \<exists>v. map_of flds (u k) = Some v \<and> cast v = Some x"
  by (auto simp: field_def bind_eq_Some_conv)

lemma as_groups_keys: "as_groups v = Some gs \<Longrightarrow> \<exists>m. v = YMap m \<and> map fst gs = map fst m"
proof -
  assume g: "as_groups v = Some gs"
  then obtain m where v: "v = YMap m" by (cases v) (auto simp: as_groups_def)
  have "list_all2 (\<lambda>(k, x) g. map_option (Pair k) (as_strings x) = Some g) m gs"
    using g by (simp add: v as_groups_def all_some_map split_def)
  then have "map fst gs = map fst m" by (induction m gs rule: list_all2_induct) auto
  with v show ?thesis by blast
qed

lemma wf_op_Assert: "wf_op (Assert p e x t) \<longleftrightarrow> (case e of None \<Rightarrow> True | Some v \<Rightarrow> wf_yvalue v)"
  by (cases e) simp_all

lemma decode_wf:
  assumes "decode_op n flds = Some op" "wf_yvalue (YMap flds)"
  shows "wf_op op"
proof -
  have wf: "wf_yvalue v" if "map_of flds k = Some v" for k v using assms(2) that by (rule wf_map_lookup)
  have fld: "wf_yvalue v" if "field Some flds k = Some v" for k v
    using that wf by (auto dest: field_Some)
  have mapfld: "wf_yvalue (YMap m)" if "field as_map flds k = Some m" for k m
  proof -
    obtain v where v: "map_of flds (u k) = Some v" "as_map v = Some m"
      using field_Some [OF \<open>field as_map flds k = Some m\<close>] by blast
    then show ?thesis using wf [OF v(1)] by (cases v) simp_all
  qed
  have grp: "wf_object gs" if "field as_groups flds k = Some gs" for k gs
  proof -
    obtain v where v: "map_of flds (u k) = Some v" "as_groups v = Some gs"
      using field_Some [OF \<open>field as_groups flds k = Some gs\<close>] by blast
    then show ?thesis using as_groups_keys [OF v(2)] wf [OF v(1)] by auto
  qed
  have opt: "wf_yvalue v" if "opt_field Some flds k = Some (Some v)" for k v
    using that wf by (auto simp: opt_field_def split: option.splits)
  have "list_all (\<lambda>(n, d). \<forall>op. d flds = Some op \<longrightarrow> wf_op op) decoders"
    unfolding decoders_def list.pred_inject prod.case
    by (intro conjI; (simp add: lift_defs bind_eq_Some_conv)?; auto simp: wf_op_Assert split: option.split
        dest: fld mapfld grp opt simp del: wf_yvalue.simps)
  moreover obtain n' d where "(n', d) \<in> set decoders" "d flds = Some op"
    using assms(1) by (auto simp: decode_op_def split: option.splits dest!: map_of_SomeD)
  ultimately show ?thesis by (auto simp: list_all_iff)
qed

lemma handler_for_same:
  assumes "wf_yvalue (YMap flds)" "same d d'"
  shows "same_result (handler_for n d flds i) (handler_for n d' flds i)"
proof (cases "decode_op n flds")
  case (Some op)
  then show ?thesis using handler.respects [OF decode_wf [OF Some assms(1)] assms(2)] by (simp add: handler_for_def)
qed (simp add: handler_for_def)

interpretation registered: op_handler "\<lambda>(n, flds) d i. handler_for n d flds i" "\<lambda>(n, flds). wf_yvalue (YMap flds)"
proof (unfold_locales, goal_cases)
  case (1 op d d' i)
  then show ?case by (cases op) (simp add: handler_for_same)
next
  case (2 op d i d' e)
  then show ?case
    using handler.error_keeps by (cases op) (auto simp: handler_for_def split: option.splits)
qed

end
