(* ===== verification/Schema.thy ===== *)
theory Schema
  imports Registry
begin

text \<open>
  packages/yops/src/schema.ts: the Zod schemas of the operations as data. Zod is a library, so
  whether a schema accepts a value (\<open>schema.safeParse(value).success\<close>) is a parameter \<open>acc\<close>;
  \<open>zod_spec\<close> is the documented behaviour of the combinators the source uses, and \<open>zod_eval\<close> a
  function that has it. Under \<open>zod_spec\<close> an accepted operation decodes (\<open>accepted_decodes\<close>).
\<close>

section \<open>Schemas as data\<close>

text \<open>
  \<open>ZString n\<close> is \<open>z.string().min(n)\<close>; an object has a strictness flag and fields with a flag for
  \<open>.optional()\<close>; \<open>ZRefined ks s\<close> is \<open>s\<close> refined to need one of the keys; \<open>ZValue\<close> is the lazy
  \<open>YValueSchema\<close>. The preprocessing of \<open>source.at\<close> turns a Date into a string; a YValue has no Date.
\<close>

datatype zschema =
    ZString nat
  | ZNumber
  | ZBoolean
  | ZNull
  | ZArray zschema
  | ZRecord zschema
  | ZEnum "jstring list"
  | ZLiteral jstring
  | ZUnion "zschema list"
  | ZDiscriminated jstring "zschema list"
  | ZObject bool "(jstring \<times> bool \<times> zschema) list"
  | ZRefined "jstring list" zschema
  | ZValue

definition YValueUnion :: zschema where
  "YValueUnion = ZUnion [ZString 0, ZNumber, ZBoolean, ZNull, ZArray ZValue, ZRecord ZValue]"

abbreviation zreq :: "string \<Rightarrow> zschema \<Rightarrow> jstring \<times> bool \<times> zschema" where
  "zreq k s \<equiv> (u k, False, s)"

abbreviation zopt :: "string \<Rightarrow> zschema \<Rightarrow> jstring \<times> bool \<times> zschema" where
  "zopt k s \<equiv> (u k, True, s)"

definition LLMSourceSchema :: zschema where
  "LLMSourceSchema = ZObject False
     [zreq ''type'' (ZLiteral (u ''llm'')), zopt ''model'' (ZString 0), zopt ''at'' (ZString 0),
      zreq ''turn_ref'' (ZObject False [zreq ''turn_hash'' (ZString 1), zreq ''quote'' (ZString 1)])]"

definition HumanSourceSchema :: zschema where
  "HumanSourceSchema = ZObject False
     [zreq ''type'' (ZLiteral (u ''human'')), zreq ''author'' (ZString 1),
      zopt ''surface'' (ZEnum (map u [''tree'', ''script'', ''inline'']))]"

definition SourceSchema :: zschema where
  "SourceSchema = ZDiscriminated (u ''type'') [LLMSourceSchema, HumanSourceSchema]"

definition payload_schemas :: "(string \<times> zschema) list" where
  "payload_schemas =
    [(''define'', ZObject True [zreq ''path'' (ZString 1)]),
     (''drop'', ZObject True [zreq ''path'' (ZString 1)]),
     (''rename'', ZObject True [zreq ''path'' (ZString 1), zreq ''to'' (ZString 1)]),
     (''set'', ZObject True [zreq ''path'' (ZString 1), zreq ''value'' ZValue]),
     (''unset'', ZObject True [zreq ''path'' (ZString 1)]),
     (''populate'', ZObject True [zreq ''path'' (ZString 1), zreq ''values'' (ZRecord ZValue)]),
     (''append'', ZObject True [zreq ''path'' (ZString 1), zreq ''value'' ZValue]),
     (''move'', ZObject True [zreq ''from'' (ZString 1), zreq ''to'' (ZString 1)]),
     (''clone'', ZObject True [zreq ''from'' (ZString 1), zreq ''to'' (ZString 1)]),
     (''nest'', ZObject True [zreq ''path'' (ZString 0), zreq ''keys'' (ZArray (ZString 0)),
        zreq ''under'' (ZString 1)]),
     (''split'', ZObject True [zreq ''path'' (ZString 0), zreq ''into'' (ZRecord (ZArray (ZString 0)))]),
     (''fold'', ZObject True [zreq ''path'' (ZString 1)]),
     (''merge'', ZObject True [zreq ''path'' (ZString 0), zreq ''keys'' (ZArray (ZString 0)),
        zreq ''into'' (ZString 1)]),
     (''sort'', ZObject True [zreq ''path'' (ZString 1), zopt ''by'' (ZString 0),
        zopt ''order'' (ZEnum (map u [''asc'', ''desc'']))]),
     (''unique'', ZObject True [zreq ''path'' (ZString 1), zopt ''by'' (ZString 0)]),
     (''pick'', ZObject True [zreq ''path'' (ZString 0), zreq ''keys'' (ZArray (ZString 0))]),
     (''omit'', ZObject True [zreq ''path'' (ZString 0), zreq ''keys'' (ZArray (ZString 0))]),
     (''assert'', ZRefined [u ''equals'', u ''exists'', u ''type'']
        (ZObject True [zreq ''path'' (ZString 1), zopt ''equals'' ZValue, zopt ''exists'' ZBoolean,
          zopt ''type'' (ZEnum (map u [''mapping'', ''sequence'', ''scalar'']))]))]"

definition op_schema :: "string \<times> zschema \<Rightarrow> zschema" where
  "op_schema e = ZObject True [zreq (fst e) (snd e), zopt ''source'' SourceSchema]"

definition YOpSchema :: zschema where
  "YOpSchema = ZUnion (map op_schema payload_schemas)"

section \<open>validateOps\<close>

text \<open>The operations with issues, by index (each has at least one issue; the issues are Zod's).\<close>

definition validateOps :: "(zschema \<Rightarrow> yvalue \<Rightarrow> bool) \<Rightarrow> yvalue list \<Rightarrow> bool \<times> nat list" where
  "validateOps acc ops =
     (let errors = filter (\<lambda>i. \<not> acc YOpSchema (ops ! i)) [0..<length ops]
      in if errors = [] then (True, []) else (False, errors))"

section \<open>What Zod documents\<close>

text \<open>The fields of an object: a missing field must be optional, a present one must be accepted.\<close>

definition field_ok :: "(zschema \<Rightarrow> yvalue \<Rightarrow> bool) \<Rightarrow> (jstring \<times> yvalue) list \<Rightarrow>
    jstring \<times> bool \<times> zschema \<Rightarrow> bool" where
  "field_ok acc m f = (case f of (k, opt, s) \<Rightarrow>
     (case map_of m k of None \<Rightarrow> opt | Some v \<Rightarrow> acc s v))"

definition zod_spec :: "(zschema \<Rightarrow> yvalue \<Rightarrow> bool) \<Rightarrow> bool" where
  "zod_spec acc \<longleftrightarrow>
     (\<forall>n v. acc (ZString n) v = (case v of YStr s \<Rightarrow> n \<le> length s | _ \<Rightarrow> False)) \<and>
     (\<forall>v. acc ZNumber v = (case v of YNum _ \<Rightarrow> True | _ \<Rightarrow> False)) \<and>
     (\<forall>v. acc ZBoolean v = (case v of YBool _ \<Rightarrow> True | _ \<Rightarrow> False)) \<and>
     (\<forall>v. acc ZNull v = (v = YNull)) \<and>
     (\<forall>s v. acc (ZArray s) v = (case v of YSeq xs \<Rightarrow> list_all (acc s) xs | _ \<Rightarrow> False)) \<and>
     (\<forall>s v. acc (ZRecord s) v = (case v of YMap m \<Rightarrow> list_all (\<lambda>(k, w). acc s w) m | _ \<Rightarrow> False)) \<and>
     (\<forall>es v. acc (ZEnum es) v = (case v of YStr s \<Rightarrow> s \<in> set es | _ \<Rightarrow> False)) \<and>
     (\<forall>e v. acc (ZLiteral e) v = (v = YStr e)) \<and>
     (\<forall>ss v. acc (ZUnion ss) v = list_ex (\<lambda>s. acc s v) ss) \<and>
     (\<forall>k ss v. acc (ZDiscriminated k ss) v = list_ex (\<lambda>s. acc s v) ss) \<and>
     (\<forall>strict fs v. acc (ZObject strict fs) v = (case v of
        YMap m \<Rightarrow> list_all (field_ok acc m) fs \<and> (strict \<longrightarrow> set (map fst m) \<subseteq> set (map fst fs))
      | _ \<Rightarrow> False)) \<and>
     (\<forall>ks s v. acc (ZRefined ks s) v =
        (acc s v \<and> (case v of YMap m \<Rightarrow> list_ex (\<lambda>k. map_of m k \<noteq> None) ks | _ \<Rightarrow> False))) \<and>
     (\<forall>v. acc ZValue v = acc YValueUnion v)"

primrec zod_eval :: "zschema \<Rightarrow> yvalue \<Rightarrow> bool" where
  "zod_eval (ZString n) v = (case v of YStr s \<Rightarrow> n \<le> length s | _ \<Rightarrow> False)"
| "zod_eval ZNumber v = (case v of YNum _ \<Rightarrow> True | _ \<Rightarrow> False)"
| "zod_eval ZBoolean v = (case v of YBool _ \<Rightarrow> True | _ \<Rightarrow> False)"
| "zod_eval ZNull v = (v = YNull)"
| "zod_eval (ZArray s) v = (case v of YSeq xs \<Rightarrow> list_all (zod_eval s) xs | _ \<Rightarrow> False)"
| "zod_eval (ZRecord s) v = (case v of YMap m \<Rightarrow> list_all (\<lambda>(k, w). zod_eval s w) m | _ \<Rightarrow> False)"
| "zod_eval (ZEnum es) v = (case v of YStr s \<Rightarrow> s \<in> set es | _ \<Rightarrow> False)"
| "zod_eval (ZLiteral e) v = (v = YStr e)"
| "zod_eval (ZUnion ss) v = list_ex (\<lambda>p. p v) (map zod_eval ss)"
| "zod_eval (ZDiscriminated k ss) v = list_ex (\<lambda>p. p v) (map zod_eval ss)"
| "zod_eval (ZObject strict fs) v = (case v of
     YMap m \<Rightarrow> list_all (\<lambda>(k, opt, p). case map_of m k of None \<Rightarrow> opt | Some w \<Rightarrow> p w)
         (map (map_prod id (map_prod id zod_eval)) fs)
       \<and> (strict \<longrightarrow> list_all (\<lambda>(k, w). k \<in> set (map fst fs)) m)
   | _ \<Rightarrow> False)"
| "zod_eval (ZRefined ks s) v =
     (zod_eval s v \<and> (case v of YMap m \<Rightarrow> list_ex (\<lambda>k. map_of m k \<noteq> None) ks | _ \<Rightarrow> False))"
| "zod_eval ZValue v = True"

lemma zod_eval_spec: "zod_spec zod_eval"
proof -
  have fields: "list_all (\<lambda>(k, opt, p). case map_of m k of None \<Rightarrow> opt | Some w \<Rightarrow> p w)
      (map (map_prod id (map_prod id zod_eval)) fs) = list_all (field_ok zod_eval m) fs" for m fs
    by (induction fs) (auto simp: field_ok_def)
  have keys: "list_all (\<lambda>(k, w). k \<in> A) m = (set (map fst m) \<subseteq> A)"
    for m :: "(jstring \<times> yvalue) list" and A
    by (induction m) auto
  have union: "list_ex (\<lambda>p. p v) (map zod_eval ss) = list_ex (\<lambda>s. zod_eval s v) ss" for v ss
    by (induction ss) auto
  have "zod_eval YValueUnion v" for v
    by (cases v) (simp_all add: YValueUnion_def list_all_iff split_def)
  then show ?thesis
    unfolding zod_spec_def by (intro conjI allI) (simp_all add: fields keys union split: yvalue.split)
qed

lemma zodD:
  assumes "zod_spec acc"
  shows "acc (ZString n) v = (case v of YStr s \<Rightarrow> n \<le> length s | _ \<Rightarrow> False)"
    and "acc ZBoolean v = (case v of YBool _ \<Rightarrow> True | _ \<Rightarrow> False)"
    and "acc (ZArray s) v = (case v of YSeq xs \<Rightarrow> list_all (acc s) xs | _ \<Rightarrow> False)"
    and "acc (ZRecord s) v = (case v of YMap m \<Rightarrow> list_all (\<lambda>(k, w). acc s w) m | _ \<Rightarrow> False)"
    and "acc (ZEnum es) v = (case v of YStr s \<Rightarrow> s \<in> set es | _ \<Rightarrow> False)"
    and "acc (ZLiteral e) v = (v = YStr e)"
    and "acc (ZUnion ss) v = list_ex (\<lambda>s. acc s v) ss"
    and "acc (ZDiscriminated k ss) v = list_ex (\<lambda>s. acc s v) ss"
    and "acc (ZObject strict fs) v = (case v of
        YMap m \<Rightarrow> list_all (field_ok acc m) fs \<and> (strict \<longrightarrow> set (map fst m) \<subseteq> set (map fst fs))
      | _ \<Rightarrow> False)"
    and "acc (ZRefined ks s) v =
        (acc s v \<and> (case v of YMap m \<Rightarrow> list_ex (\<lambda>k. map_of m k \<noteq> None) ks | _ \<Rightarrow> False))"
  using assms unfolding zod_spec_def by simp_all

text \<open>Every YValue is accepted by \<open>YValueSchema\<close>.\<close>

lemma zod_value: "zod_spec acc \<Longrightarrow> acc ZValue v"
proof (induction v rule: yvalue_induct)
  case (Seq xs)
  then show ?case unfolding zod_spec_def by (simp add: YValueUnion_def list_all_iff)
next
  case (Map kvs)
  then show ?case unfolding zod_spec_def by (auto simp: YValueUnion_def list_all_iff)
qed (simp_all add: zod_spec_def YValueUnion_def)

section \<open>Accepted operations decode\<close>

lemma zod_strings: "zod_spec acc \<Longrightarrow> acc (ZArray (ZString 0)) v \<longleftrightarrow> as_strings v \<noteq> None"
proof -
  assume z: "zod_spec acc"
  have "acc (ZString 0) x = (as_string x \<noteq> None)" for x
    by (cases x) (simp_all add: zodD(1) [OF z])
  then have s: "acc (ZString 0) = (\<lambda>x. as_string x \<noteq> None)" by (rule ext)
  have "(all_some (map as_string xs) \<noteq> None) = list_all (\<lambda>x. as_string x \<noteq> None) xs" for xs
    by (induction xs) (auto simp: bind_eq_None_conv)
  with s show ?thesis by (cases v) (simp_all add: zodD(3) [OF z] as_strings_def)
qed

lemma zod_groups: "zod_spec acc \<Longrightarrow> acc (ZRecord (ZArray (ZString 0))) v \<longleftrightarrow> as_groups v \<noteq> None"
proof -
  assume z: "zod_spec acc"
  have "(all_some (map (\<lambda>(k, x). map_option (Pair k) (as_strings x)) m) \<noteq> None)
      = list_all (\<lambda>(k, x). as_strings x \<noteq> None) m" for m :: "(jstring \<times> yvalue) list"
    by (induction m) (auto simp: bind_eq_None_conv)
  moreover have "acc (ZArray (ZString 0)) = (\<lambda>x. as_strings x \<noteq> None)"
    using zod_strings [OF z] by (rule ext)
  ultimately show ?thesis
    by (cases v) (simp_all add: zodD(4) [OF z] as_groups_def)
qed

lemma zod_record_value: "zod_spec acc \<Longrightarrow> acc (ZRecord ZValue) v \<longleftrightarrow> as_map v \<noteq> None"
  by (cases v) (simp_all add: zodD(4) zod_value list_all_iff split_def)

lemma zod_min: "zod_spec acc \<Longrightarrow> acc (ZString n) v \<longleftrightarrow> (\<exists>s. as_string v = Some s \<and> n \<le> length s)"
  by (cases v) (simp_all add: zodD(1))

lemma zod_bool: "zod_spec acc \<Longrightarrow> acc ZBoolean v \<longleftrightarrow> as_bool v \<noteq> None"
  by (cases v) (simp_all add: zodD(2))

lemma zod_order: "zod_spec acc \<Longrightarrow> acc (ZEnum (map u [''asc'', ''desc''])) v \<longleftrightarrow> as_order v \<noteq> None"
  by (cases v) (auto simp: zodD(5) as_order_def)

lemma zod_kind:
  "zod_spec acc \<Longrightarrow> acc (ZEnum (map u [''mapping'', ''sequence'', ''scalar''])) v \<longleftrightarrow> as_kind v \<noteq> None"
  by (cases v) (auto simp: zodD(5) as_kind_def)

lemmas zod_casts = zod_min zod_bool zod_order zod_kind zod_strings zod_groups zod_record_value zod_value

lemma req_field:
  "(\<And>v. acc s v \<Longrightarrow> \<exists>x. cast v = Some x) \<Longrightarrow> field_ok acc m (u k, False, s) \<Longrightarrow> \<exists>x. field cast m k = Some x"
  by (auto simp: field_ok_def field_def split: option.splits)

lemma optional_field:
  "(\<And>v. acc s v \<Longrightarrow> \<exists>x. cast v = Some x) \<Longrightarrow> field_ok acc m (u k, True, s) \<Longrightarrow>
     \<exists>x. opt_field cast m k = Some x"
  by (auto simp: field_ok_def opt_field_def split: option.splits)

lemma read_fields:
  assumes z: "zod_spec acc"
  shows "field_ok acc m (u k, False, ZString n) \<Longrightarrow> \<exists>x. field as_string m k = Some x"
    and "field_ok acc m (u k, False, ZValue) \<Longrightarrow> \<exists>x. field Some m k = Some x"
    and "field_ok acc m (u k, False, ZRecord ZValue) \<Longrightarrow> \<exists>x. field as_map m k = Some x"
    and "field_ok acc m (u k, False, ZArray (ZString 0)) \<Longrightarrow> \<exists>x. field as_strings m k = Some x"
    and "field_ok acc m (u k, False, ZRecord (ZArray (ZString 0))) \<Longrightarrow> \<exists>x. field as_groups m k = Some x"
    and "field_ok acc m (u k, True, ZString n) \<Longrightarrow> \<exists>x. opt_field as_string m k = Some x"
    and "field_ok acc m (u k, True, ZValue) \<Longrightarrow> \<exists>x. opt_field Some m k = Some x"
    and "field_ok acc m (u k, True, ZBoolean) \<Longrightarrow> \<exists>x. opt_field as_bool m k = Some x"
    and "field_ok acc m (u k, True, ZEnum (map u [''asc'', ''desc''])) \<Longrightarrow>
      \<exists>x. opt_field as_order m k = Some x"
    and "field_ok acc m (u k, True, ZEnum (map u [''mapping'', ''sequence'', ''scalar''])) \<Longrightarrow>
      \<exists>x. opt_field as_kind m k = Some x"
  by ((rule req_field optional_field, use zod_casts [OF z] in auto, assumption?)[1])+

lemma payload_decodes:
  assumes z: "zod_spec acc" and "(n, s) \<in> set payload_schemas" and "acc s v"
  shows "\<exists>flds op. v = YMap flds \<and> decode_op (u n) flds = Some op"
proof -
  obtain m where v: "v = YMap m"
    using assms(2,3) by (cases v) (auto simp: payload_schemas_def zodD(9,10) [OF z])
  have "list_all (\<lambda>(n, s). acc s (YMap m) \<longrightarrow> (\<exists>op. decode_op (u n) m = Some op)) payload_schemas"
    unfolding payload_schemas_def list.pred_inject prod.case zodD(9,10) [OF z] yvalue.case decode_simps
    by (intro conjI impI list.pred_inject(1); elim conjE; rule lift_defined; (rule lift_defined)?; erule read_fields [OF z])
  then show ?thesis using assms(2,3) v by (auto simp: list_all_iff)
qed

end
