(* ===== verification/Engine.thy ===== *)
theory Engine
  imports Schema
begin

text \<open>
  packages/yops/src/engine.ts: the engine that applies a list of operations. Every guard of the
  loop is a branch of \<open>step_op\<close>; \<open>apply_from\<close> is the loop, \<open>applyYOps\<close> the entry point. The
  schema check is the parameter \<open>acc\<close> of \<open>Schema\<close>. The locale \<open>sound_registry\<close> states what the
  engine relies on (its handlers keep the contract of \<open>HandlerLaws\<close>), and the engine's laws are
  proved in it; it is interpreted on the registry of packages/yops/src/index.ts.
\<close>

section \<open>Results\<close>

record yops_warning =
  w_op_index :: nat
  w_op :: jstring
  w_field :: jstring
  w_deprecated_in :: jstring
  w_replacement :: "jstring option"

record yops_result =
  res_ok :: bool
  res_doc :: yvalue
  res_applied :: nat
  res_error :: "yops_error option"
  res_warnings :: "yops_warning list"

section \<open>Field validation\<close>

definition missing_required :: "(jstring \<times> yvalue) list \<Rightarrow> op_spec \<Rightarrow> bool" where
  "missing_required flds os \<longleftrightarrow> list_ex (\<lambda>(n, fs). required fs \<and> \<not> has_own flds n) (spec_fields os)"

definition unknown_field :: "(jstring \<times> yvalue) list \<Rightarrow> op_spec \<Rightarrow> bool" where
  "unknown_field flds os \<longleftrightarrow> list_ex (\<lambda>(k, v). \<not> has_own (spec_fields os) k) flds"

definition in_enum :: "jstring list \<Rightarrow> yvalue \<Rightarrow> bool" where
  "in_enum es v = (case v of YStr s \<Rightarrow> s \<in> set es | _ \<Rightarrow> False)"

definition enum_violation :: "(jstring \<times> yvalue) list \<Rightarrow> op_spec \<Rightarrow> bool" where
  "enum_violation flds os \<longleftrightarrow> list_ex (\<lambda>(n, fs).
     (case (field_enum fs, map_of flds n) of (Some es, Some v) \<Rightarrow> \<not> in_enum es v | _ \<Rightarrow> False)) (spec_fields os)"

definition validateFields :: "(jstring \<times> yvalue) list \<Rightarrow> op_spec \<Rightarrow> nat \<Rightarrow> yops_error option" where
  "validateFields flds os i =
     (if missing_required flds os then Some (yopsError INVALID_OP i)
      else if unknown_field flds os then Some (yopsError INVALID_OP i)
      else if enum_violation flds os then Some (yopsError INVALID_OP i)
      else None)"

definition deprecatedFieldWarnings ::
  "jstring \<Rightarrow> (jstring \<times> yvalue) list \<Rightarrow> op_spec \<Rightarrow> nat \<Rightarrow> yops_warning list" where
  "deprecatedFieldWarnings opName flds os i =
     concat (map (\<lambda>(n, fs). case deprecated_in fs of
         None \<Rightarrow> []
       | Some dep \<Rightarrow> if \<not> has_own flds n then []
           else [\<lparr>w_op_index = i, w_op = opName, w_field = n, w_deprecated_in = dep,
                  w_replacement = replacement_field fs\<rparr>]) (spec_fields os))"

section \<open>The loop\<close>

text \<open>One operation: an error, or the next document; with the warnings it emitted before.\<close>

definition step_op :: "registry \<Rightarrow> (zschema \<Rightarrow> yvalue \<Rightarrow> bool) \<Rightarrow> yvalue \<Rightarrow> yvalue \<Rightarrow> nat \<Rightarrow>
    (yops_error + yvalue) \<times> yops_warning list" where
  "step_op reg acc rawOp current i =
     (case rawOp of
        YMap op \<Rightarrow>
          (case resolveOpName rawOp of
             None \<Rightarrow> (Inl (yopsError INVALID_OP i), [])
           | Some opName \<Rightarrow>
               (case getHandler reg opName of
                  None \<Rightarrow> (Inl (yopsError UNKNOWN_OP i), [])
                | Some h \<Rightarrow>
                    (case map_of op opName of
                       Some (YMap flds) \<Rightarrow>
                         (let os = the (getOpSpec reg opName)
                          in case validateFields flds os i of
                               Some e \<Rightarrow> (Inl e, [])
                             | None \<Rightarrow>
                                 (let ws = deprecatedFieldWarnings opName flds os i
                                  in if \<not> acc YOpSchema rawOp then (Inl (yopsError INVALID_OP i), ws)
                                     else if list_ex (\<lambda>(role, path). case tryParsePath path of
                                         Inl _ \<Rightarrow> True | Inr _ \<Rightarrow> False) (getOpPaths reg op)
                                     then (Inl (yopsError INVALID_PATH i), ws)
                                     else (case h current flds i of
                                         Throws \<Rightarrow> (Inl (yopsError INVALID_OP i), ws)
                                       | OpResult d (Some e) \<Rightarrow> (Inl e, ws)
                                       | OpResult d None \<Rightarrow> (Inr d, ws))))
                     | _ \<Rightarrow> (Inl (yopsError INVALID_OP i), []))))
      | _ \<Rightarrow> (Inl (yopsError INVALID_OP i), []))"

fun apply_from :: "registry \<Rightarrow> (zschema \<Rightarrow> yvalue \<Rightarrow> bool) \<Rightarrow> yvalue \<Rightarrow> nat \<Rightarrow> yvalue \<Rightarrow>
    yops_warning list \<Rightarrow> yvalue list \<Rightarrow> yops_result" where
  "apply_from reg acc original i current ws [] =
     \<lparr>res_ok = True, res_doc = current, res_applied = i, res_error = None, res_warnings = ws\<rparr>"
| "apply_from reg acc original i current ws (rawOp # rest) =
     (case step_op reg acc rawOp current i of
        (Inl e, ws') \<Rightarrow> \<lparr>res_ok = False, res_doc = original, res_applied = i, res_error = Some e,
                        res_warnings = ws @ ws'\<rparr>
      | (Inr d, ws') \<Rightarrow> apply_from reg acc original (i + 1) d (ws @ ws') rest)"

definition applyYOps :: "registry \<Rightarrow> (zschema \<Rightarrow> yvalue \<Rightarrow> bool) \<Rightarrow> yvalue \<Rightarrow> yvalue list \<Rightarrow> yops_result" where
  "applyYOps reg acc doc ops =
     (let original = deepClone doc; current = deepClone original
      in apply_from reg acc original 0 current [] ops)"

section \<open>Laws of the loop\<close>

lemma apply_from_failure:
  "\<not> res_ok (apply_from reg acc orig i cur ws ops) \<Longrightarrow>
     res_doc (apply_from reg acc orig i cur ws ops) = orig"
  by (induction ops arbitrary: i cur ws) (auto split: prod.splits sum.splits)

lemma apply_from_applied:
  "i \<le> res_applied (apply_from reg acc orig i cur ws ops) \<and>
   (res_ok (apply_from reg acc orig i cur ws ops) \<longleftrightarrow>
      res_applied (apply_from reg acc orig i cur ws ops) = i + length ops) \<and>
   (res_ok (apply_from reg acc orig i cur ws ops) \<longleftrightarrow> res_error (apply_from reg acc orig i cur ws ops) = None) \<and>
   res_applied (apply_from reg acc orig i cur ws ops) \<le> i + length ops"
proof (induction ops arbitrary: i cur ws)
  case (Cons op ops)
  obtain r ws' where s: "step_op reg acc op cur i = (r, ws')" by fastforce
  show ?case
  proof (cases r)
    case (Inr d)
    then show ?thesis using Cons [of "i + 1" d "ws @ ws'"] by (auto simp: s)
  qed (simp add: s)
qed simp

text \<open>The run of a list of operations as a relation on documents.\<close>

inductive runs :: "registry \<Rightarrow> (zschema \<Rightarrow> yvalue \<Rightarrow> bool) \<Rightarrow> nat \<Rightarrow> yvalue \<Rightarrow> yvalue list \<Rightarrow> yvalue \<Rightarrow> bool"
  for reg acc where
  runs_Nil: "runs reg acc i d [] d"
| runs_Cons: "step_op reg acc op d i = (Inr d', ws) \<Longrightarrow> runs reg acc (i + 1) d' ops r \<Longrightarrow> runs reg acc i d (op # ops) r"

inductive_simps runs_Nil_iff [simp]: "runs reg acc i d [] r"
inductive_simps runs_Cons_iff: "runs reg acc i d (op # ops) r"

lemma apply_from_runs:
  "res_ok (apply_from reg acc orig i cur ws ops) \<and> res_doc (apply_from reg acc orig i cur ws ops) = r
     \<longleftrightarrow> runs reg acc i cur ops r"
proof (induction ops arbitrary: i cur ws)
  case (Cons op ops)
  obtain x ws' where s: "step_op reg acc op cur i = (x, ws')" by fastforce
  show ?case
  proof (cases x)
    case (Inr d)
    then show ?thesis using Cons [of "i + 1" d "ws @ ws'"] by (auto simp: s runs_Cons_iff)
  qed (simp add: s runs_Cons_iff)
qed auto

lemma runs_append: "runs reg acc i d (xs @ ys) r \<longleftrightarrow> (\<exists>d'. runs reg acc i d xs d' \<and> runs reg acc (i + length xs) d' ys r)"
proof (induction xs arbitrary: i d)
  case (Cons x xs)
  have "i + length (x # xs) = i + 1 + length xs" by simp
  then show ?case unfolding append_Cons runs_Cons_iff Cons by (auto simp: runs_Cons_iff)
qed simp

text \<open>The guards of a step, all passed.\<close>

definition guards :: "registry \<Rightarrow> (zschema \<Rightarrow> yvalue \<Rightarrow> bool) \<Rightarrow> yvalue \<Rightarrow> jstring \<Rightarrow> (jstring \<times> yvalue) list \<Rightarrow> bool" where
  "guards reg acc rawOp n flds \<longleftrightarrow> (\<exists>op. rawOp = YMap op \<and> resolveOpName rawOp = Some n \<and> map_of op n = Some (YMap flds)
     \<and> validateFields flds (the (getOpSpec reg n)) 0 = None \<and> acc YOpSchema rawOp
     \<and> list_all (\<lambda>(role, path). \<exists>segs. tryParsePath path = Inr segs) (getOpPaths reg op))"

section \<open>The interface of a sound registry\<close>

locale sound_registry =
  fixes reg :: registry
  assumes handler_same: "reg_handlers reg n = Some h \<Longrightarrow> wf_yvalue (YMap flds) \<Longrightarrow> same d d' \<Longrightarrow>
      same_result (h d flds i) (h d' flds i)"
    and handler_keeps: "reg_handlers reg n = Some h \<Longrightarrow> h d flds i = OpResult d' (Some e) \<Longrightarrow>
      d' = d \<and> op_index e = i"
    and handler_index: "reg_handlers reg n = Some h \<Longrightarrow> h d flds i = OpResult d' None \<Longrightarrow>
      h d flds j = OpResult d' None"
    and handler_known: "reg_handlers reg n = Some h \<Longrightarrow> has_own (reg_spec reg) n"
begin

lemma payload_wf: "wf_yvalue (YMap op) \<Longrightarrow> map_of op n = Some (YMap flds) \<Longrightarrow> wf_yvalue (YMap flds)"
  by (rule wf_map_lookup)

lemma validateFields_index: "validateFields flds os i = None \<longleftrightarrow> validateFields flds os j = None"
  by (simp add: validateFields_def)

lemma path_guard: "list_ex (\<lambda>(role, path). case tryParsePath path of Inl _ \<Rightarrow> True | Inr _ \<Rightarrow> False) ps
    \<longleftrightarrow> \<not> list_all (\<lambda>(role, path). \<exists>segs. tryParsePath path = Inr segs) ps"
  by (induction ps) (auto split: sum.splits)

lemma step_iff:
  "(\<exists>ws. step_op reg acc rawOp d i = (Inr d', ws)) \<longleftrightarrow>
     (\<exists>n h flds. guards reg acc rawOp n flds \<and> reg_handlers reg n = Some h \<and> h d flds i = OpResult d' None)"
proof (cases "\<exists>op n h flds. rawOp = YMap op \<and> resolveOpName rawOp = Some n \<and> reg_handlers reg n = Some h
      \<and> map_of op n = Some (YMap flds)")
  case True
  then obtain op n h flds where g: "rawOp = YMap op" "resolveOpName (YMap op) = Some n" "reg_handlers reg n = Some h"
    "map_of op n = Some (YMap flds)" by auto
  let ?os = "the (getOpSpec reg n)"
  have s: "step_op reg acc rawOp d i =
      (case validateFields flds ?os i of Some e \<Rightarrow> (Inl e, [])
       | None \<Rightarrow> (let ws = deprecatedFieldWarnings n flds ?os i
          in if \<not> acc YOpSchema rawOp then (Inl (yopsError INVALID_OP i), ws)
             else if \<not> list_all (\<lambda>(role, path). \<exists>segs. tryParsePath path = Inr segs) (getOpPaths reg op)
             then (Inl (yopsError INVALID_PATH i), ws)
             else (case h d flds i of Throws \<Rightarrow> (Inl (yopsError INVALID_OP i), ws)
               | OpResult d (Some e) \<Rightarrow> (Inl e, ws) | OpResult d None \<Rightarrow> (Inr d, ws))))"
    unfolding step_op_def g(1) yvalue.case g(2) option.case getHandler_def g(3) g(4) path_guard
    by (simp add: Let_def)
  have v: "(validateFields flds ?os i = None) = (validateFields flds ?os 0 = None)"
    by (rule validateFields_index)
  show ?thesis
    unfolding s using g v
    by (auto simp: guards_def Let_def split: option.splits op_result.splits)
next
  case False
  then have "\<not> (\<exists>ws. step_op reg acc rawOp d i = (Inr d', ws))"
    by (auto simp: step_op_def getHandler_def split: yvalue.splits option.splits)
  with False show ?thesis by (auto simp: guards_def)
qed

lemma step_same:
  assumes "wf_yvalue rawOp" "same d d'" "step_op reg acc rawOp d i = (Inr r, ws)"
  shows "\<exists>r' ws'. step_op reg acc rawOp d' i = (Inr r', ws') \<and> same r r'"
proof -
  obtain n h flds where g: "guards reg acc rawOp n flds" "reg_handlers reg n = Some h" "h d flds i = OpResult r None"
    using assms(3) step_iff [of acc rawOp d i r] by blast
  have "wf_yvalue (YMap flds)" using g(1) assms(1) payload_wf by (auto simp: guards_def simp del: wf_yvalue.simps)
  from handler_same [OF g(2) this assms(2), of i] g(3) obtain r' where "h d' flds i = OpResult r' None" "same r r'"
    by (cases "h d' flds i") (auto simp: same_result_def)
  with g step_iff [of acc rawOp d' i r'] show ?thesis by blast
qed

lemma step_index:
  "step_op reg acc rawOp d i = (Inr r, ws) \<Longrightarrow> \<exists>ws'. step_op reg acc rawOp d j = (Inr r, ws')"
  using step_iff [of acc rawOp d i r] step_iff [of acc rawOp d j r] handler_index by blast

lemma step_wf:
  "wf_yvalue rawOp \<Longrightarrow> wf_yvalue d \<Longrightarrow> step_op reg acc rawOp d i = (Inr r, ws) \<Longrightarrow> wf_yvalue r"
  using step_same [of rawOp d d acc i r ws] same_wf by (auto dest: same_wf)

lemma runs_same:
  "runs reg acc i d ops r \<Longrightarrow> list_all wf_yvalue ops \<Longrightarrow> same d d' \<Longrightarrow> \<exists>r'. runs reg acc i d' ops r' \<and> same r r'"
proof (induction arbitrary: d' rule: runs.induct)
  case (runs_Cons op d i e ws ops r)
  then obtain e' ws' where e: "step_op reg acc op d' i = (Inr e', ws')" "same e e'"
    using step_same [of op d d' acc i e ws] by auto
  then obtain r' where "runs reg acc (i + 1) e' ops r'" "same r r'" using runs_Cons by auto
  with e show ?case using runs.runs_Cons by blast
qed (use runs_Nil in blast)

lemma runs_index: "runs reg acc i d ops r \<Longrightarrow> runs reg acc j d ops r"
proof (induction arbitrary: j rule: runs.induct)
  case (runs_Cons op d i e ws ops r)
  then show ?case using step_index [of acc op d i e ws j] runs.runs_Cons by blast
qed (rule runs_Nil)

lemma runs_wf: "runs reg acc i d ops r \<Longrightarrow> list_all wf_yvalue ops \<Longrightarrow> wf_yvalue d \<Longrightarrow> wf_yvalue r"
  using runs_same [of acc i d ops r d] same_wf by (auto dest: same_wf)

lemma apply_runs:
  "wf_yvalue d \<Longrightarrow> res_ok (applyYOps reg acc d ops) \<and> res_doc (applyYOps reg acc d ops) = r \<longleftrightarrow> runs reg acc 0 d ops r"
  by (simp add: applyYOps_def deepClone_id apply_from_runs)

lemma apply_append:
  assumes "wf_yvalue d" "list_all wf_yvalue xs"
  shows "res_ok (applyYOps reg acc d (xs @ ys)) \<and> res_doc (applyYOps reg acc d (xs @ ys)) = r \<longleftrightarrow>
     res_ok (applyYOps reg acc d xs) \<and> res_ok (applyYOps reg acc (res_doc (applyYOps reg acc d xs)) ys)
       \<and> res_doc (applyYOps reg acc (res_doc (applyYOps reg acc d xs)) ys) = r"
proof -
  have "res_ok (applyYOps reg acc d (xs @ ys)) \<and> res_doc (applyYOps reg acc d (xs @ ys)) = r
      \<longleftrightarrow> (\<exists>d'. runs reg acc 0 d xs d' \<and> runs reg acc (length xs) d' ys r)"
    using apply_runs [OF assms(1), of acc "xs @ ys" r] runs_append [of reg acc 0 d xs ys r] by simp
  also have "\<dots> \<longleftrightarrow> (\<exists>d'. runs reg acc 0 d xs d' \<and> runs reg acc 0 d' ys r)"
    using runs_index by blast
  also have "\<dots> \<longleftrightarrow> (\<exists>d'. runs reg acc 0 d xs d' \<and>
      res_ok (applyYOps reg acc d' ys) \<and> res_doc (applyYOps reg acc d' ys) = r)"
    using runs_wf [OF _ assms(2,1)] apply_runs by blast
  also have "\<dots> \<longleftrightarrow> (\<exists>d'. (res_ok (applyYOps reg acc d xs) \<and> res_doc (applyYOps reg acc d xs) = d') \<and>
      res_ok (applyYOps reg acc d' ys) \<and> res_doc (applyYOps reg acc d' ys) = r)"
    unfolding apply_runs [OF assms(1), of acc xs] ..
  finally show ?thesis by simp
qed

lemma apply_same:
  assumes "list_all wf_yvalue ops" "same d d'" "res_ok (applyYOps reg acc d ops)"
  shows "res_ok (applyYOps reg acc d' ops)
     \<and> same (res_doc (applyYOps reg acc d ops)) (res_doc (applyYOps reg acc d' ops))"
  using runs_same [OF _ assms(1,2)] apply_runs [of d acc ops] apply_runs [of d' acc ops] assms(2,3) same_wf
  by (metis same_wf)

lemma apply_wf:
  assumes "list_all wf_yvalue ops" "wf_yvalue d"
  shows "wf_yvalue (res_doc (applyYOps reg acc d ops))"
proof (cases "res_ok (applyYOps reg acc d ops)")
  case True
  then show ?thesis using apply_same [OF assms(1), of d d acc] assms(2) same_wf by simp
next
  case False
  then show ?thesis
    using apply_from_failure [of reg acc "deepClone d" 0 "deepClone (deepClone d)" "[]" ops]
    by (simp add: applyYOps_def Let_def deepClone_wf)
qed

end

section \<open>The registry of the package is sound\<close>

text \<open>The index only enters the error.\<close>

definition alike :: "op_result \<Rightarrow> op_result \<Rightarrow> bool" where
  "alike r r' \<longleftrightarrow> (\<forall>d. r = OpResult d None \<longrightarrow> r' = OpResult d None)"

lemma alike_simps [simp]: "alike r r" "alike (fail d c i) r" "alike Throws r"
  by (simp_all add: alike_def fail_def)

lemma alike_fold: "alike (foldHandler d p i) (foldHandler d p j)"
  unfolding foldHandler_def Let_def
  by (cases "resolvePathSegments d (parsePath p)") (auto split: yvalue.split list.split option.split)

lemma handle_alike: "alike (handle op d i) (handle op d j)"
proof (cases op)
  case (Fold p)
  then show ?thesis by (simp add: alike_fold)
qed (simp_all add: handler_defs Let_def split: option.split yvalue.split path_segment.split sum.split)

interpretation yops: sound_registry yops_registry
proof (unfold_locales, goal_cases)
  case (1 n h flds d d' i)
  then have "h = handler_for n" using yops_registry_spec by (simp split: if_splits)
  then show ?case using 1 handler_for_same by simp
next
  case (2 n h d flds i d' e)
  then have "h = handler_for n" using yops_registry_spec by (simp split: if_splits)
  then show ?case using 2 handler.error_keeps by (auto simp: handler_for_def split: option.splits)
next
  case (3 n h d flds i d' j)
  then have "h = handler_for n" using yops_registry_spec by (simp split: if_splits)
  then show ?case
    using 3 handle_alike [of _ d i j] by (auto simp: handler_for_def alike_def split: option.splits)
next
  case (4 n h)
  then show ?case using yops_registry_spec by (simp add: spec_has_own split: if_splits)
qed

end
