(* ===== verification/TypedOps.thy ===== *)
theory TypedOps
  imports Engine
begin

text \<open>
  The engine on typed operations: an operation given as a \<open>yop\<close> passes the guards of the loop
  exactly when it is \<open>admissible\<close> (the non-empty strings of its schema, well-formed paths, and a
  condition in an assertion), and then a step is its handler. This is the view of the engine that
  the recipe compilers of packages/yops/src/recipes.ts are proved against.
\<close>

section \<open>Admissible operations\<close>

definition path_ok :: "jstring \<Rightarrow> bool" where
  "path_ok p \<longleftrightarrow> (case tryParsePath p of Inl _ \<Rightarrow> False | Inr _ \<Rightarrow> True)"

fun nonempty_strings :: "yop \<Rightarrow> jstring list" where
  "nonempty_strings (Define p) = [p]"
| "nonempty_strings (Drop p) = [p]"
| "nonempty_strings (Rename p t) = [p, t]"
| "nonempty_strings (SetOp p v) = [p]"
| "nonempty_strings (Unset p) = [p]"
| "nonempty_strings (Populate p vs) = [p]"
| "nonempty_strings (Append p v) = [p]"
| "nonempty_strings (Move f t) = [f, t]"
| "nonempty_strings (Clone f t) = [f, t]"
| "nonempty_strings (Nest p ks n) = [n]"
| "nonempty_strings (Split p gs) = []"
| "nonempty_strings (Fold p) = [p]"
| "nonempty_strings (Merge p ks n) = [n]"
| "nonempty_strings (Sort p b r) = [p]"
| "nonempty_strings (Unique p b) = [p]"
| "nonempty_strings (Pick p ks) = []"
| "nonempty_strings (Omit p ks) = []"
| "nonempty_strings (Assert p e x t) = [p]"

fun op_path_list :: "yop \<Rightarrow> jstring list" where
  "op_path_list (Move f t) = [f, t]"
| "op_path_list (Clone f t) = [f, t]"
| "op_path_list (Define p) = [p]"
| "op_path_list (Drop p) = [p]"
| "op_path_list (Rename p t) = [p]"
| "op_path_list (SetOp p v) = [p]"
| "op_path_list (Unset p) = [p]"
| "op_path_list (Populate p vs) = [p]"
| "op_path_list (Append p v) = [p]"
| "op_path_list (Nest p ks n) = [p]"
| "op_path_list (Split p gs) = [p]"
| "op_path_list (Fold p) = [p]"
| "op_path_list (Merge p ks n) = [p]"
| "op_path_list (Sort p b r) = [p]"
| "op_path_list (Unique p b) = [p]"
| "op_path_list (Pick p ks) = [p]"
| "op_path_list (Omit p ks) = [p]"
| "op_path_list (Assert p e x t) = [p]"

fun has_condition :: "yop \<Rightarrow> bool" where
  "has_condition (Assert p e x t) = (e \<noteq> None \<or> x \<noteq> None \<or> t \<noteq> None)"
| "has_condition _ = True"

definition admissible :: "yop \<Rightarrow> bool" where
  "admissible op \<longleftrightarrow> list_all (\<lambda>s. s \<noteq> []) (nonempty_strings op) \<and> list_all path_ok (op_path_list op)
     \<and> has_condition op"

section \<open>The guards of the engine on a typed operation\<close>

lemma op_value_lookup: "map_of ((u (op_name op), YMap (op_fields op)) # opt_entry ''source'' id src) (u n) =
    (if n = op_name op then Some (YMap (op_fields op)) else if n = ''source'' then src else None)"
  by (cases src) (auto simp: opt_entry_def)

lemma op_name_not_source: "op_name op \<noteq> ''source''"
  by (cases op) simp_all

lemma op_resolves: "resolveOpName (op_value op src) = Some (u (op_name op))"
  using op_name_not_source [of op] by (simp add: resolveOpName_def op_value_def OP_METADATA_KEYS_def)

lemma payload_names: "map fst payload_schemas = [''define'', ''drop'', ''rename'', ''set'', ''unset'', ''populate'',
    ''append'', ''move'', ''clone'', ''nest'', ''split'', ''fold'', ''merge'', ''sort'', ''unique'', ''pick'',
    ''omit'', ''assert'']"
  by (simp add: payload_schemas_def)

lemma distinct_payloads: "distinct (map fst payload_schemas)"
  by (simp add: payload_names)

lemma opt_entry_keys: "set (map fst (opt_entry k f x)) \<subseteq> {u k}"
  by (cases x) (simp_all add: opt_entry_def)

lemma op_schema_other:
  assumes z: "zod_spec acc" and "n \<noteq> op_name op" "n \<noteq> ''source''"
  shows "\<not> acc (op_schema (n, s)) (op_value op src)"
  using assms(2,3) op_name_not_source [of op]
  by (cases src) (simp_all add: op_schema_def op_value_def zodD(9) [OF z] field_ok_def opt_entry_def)

lemma op_schema_own:
  assumes z: "zod_spec acc"
  shows "acc (op_schema (op_name op, s)) (op_value op src) \<longleftrightarrow>
     acc s (YMap (op_fields op)) \<and> (case src of None \<Rightarrow> True | Some v \<Rightarrow> acc SourceSchema v)"
  using op_name_not_source [of op]
  by (cases src) (simp_all add: op_schema_def op_value_def zodD(9) [OF z] field_ok_def opt_entry_def)

lemma yop_schema_iff:
  assumes z: "zod_spec acc" and s: "(op_name op, s) \<in> set payload_schemas"
  shows "acc YOpSchema (op_value op src) \<longleftrightarrow>
     acc s (YMap (op_fields op)) \<and> (case src of None \<Rightarrow> True | Some v \<Rightarrow> acc SourceSchema v)"
proof -
  have src: "n \<noteq> ''source''" if "(n, t) \<in> set payload_schemas" for n t
  proof -
    have "n \<in> set (map fst payload_schemas)" using that by force
    then show ?thesis unfolding payload_names by auto
  qed
  have "acc (op_schema e) (op_value op src) \<longleftrightarrow> e = (op_name op, s) \<and> acc (op_schema e) (op_value op src)"
    if e: "e \<in> set payload_schemas" for e
  proof (cases "fst e = op_name op")
    case True
    then have "snd e = s"
      using e s distinct_payloads eq_key_imp_eq_value [of payload_schemas "op_name op" "snd e" s]
      by (metis prod.collapse)
    with True show ?thesis by (metis prod.collapse)
  next
    case False
    then show ?thesis
      using op_schema_other [OF z, of "fst e" op "snd e" src] src [of "fst e" "snd e"] e by auto
  qed
  then have "acc YOpSchema (op_value op src) \<longleftrightarrow> acc (op_schema (op_name op, s)) (op_value op src)"
    using s by (auto simp: YOpSchema_def zodD(7) [OF z] list_ex_iff)
  then show ?thesis by (simp add: op_schema_own [OF z])
qed

definition payload_schema :: "yop \<Rightarrow> zschema" where
  "payload_schema op = the (map_of payload_schemas (op_name op))"

lemma payload_schema_in: "(op_name op, payload_schema op) \<in> set payload_schemas"
proof -
  have "op_name op \<in> set (map fst payload_schemas)" unfolding payload_names by (cases op) simp_all
  then obtain s where "map_of payload_schemas (op_name op) = Some s" unfolding key_lookup_iff by blast
  then show ?thesis by (simp add: payload_schema_def map_of_SomeD)
qed

lemma enum_names:
  assumes z: "zod_spec acc"
  shows "acc (ZEnum [u ''asc'', u ''desc'']) (YStr (u (order_name r)))"
    and "acc (ZEnum [u ''mapping'', u ''sequence'', u ''scalar'']) (YStr (u (kind_name k)))"
  by (cases r; simp add: zodD(5) [OF z] order_name_def) (cases k; simp add: zodD(5) [OF z] kind_name_def)

lemma payload_accepts:
  assumes z: "zod_spec acc"
  shows "acc (payload_schema op) (YMap (op_fields op)) \<longleftrightarrow>
     list_all (\<lambda>s. s \<noteq> []) (nonempty_strings op) \<and> has_condition op"
  by (cases op) (auto simp: payload_schema_def payload_schemas_def zodD(9,10) [OF z] field_ok_def
      zod_casts [OF z] enum_names [OF z] opt_entry_def Suc_le_eq split: option.splits)

lemma known_op: "u (op_name op) \<in> set handler_names"
  by (cases op) (simp_all add: handler_names_def)

definition op_spec_of :: "yop \<Rightarrow> op_spec" where
  "op_spec_of op = the (map_of yops_spec (u (op_name op)))"

lemma fields_valid: "validateFields (op_fields op) (op_spec_of op) i = None"
  by (cases op)
     (simp_all add: op_spec_of_def yops_spec_lookup raw_defs plain_op_def plain_field_def validateFields_def
       missing_required_def unknown_field_def enum_violation_def has_own_def opt_entry_def in_enum_def
       order_name_def kind_name_def split: option.split sort_order.split node_kind.split)

lemma paths_valid:
  "list_all (\<lambda>(role, path). \<exists>segs. tryParsePath path = Inr segs)
     (getOpPaths yops_registry ((u (op_name op), YMap (op_fields op)) # opt_entry ''source'' id src)) \<longleftrightarrow>
   list_all path_ok (op_path_list op)"
proof -
  have ok: "(\<exists>segs. tryParsePath p = Inr segs) \<longleftrightarrow> path_ok p" for p
    by (simp add: path_ok_def split: sum.split)
  have empty: "path_ok []" by (simp add: path_ok_def tryParsePath_def)
  have paths: "getOpPaths yops_registry ((u (op_name op), YMap (op_fields op)) # opt_entry ''source'' id src)
      = concat (map (role_path (op_path_fields (op_spec_of op)) (op_fields op)) [Primary, Source, Destination])"
  proof -
    have "map_of yops_spec (u (op_name op)) = Some (op_spec_of op)"
      using known_op [of op] spec_has_own [of "u (op_name op)"] by (auto simp: op_spec_of_def has_own_def)
    then show ?thesis
      using op_resolves [of op src] yops_registry_spec
      by (simp add: getOpPaths_def getPathFields_def op_value_def)
  qed
  show ?thesis
    unfolding paths
    by (cases op)
       (simp_all add: op_spec_of_def yops_spec_lookup raw_defs plain_op_def role_path_def role_field_def
         primary_path_def from_to_def opt_entry_def ok empty)
qed

section \<open>A step of the engine on a typed operation\<close>

lemma guards_typed:
  assumes z: "zod_spec acc"
  shows "guards yops_registry acc (op_value op None) n flds \<longleftrightarrow>
     n = u (op_name op) \<and> flds = op_fields op \<and> admissible op"
proof -
  have "the (getOpSpec yops_registry (u (op_name op))) = op_spec_of op"
    using yops_registry_spec by (simp add: getOpSpec_def op_spec_of_def)
  moreover have "acc YOpSchema (op_value op None) \<longleftrightarrow>
      list_all (\<lambda>s. s \<noteq> []) (nonempty_strings op) \<and> has_condition op"
    using yop_schema_iff [OF z payload_schema_in, of op None] payload_accepts [OF z] by simp
  moreover have "op_value op None = YMap ((u (op_name op), YMap (op_fields op)) # opt_entry ''source'' id None)"
    by (simp add: op_value_def)
  ultimately show ?thesis
    using op_resolves [of op None] fields_valid [of op 0] paths_valid [of op None]
    by (auto simp: guards_def admissible_def op_value_def)
qed

lemma typed_step:
  assumes z: "zod_spec acc"
  shows "(\<exists>ws. step_op yops_registry acc (op_value op None) d i = (Inr r, ws)) \<longleftrightarrow>
     admissible op \<and> handle op d i = OpResult r None"
proof -
  have h: "reg_handlers yops_registry (u (op_name op)) = Some (handler_for (u (op_name op)))"
    using yops_registry_spec known_op [of op] by simp
  have "handler_for (u (op_name op)) d (op_fields op) i = handle op d i"
    by (simp add: handler_for_def decode_op_fields)
  with h show ?thesis
    unfolding yops.step_iff guards_typed [OF z] by auto
qed

lemma typed_runs:
  assumes z: "zod_spec acc"
  shows "runs yops_registry acc i d (op_value op None # ops) r \<longleftrightarrow>
     (\<exists>d'. admissible op \<and> handle op d i = OpResult d' None \<and> runs yops_registry acc (i + 1) d' ops r)"
  using typed_step [OF z, of op d i] by (auto simp: runs_Cons_iff)

text \<open>The values inside an operation are well formed exactly when its encoding is.\<close>

lemma str_seq_wf [simp]: "wf_yvalue (str_seq ks)"
  by (simp add: str_seq_def list_all_iff)

lemma plain_keys: "wf_keys ks" if "list_all alphabetic ks" "distinct ks"
proof -
  have "array_index k = None" if "alphabetic k" for k
    using that by (cases k) (auto simp: alphabetic_def array_index_def)
  then show ?thesis
    using that unfolding wf_keys_def
    by (induction ks) (auto simp: key_before_def list_all_iff)
qed

lemma op_value_wf: "wf_op op \<Longrightarrow> wf_yvalue (op_value op None)"
proof -
  assume wf: "wf_op op"
  have alpha: "alphabetic (u (c # s)) \<longleftrightarrow> \<not> is_digit (cu c) \<and> c \<noteq> CHR ''_''" for c s
    by (simp add: alphabetic_def u_Cons)
  have groups: "wf_object (map (map_prod id str_seq) gs)" if "wf_object gs" for gs
    using that by (simp add: comp_def)
  have keys: "wf_object (op_fields op)"
    by (rule plain_keys; cases op) (auto simp: opt_entry_def alpha is_digit_cu split: option.split)
  have vals: "wf_entries (op_fields op)"
    using wf groups by (cases op) (auto simp: opt_entry_def wf_op_Assert list_all_iff split: option.splits)
  have "wf_object [(u (op_name op), YMap (op_fields op))]"
    by (rule plain_keys; cases op) (auto simp: alpha is_digit_cu)
  with keys vals show ?thesis by (simp add: op_value_def opt_entry_def)
qed

end
