(* ===== verification/PathFormat.thy ===== *)
theory PathFormat
  imports Paths Canonical
begin

text \<open>
  Printing a path back from its segments: \<open>formatPathSegment\<close>, \<open>formatPathSegments\<close> and
  \<open>splitLastKeyPath\<close> of packages/yops/src/recipes.ts, and the round trip with \<open>tryParsePath\<close> of
  packages/yops/src/paths.ts.
\<close>

text \<open>\<open>String.prototype.replaceAll\<close> of one character, and the class \<open>[/"\[\]=]\<close> with the backslash.\<close>

definition replaceAll :: "code_unit \<Rightarrow> jstring \<Rightarrow> jstring \<Rightarrow> jstring" where
  "replaceAll c by s = concat (map (\<lambda>x. if x = c then by else [x]) s)"

definition reserved_char :: "code_unit \<Rightarrow> bool" where
  "reserved_char c \<longleftrightarrow> c = slash \<or> c = dquote \<or> c = bslash \<or> c = lbracket \<or> c = rbracket \<or> c = equals_sign"

definition formatPathSegment :: "path_segment \<Rightarrow> jstring" where
  "formatPathSegment segment = (case segment of
     SegIndex n \<Rightarrow> lbracket # dec_digits n @ [rbracket]
   | SegMatch k v \<Rightarrow> lbracket # k @ equals_sign # v @ [rbracket]
   | SegKey k \<Rightarrow>
       if k \<noteq> [] \<and> \<not> list_ex reserved_char k then k
       else dquote # replaceAll dquote [bslash, dquote] (replaceAll bslash [bslash, bslash] k) @ [dquote])"

definition formatPathSegments :: "path_segment list \<Rightarrow> jstring" where
  "formatPathSegments segments = join slash (map formatPathSegment segments)"

definition splitLastKeyPath :: "jstring \<Rightarrow> (jstring \<times> jstring) option" where
  "splitLastKeyPath path =
     (let segments = parsePath path
      in if segments = [] then None
         else (case last segments of
                 SegKey k \<Rightarrow> Some (formatPathSegments (butlast segments), k)
               | _ \<Rightarrow> None))"

section \<open>Segments that the grammar can express\<close>

fun segment_ok :: "path_segment \<Rightarrow> bool" where
  "segment_ok (SegKey _) = True"
| "segment_ok (SegIndex n) = (n \<le> MAX_SAFE_INTEGER)"
| "segment_ok (SegMatch k v) =
     (k \<noteq> [] \<and> list_all (\<lambda>c. c \<noteq> equals_sign \<and> c \<noteq> rbracket \<and> c \<noteq> slash) k
      \<and> list_all (\<lambda>c. c \<noteq> rbracket \<and> c \<noteq> slash) v)"

lemma dropWhile_append_stops: "list_all P xs \<Longrightarrow> stops P r \<Longrightarrow> dropWhile P (xs @ r) = r"
  by (cases r) auto

lemma index_regex_digits:
  "ds \<noteq> [] \<Longrightarrow> list_all is_digit ds \<Longrightarrow> index_regex (lbracket # ds @ [rbracket]) = Some ds"
  by (simp add: index_regex_def)

lemma match_regex_match:
  "segment_ok (SegMatch k v) \<Longrightarrow>
     index_regex (lbracket # k @ equals_sign # v @ [rbracket]) = None \<and>
     match_regex (lbracket # k @ equals_sign # v @ [rbracket]) = Some (k, v)"
  by (auto simp: index_regex_def match_regex_def Let_def butlast_append is_digit_cu list_all_iff
      takeWhile_append dropWhile_append)

lemma quoted_escape:
  "replaceAll dquote [bslash, dquote] (replaceAll bslash [bslash, bslash] k)
     = concat (map (\<lambda>c. if c = bslash \<or> c = dquote then [bslash, c] else [c]) k)"
  by (induction k) (auto simp: replaceAll_def)

lemma read_quoted_Cons:
  "s \<noteq> [] \<Longrightarrow> c \<noteq> bslash \<Longrightarrow> c \<noteq> dquote \<Longrightarrow>
     read_quoted start i (c # s) acc = read_quoted start (i + 1) s (acc @ [c])"
  by (cases s) auto

lemma read_quoted_escape:
  "read_quoted start i
     (concat (map (\<lambda>c. if c = bslash \<or> c = dquote then [bslash, c] else [c]) k) @ dquote # r) acc
   = Inr (acc @ k, i + length (concat (map (\<lambda>c. if c = bslash \<or> c = dquote then [bslash, c] else [c]) k)) + 1, r)"
proof (induction k arbitrary: i acc)
  case Nil
  show ?case by (cases r) auto
next
  case (Cons c k)
  then show ?case by (cases "c = bslash \<or> c = dquote") (auto simp: read_quoted_Cons)
qed

lemma classify_key:
  "k = [] \<or> hd k \<noteq> lbracket \<Longrightarrow> classifyStrictRawSegment k i = Inr (SegKey k)"
  by (auto simp: classifyStrictRawSegment_def)

lemma format_no_slash:
  "\<exists>c t. formatPathSegment seg = c # t"
  by (cases seg) (auto simp: formatPathSegment_def neq_Nil_conv)

lemma read_segment_plain:
  assumes "raw \<noteq> []" "hd raw \<noteq> dquote" "list_all (\<lambda>c. c \<noteq> slash) raw" "stops (\<lambda>c. c \<noteq> slash) r"
    and "classifyStrictRawSegment raw i = Inr seg"
  shows "read_segment i (raw @ r) = Inr (seg, i + length raw, r)"
  using assms by (simp add: read_segment_def takeWhile_append_stops dropWhile_append_stops)

lemma digits_no_slash: "list_all is_digit ds \<Longrightarrow> list_all (\<lambda>c. c \<noteq> slash) ds"
  by (auto simp: list_all_iff is_digit_cu)

lemma read_segment_format:
  assumes ok: "segment_ok seg" and r: "stops (\<lambda>c. c \<noteq> slash) r"
  shows "read_segment i (formatPathSegment seg @ r) = Inr (seg, i + length (formatPathSegment seg), r)"
proof (cases seg)
  case (SegKey k)
  show ?thesis
  proof (cases "k \<noteq> [] \<and> \<not> list_ex reserved_char k")
    case True
    then have k: "k \<noteq> []" "\<forall>c \<in> set k. \<not> reserved_char c" by (auto simp: list_ex_iff)
    then have "\<not> reserved_char (hd k)" by simp
    then have "hd k \<noteq> dquote" "hd k \<noteq> lbracket" by (auto simp: reserved_char_def)
    moreover have "list_all (\<lambda>c. c \<noteq> slash) k" using k(2) by (auto simp: list_all_iff reserved_char_def)
    moreover have "formatPathSegment (SegKey k) = k" using True by (simp add: formatPathSegment_def)
    ultimately show ?thesis
      using k(1) r by (simp add: SegKey read_segment_plain classify_key)
  next
    case False
    then show ?thesis
      using SegKey by (auto simp: formatPathSegment_def read_segment_def quoted_escape read_quoted_escape)
  qed
next
  case (SegIndex n)
  let ?raw = "lbracket # dec_digits n @ [rbracket]"
  have "index_regex ?raw = Some (dec_digits n)" by (simp add: index_regex_digits dec_digits_digits)
  then have "classifyStrictRawSegment ?raw i = Inr (SegIndex n)"
    using ok SegIndex by (simp add: classifyStrictRawSegment_def del: dec_digits.simps)
  moreover have "list_all (\<lambda>c. c \<noteq> slash) ?raw"
    using digits_no_slash [OF dec_digits_digits, of n] by simp
  ultimately have "read_segment i (?raw @ r) = Inr (SegIndex n, i + length ?raw, r)"
    using r by (intro read_segment_plain) simp_all
  then show ?thesis by (simp add: SegIndex formatPathSegment_def)
next
  case (SegMatch k v)
  with ok have m: "segment_ok (SegMatch k v)" by simp
  have "read_segment i ((lbracket # k @ equals_sign # v @ [rbracket]) @ r)
     = Inr (SegMatch k v, i + length (lbracket # k @ equals_sign # v @ [rbracket]), r)"
    by (rule read_segment_plain)
      (use m r match_regex_match [OF m] in \<open>auto simp: classifyStrictRawSegment_def list_all_iff\<close>)
  then show ?thesis by (simp add: SegMatch formatPathSegment_def)
qed

lemma parse_loop_format:
  "list_all segment_ok (seg # segs) \<Longrightarrow>
     parse_loop i (formatPathSegments (seg # segs)) acc = Inr (acc @ seg # segs)"
proof (induction segs arbitrary: seg i acc)
  case Nil
  then show ?case
    using format_no_slash [of seg] read_segment_format [of seg "[]" i]
    by (auto simp: formatPathSegments_def parse_loop.simps)
next
  case (Cons seg' segs)
  let ?rest = "slash # formatPathSegments (seg' # segs)"
  have eq: "formatPathSegments (seg # seg' # segs) = formatPathSegment seg @ ?rest"
    by (simp add: formatPathSegments_def)
  have "read_segment i (formatPathSegment seg @ ?rest) = Inr (seg, i + length (formatPathSegment seg), ?rest)"
    using Cons.prems by (intro read_segment_format) simp_all
  then show ?case
    using Cons.prems Cons.IH [of seg' _ "acc @ [seg]"] format_no_slash [of seg]
    unfolding eq by (subst parse_loop.simps) (auto simp: Let_def)
qed

lemma parse_format: "list_all segment_ok segs \<Longrightarrow> tryParsePath (formatPathSegments segs) = Inr segs"
proof (cases segs)
  case (Cons seg segs')
  moreover assume "list_all segment_ok segs"
  moreover have "formatPathSegments (seg # segs') \<noteq> []"
    using format_no_slash [of seg] by (cases segs') (auto simp: formatPathSegments_def)
  ultimately show ?thesis using parse_loop_format [of seg segs' 0 "[]"] by (simp add: tryParsePath_def)
qed (simp add: tryParsePath_def formatPathSegments_def)

text \<open>Every segment that the strict parser returns can be printed.\<close>

lemma dropWhile_hd: "dropWhile P xs = y # ys \<Longrightarrow> \<not> P y"
  by (induction xs) (auto split: if_splits)

lemma match_regex_parts:
  "match_regex raw = Some (k, v) \<Longrightarrow> k \<noteq> []
     \<and> list_all (\<lambda>c. c \<noteq> equals_sign \<and> c \<noteq> rbracket) k \<and> list_all (\<lambda>c. c \<noteq> rbracket) v
     \<and> raw = lbracket # k @ equals_sign # v @ [rbracket]"
proof -
  assume m: "match_regex raw = Some (k, v)"
  then obtain r where raw: "raw = lbracket # r" by (auto simp: match_regex_def Let_def split: list.splits if_splits)
  let ?P = "\<lambda>c. c \<noteq> equals_sign \<and> c \<noteq> rbracket"
  let ?rest = "dropWhile ?P r"
  have k: "k = takeWhile ?P r" "k \<noteq> []" and rest: "?rest \<noteq> []" "hd ?rest = equals_sign" "tl ?rest \<noteq> []"
    "last ?rest = rbracket" "list_all (\<lambda>c. c \<noteq> rbracket) (butlast (tl ?rest))" "v = butlast (tl ?rest)"
    using m unfolding raw match_regex_def Let_def list.case by (simp_all split: if_splits)
  have v: "tl ?rest = v @ [rbracket]"
    using append_butlast_last_id [OF rest(3)] rest(4,6) last_tl [of ?rest] rest(3) by simp
  have "?rest = hd ?rest # tl ?rest" using rest(1) by simp
  also have "\<dots> = equals_sign # v @ [rbracket]" unfolding v rest(2) ..
  finally have "k @ ?rest = k @ equals_sign # v @ [rbracket]" by (rule arg_cong)
  moreover have "k @ ?rest = r" unfolding k(1) by (rule takeWhile_dropWhile_id)
  ultimately have "r = k @ equals_sign # v @ [rbracket]" by (rule trans [OF sym, rotated])
  moreover have "list_all ?P k" by (auto simp: k(1) list_all_iff dest: set_takeWhileD)
  ultimately show ?thesis using k(2) rest(5,6) raw by simp
qed

lemma match_regex_ok:
  assumes "match_regex raw = Some (k, v)" "list_all (\<lambda>c. c \<noteq> slash) raw"
  shows "segment_ok (SegMatch k v)"
  using match_regex_parts [OF assms(1)] assms(2) by (auto simp: list_all_iff)

lemma classifyStrict_ok:
  "classifyStrictRawSegment raw i = Inr seg \<Longrightarrow> list_all (\<lambda>c. c \<noteq> slash) raw \<Longrightarrow> segment_ok seg"
  by (auto simp: classifyStrictRawSegment_def split: if_splits option.splits simp del: segment_ok.simps(3)
      intro: match_regex_ok)

lemma takeWhile_list_all: "list_all P (takeWhile P xs)"
  by (auto simp: list_all_iff dest: set_takeWhileD)

lemma read_segment_ok: "read_segment i s = Inr (seg, j, r) \<Longrightarrow> segment_ok seg"
  by (auto simp: read_segment_def Let_def split: if_splits sum.splits
      intro: classifyStrict_ok takeWhile_list_all)

lemma parse_loop_ok:
  "parse_loop i s acc = Inr segs \<Longrightarrow> list_all segment_ok acc \<Longrightarrow> list_all segment_ok segs"
proof (induction i s acc rule: parse_loop.induct)
  case (1 i s acc)
  show ?case
  proof (cases "s = []")
    case True
    with 1(2,3) show ?thesis by (auto simp: parse_loop.simps)
  next
    case False
    then obtain seg j rest where seg: "read_segment i s = Inr (seg, j, rest)"
      using 1(2) by (cases "read_segment i s") (auto simp: parse_loop.simps)
    show ?thesis
    proof (cases "rest = []")
      case True
      with 1(2,3) False seg read_segment_ok [OF seg] show ?thesis by (auto simp: parse_loop.simps)
    next
      case rest: False
      let ?t = "takeWhile (\<lambda>c. c \<noteq> slash) rest"
      let ?r = "dropWhile (\<lambda>c. c \<noteq> slash) rest"
      let ?seg = "if hd rest \<noteq> slash
        then (case seg of SegKey v \<Rightarrow> SegKey (v @ ?t) | _ \<Rightarrow> SegKey ?t) else seg"
      let ?j = "j + length ?t + (if ?r \<noteq> [] then 1 else 0)"
      have "parse_loop i s acc = parse_loop ?j (drop 1 ?r) (acc @ [?seg])"
        by (subst parse_loop.simps) (simp add: False seg rest Let_def)
      then have "parse_loop ?j (drop 1 ?r) (acc @ [?seg]) = Inr segs" using 1(2) by simp
      moreover have "segment_ok ?seg" using read_segment_ok [OF seg] by (cases seg) auto
      ultimately show ?thesis
        using 1(3) by (intro 1(1) [OF False seg refl refl rest refl refl refl refl]) simp_all
    qed
  qed
qed

lemma tryParsePath_ok: "tryParsePath path = Inr segs \<Longrightarrow> list_all segment_ok segs"
  by (auto simp: tryParsePath_def split: if_splits dest: parse_loop_ok)

end
