(* ===== verification/Recipes.thy ===== *)
theory Recipes
  imports TypedOps PathFormat
begin

text \<open>
  packages/yops/src/recipes.ts, first part: the recipe inputs, the assertions that throw, and the
  fourteen compilers from a recipe to the primitive operations assert, set and unset. A
  \<open>throw new TypeError\<close> is the left summand; \<open>target[key] = value\<close> is \<open>obj_assign\<close>.
\<close>

section \<open>Inputs\<close>

datatype path_value = Present yvalue | Absent

datatype recipe_input =
    ReplacePath jstring path_value path_value
  | ClonePath jstring jstring yvalue path_value
  | MovePath jstring jstring yvalue path_value
  | RenameKey jstring yvalue jstring jstring
  | AppendItem jstring yvalue yvalue
  | PickKeys jstring yvalue "jstring list"
  | OmitKeys jstring yvalue "jstring list"
  | PopulateMapping jstring yvalue "(jstring \<times> yvalue) list"
  | NestKeys jstring yvalue "jstring list" jstring
  | SplitGroups jstring yvalue "(jstring \<times> jstring list) list"
  | FoldChild jstring jstring yvalue
  | MergeKeys jstring yvalue "jstring list" jstring
  | SortSequence jstring yvalue "jstring option" "sort_order option"
  | UniqueSequence jstring yvalue "jstring option"

datatype recipe_error =
    EmptyPath
  | SamePaths
  | DestinationInsideSource
  | EmptyKey
  | NotAMappingValue
  | NotASequenceValue
  | ItemNotMapping
  | ItemKeyMissing
  | DestinationPresent
  | MissingKey jstring
  | ExistingKey jstring
  | DuplicateKey jstring
  | NotAKeyPath
  | NotOneChild

section \<open>Assertions\<close>

definition pathValuesEqual :: "path_value \<Rightarrow> path_value \<Rightarrow> bool" where
  "pathValuesEqual l r = (case (l, r) of
     (Present v, Present w) \<Rightarrow> canonicalJson v = canonicalJson w
   | (Absent, Absent) \<Rightarrow> True
   | _ \<Rightarrow> False)"

definition assertRecipePath :: "jstring \<Rightarrow> recipe_error + unit" where
  "assertRecipePath path = (if js_trim path = [] then Inl EmptyPath else Inr ())"

definition assertDistinctRecipePaths :: "jstring \<Rightarrow> jstring \<Rightarrow> recipe_error + unit" where
  "assertDistinctRecipePaths src to =
     bind_sum (assertRecipePath src) (\<lambda>_. bind_sum (assertRecipePath to) (\<lambda>_.
       if src = to then Inl SamePaths else Inr ()))"

definition assertMoveDestinationIsOutsideSource :: "jstring \<Rightarrow> jstring \<Rightarrow> recipe_error + unit" where
  "assertMoveDestinationIsOutsideSource src to =
     (if starts_with to (src @ [slash]) then Inl DestinationInsideSource else Inr ())"

definition assertRecipeKey :: "jstring \<Rightarrow> recipe_error + unit" where
  "assertRecipeKey key = (if js_trim key = [] then Inl EmptyKey else Inr ())"

definition assertMappingValue :: "yvalue \<Rightarrow> recipe_error + (jstring \<times> yvalue) list" where
  "assertMappingValue v = (case v of YMap m \<Rightarrow> Inr m | _ \<Rightarrow> Inl NotAMappingValue)"

definition assertSequenceValue :: "yvalue \<Rightarrow> recipe_error + yvalue list" where
  "assertSequenceValue v = (case v of YSeq xs \<Rightarrow> Inr xs | _ \<Rightarrow> Inl NotASequenceValue)"

definition mappingPathReplacement :: "jstring \<Rightarrow> yvalue \<Rightarrow> yvalue \<Rightarrow> yop list" where
  "mappingPathReplacement path base target =
     (if canonicalJson base = canonicalJson target then []
      else [Assert path (Some (cloneYValue base)) None None, SetOp path (cloneYValue target)])"

text \<open>\<open>assertSequenceSortKey\<close> and \<open>assertSequenceUniqueKey\<close> differ in their messages only.\<close>

definition assertSequenceKey :: "jstring \<Rightarrow> yvalue \<Rightarrow> recipe_error + unit" where
  "assertSequenceKey by item = (case item of
     YMap m \<Rightarrow> if has_own m by then Inr () else Inl ItemKeyMissing
   | _ \<Rightarrow> Inl ItemNotMapping)"

fun check_all :: "('a \<Rightarrow> 'e + unit) \<Rightarrow> 'a list \<Rightarrow> 'e + unit" where
  "check_all f [] = Inr ()"
| "check_all f (x # xs) = bind_sum (f x) (\<lambda>_. check_all f xs)"

fun assertMappingKeyList :: "jstring list \<Rightarrow> jstring list \<Rightarrow> (jstring \<times> yvalue) list \<Rightarrow>
    recipe_error + jstring list" where
  "assertMappingKeyList out [] base = Inr out"
| "assertMappingKeyList out (key # keys) base =
     bind_sum (assertRecipeKey key) (\<lambda>_.
       if key \<in> set out then Inl (DuplicateKey key)
       else if \<not> has_own base key then Inl (MissingKey key)
       else assertMappingKeyList (out @ [key]) keys base)"

definition assign_all :: "(jstring \<times> yvalue) list \<Rightarrow> (jstring \<times> yvalue) list \<Rightarrow> (jstring \<times> yvalue) list" where
  "assign_all target kvs = foldl (\<lambda>t (k, v). obj_assign t k v) target kvs"

text \<open>\<open>Object.entries\<close> without some keys, each value cloned and assigned to a fresh object.\<close>

definition rest_entries :: "jstring list \<Rightarrow> (jstring \<times> yvalue) list \<Rightarrow> (jstring \<times> yvalue) list" where
  "rest_entries keys base = assign_all []
     (map (\<lambda>(k, v). (k, cloneYValue v)) (filter (\<lambda>(k, v). k \<notin> set keys) base))"

definition key_entries :: "jstring list \<Rightarrow> (jstring \<times> yvalue) list \<Rightarrow> (jstring \<times> yvalue) list" where
  "key_entries keys base = assign_all [] (map (\<lambda>k. (k, cloneYValue (the (map_of base k)))) keys)"

definition assert_set :: "jstring \<Rightarrow> yvalue \<Rightarrow> yvalue \<Rightarrow> yop list" where
  "assert_set path base target = [Assert path (Some (cloneYValue base)) None None, SetOp path target]"

section \<open>Paths\<close>

definition compileYOpsPathReplacement :: "jstring \<Rightarrow> path_value \<Rightarrow> path_value \<Rightarrow> recipe_error + yop list" where
  "compileYOpsPathReplacement path base target =
     bind_sum (assertRecipePath path) (\<lambda>_.
       if pathValuesEqual base target then Inr []
       else Inr
         [(case base of Present v \<Rightarrow> Assert path (Some (cloneYValue v)) None None
            | Absent \<Rightarrow> Assert path None (Some False) None),
          (case target of Present v \<Rightarrow> SetOp path (cloneYValue v) | Absent \<Rightarrow> Unset path)])"

definition compileYOpsPathClone :: "jstring \<Rightarrow> jstring \<Rightarrow> yvalue \<Rightarrow> path_value \<Rightarrow> recipe_error + yop list" where
  "compileYOpsPathClone src to v dest =
     bind_sum (assertDistinctRecipePaths src to) (\<lambda>_.
       if dest \<noteq> Absent then Inl DestinationPresent
       else Inr [Assert src (Some (cloneYValue v)) None None, Assert to None (Some False) None,
                 SetOp to (cloneYValue v)])"

definition compileYOpsPathMove :: "jstring \<Rightarrow> jstring \<Rightarrow> yvalue \<Rightarrow> path_value \<Rightarrow> recipe_error + yop list" where
  "compileYOpsPathMove src to v dest =
     bind_sum (assertDistinctRecipePaths src to) (\<lambda>_.
     bind_sum (assertMoveDestinationIsOutsideSource src to) (\<lambda>_.
     bind_sum (compileYOpsPathClone src to v dest) (\<lambda>ops. Inr (ops @ [Unset src]))))"

section \<open>Mappings\<close>

definition compileYOpsMappingKeyRename :: "jstring \<Rightarrow> yvalue \<Rightarrow> jstring \<Rightarrow> jstring \<Rightarrow> recipe_error + yop list" where
  "compileYOpsMappingKeyRename path baseValue src to =
     bind_sum (assertRecipePath path) (\<lambda>_.
     bind_sum (assertRecipeKey src) (\<lambda>_.
     bind_sum (assertRecipeKey to) (\<lambda>_.
       if src = to then Inr []
       else bind_sum (assertMappingValue baseValue) (\<lambda>base.
         if \<not> has_own base src then Inl (MissingKey src)
         else if has_own base to then Inl (ExistingKey to)
         else Inr (assert_set path baseValue (YMap (assign_all []
           (map (\<lambda>(k, v). (if k = src then to else k, cloneYValue v)) base))))))))"

definition compileYOpsMappingKeyPick :: "jstring \<Rightarrow> yvalue \<Rightarrow> jstring list \<Rightarrow> recipe_error + yop list" where
  "compileYOpsMappingKeyPick path baseValue keyList =
     bind_sum (assertRecipePath path) (\<lambda>_.
     bind_sum (assertMappingValue baseValue) (\<lambda>base.
     bind_sum (assertMappingKeyList [] keyList base) (\<lambda>keys.
       let target = YMap (key_entries keys base)
       in if canonicalJson target = canonicalJson (YMap base) then Inr []
          else Inr (assert_set path baseValue target))))"

definition compileYOpsMappingKeyOmit :: "jstring \<Rightarrow> yvalue \<Rightarrow> jstring list \<Rightarrow> recipe_error + yop list" where
  "compileYOpsMappingKeyOmit path baseValue keyList =
     bind_sum (assertRecipePath path) (\<lambda>_.
     bind_sum (assertMappingValue baseValue) (\<lambda>base.
       if keyList = [] then Inr []
       else bind_sum (assertMappingKeyList [] keyList base) (\<lambda>keys.
         Inr (assert_set path baseValue (YMap (rest_entries keys base))))))"

definition compileYOpsMappingPopulate ::
  "jstring \<Rightarrow> yvalue \<Rightarrow> (jstring \<times> yvalue) list \<Rightarrow> recipe_error + yop list" where
  "compileYOpsMappingPopulate path baseValue vs =
     bind_sum (assertRecipePath path) (\<lambda>_.
     bind_sum (assertMappingValue baseValue) (\<lambda>base.
     bind_sum (check_all assertRecipeKey (map fst vs)) (\<lambda>_.
     bind_sum (assertMappingValue (cloneYValue (YMap base))) (\<lambda>target.
       Inr (mappingPathReplacement path baseValue
         (YMap (assign_all target (map (\<lambda>(k, v). (k, cloneYValue v)) vs))))))))"

definition compileYOpsMappingNest ::
  "jstring \<Rightarrow> yvalue \<Rightarrow> jstring list \<Rightarrow> jstring \<Rightarrow> recipe_error + yop list" where
  "compileYOpsMappingNest path baseValue keyList underKey =
     bind_sum (assertRecipePath path) (\<lambda>_.
     bind_sum (assertRecipeKey underKey) (\<lambda>_.
     bind_sum (assertMappingValue baseValue) (\<lambda>base.
     bind_sum (assertMappingKeyList [] keyList base) (\<lambda>keys.
       if keys = [] then Inr []
       else if has_own base underKey \<and> underKey \<notin> set keys then Inl (ExistingKey underKey)
       else Inr (mappingPathReplacement path baseValue
         (YMap (obj_assign (rest_entries keys base) underKey (YMap (key_entries keyList base)))))))))"

text \<open>The first loop of split: the source keys, each once and each present.\<close>

fun split_sources :: "jstring list \<Rightarrow> jstring list \<Rightarrow> (jstring \<times> yvalue) list \<Rightarrow> recipe_error + jstring list" where
  "split_sources seen [] base = Inr seen"
| "split_sources seen (key # keys) base =
     bind_sum (assertRecipeKey key) (\<lambda>_.
       if key \<in> set seen then Inl (DuplicateKey key)
       else if \<not> has_own base key then Inl (MissingKey key)
       else split_sources (seen @ [key]) keys base)"

definition compileYOpsMappingSplit ::
  "jstring \<Rightarrow> yvalue \<Rightarrow> (jstring \<times> jstring list) list \<Rightarrow> recipe_error + yop list" where
  "compileYOpsMappingSplit path baseValue into =
     bind_sum (assertRecipePath path) (\<lambda>_.
     bind_sum (assertMappingValue baseValue) (\<lambda>base.
     bind_sum (split_sources [] (concat (map snd into)) base) (\<lambda>seen.
     bind_sum (check_all (\<lambda>g. bind_sum (assertRecipeKey g) (\<lambda>_.
         if has_own base g \<and> g \<notin> set seen then Inl (ExistingKey g) else Inr ())) (map fst into)) (\<lambda>_.
       Inr (mappingPathReplacement path baseValue
         (YMap (assign_all (rest_entries seen base)
           (map (\<lambda>(g, ks). (g, YMap (key_entries ks base))) into))))))))"

definition compileYOpsMappingFold :: "jstring \<Rightarrow> jstring \<Rightarrow> yvalue \<Rightarrow> recipe_error + yop list" where
  "compileYOpsMappingFold path parentPath parentValue =
     bind_sum (assertRecipePath path) (\<lambda>_.
     bind_sum (assertRecipePath parentPath) (\<lambda>_.
     bind_sum (assertMappingValue parentValue) (\<lambda>parentBase.
       let segments = parsePath path
       in if segments = [] then Inl NotAKeyPath
          else (case last segments of
              SegKey foldedKey \<Rightarrow>
                if \<not> has_own parentBase foldedKey then Inl (MissingKey foldedKey)
                else bind_sum (assertMappingValue (the (map_of parentBase foldedKey))) (\<lambda>folded.
                  case folded of
                    [(childKey, child)] \<Rightarrow>
                      Inr (mappingPathReplacement parentPath parentValue
                        (YMap (obj_assign (rest_entries [foldedKey] parentBase) childKey (cloneYValue child))))
                  | _ \<Rightarrow> Inl NotOneChild)
            | _ \<Rightarrow> Inl NotAKeyPath))))"

fun merge_sources :: "(jstring \<times> yvalue) list \<Rightarrow> jstring list \<Rightarrow> (jstring \<times> yvalue) list \<Rightarrow>
    recipe_error + (jstring \<times> yvalue) list" where
  "merge_sources merged [] base = Inr merged"
| "merge_sources merged (key # keys) base =
     bind_sum (assertMappingValue (the (map_of base key))) (\<lambda>v.
       merge_sources (assign_all merged (map (\<lambda>(k, w). (k, cloneYValue w)) v)) keys base)"

definition compileYOpsMappingMerge ::
  "jstring \<Rightarrow> yvalue \<Rightarrow> jstring list \<Rightarrow> jstring \<Rightarrow> recipe_error + yop list" where
  "compileYOpsMappingMerge path baseValue keyList into =
     bind_sum (assertRecipePath path) (\<lambda>_.
     bind_sum (assertRecipeKey into) (\<lambda>_.
     bind_sum (assertMappingValue baseValue) (\<lambda>base.
     bind_sum (assertMappingKeyList [] keyList base) (\<lambda>keys.
     bind_sum (merge_sources [] keyList base) (\<lambda>merged.
       Inr (mappingPathReplacement path baseValue
         (YMap (obj_assign (rest_entries keys base) into (YMap merged)))))))))"

section \<open>Sequences\<close>

definition compileYOpsSequenceAppend :: "jstring \<Rightarrow> yvalue \<Rightarrow> yvalue \<Rightarrow> recipe_error + yop list" where
  "compileYOpsSequenceAppend path baseValue v =
     bind_sum (assertRecipePath path) (\<lambda>_.
     bind_sum (assertSequenceValue baseValue) (\<lambda>base.
       Inr (assert_set path baseValue (YSeq (map cloneYValue base @ [cloneYValue v])))))"

definition check_keys :: "jstring option \<Rightarrow> yvalue list \<Rightarrow> recipe_error + unit" where
  "check_keys by items = (case by of
     None \<Rightarrow> Inr ()
   | Some k \<Rightarrow> bind_sum (assertRecipeKey k) (\<lambda>_. check_all (assertSequenceKey k) items))"

definition compileYOpsSequenceSort ::
  "jstring \<Rightarrow> yvalue \<Rightarrow> jstring option \<Rightarrow> sort_order option \<Rightarrow> recipe_error + yop list" where
  "compileYOpsSequenceSort path baseValue by order =
     bind_sum (assertRecipePath path) (\<lambda>_.
     bind_sum (assertSequenceValue baseValue) (\<lambda>base.
       let target = map cloneYValue base
       in bind_sum (check_keys by target) (\<lambda>_.
         Inr (mappingPathReplacement path baseValue
           (YSeq (js_sort (sort_compare by (case order of Some r \<Rightarrow> r | None \<Rightarrow> Asc)) target))))))"

fun unique_items :: "jstring option \<Rightarrow> jstring set \<Rightarrow> yvalue list \<Rightarrow> yvalue list" where
  "unique_items by seen [] = []"
| "unique_items by seen (item # rest) =
     (let key = canonicalKey (item_key by item)
      in if key \<in> seen then unique_items by seen rest
         else cloneYValue item # unique_items by (insert key seen) rest)"

definition compileYOpsSequenceUnique :: "jstring \<Rightarrow> yvalue \<Rightarrow> jstring option \<Rightarrow> recipe_error + yop list" where
  "compileYOpsSequenceUnique path baseValue by =
     bind_sum (assertRecipePath path) (\<lambda>_.
     bind_sum (assertSequenceValue baseValue) (\<lambda>base.
     bind_sum (check_keys by base) (\<lambda>_.
       Inr (mappingPathReplacement path baseValue (YSeq (unique_items by {} base))))))"

section \<open>The compiler table\<close>

fun compileYOpsRecipe :: "recipe_input \<Rightarrow> recipe_error + yop list" where
  "compileYOpsRecipe (ReplacePath p b t) = compileYOpsPathReplacement p b t"
| "compileYOpsRecipe (ClonePath f t v d) = compileYOpsPathClone f t v d"
| "compileYOpsRecipe (MovePath f t v d) = compileYOpsPathMove f t v d"
| "compileYOpsRecipe (RenameKey p b f t) = compileYOpsMappingKeyRename p b f t"
| "compileYOpsRecipe (AppendItem p b v) = compileYOpsSequenceAppend p b v"
| "compileYOpsRecipe (PickKeys p b ks) = compileYOpsMappingKeyPick p b ks"
| "compileYOpsRecipe (OmitKeys p b ks) = compileYOpsMappingKeyOmit p b ks"
| "compileYOpsRecipe (PopulateMapping p b vs) = compileYOpsMappingPopulate p b vs"
| "compileYOpsRecipe (NestKeys p b ks n) = compileYOpsMappingNest p b ks n"
| "compileYOpsRecipe (SplitGroups p b gs) = compileYOpsMappingSplit p b gs"
| "compileYOpsRecipe (FoldChild p q b) = compileYOpsMappingFold p q b"
| "compileYOpsRecipe (MergeKeys p b ks n) = compileYOpsMappingMerge p b ks n"
| "compileYOpsRecipe (SortSequence p b k r) = compileYOpsSequenceSort p b k r"
| "compileYOpsRecipe (UniqueSequence p b k) = compileYOpsSequenceUnique p b k"

end
