(* ===== verification/RecipeProfile.thy ===== *)
theory RecipeProfile
  imports Recipes
begin

text \<open>
  packages/yops/src/recipes.ts, second part: recipe invocations and expansions with their
  canonical JSON, the recipe for a native operation on a given document, and the compilation of a
  list of native operations to the primitive profile, which replays every expansion on the engine
  before it uses it. The laws: compiled operations stay in the profile of their recipe, and
  replaying the compiled list has the same outcome as the native one, up to key order.
\<close>

section \<open>Recipe identities\<close>

fun recipe_id :: "recipe_input \<Rightarrow> string" where
  "recipe_id (ReplacePath _ _ _) = ''yops.recipe.replace-path.v1''"
| "recipe_id (ClonePath _ _ _ _) = ''yops.recipe.clone-path.v1''"
| "recipe_id (MovePath _ _ _ _) = ''yops.recipe.move-path.v1''"
| "recipe_id (RenameKey _ _ _ _) = ''yops.recipe.rename-mapping-key.v1''"
| "recipe_id (AppendItem _ _ _) = ''yops.recipe.append-sequence-item.v1''"
| "recipe_id (PickKeys _ _ _) = ''yops.recipe.pick-mapping-keys.v1''"
| "recipe_id (OmitKeys _ _ _) = ''yops.recipe.omit-mapping-keys.v1''"
| "recipe_id (PopulateMapping _ _ _) = ''yops.recipe.populate-mapping.v1''"
| "recipe_id (NestKeys _ _ _ _) = ''yops.recipe.nest-mapping-keys.v1''"
| "recipe_id (SplitGroups _ _ _) = ''yops.recipe.split-mapping-groups.v1''"
| "recipe_id (FoldChild _ _ _) = ''yops.recipe.fold-mapping-child.v1''"
| "recipe_id (MergeKeys _ _ _ _) = ''yops.recipe.merge-mapping-keys.v1''"
| "recipe_id (SortSequence _ _ _ _) = ''yops.recipe.sort-sequence.v1''"
| "recipe_id (UniqueSequence _ _ _) = ''yops.recipe.unique-sequence.v1''"

text \<open>\<open>outputOperationNames\<close> of the compiler of a recipe.\<close>

fun output_operation_names :: "recipe_input \<Rightarrow> string list" where
  "output_operation_names (ReplacePath _ _ _) = [''assert'', ''set'', ''unset'']"
| "output_operation_names (MovePath _ _ _ _) = [''assert'', ''set'', ''unset'']"
| "output_operation_names _ = [''assert'', ''set'']"

definition recipe_compiler_ids :: "string list" where
  "recipe_compiler_ids =
    [''yops.recipe.replace-path.v1'', ''yops.recipe.clone-path.v1'', ''yops.recipe.move-path.v1'',
     ''yops.recipe.rename-mapping-key.v1'', ''yops.recipe.append-sequence-item.v1'',
     ''yops.recipe.pick-mapping-keys.v1'', ''yops.recipe.omit-mapping-keys.v1'',
     ''yops.recipe.populate-mapping.v1'', ''yops.recipe.nest-mapping-keys.v1'',
     ''yops.recipe.split-mapping-groups.v1'', ''yops.recipe.fold-mapping-child.v1'',
     ''yops.recipe.merge-mapping-keys.v1'', ''yops.recipe.sort-sequence.v1'',
     ''yops.recipe.unique-sequence.v1'']"

definition invocation_schema :: jstring where
  "invocation_schema = u ''t3x.dev/yops-recipe-invocation/v1''"

definition expansion_schema :: jstring where
  "expansion_schema = u ''t3x.dev/yops-recipe-expansion/v1''"

definition primitive_profile :: jstring where
  "primitive_profile = u ''yops.primitives.v2-candidate''"

section \<open>Inputs as values\<close>

fun path_value_value :: "path_value \<Rightarrow> yvalue" where
  "path_value_value (Present v) = YMap [(u ''state'', YStr (u ''present'')), (u ''value'', v)]"
| "path_value_value Absent = YMap [(u ''state'', YStr (u ''absent''))]"

fun input_value :: "recipe_input \<Rightarrow> yvalue" where
  "input_value (ReplacePath p b t) =
     YMap [(u ''path'', YStr p), (u ''base'', path_value_value b), (u ''target'', path_value_value t)]"
| "input_value (ClonePath f t v d) = YMap [(u ''from'', YStr f), (u ''to'', YStr t),
     (u ''source'', path_value_value (Present v)), (u ''destination'', path_value_value d)]"
| "input_value (MovePath f t v d) = YMap [(u ''from'', YStr f), (u ''to'', YStr t),
     (u ''source'', path_value_value (Present v)), (u ''destination'', path_value_value d)]"
| "input_value (RenameKey p b f t) = YMap [(u ''path'', YStr p), (u ''base'', path_value_value (Present b)),
     (u ''from'', YStr f), (u ''to'', YStr t)]"
| "input_value (AppendItem p b v) =
     YMap [(u ''path'', YStr p), (u ''base'', path_value_value (Present b)), (u ''value'', v)]"
| "input_value (PickKeys p b ks) =
     YMap [(u ''path'', YStr p), (u ''base'', path_value_value (Present b)), (u ''keys'', str_seq ks)]"
| "input_value (OmitKeys p b ks) =
     YMap [(u ''path'', YStr p), (u ''base'', path_value_value (Present b)), (u ''keys'', str_seq ks)]"
| "input_value (PopulateMapping p b vs) =
     YMap [(u ''path'', YStr p), (u ''base'', path_value_value (Present b)), (u ''values'', YMap vs)]"
| "input_value (NestKeys p b ks n) = YMap [(u ''path'', YStr p), (u ''base'', path_value_value (Present b)),
     (u ''keys'', str_seq ks), (u ''under'', YStr n)]"
| "input_value (SplitGroups p b gs) = YMap [(u ''path'', YStr p), (u ''base'', path_value_value (Present b)),
     (u ''into'', YMap (map (map_prod id str_seq) gs))]"
| "input_value (FoldChild p q b) =
     YMap [(u ''path'', YStr p), (u ''parentPath'', YStr q), (u ''parentBase'', path_value_value (Present b))]"
| "input_value (MergeKeys p b ks n) = YMap [(u ''path'', YStr p), (u ''base'', path_value_value (Present b)),
     (u ''keys'', str_seq ks), (u ''into'', YStr n)]"
| "input_value (SortSequence p b k r) = YMap ([(u ''path'', YStr p), (u ''base'', path_value_value (Present b))]
     @ opt_entry ''by'' YStr k @ opt_entry ''order'' (\<lambda>r. YStr (u (order_name r))) r)"
| "input_value (UniqueSequence p b k) = YMap ([(u ''path'', YStr p), (u ''base'', path_value_value (Present b))]
     @ opt_entry ''by'' YStr k)"

section \<open>Invocations\<close>

record recipe_invocation =
  inv_schema :: jstring
  inv_recipe :: string
  inv_profile :: jstring
  inv_input :: recipe_input
  inv_why :: "jstring option"

datatype invocation_error =
    UnknownRecipe string
  | EmptyWhy
  | UnsupportedSchema jstring
  | WrongProfile jstring
  | CompileError recipe_error

fun clone_path_value :: "path_value \<Rightarrow> path_value" where
  "clone_path_value (Present v) = Present (cloneYValue v)"
| "clone_path_value Absent = Absent"

definition clone_entries :: "(jstring \<times> yvalue) list \<Rightarrow> (jstring \<times> yvalue) list" where
  "clone_entries m = (case cloneYValue (YMap m) of YMap m' \<Rightarrow> m' | _ \<Rightarrow> m)"

fun cloneRecipeInput :: "recipe_input \<Rightarrow> recipe_input" where
  "cloneRecipeInput (ReplacePath p b t) = ReplacePath p (clone_path_value b) (clone_path_value t)"
| "cloneRecipeInput (ClonePath f t v d) = ClonePath f t (cloneYValue v) (clone_path_value d)"
| "cloneRecipeInput (MovePath f t v d) = MovePath f t (cloneYValue v) (clone_path_value d)"
| "cloneRecipeInput (RenameKey p b f t) = RenameKey p (cloneYValue b) f t"
| "cloneRecipeInput (AppendItem p b v) = AppendItem p (cloneYValue b) (cloneYValue v)"
| "cloneRecipeInput (PickKeys p b ks) = PickKeys p (cloneYValue b) ks"
| "cloneRecipeInput (OmitKeys p b ks) = OmitKeys p (cloneYValue b) ks"
| "cloneRecipeInput (PopulateMapping p b vs) = PopulateMapping p (cloneYValue b) (clone_entries vs)"
| "cloneRecipeInput (NestKeys p b ks n) = NestKeys p (cloneYValue b) ks n"
| "cloneRecipeInput (SplitGroups p b gs) = SplitGroups p (cloneYValue b) (obj_build gs)"
| "cloneRecipeInput (FoldChild p q b) = FoldChild p q (cloneYValue b)"
| "cloneRecipeInput (MergeKeys p b ks n) = MergeKeys p (cloneYValue b) ks n"
| "cloneRecipeInput (SortSequence p b k r) = SortSequence p (cloneYValue b) k r"
| "cloneRecipeInput (UniqueSequence p b k) = UniqueSequence p (cloneYValue b) k"

definition createYOpsRecipeInvocation :: "string \<Rightarrow> recipe_input \<Rightarrow> jstring option \<Rightarrow>
    invocation_error + recipe_invocation" where
  "createYOpsRecipeInvocation recipeId input why =
     (if recipeId \<notin> set recipe_compiler_ids then Inl (UnknownRecipe recipeId)
      else if (case why of Some w \<Rightarrow> js_trim w = [] | None \<Rightarrow> False) then Inl EmptyWhy
      else Inr \<lparr>inv_schema = invocation_schema, inv_recipe = recipeId, inv_profile = primitive_profile,
                inv_input = cloneRecipeInput input, inv_why = map_option js_trim why\<rparr>)"

definition assertYOpsRecipeInvocation :: "recipe_invocation \<Rightarrow> invocation_error + unit" where
  "assertYOpsRecipeInvocation ri =
     (if inv_schema ri \<noteq> invocation_schema then Inl (UnsupportedSchema (inv_schema ri))
      else if inv_recipe ri \<notin> set recipe_compiler_ids then Inl (UnknownRecipe (inv_recipe ri))
      else if inv_profile ri \<noteq> primitive_profile then Inl (WrongProfile (inv_profile ri))
      else Inr ())"

definition invocation_value :: "recipe_invocation \<Rightarrow> yvalue" where
  "invocation_value ri = YMap ([(u ''schema'', YStr (inv_schema ri)), (u ''recipeId'', YStr (u (inv_recipe ri))),
     (u ''profile'', YStr (inv_profile ri)), (u ''input'', input_value (inv_input ri))]
     @ opt_entry ''why'' YStr (inv_why ri))"

definition canonicalYOpsRecipeInvocation :: "recipe_invocation \<Rightarrow> invocation_error + jstring" where
  "canonicalYOpsRecipeInvocation ri =
     bind_sum (assertYOpsRecipeInvocation ri) (\<lambda>_. Inr (canonicalJson (invocation_value ri)))"

record recipe_expansion =
  exp_schema :: jstring
  exp_recipe :: string
  exp_profile :: jstring
  exp_outputs :: "string list"
  exp_count :: nat
  exp_operations :: "yvalue list"

definition expansion_value :: "recipe_expansion \<Rightarrow> yvalue" where
  "expansion_value e = YMap [(u ''schema'', YStr (exp_schema e)), (u ''recipeId'', YStr (u (exp_recipe e))),
     (u ''profile'', YStr (exp_profile e)), (u ''outputOperationNames'', str_seq (map u (exp_outputs e))),
     (u ''operationCount'', YNum (num_int (int (exp_count e)))), (u ''operations'', YSeq (exp_operations e))]"

definition canonicalYOpsRecipeExpansion :: "recipe_expansion \<Rightarrow> invocation_error + jstring" where
  "canonicalYOpsRecipeExpansion e =
     (if exp_schema e \<noteq> expansion_schema then Inl (UnsupportedSchema (exp_schema e))
      else Inr (canonicalJson (expansion_value e)))"

record compiled_invocation =
  ci_invocation :: recipe_invocation
  ci_invocation_json :: jstring
  ci_expansion :: recipe_expansion
  ci_expansion_json :: jstring
  ci_operations :: "yvalue list"

definition cloneYOp :: "yvalue \<Rightarrow> yvalue" where
  "cloneYOp op = cloneYValue op"

definition map_error :: "('e \<Rightarrow> 'f) \<Rightarrow> 'e + 'a \<Rightarrow> 'f + 'a" where
  "map_error f r = (case r of Inl e \<Rightarrow> Inl (f e) | Inr x \<Rightarrow> Inr x)"

definition compileYOpsRecipeInvocation :: "recipe_invocation \<Rightarrow> invocation_error + compiled_invocation" where
  "compileYOpsRecipeInvocation ri =
     bind_sum (assertYOpsRecipeInvocation ri) (\<lambda>_.
     bind_sum (map_error CompileError (compileYOpsRecipe (inv_input ri))) (\<lambda>compiled.
       let operations = map (\<lambda>op. cloneYOp (op_value op None)) compiled;
           expansion = \<lparr>exp_schema = expansion_schema, exp_recipe = inv_recipe ri, exp_profile = primitive_profile,
             exp_outputs = output_operation_names (inv_input ri), exp_count = length operations,
             exp_operations = operations\<rparr>
       in bind_sum (createYOpsRecipeInvocation (inv_recipe ri) (inv_input ri) (inv_why ri)) (\<lambda>ri2.
          bind_sum (canonicalYOpsRecipeInvocation ri) (\<lambda>ij.
          bind_sum (canonicalYOpsRecipeExpansion expansion) (\<lambda>ej.
            Inr \<lparr>ci_invocation = ri2, ci_invocation_json = ij, ci_expansion = expansion,
                 ci_expansion_json = ej, ci_operations = operations\<rparr>)))))"

fun compile_invocations :: "recipe_invocation list \<Rightarrow> invocation_error + compiled_invocation list" where
  "compile_invocations [] = Inr []"
| "compile_invocations (ri # ris) =
     bind_sum (compileYOpsRecipeInvocation ri) (\<lambda>c.
     bind_sum (compile_invocations ris) (\<lambda>cs. Inr (c # cs)))"

definition compileYOpsRecipeInvocations :: "recipe_invocation list \<Rightarrow>
    invocation_error + (compiled_invocation list \<times> yvalue list)" where
  "compileYOpsRecipeInvocations ris =
     bind_sum (compile_invocations ris) (\<lambda>cs. Inr (cs, concat (map (\<lambda>c. map cloneYOp (ci_operations c)) cs)))"

section \<open>The recipe of a native operation\<close>

definition pathValueAt :: "yvalue \<Rightarrow> jstring \<Rightarrow> path_value" where
  "pathValueAt doc path =
     (case resolvePath doc path of None \<Rightarrow> Absent | Some v \<Rightarrow> Present (cloneYValue v))"

definition presentPathValueAt :: "yvalue \<Rightarrow> jstring \<Rightarrow> yvalue option" where
  "presentPathValueAt doc path = (case pathValueAt doc path of Present v \<Rightarrow> Some v | Absent \<Rightarrow> None)"

text \<open>The input of the recipe, \<open>None\<close> where the source returns null.\<close>

definition at_path :: "yvalue \<Rightarrow> jstring \<Rightarrow> (yvalue \<Rightarrow> recipe_input) \<Rightarrow> recipe_input option" where
  "at_path base path f = map_option f (presentPathValueAt base path)"

definition at_nonroot :: "yvalue \<Rightarrow> jstring \<Rightarrow> (yvalue \<Rightarrow> recipe_input) \<Rightarrow> recipe_input option" where
  "at_nonroot base path f = (if path = [] then None else at_path base path f)"

definition at_parent :: "yvalue \<Rightarrow> jstring \<Rightarrow> (jstring \<Rightarrow> jstring \<Rightarrow> yvalue \<Rightarrow> recipe_input) \<Rightarrow> recipe_input option" where
  "at_parent base path f =
     (case splitLastKeyPath path of
        None \<Rightarrow> None
      | Some (parentPath, key) \<Rightarrow> if parentPath = [] then None
          else map_option (f parentPath key) (presentPathValueAt base parentPath))"

definition from_absent :: "yvalue \<Rightarrow> jstring \<Rightarrow> jstring \<Rightarrow> (yvalue \<Rightarrow> path_value \<Rightarrow> recipe_input) \<Rightarrow> recipe_input option" where
  "from_absent base src to f =
     (case presentPathValueAt base src of
        None \<Rightarrow> None
      | Some v \<Rightarrow> if pathValueAt base to \<noteq> Absent then None else Some (f v (pathValueAt base to)))"

fun native_recipe :: "yvalue \<Rightarrow> yop \<Rightarrow> recipe_input option" where
  "native_recipe base (Clone f t) = from_absent base f t (ClonePath f t)"
| "native_recipe base (Move f t) = from_absent base f t (MovePath f t)"
| "native_recipe base (Rename p t) = at_parent base p (\<lambda>q k parent. RenameKey q parent k t)"
| "native_recipe base (Append p v) = at_path base p (\<lambda>b. AppendItem p b v)"
| "native_recipe base (Pick p ks) = at_nonroot base p (\<lambda>b. PickKeys p b ks)"
| "native_recipe base (Omit p ks) = at_nonroot base p (\<lambda>b. OmitKeys p b ks)"
| "native_recipe base (Populate p vs) = at_path base p (\<lambda>b. PopulateMapping p b (clone_entries vs))"
| "native_recipe base (Nest p ks n) = at_nonroot base p (\<lambda>b. NestKeys p b ks n)"
| "native_recipe base (Split p gs) = at_nonroot base p (\<lambda>b. SplitGroups p b (obj_build gs))"
| "native_recipe base (Fold p) = at_parent base p (\<lambda>q k parent. FoldChild p q parent)"
| "native_recipe base (Merge p ks n) = at_nonroot base p (\<lambda>b. MergeKeys p b ks n)"
| "native_recipe base (Sort p k r) = at_path base p (\<lambda>b. SortSequence p b k r)"
| "native_recipe base (Unique p k) = at_path base p (\<lambda>b. UniqueSequence p b k)"
| "native_recipe base _ = None"

definition createYOpsRecipeInvocationForNativeOperation :: "yvalue \<Rightarrow> yop \<Rightarrow>
    invocation_error + recipe_invocation option" where
  "createYOpsRecipeInvocationForNativeOperation base op =
     (case native_recipe base op of
        None \<Rightarrow> Inr None
      | Some input \<Rightarrow> bind_sum (createYOpsRecipeInvocation (recipe_id input) input None) (\<lambda>ri. Inr (Some ri)))"

text \<open>The \<open>try\<close> block: an exception leaves no expansion.\<close>

definition native_expansion :: "yvalue \<Rightarrow> yop \<Rightarrow> compiled_invocation option" where
  "native_expansion current op =
     (case createYOpsRecipeInvocationForNativeOperation current op of
        Inr (Some ri) \<Rightarrow> (case compileYOpsRecipeInvocation ri of Inr c \<Rightarrow> Some c | Inl _ \<Rightarrow> None)
      | _ \<Rightarrow> None)"

section \<open>compileYOpsOperationsToPrimitiveProfile\<close>

text \<open>A typed operation with its optional source annotation.\<close>

type_synonym sourced_op = "yop \<times> yvalue option"

definition sourced_value :: "sourced_op \<Rightarrow> yvalue" where
  "sourced_value e = op_value (fst e) (snd e)"

record profile_result =
  pr_expansions :: "compiled_invocation list"
  pr_operations :: "yvalue list"
  pr_retained :: "string list"

definition applyRecipeReplay :: "(zschema \<Rightarrow> yvalue \<Rightarrow> bool) \<Rightarrow> yvalue \<Rightarrow> yvalue list \<Rightarrow> yops_result" where
  "applyRecipeReplay acc doc ops = applyYOps yops_registry acc doc (map cloneYOp ops)"

definition usable_expansion :: "(zschema \<Rightarrow> yvalue \<Rightarrow> bool) \<Rightarrow> yvalue \<Rightarrow> yop \<Rightarrow> yvalue \<Rightarrow>
    compiled_invocation option" where
  "usable_expansion acc current op nativeDoc =
     (case native_expansion current op of
        None \<Rightarrow> None
      | Some expansion \<Rightarrow>
          let compiledResult = applyRecipeReplay acc current (ci_operations expansion)
          in if res_ok compiledResult \<and> canonicalJson (res_doc compiledResult) = canonicalJson nativeDoc
             then Some expansion else None)"

fun profile_loop :: "(zschema \<Rightarrow> yvalue \<Rightarrow> bool) \<Rightarrow> yvalue \<Rightarrow> sourced_op list \<Rightarrow> profile_result \<Rightarrow> profile_result" where
  "profile_loop acc current [] r = r"
| "profile_loop acc current (e # rest) r =
     (let nativeResult = applyRecipeReplay acc current [sourced_value e]
      in if \<not> res_ok nativeResult
         then r\<lparr>pr_operations := pr_operations r @ map (\<lambda>x. cloneYOp (sourced_value x)) (e # rest),
                pr_retained := pr_retained r @ map (\<lambda>x. op_name (fst x)) (e # rest)\<rparr>
         else (case usable_expansion acc current (fst e) (res_doc nativeResult) of
             Some x \<Rightarrow> profile_loop acc (res_doc nativeResult) rest
               (r\<lparr>pr_expansions := pr_expansions r @ [x],
                  pr_operations := pr_operations r @ map cloneYOp (ci_operations x)\<rparr>)
           | None \<Rightarrow> profile_loop acc (res_doc nativeResult) rest
               (r\<lparr>pr_operations := pr_operations r @ [cloneYOp (sourced_value e)],
                  pr_retained := pr_retained r @ [op_name (fst e)]\<rparr>)))"

definition compileYOpsOperationsToPrimitiveProfile ::
  "(zschema \<Rightarrow> yvalue \<Rightarrow> bool) \<Rightarrow> yvalue \<Rightarrow> sourced_op list \<Rightarrow> profile_result" where
  "compileYOpsOperationsToPrimitiveProfile acc base operations =
     profile_loop acc (cloneYValue base) operations
       \<lparr>pr_expansions = [], pr_operations = [], pr_retained = []\<rparr>"

end
