(* ===== verification/RecipeLaws.thy ===== *)
theory RecipeLaws
  imports RecipeProfile
begin

text \<open>
  The laws of packages/yops/src/recipes.ts: compiled operations are well formed and stay in the
  profile of their recipe, and \<open>compileYOpsOperationsToPrimitiveProfile\<close> keeps the outcome of the
  native operations.
\<close>

section \<open>Compiled operations are well formed\<close>

fun wf_path_value :: "path_value \<Rightarrow> bool" where
  "wf_path_value (Present v) = wf_yvalue v"
| "wf_path_value Absent = True"

fun wf_input :: "recipe_input \<Rightarrow> bool" where
  "wf_input (ReplacePath p b t) = (wf_path_value b \<and> wf_path_value t)"
| "wf_input (ClonePath f t v d) = wf_yvalue v"
| "wf_input (MovePath f t v d) = wf_yvalue v"
| "wf_input (RenameKey p b f t) = wf_yvalue b"
| "wf_input (AppendItem p b v) = (wf_yvalue b \<and> wf_yvalue v)"
| "wf_input (PickKeys p b ks) = wf_yvalue b"
| "wf_input (OmitKeys p b ks) = wf_yvalue b"
| "wf_input (PopulateMapping p b vs) = (wf_yvalue b \<and> wf_yvalue (YMap vs))"
| "wf_input (NestKeys p b ks n) = wf_yvalue b"
| "wf_input (SplitGroups p b gs) = wf_yvalue b"
| "wf_input (FoldChild p q b) = wf_yvalue b"
| "wf_input (MergeKeys p b ks n) = wf_yvalue b"
| "wf_input (SortSequence p b k r) = wf_yvalue b"
| "wf_input (UniqueSequence p b k) = wf_yvalue b"

lemma bind_sum_Inr [simp]: "bind_sum r f = Inr y \<longleftrightarrow> (\<exists>x. r = Inr x \<and> f x = Inr y)"
  by (cases r) (simp_all add: bind_sum_def)

lemma clone_wf [simp]: "wf_yvalue (cloneYValue v)"
  by (simp add: cloneYValue_def deepClone_wf)

lemma wf_obj_assign: "wf_yvalue (YMap m) \<Longrightarrow> wf_yvalue v \<Longrightarrow> wf_yvalue (YMap (obj_assign m k v))"
  unfolding obj_assign_def using wf_map_obj_set [of m v k] by (simp del: wf_yvalue.simps)

lemma wf_assign_all: "wf_yvalue (YMap m) \<Longrightarrow> (\<And>k v. (k, v) \<in> set kvs \<Longrightarrow> wf_yvalue v) \<Longrightarrow>
    wf_yvalue (YMap (assign_all m kvs))"
  unfolding assign_all_def
proof (induction kvs arbitrary: m)
  case (Cons e kvs)
  obtain k v where e: "e = (k, v)" by fastforce
  have v: "wf_yvalue v" by (rule Cons.prems(2) [of k v]) (simp add: e)
  have "wf_yvalue (YMap (foldl (\<lambda>t (k, v). obj_assign t k v) (obj_assign m k v) kvs))"
  proof (rule Cons.IH [OF wf_obj_assign [OF Cons.prems(1) v]])
    fix k' v'
    assume "(k', v') \<in> set kvs"
    then show "wf_yvalue v'" by (intro Cons.prems(2) [of k' v']) simp
  qed
  then show ?case by (simp add: e)
qed simp

lemma wf_empty: "wf_yvalue (YMap [])"
  by simp

lemma wf_rest_entries: "wf_yvalue (YMap (rest_entries ks m))"
  unfolding rest_entries_def by (rule wf_assign_all [OF wf_empty]) auto

lemma wf_key_entries: "wf_yvalue (YMap (key_entries ks m))"
  unfolding key_entries_def by (rule wf_assign_all [OF wf_empty]) auto

lemma wf_mappingPathReplacement: "list_all wf_op (mappingPathReplacement p b t)"
  by (simp add: mappingPathReplacement_def)

lemma wf_assert_set: "wf_yvalue t \<Longrightarrow> list_all wf_op (assert_set p b t)"
  by (simp add: assert_set_def)

lemma wf_sequence: "list_all wf_yvalue xs \<Longrightarrow> wf_yvalue (YSeq xs)"
  by simp

lemma list_all_clone: "list_all wf_yvalue (map cloneYValue xs)"
  by (induction xs) simp_all

lemma compile_wf: "compileYOpsRecipe input = Inr ops \<Longrightarrow> list_all wf_op ops"
proof (cases input)
  case (RenameKey p b f t)
  assume "compileYOpsRecipe input = Inr ops"
  then show ?thesis
    by (auto simp: RenameKey compileYOpsMappingKeyRename_def split: if_splits simp del: wf_yvalue.simps
        intro!: wf_assert_set wf_assign_all wf_empty)
next
  case (FoldChild p q b)
  assume "compileYOpsRecipe input = Inr ops"
  then show ?thesis
    by (auto simp: FoldChild compileYOpsMappingFold_def Let_def wf_mappingPathReplacement
        split: if_splits path_segment.splits) (auto split: list.splits simp: wf_mappingPathReplacement)
next
  case (AppendItem p b v)
  assume "compileYOpsRecipe input = Inr ops"
  then show ?thesis
    by (auto simp: AppendItem compileYOpsSequenceAppend_def list_all_clone intro!: wf_assert_set)
qed (auto simp: compileYOpsPathReplacement_def compileYOpsPathClone_def compileYOpsPathMove_def
    compileYOpsMappingKeyPick_def compileYOpsMappingKeyOmit_def
    compileYOpsMappingPopulate_def compileYOpsMappingNest_def compileYOpsMappingSplit_def
    compileYOpsMappingFold_def compileYOpsMappingMerge_def
    compileYOpsSequenceSort_def compileYOpsSequenceUnique_def Let_def wf_mappingPathReplacement
    split: if_splits path_value.splits path_segment.splits list.splits simp del: wf_yvalue.simps
    intro!: wf_assert_set wf_key_entries wf_rest_entries)

section \<open>Compiled operations stay in the profile of their recipe\<close>

lemma assert_set_names: "list_all (\<lambda>op. op_name op \<in> {''assert'', ''set''}) (assert_set p b t)"
  by (simp add: assert_set_def)

lemma mappingPathReplacement_names:
  "list_all (\<lambda>op. op_name op \<in> {''assert'', ''set''}) (mappingPathReplacement p b t)"
  by (simp add: mappingPathReplacement_def)

lemma compile_profile:
  assumes "compileYOpsRecipe input = Inr ops"
  shows "list_all (\<lambda>op. op_name op \<in> set (output_operation_names input)) ops"
proof (cases input)
  case (FoldChild p q b)
  with assms show ?thesis
    using mappingPathReplacement_names [of q b]
    by (auto simp: compileYOpsMappingFold_def Let_def split: if_splits path_segment.splits)
       (auto split: list.splits)
qed (use assms assert_set_names mappingPathReplacement_names in
    \<open>auto simp: compileYOpsPathReplacement_def compileYOpsPathClone_def compileYOpsPathMove_def
      compileYOpsMappingKeyRename_def compileYOpsMappingKeyPick_def compileYOpsMappingKeyOmit_def
      compileYOpsMappingPopulate_def compileYOpsMappingNest_def compileYOpsMappingSplit_def
      compileYOpsMappingMerge_def compileYOpsSequenceAppend_def
      compileYOpsSequenceSort_def compileYOpsSequenceUnique_def Let_def
      split: if_splits path_value.splits\<close>)

section \<open>The primitive profile keeps the outcome\<close>

lemma cloneYOp_id: "wf_yvalue v \<Longrightarrow> cloneYOp v = v"
  by (simp add: cloneYOp_def cloneYValue_def deepClone_id)

lemma cloneYOp_wf [simp]: "wf_yvalue (cloneYOp v)"
  by (simp add: cloneYOp_def)

lemma cloneYOp_twice [simp]: "cloneYOp (cloneYOp v) = cloneYOp v"
  by (rule cloneYOp_id) simp

lemma map_cloneYOp_id: "list_all wf_yvalue vs \<Longrightarrow> map cloneYOp vs = vs"
  by (induction vs) (simp_all add: cloneYOp_id)

lemma list_all_cloneYOp: "list_all wf_yvalue (map cloneYOp vs)"
  by (induction vs) simp_all

lemma replay_runs: "wf_yvalue d \<Longrightarrow> res_ok (applyRecipeReplay acc d ops) \<and> res_doc (applyRecipeReplay acc d ops) = r
    \<longleftrightarrow> runs yops_registry acc 0 d (map cloneYOp ops) r"
  unfolding applyRecipeReplay_def by (rule yops.apply_runs)

text \<open>Two lists of operations have the same outcome on a document.\<close>

definition equivalent_runs :: "(zschema \<Rightarrow> yvalue \<Rightarrow> bool) \<Rightarrow> yvalue \<Rightarrow> yvalue list \<Rightarrow> yvalue list \<Rightarrow> bool" where
  "equivalent_runs acc d xs ys \<longleftrightarrow>
     (\<forall>r. runs yops_registry acc 0 d xs r \<longrightarrow> (\<exists>r'. runs yops_registry acc 0 d ys r' \<and> same r r')) \<and>
     (\<forall>r. runs yops_registry acc 0 d ys r \<longrightarrow> (\<exists>r'. runs yops_registry acc 0 d xs r' \<and> same r r'))"

lemma equivalent_refl: "wf_yvalue d \<Longrightarrow> list_all wf_yvalue xs \<Longrightarrow> equivalent_runs acc d xs xs"
  unfolding equivalent_runs_def using yops.runs_wf same_refl by blast

lemma runs_det: "runs reg acc i d xs r \<Longrightarrow> runs reg acc i d xs r' \<Longrightarrow> r = r'"
  by (induction arbitrary: r' rule: runs.induct) (auto simp: runs_Cons_iff)

lemma runs_append_0: "runs yops_registry acc 0 d (xs @ ys) r \<longleftrightarrow>
    (\<exists>d'. runs yops_registry acc 0 d xs d' \<and> runs yops_registry acc 0 d' ys r)"
  unfolding runs_append using yops.runs_index by blast

lemma equivalent_append:
  assumes x: "runs yops_registry acc 0 d xs e" and y: "runs yops_registry acc 0 d ys e'" and s: "same e e'"
    and eq: "equivalent_runs acc e xs2 ys2" and wf: "list_all wf_yvalue ys2"
  shows "equivalent_runs acc d (xs @ xs2) (ys @ ys2)"
  unfolding equivalent_runs_def runs_append_0
proof (intro conjI allI impI)
  fix r
  assume "\<exists>d'. runs yops_registry acc 0 d xs d' \<and> runs yops_registry acc 0 d' xs2 r"
  then have "runs yops_registry acc 0 e xs2 r" using runs_det x by blast
  then obtain r' where "runs yops_registry acc 0 e ys2 r'" "same r r'"
    using eq unfolding equivalent_runs_def by blast
  moreover from yops.runs_same [OF this(1) wf s] obtain r'' where
    "runs yops_registry acc 0 e' ys2 r''" "same r' r''" by blast
  ultimately show "\<exists>r'. (\<exists>d'. runs yops_registry acc 0 d ys d' \<and> runs yops_registry acc 0 d' ys2 r') \<and> same r r'"
    using y same_trans by blast
next
  fix r
  assume "\<exists>d'. runs yops_registry acc 0 d ys d' \<and> runs yops_registry acc 0 d' ys2 r"
  then have "runs yops_registry acc 0 e' ys2 r" using runs_det y by blast
  from yops.runs_same [OF this wf same_sym [OF s]] obtain r1 where
    "runs yops_registry acc 0 e ys2 r1" "same r r1" by blast
  moreover from this(1) obtain r2 where "runs yops_registry acc 0 e xs2 r2" "same r1 r2"
    using eq unfolding equivalent_runs_def by blast
  ultimately show "\<exists>r'. (\<exists>d'. runs yops_registry acc 0 d xs d' \<and> runs yops_registry acc 0 d' xs2 r') \<and> same r r'"
    using x same_trans by blast
qed

lemma profile_loop_equivalent:
  assumes "wf_yvalue d" "list_all (\<lambda>e. wf_yvalue (sourced_value e)) es"
  shows "\<exists>outs. pr_operations (profile_loop acc d es r) = pr_operations r @ outs \<and> list_all wf_yvalue outs
    \<and> equivalent_runs acc d (map sourced_value es) outs"
  using assms
proof (induction es arbitrary: d r)
  case Nil
  then show ?case by (simp add: equivalent_refl)
next
  case (Cons e es)
  let ?n = "applyRecipeReplay acc d [sourced_value e]"
  have e: "cloneYOp (sourced_value e) = sourced_value e" and es: "map (\<lambda>x. cloneYOp (sourced_value x)) es = map sourced_value es"
    using Cons.prems(2) by (auto simp: cloneYOp_id list_all_iff)
  have wfs: "list_all wf_yvalue (map sourced_value (e # es))"
    using Cons.prems(2) by (simp add: list_all_iff)
  show ?case
  proof (cases "res_ok ?n")
    case False
    then show ?thesis
      using equivalent_refl [OF Cons.prems(1) wfs, of acc] wfs by (simp add: Let_def e es)
  next
    case True
    define d' where "d' = res_doc ?n"
    have n: "runs yops_registry acc 0 d [sourced_value e] d'"
      using replay_runs [OF Cons.prems(1), of acc "[sourced_value e]" d'] True by (simp add: d'_def e)
    have d': "wf_yvalue d'"
      using yops.runs_wf [OF n _ Cons.prems(1)] Cons.prems(2) by simp
    have IH: "\<exists>outs. pr_operations (profile_loop acc d' es r') = pr_operations r' @ outs \<and> list_all wf_yvalue outs
        \<and> equivalent_runs acc d' (map sourced_value es) outs" for r'
      using Cons.IH [OF d'] Cons.prems(2) by simp
    show ?thesis
    proof (cases "usable_expansion acc d (fst e) d'")
      case None
      let ?r = "r\<lparr>pr_operations := pr_operations r @ [sourced_value e], pr_retained := pr_retained r @ [op_name (fst e)]\<rparr>"
      obtain outs where o: "pr_operations (profile_loop acc d' es ?r) = pr_operations ?r @ outs"
        "list_all wf_yvalue outs" "equivalent_runs acc d' (map sourced_value es) outs" using IH [of ?r] by blast
      from o(1) True None have "pr_operations (profile_loop acc d (e # es) r) = pr_operations r @ [sourced_value e] @ outs"
        by (simp add: Let_def d'_def [symmetric] e)
      with o(2) wfs equivalent_append [OF n n _ o(3,2)] d' show ?thesis by (intro exI [of _ "[sourced_value e] @ outs"]) simp
    next
      case (Some x)
      let ?ops = "map cloneYOp (ci_operations x)"
      let ?r = "r\<lparr>pr_expansions := pr_expansions r @ [x], pr_operations := pr_operations r @ ?ops\<rparr>"
      let ?c = "res_doc (applyRecipeReplay acc d (ci_operations x))"
      have "res_ok (applyRecipeReplay acc d (ci_operations x))" "canonicalKey ?c = canonicalKey d'"
        using Some by (auto simp: usable_expansion_def Let_def canonicalJson_def split: option.splits if_splits)
      then have c: "runs yops_registry acc 0 d ?ops ?c" and s: "same d' ?c"
        using replay_runs [OF Cons.prems(1), of acc "ci_operations x" ?c]
          yops.runs_wf [OF _ list_all_cloneYOp Cons.prems(1)] d' by (auto simp: same_iff_canonicalKey)
      obtain outs where o: "pr_operations (profile_loop acc d' es ?r) = pr_operations ?r @ outs"
        "list_all wf_yvalue outs" "equivalent_runs acc d' (map sourced_value es) outs" using IH [of ?r] by blast
      from o(1) True Some have "pr_operations (profile_loop acc d (e # es) r) = pr_operations r @ ?ops @ outs"
        by (simp add: Let_def d'_def [symmetric])
      with o(2) list_all_cloneYOp equivalent_append [OF n c s o(3,2)] show ?thesis
        by (intro exI [of _ "?ops @ outs"]) simp
    qed
  qed
qed

lemma equivalent_applied:
  assumes eq: "equivalent_runs acc d xs ys" and d: "wf_yvalue d"
  shows "(res_ok (applyYOps yops_registry acc d xs) \<longleftrightarrow> res_ok (applyYOps yops_registry acc d ys)) \<and>
    (res_ok (applyYOps yops_registry acc d xs) \<longrightarrow>
       same (res_doc (applyYOps yops_registry acc d xs)) (res_doc (applyYOps yops_registry acc d ys)))"
proof -
  have x: "runs yops_registry acc 0 d zs (res_doc (applyYOps yops_registry acc d zs))"
    if "res_ok (applyYOps yops_registry acc d zs)" for zs
    using yops.apply_runs [OF d, of acc zs] that by blast
  have y: "res_ok (applyYOps yops_registry acc d zs) \<and> res_doc (applyYOps yops_registry acc d zs) = r"
    if "runs yops_registry acc 0 d zs r" for zs r
    using yops.apply_runs [OF d, of acc zs] that by blast
  have fwd: "res_ok (applyYOps yops_registry acc d ys)
      \<and> same (res_doc (applyYOps yops_registry acc d xs)) (res_doc (applyYOps yops_registry acc d ys))"
    if ok: "res_ok (applyYOps yops_registry acc d xs)"
  proof -
    from eq x [OF ok] obtain r' where r: "runs yops_registry acc 0 d ys r'"
      "same (res_doc (applyYOps yops_registry acc d xs)) r'"
      unfolding equivalent_runs_def by blast
    from y [OF r(1)] r(2) show ?thesis by simp
  qed
  have "res_ok (applyYOps yops_registry acc d xs)" if ok: "res_ok (applyYOps yops_registry acc d ys)"
  proof -
    from eq x [OF ok] obtain r' where r: "runs yops_registry acc 0 d xs r'"
      unfolding equivalent_runs_def by blast
    from y [OF r] show ?thesis by simp
  qed
  with fwd show ?thesis by blast
qed

theorem profile_equivalent:
  assumes "wf_yvalue base" "list_all (\<lambda>e. wf_yvalue (sourced_value e)) es"
    and outs: "outs = pr_operations (compileYOpsOperationsToPrimitiveProfile acc base es)"
  shows "(res_ok (applyYOps yops_registry acc base (map sourced_value es)) \<longleftrightarrow>
      res_ok (applyYOps yops_registry acc base outs)) \<and>
    (res_ok (applyYOps yops_registry acc base (map sourced_value es)) \<longrightarrow>
      same (res_doc (applyYOps yops_registry acc base (map sourced_value es)))
        (res_doc (applyYOps yops_registry acc base outs)))"
proof (rule equivalent_applied [OF _ assms(1)])
  show "equivalent_runs acc base (map sourced_value es) outs"
    using profile_loop_equivalent [OF assms(1,2), of acc "\<lparr>pr_expansions = [], pr_operations = [], pr_retained = []\<rparr>"]
    by (auto simp: outs compileYOpsOperationsToPrimitiveProfile_def cloneYValue_def deepClone_id [OF assms(1)])
qed

end
