(* ===== verification/HandlerSpecs.thy ===== *)
theory HandlerSpecs
  imports TypedOps PathFormat
begin

text \<open>
  What the handlers of packages/yops/src/handlers do to a document, branch by branch. A handler
  that rewrites the node at a path is an in-place mutation of that node (\<open>mutate_at\<close>), so the
  rest of the document is kept (\<open>mutate_frame\<close>); the handlers that build child paths as text do
  the same when the path is one that \<open>formatPathSegments\<close> prints and the keys need no quotes.
\<close>

section \<open>Writing at an existing place\<close>

lemma path_ok_segments: "path_ok p \<Longrightarrow> list_all segment_ok (parsePath p)"
  by (auto simp: path_ok_def parsePath_def dest: tryParsePath_ok split: sum.splits)

lemma descend_existing:
  "segment_ok s \<Longrightarrow> get_child d s = Some c \<Longrightarrow> b \<or> is_object_or_array c \<Longrightarrow> descend d s b = Inr c"
  by (auto simp: step_defs split: yvalue.splits path_segment.splits option.splits if_splits)

lemma resolve_node: "resolvePathSegments c p = Some v \<Longrightarrow> p \<noteq> [] \<Longrightarrow> is_object_or_array c"
  by (cases p; cases c) (simp_all add: path_op_simps get_child_def)

lemma set_existing:
  "list_all segment_ok p \<Longrightarrow> resolvePathSegments d p = Some v \<Longrightarrow>
     setRecursive d p w = Inr (mutate_at d p (\<lambda>_. deepClone w))"
proof (induction p arbitrary: d)
  case (Cons s p)
  then obtain c where c: "get_child d s = Some c" "resolvePathSegments c p = Some v"
    by (auto simp: path_op_simps bind_eq_Some_conv)
  then have "descend d s (p = []) = Inr c"
    using Cons.prems(1) resolve_node [OF c(2)] by (intro descend_existing) auto
  with Cons c show ?case by (simp add: path_op_simps map_sum_right_def)
qed simp

lemma write_existing:
  assumes "path_ok p" "wf_yvalue d" "wf_yvalue w" "resolvePath d p = Some v"
  shows "setAtPath d p w = Inr (mutate_at d (parsePath p) (\<lambda>_. w))"
  using assms set_existing [OF path_ok_segments, of p d v w]
  by (simp add: setAtPath_def setAtPathSegments_eq resolvePath_def deepClone_id)

lemma mutate_get:
  "plain_path p \<Longrightarrow> resolvePathSegments d p = Some v \<Longrightarrow> resolvePathSegments (mutate_at d p f) p = Some (f v)"
  by (induction p arbitrary: d)
     (auto simp: path_op_simps plain_path_def bind_eq_Some_conv get_child_put)

lemma mutate_frame:
  "plain_path p \<Longrightarrow> diverge p q \<Longrightarrow> resolvePathSegments (mutate_at d p f) q = resolvePathSegments d q"
proof (induction p arbitrary: d q)
  case (Cons s p)
  from Cons.prems have s: "plain_segment s" "plain_path p" by (auto simp: plain_path_def)
  from diverge_Cons [OF s(1) Cons.prems(2)] obtain t q' where q: "q = t # q'" "plain_segment t"
    and cases: "s \<noteq> t \<and> is_key s = is_key t \<or> s = t \<and> diverge p q'" by blast
  show ?case
  proof (cases "get_child d s")
    case (Some c)
    from cases show ?thesis
    proof
      assume "s \<noteq> t \<and> is_key s = is_key t"
      then show ?thesis using s(1) q Some by (simp add: path_op_simps get_put_other)
    next
      assume "s = t \<and> diverge p q'"
      then show ?thesis
        using Cons.IH [OF s(2), of q' c] get_child_put [OF s(1) Some] Some by (simp add: path_op_simps q)
    qed
  qed simp
qed simp

lemma replace_absent: "k \<notin> set (map fst m) \<Longrightarrow> map (\<lambda>(k', v'). (k', if k' = k then w else v')) m = m"
  by (induction m) auto

lemma replace_inserted:
  "k \<notin> set (map fst m) \<Longrightarrow>
     map (\<lambda>(k', v'). (k', if k' = k then w else v')) (insert_index_key i k v m) = insert_index_key i k w m"
  by (induction i k v m rule: insert_index_key.induct) (auto simp: replace_absent split: option.splits)

lemma obj_set_twice [simp]: "obj_set (obj_set m k v) k w = obj_set m k w"
proof (cases "has_own m k")
  case True
  have "has_own (obj_set m k v) k" by (simp add: has_own_def)
  with True show ?thesis by (auto simp: obj_set_def [of _ k w] obj_set_def [of m k v])
next
  case False
  have "has_own (obj_set m k v) k" by (simp add: has_own_def)
  with False show ?thesis
    by (auto simp: obj_set_def [of _ k w] obj_set_def [of m k v] has_own_iff replace_absent replace_inserted split: option.splits)
qed

lemma put_twice: "plain_segment s \<Longrightarrow> get_child d s = Some c \<Longrightarrow> put_child (put_child d s a) s b = put_child d s b"
  by (auto simp: step_defs split: yvalue.splits path_segment.splits option.splits if_splits)

lemma mutate_twice:
  "plain_path p \<Longrightarrow> mutate_at (mutate_at d p f) p g = mutate_at d p (\<lambda>v. g (f v))"
proof (induction p arbitrary: d)
  case (Cons s p)
  then show ?case
    by (cases "get_child d s") (auto simp: plain_path_def get_child_put put_twice)
qed simp

lemma mutate_cong:
  "resolvePathSegments d p = Some v \<Longrightarrow> f v = g v \<Longrightarrow> mutate_at d p f = mutate_at d p g"
  by (induction p arbitrary: d) (auto simp: path_op_simps bind_eq_Some_conv)

lemma mutate_wf:
  "wf_yvalue d \<Longrightarrow> (\<And>v. resolvePathSegments d p = Some v \<Longrightarrow> wf_yvalue (f v)) \<Longrightarrow> wf_yvalue (mutate_at d p f)"
  by (induction p arbitrary: d)
     (auto simp: path_op_simps bind_eq_Some_conv split: option.splits intro!: put_child_wf dest: get_child_wf)

section \<open>Handlers that rewrite one node\<close>

text \<open>\<open>f\<close> rewrites the value at the path, \<open>None\<close> is an error of the handler.\<close>

definition rewritten :: "yvalue \<Rightarrow> jstring \<Rightarrow> yvalue \<Rightarrow> op_result" where
  "rewritten d p w = ok (mutate_at d (parsePath p) (\<lambda>_. w))"

lemma written_existing:
  "path_ok p \<Longrightarrow> wf_yvalue d \<Longrightarrow> wf_yvalue w \<Longrightarrow> resolvePath d p = Some v \<Longrightarrow>
     written (setAtPath d p w) = rewritten d p w"
  by (simp add: write_existing written_def rewritten_def)

lemma resolve_wf': "wf_yvalue d \<Longrightarrow> resolvePath d p = Some v \<Longrightarrow> wf_yvalue v"
  by (simp add: resolvePath_def resolve_wf)

lemma append_spec:
  assumes "path_ok p" "wf_yvalue d" "wf_yvalue v"
  shows "appendHandler d p v i = (case resolvePath d p of
     None \<Rightarrow> fail d PATH_NOT_FOUND i
   | Some (YSeq xs) \<Rightarrow> rewritten d p (YSeq (xs @ [v]))
   | Some _ \<Rightarrow> fail d NOT_A_SEQUENCE i)"
proof (cases "resolvePath d p")
  case (Some t)
  then show ?thesis
    using assms resolve_wf' [OF assms(2) Some] written_existing [OF assms(1,2) _ Some]
    by (cases t) (simp_all add: appendHandler_def deepClone_id)
qed (simp add: appendHandler_def)

lemma keep_wf: "wf_yvalue (YMap m) \<Longrightarrow> wf_yvalue (YMap (filter (\<lambda>(k, v). P k) m))"
  using keep_same [of m m P] keep_entries_lookup [of m P] same_refl by (simp del: wf_yvalue.simps)

text \<open>pick and omit keep the chosen entries, in their order.\<close>

lemma pick_spec:
  assumes "path_ok p" "wf_yvalue d"
  shows "pickHandler d p ks i = (case resolvePath d p of
     None \<Rightarrow> fail d PATH_NOT_FOUND i
   | Some (YMap m) \<Rightarrow> rewritten d p (YMap (filter (\<lambda>(k, v). k \<in> set ks) m))
   | Some _ \<Rightarrow> fail d NOT_A_MAPPING i)"
proof (cases "resolvePath d p")
  case (Some t)
  then show ?thesis
    using resolve_wf' [OF assms(2) Some] written_existing [OF assms keep_wf Some]
    by (cases t) (simp_all add: pickHandler_def keep_entries_lookup del: wf_yvalue.simps)
qed (simp add: pickHandler_def)

lemma omit_spec:
  assumes "path_ok p" "wf_yvalue d"
  shows "omitHandler d p ks i = (case resolvePath d p of
     None \<Rightarrow> fail d PATH_NOT_FOUND i
   | Some (YMap m) \<Rightarrow> rewritten d p (YMap (filter (\<lambda>(k, v). k \<notin> set ks) m))
   | Some _ \<Rightarrow> fail d NOT_A_MAPPING i)"
proof (cases "resolvePath d p")
  case (Some t)
  then show ?thesis
    using resolve_wf' [OF assms(2) Some] written_existing [OF assms keep_wf Some]
    by (cases t) (simp_all add: omitHandler_def keep_entries_lookup del: wf_yvalue.simps)
qed (simp add: omitHandler_def)

text \<open>sort and unique on a sequence whose items all have the key.\<close>

definition order_of :: "sort_order option \<Rightarrow> sort_order" where
  "order_of r = (case r of Some x \<Rightarrow> x | None \<Rightarrow> Asc)"

lemma map_deepClone: "list_all wf_yvalue xs \<Longrightarrow> map deepClone xs = xs"
  by (induction xs) (simp_all add: deepClone_id)

lemma list_all_sort: "list_all P xs \<Longrightarrow> list_all P (js_sort cmp xs)"
  by (simp add: list_all_iff)

lemma sort_spec:
  assumes "path_ok p" "wf_yvalue d"
  shows "sortHandler d p by r i = (case resolvePath d p of
     None \<Rightarrow> fail d PATH_NOT_FOUND i
   | Some (YSeq xs) \<Rightarrow> if keys_missing by xs then fail d INVALID_OP i
       else rewritten d p (YSeq (js_sort (sort_compare by (order_of r)) xs))
   | Some _ \<Rightarrow> fail d NOT_A_SEQUENCE i)"
proof (cases "resolvePath d p")
  case (Some t)
  then show ?thesis
    using resolve_wf' [OF assms(2) Some] written_existing [OF assms _ Some]
    by (cases t) (simp_all add: sortHandler_def order_of_def map_deepClone list_all_sort Let_def)
qed (simp add: sortHandler_def)

lemma unique_loop_wf: "list_all wf_yvalue (unique_loop by seen xs)"
  by (induction "by" seen xs rule: unique_loop.induct) (simp_all add: Let_def deepClone_wf)

lemma unique_spec:
  assumes "path_ok p" "wf_yvalue d"
  shows "uniqueHandler d p by i = (case resolvePath d p of
     None \<Rightarrow> fail d PATH_NOT_FOUND i
   | Some (YSeq xs) \<Rightarrow> if keys_missing by xs then fail d INVALID_OP i
       else rewritten d p (YSeq (unique_loop by {} xs))
   | Some _ \<Rightarrow> fail d NOT_A_SEQUENCE i)"
proof (cases "resolvePath d p")
  case (Some t)
  then show ?thesis
    using resolve_wf' [OF assms(2) Some] written_existing [OF assms _ Some] unique_loop_wf [of "by" "{}"]
    by (cases t) (simp_all add: uniqueHandler_def)
qed (simp add: uniqueHandler_def)

section \<open>What sort and unique compute\<close>

lemma sort_compare_consistent: "js_comparator (sort_compare by r)"
proof (cases "r = Desc")
  case True
  then have "sort_compare by r = (\<lambda>a b. - compareYValues (item_key by a) (item_key by b))"
    by (simp add: fun_eq_iff sort_compare_def)
  with yvalue_order.keyed [of "item_key by"] show ?thesis
    by (simp add: js_comparator.reversed)
next
  case False
  then have "sort_compare by r = (\<lambda>a b. compareYValues (item_key by a) (item_key by b))"
    by (simp add: fun_eq_iff sort_compare_def)
  with yvalue_order.keyed [of "item_key by"] show ?thesis by simp
qed

lemma sort_result:
  "mset (js_sort (sort_compare by r) xs) = mset xs
   \<and> sorted_wrt (\<lambda>a b. sort_compare by r a b \<le> 0) (js_sort (sort_compare by r) xs)
   \<and> (\<forall>a. filter (\<lambda>b. sort_compare by r a b = 0) (js_sort (sort_compare by r) xs)
         = filter (\<lambda>b. sort_compare by r a b = 0) xs)"
  using js_comparator.sorted_sort [OF sort_compare_consistent, of "by" r xs]
    js_comparator.stable_sort [OF sort_compare_consistent, of "by" r] by simp

text \<open>unique keeps the first item of every key: the items whose key no earlier item has.\<close>

definition first_of_key :: "('a \<Rightarrow> 'k) \<Rightarrow> 'a list \<Rightarrow> 'a list" where
  "first_of_key f xs = map (nth xs) (filter (\<lambda>n. \<forall>j < n. f (xs ! j) \<noteq> f (xs ! n)) [0..<length xs])"

lemma upt_Suc_map: "[0..<Suc n] = 0 # map Suc [0..<n]"
  by (simp add: upt_conv_Cons map_Suc_upt del: upt_Suc)

lemma all_less_Suc_iff: "(\<forall>j < Suc n. P j) \<longleftrightarrow> P 0 \<and> (\<forall>j < n. P (Suc j))"
  by (auto simp: less_Suc_eq_0_disj)

lemma unique_loop_first:
  "list_all wf_yvalue xs \<Longrightarrow> unique_loop by seen xs = map (nth xs)
     (filter (\<lambda>n. canonicalKey (item_key by (xs ! n)) \<notin> seen \<and>
        (\<forall>j < n. canonicalKey (item_key by (xs ! j)) \<noteq> canonicalKey (item_key by (xs ! n)))) [0..<length xs])"
proof (induction xs arbitrary: seen)
  case (Cons x xs)
  have step: "filter P [0..<length (x # xs)] = (if P 0 then [0] else []) @ map Suc (filter (\<lambda>n. P (Suc n)) [0..<length xs])"
    for P by (simp add: upt_Suc_map filter_map comp_def del: upt_Suc)
  show ?case
    unfolding step using Cons
    by (auto simp: Let_def deepClone_id all_less_Suc_iff comp_def intro!: arg_cong [where f = "map (nth xs)"] filter_cong)
qed simp

lemma unique_result:
  "list_all wf_yvalue xs \<Longrightarrow> unique_loop by {} xs = first_of_key (\<lambda>x. canonicalKey (item_key by x)) xs"
  by (simp add: unique_loop_first first_of_key_def)

section \<open>Writing, moving and removing\<close>

lemma parsePath_format: "list_all segment_ok segs \<Longrightarrow> parsePath (formatPathSegments segs) = segs"
  by (simp add: parsePath_def parse_format)

lemma set_ok_step: "(\<exists>d'. setRecursive (YMap m) (SegKey k # p) v = Inr d') \<longleftrightarrow>
    (case map_of m k of
       None \<Rightarrow> \<exists>d'. setRecursive (YMap []) p v = Inr d'
     | Some c \<Rightarrow> (p = [] \<or> is_object_or_array c) \<and> (\<exists>d'. setRecursive c p v = Inr d'))"
proof -
  have "(\<exists>d'. map_sum_right f r = Inr d') \<longleftrightarrow> (\<exists>d'. r = Inr d')" for f :: "yvalue \<Rightarrow> yvalue" and r :: "set_error + yvalue"
    by (cases r) (simp_all add: map_sum_right_def)
  then show ?thesis by (auto simp: path_op_simps descend_def split: option.split)
qed

text \<open>Every proper prefix of the path that exists is a mapping.\<close>

definition writable_keys :: "yvalue \<Rightarrow> path_segment list \<Rightarrow> bool" where
  "writable_keys d p \<longleftrightarrow> (\<forall>n < length p. \<forall>w. resolvePathSegments d (take n p) = Some w \<longrightarrow> is_mapping w)"

lemma writable_step: "writable_keys d (SegKey k # p) \<longleftrightarrow> is_mapping d \<and>
    (case get_child d (SegKey k) of None \<Rightarrow> True | Some c \<Rightarrow> writable_keys c p)"
  by (auto simp: writable_keys_def all_less_Suc_iff path_op_simps split: option.split)

lemma set_ok_iff:
  "list_all is_key p \<Longrightarrow> p \<noteq> [] \<Longrightarrow> (\<exists>d'. setRecursive d p v = Inr d') \<longleftrightarrow> writable_keys d p"
proof (induction p arbitrary: d)
  case (Cons s p)
  obtain k where s: "s = SegKey k" using Cons.prems(1) by (cases s) auto
  have IH: "(\<exists>d'. setRecursive c p v = Inr d') \<longleftrightarrow> p = [] \<or> writable_keys c p" for c
    using Cons by (cases "p = []") simp_all
  have empty: "writable_keys (YMap []) p"
    unfolding writable_keys_def
  proof (intro allI impI)
    fix n w
    assume "resolvePathSegments (YMap []) (take n p) = Some w"
    then show "is_mapping w" using resolve_empty_map [of "take n p"] by (cases "take n p = []") auto
  qed
  have node: "is_object_or_array c" if "writable_keys c p" "p \<noteq> []" for c
    using that by (cases c) (fastforce simp: writable_keys_def)+
  show ?case
  proof (cases d)
    case (YMap m)
    then show ?thesis
      using empty node unfolding s YMap set_ok_step writable_step IH
      by (auto simp: get_child_def writable_keys_def [of _ "[]"] split: option.split)
  qed (auto simp: s path_op_simps descend_def writable_step)
qed simp

lemma set_effect:
  assumes "wf_yvalue d" "wf_yvalue v" "plain_path (parsePath p)" "setHandler d p v i = OpResult d' None"
  shows "resolvePath d' p = Some v
    \<and> (\<forall>q. diverge (parsePath p) q \<longrightarrow> resolvePathSegments d' q = resolvePathSegments d q)"
proof -
  have s: "setAtPathSegments d (parsePath p) v = Inr d'"
    using assms(4) by (simp add: setHandler_def setAtPath_def ok_def fail_def split: sum.splits)
  show ?thesis
    using store.get_put [OF assms(1-3) s] store.put_frame [OF assms(1-3) s] by (simp add: resolvePath_def)
qed

lemma move_effect:
  assumes "wf_yvalue d" "moveHandler d src to i = OpResult d' None"
    and "plain_path (parsePath to)" "removable (parsePath src)" "diverge (parsePath to) (parsePath src)"
  shows "resolvePath d' to = resolvePath d src \<and> resolvePath d src \<noteq> None \<and> resolvePath d' src = None
    \<and> (\<forall>q. diverge (parsePath to) q \<longrightarrow> diverge (parsePath src) q \<longrightarrow>
          resolvePathSegments d' q = resolvePathSegments d q)"
proof -
  obtain v d1 where v: "resolvePath d src = Some v" "setAtPath (deepClone d) to v = Inr d1"
      "deleteAtPath d1 src = Some d'"
    using assms(2) by (auto simp: moveHandler_def ok_def fail_def yopsError_def split: if_splits option.splits sum.splits)
  have "setAtPathSegments d (parsePath to) v = Inr d1"
    using v(2) by (simp add: setAtPath_def deepClone_id assms(1))
  from store.move [OF assms(1) v(1) [unfolded resolvePath_def] this assms(3-5)] v(1,3)
  show ?thesis by (auto simp: resolvePath_def deleteAtPath_def)
qed

lemma clone_effect:
  assumes "wf_yvalue d" "cloneHandler d src to i = OpResult d' None"
    and "plain_path (parsePath to)"
  shows "resolvePath d' to = resolvePath d src \<and> resolvePath d src \<noteq> None \<and> resolvePath d to = None
    \<and> (\<forall>q. diverge (parsePath to) q \<longrightarrow> resolvePathSegments d' q = resolvePathSegments d q)"
proof -
  obtain v where v: "resolvePath d src = Some v" "resolvePath d to = None" "setAtPath d to (deepClone v) = Inr d'"
    using assms(2) by (auto simp: cloneHandler_def written_def ok_def fail_def split: if_splits option.splits sum.splits)
  then have w: "wf_yvalue v" using resolve_wf' assms(1) by blast
  then have "setAtPathSegments d (parsePath to) v = Inr d'"
    using v(3) by (simp add: setAtPath_def deepClone_id)
  from store.get_put [OF assms(1) w assms(3) this] store.put_frame [OF assms(1) w assms(3) this] v(1,2)
  show ?thesis by (simp add: resolvePath_def)
qed

lemma drop_effect:
  assumes "wf_yvalue d" "dropHandler d p i = OpResult d' None" "removable (parsePath p)"
  shows "resolvePath d p \<noteq> None \<and> resolvePath d' p = None
    \<and> (\<forall>q. diverge (parsePath p) q \<longrightarrow> resolvePathSegments d' q = resolvePathSegments d q)"
proof -
  have s: "deleteAtPathSegments d (parsePath p) = Some d'"
    using assms(2) by (simp add: dropHandler_def deleteAtPath_def ok_def fail_def split: option.splits)
  have "resolvePath d p \<noteq> None"
    using s assms(3) deleteRecursive_None_iff [of "parsePath p" d]
    by (auto simp: removable_def resolvePath_def deleteAtPathSegments_eq [OF assms(1)])
  then show ?thesis
    using store.get_del [OF assms(1,3) s] store.del_frame [OF assms(1,3) s] by (simp add: resolvePath_def)
qed

lemma unset_effect:
  assumes "wf_yvalue d" "unsetHandler d p i = OpResult d' None" "removable (parsePath p)"
  shows "resolvePath d' p = None \<and> (resolvePath d p = None \<longrightarrow> d' = d)
    \<and> (\<forall>q. diverge (parsePath p) q \<longrightarrow> resolvePathSegments d' q = resolvePathSegments d q)"
proof (cases "deleteAtPathSegments d (parsePath p)")
  case None
  moreover have "parsePath p \<noteq> []" using assms(3) by (simp add: removable_def)
  ultimately have "resolvePath d p = None"
    using deleteRecursive_None_iff [of "parsePath p" d] by (simp add: resolvePath_def deleteAtPathSegments_eq [OF assms(1)])
  moreover have "d' = d"
    using assms(2) None by (auto simp: unsetHandler_def Let_def ok_def fail_def deepClone_id assms(1)
        split: if_splits option.splits yvalue.splits)
  ultimately show ?thesis by simp
next
  case (Some e)
  then have "d' = e"
    using assms(2) by (auto simp: unsetHandler_def Let_def ok_def fail_def split: if_splits option.splits yvalue.splits)
  moreover have "resolvePath d p \<noteq> None"
    using Some assms(3) deleteRecursive_None_iff [of "parsePath p" d]
    by (auto simp: removable_def resolvePath_def deleteAtPathSegments_eq [OF assms(1)])
  ultimately show ?thesis
    using store.get_del [OF assms(1,3) Some] store.del_frame [OF assms(1,3) Some] by (auto simp: resolvePath_def)
qed

section \<open>Writing and removing an entry of an existing mapping\<close>

lemma set_child:
  "list_all segment_ok q \<Longrightarrow> resolvePathSegments d q = Some (YMap m) \<Longrightarrow>
     setRecursive d (q @ [SegKey k]) w = Inr (mutate_at d q (\<lambda>_. YMap (obj_set m k (deepClone w))))"
proof (induction q arbitrary: d)
  case Nil
  then show ?case
    by (auto simp: path_op_simps descend_def map_sum_right_def put_child_def split: option.split)
next
  case (Cons s q)
  then obtain c where c: "get_child d s = Some c" "resolvePathSegments c q = Some (YMap m)"
    by (auto simp: path_op_simps bind_eq_Some_conv)
  then have "is_object_or_array c" using resolve_node [OF c(2)] by (cases "q = []") auto
  then have "descend d s (q @ [SegKey k] = []) = Inr c"
    using Cons.prems(1) c(1) by (intro descend_existing) auto
  with Cons c show ?case by (simp add: path_op_simps map_sum_right_def)
qed

lemma delete_child:
  "resolvePathSegments d q = Some (YMap m) \<Longrightarrow> map_of m k = Some c \<Longrightarrow>
     deleteRecursive d (q @ [SegKey k]) = Some (mutate_at d q (\<lambda>_. YMap (obj_delete m k)))"
proof (induction q arbitrary: d)
  case Nil
  then show ?case by (simp add: path_op_simps get_child_def del_child_def)
next
  case (Cons s q)
  then show ?case by (auto simp: path_op_simps bind_eq_Some_conv)
qed

lemma resolve_child:
  "resolvePathSegments d q = Some (YMap m) \<Longrightarrow> resolvePathSegments d (q @ [SegKey k]) = map_of m k"
  by (simp add: resolve_append path_op_simps get_child_def)

lemma obj_delete_absent: "map_of m k = None \<Longrightarrow> obj_delete m k = m"
  by (force simp: obj_delete_def map_of_eq_None_iff intro: filter_True)

section \<open>Keys that need no quotes\<close>

definition bare_key :: "jstring \<Rightarrow> bool" where
  "bare_key k \<longleftrightarrow> k \<noteq> [] \<and> \<not> list_ex reserved_char k"

text \<open>A path as \<open>formatPathSegments\<close> prints it, by keys and indexes.\<close>

definition printed_path :: "jstring \<Rightarrow> path_segment list \<Rightarrow> bool" where
  "printed_path p segs \<longleftrightarrow> p = formatPathSegments segs \<and> list_all segment_ok segs \<and> plain_path segs"

lemma join_snoc: "xs \<noteq> [] \<Longrightarrow> join c (xs @ [y]) = join c xs @ c # y"
  by (induction c xs rule: join.induct) auto

lemma printed_nonempty: "segs \<noteq> [] \<Longrightarrow> formatPathSegments segs \<noteq> []"
proof (cases segs)
  case (Cons s r)
  obtain c t where "formatPathSegment s = c # t" using format_no_slash by blast
  with Cons show ?thesis by (cases r) (simp_all add: formatPathSegments_def)
qed simp

lemma printed_parse: "printed_path p segs \<Longrightarrow> parsePath p = segs"
  by (simp add: printed_path_def parsePath_format)

lemma key_path_parse:
  assumes "printed_path p segs" "bare_key k"
  shows "parsePath (key_path p k) = segs @ [SegKey k]"
proof -
  have "key_path p k = formatPathSegments (segs @ [SegKey k])"
    using assms printed_nonempty [of segs]
    by (cases "segs = []") (auto simp: key_path_def printed_path_def bare_key_def formatPathSegments_def
        formatPathSegment_def join_snoc)
  then show ?thesis
    using assms by (simp add: printed_path_def parsePath_format)
qed

text \<open>The document whose mapping at a printed path is replaced, and what the loops do to it.\<close>

lemma set_key:
  assumes p: "printed_path p segs" "bare_key k" and d: "wf_yvalue d" "wf_yvalue (YMap m')" "wf_yvalue w"
    and m: "resolvePathSegments d segs = Some (YMap m)"
  shows "setAtPath (mutate_at d segs (\<lambda>_. YMap m')) (key_path p k) w
     = Inr (mutate_at d segs (\<lambda>_. YMap (obj_set m' k w)))"
proof -
  have pl: "plain_path segs" "list_all segment_ok segs" using p(1) by (simp_all add: printed_path_def)
  have e: "wf_yvalue (mutate_at d segs (\<lambda>_. YMap m'))" using d by (intro mutate_wf)
  have "resolvePathSegments (mutate_at d segs (\<lambda>_. YMap m')) segs = Some (YMap m')"
    using mutate_get [OF pl(1) m] by simp
  from set_child [OF pl(2) this, of k w] show ?thesis
    by (simp add: setAtPath_def key_path_parse [OF p] setAtPathSegments_eq [OF e] mutate_twice pl(1) deepClone_id d(3)
        del: wf_yvalue.simps)
qed

lemma delete_key:
  assumes p: "printed_path p segs" "bare_key k" and d: "wf_yvalue d" "wf_yvalue (YMap m')"
    and m: "resolvePathSegments d segs = Some (YMap m)"
  shows "delete_if_present p (mutate_at d segs (\<lambda>_. YMap m')) k
     = mutate_at d segs (\<lambda>_. YMap (obj_delete m' k))"
proof -
  have pl: "plain_path segs" "list_all segment_ok segs" using p(1) by (simp_all add: printed_path_def)
  let ?e = "mutate_at d segs (\<lambda>_. YMap m')"
  have e: "wf_yvalue ?e" using d by (intro mutate_wf)
  have r: "resolvePathSegments ?e segs = Some (YMap m')"
    using mutate_get [OF pl(1) m] by simp
  show ?thesis
  proof (cases "map_of m' k")
    case None
    then have "deleteRecursive ?e (segs @ [SegKey k]) = None"
      using deleteRecursive_None_iff [of "segs @ [SegKey k]" ?e] resolve_child [OF r] by simp
    with None show ?thesis
      by (simp add: delete_if_present_def deleteAtPath_def key_path_parse [OF p] deleteAtPathSegments_eq [OF e]
          obj_delete_absent del: wf_yvalue.simps)
  next
    case (Some c)
    from delete_child [OF r Some] show ?thesis
      by (simp add: delete_if_present_def deleteAtPath_def key_path_parse [OF p] deleteAtPathSegments_eq [OF e]
          mutate_twice pl(1) del: wf_yvalue.simps)
  qed
qed

lemma wf_deleted: "wf_yvalue (YMap m) \<Longrightarrow> wf_yvalue (YMap (foldl obj_delete m ks))"
  by (induction ks arbitrary: m) (simp_all add: wf_map_obj_delete del: wf_yvalue.simps)

lemma delete_keys_mapping:
  assumes "printed_path p segs" "wf_yvalue d" "resolvePathSegments d segs = Some (YMap m)"
    and "list_all bare_key ks" "wf_yvalue (YMap m')"
  shows "delete_keys (mutate_at d segs (\<lambda>_. YMap m')) p ks = mutate_at d segs (\<lambda>_. YMap (foldl obj_delete m' ks))"
  using assms(4,5) unfolding delete_keys_def
proof (induction ks arbitrary: m')
  case (Cons k ks)
  then show ?case
    using delete_key [OF assms(1) _ assms(2) _ assms(3), of k m'] wf_deleted [of m' "[k]"]
    by (simp del: wf_yvalue.simps)
qed simp

lemma map_of_deleted: "map_of (foldl obj_delete m ks) k = (if k \<in> set ks then None else map_of m k)"
  by (induction ks arbitrary: m) auto

lemma obj_set_same:
  assumes "wf_object m" "map_of m k = Some v"
  shows "obj_set m k v = m"
proof -
  have "distinct (map fst m)" using assms(1) by (simp add: wf_keys_distinct)
  then have "map (\<lambda>(k', v'). (k', if k' = k then v else v')) m = m"
    using assms(2) by (intro map_idI) (auto dest: eq_key_imp_eq_value)
  then show ?thesis using assms(2) by (simp add: obj_set_def has_own_def)
qed

lemma put_child_id: "wf_yvalue d \<Longrightarrow> get_child d s = Some c \<Longrightarrow> put_child d s c = d"
  by (auto simp: step_defs obj_set_same split: yvalue.splits path_segment.splits option.splits if_splits)

lemma mutate_id:
  "resolvePathSegments d p = Some v \<Longrightarrow> wf_yvalue d \<Longrightarrow> mutate_at d p (\<lambda>_. v) = d"
proof (induction p arbitrary: d)
  case (Cons s p)
  then obtain c where c: "get_child d s = Some c" "resolvePathSegments c p = Some v"
    by (auto simp: path_op_simps bind_eq_Some_conv)
  with Cons.IH [OF c(2) get_child_wf [OF c(1) Cons.prems(2)]] Cons.prems(2) show ?case by (simp add: put_child_id)
qed simp

lemma delete_keys_printed:
  assumes "printed_path p segs" "wf_yvalue d" "resolvePathSegments d segs = Some (YMap m)" "list_all bare_key ks"
  shows "delete_keys d p ks = mutate_at d segs (\<lambda>_. YMap (foldl obj_delete m ks))"
  using delete_keys_mapping [OF assms resolve_wf [OF assms(3,2)]] mutate_id [OF assms(3,2)] by simp

section \<open>The handlers that move entries of a mapping\<close>

lemma sub_mapping_wf: "wf_yvalue (YMap (sub_mapping m ks))"
  unfolding sub_mapping_def by (rule wf_map_obj_build) (auto simp: wf_entries_iff deepClone_wf)

lemma written_key:
  assumes "printed_path p segs" "bare_key k" "wf_yvalue d" "wf_yvalue (YMap m')" "wf_yvalue w"
    and "resolvePathSegments d segs = Some (YMap m)"
  shows "written (setAtPath (mutate_at d segs (\<lambda>_. YMap m')) (key_path p k) w)
     = ok (mutate_at d segs (\<lambda>_. YMap (obj_set m' k w)))"
  using set_key [OF assms] by (simp add: written_def)

lemma nest_spec:
  assumes p: "printed_path p segs" "list_all bare_key ks" "bare_key n" and d: "wf_yvalue d"
    and m: "resolvePathSegments d segs = Some (YMap m)"
  shows "nestHandler d p ks n i =
     (if \<not> list_all (has_own m) ks then fail d NOT_SIBLINGS i
      else if has_own m n \<and> n \<notin> set ks then fail d ALREADY_EXISTS i
      else ok (mutate_at d segs (\<lambda>_. YMap (obj_set (foldl obj_delete m ks) n (YMap (sub_mapping m ks))))))"
proof -
  have mw: "wf_yvalue (YMap m)" using resolve_wf [OF m d] .
  have r: "resolvePath d p = Some (YMap m)" using m by (simp add: resolvePath_def printed_parse [OF p(1)])
  show ?thesis
    unfolding nestHandler_def r option.case yvalue.case deepClone_id [OF d] delete_keys_printed [OF p(1) d m p(2)]
      written_key [OF p(1,3) d wf_deleted [OF mw] sub_mapping_wf m]
    by (simp add: list_ex_iff list_all_iff)
qed

lemma merged_wf: "wf_yvalue (YMap (merged_mapping m ks))"
proof -
  have "wf_yvalue v" if "(k, v) \<in> set (entries_of (deepClone w))" for k v w
    using that deepClone_wf [of w] by (cases "deepClone w") (auto simp: entries_of_def wf_entries_iff)
  then have "wf_entries (concat (map (\<lambda>k. entries_of (deepClone (the (map_of m k)))) ks))"
    unfolding wf_entries_iff by auto
  then show ?thesis unfolding merged_mapping_def by (rule wf_map_obj_build)
qed

lemma merge_spec:
  assumes p: "printed_path p segs" "list_all bare_key ks" "bare_key n" and d: "wf_yvalue d"
    and m: "resolvePathSegments d segs = Some (YMap m)"
  shows "mergeHandler d p ks n i =
     (if \<not> list_all (has_own m) ks then fail d NOT_SIBLINGS i
      else if \<not> list_all (\<lambda>k. is_mapping (the (map_of m k))) ks then fail d NOT_A_MAPPING i
      else ok (mutate_at d segs (\<lambda>_. YMap (obj_set (foldl obj_delete m ks) n (YMap (merged_mapping m ks))))))"
proof -
  have mw: "wf_yvalue (YMap m)" using resolve_wf [OF m d] .
  have r: "resolvePath d p = Some (YMap m)" using m by (simp add: resolvePath_def printed_parse [OF p(1)])
  show ?thesis
    unfolding mergeHandler_def r option.case yvalue.case deepClone_id [OF d] delete_keys_printed [OF p(1) d m p(2)]
      written_key [OF p(1,3) d wf_deleted [OF mw] merged_wf m]
    by (simp add: list_ex_iff list_all_iff)
qed

lemma populate_loop_printed:
  assumes "printed_path p segs" "wf_yvalue d" "resolvePathSegments d segs = Some (YMap m)"
    and "list_all bare_key (map fst kvs)" "list_all (\<lambda>(k, v). wf_yvalue v) kvs" "wf_yvalue (YMap m')"
  shows "populate_loop (mutate_at d segs (\<lambda>_. YMap m')) p kvs = Inr (mutate_at d segs (\<lambda>_. YMap (obj_set_all m' kvs)))"
    and "create_groups (mutate_at d segs (\<lambda>_. YMap m')) p kvs = Inr (mutate_at d segs (\<lambda>_. YMap (obj_set_all m' kvs)))"
proof -
  have "populate_loop (mutate_at d segs (\<lambda>_. YMap m')) p kvs = Inr (mutate_at d segs (\<lambda>_. YMap (obj_set_all m' kvs)))
      \<and> create_groups (mutate_at d segs (\<lambda>_. YMap m')) p kvs = Inr (mutate_at d segs (\<lambda>_. YMap (obj_set_all m' kvs)))"
    using assms(4-6)
  proof (induction kvs arbitrary: m')
    case (Cons e kvs)
    obtain k v where e: "e = (k, v)" by fastforce
    have k: "bare_key k" "wf_yvalue v" using Cons.prems by (simp_all add: e)
    have "wf_yvalue (YMap (obj_set m' k v))" by (rule wf_map_obj_set [OF Cons.prems(3) k(2)])
    from Cons.IH [OF _ _ this] Cons.prems(1,2) show ?case
      by (simp add: e set_key [OF assms(1) k(1) assms(2) Cons.prems(3) k(2) assms(3)] obj_set_all_def
          del: wf_yvalue.simps)
  qed (simp add: obj_set_all_def)
  then show "populate_loop (mutate_at d segs (\<lambda>_. YMap m')) p kvs = Inr (mutate_at d segs (\<lambda>_. YMap (obj_set_all m' kvs)))"
    and "create_groups (mutate_at d segs (\<lambda>_. YMap m')) p kvs = Inr (mutate_at d segs (\<lambda>_. YMap (obj_set_all m' kvs)))"
    by blast+
qed

lemma populate_spec:
  assumes p: "printed_path p segs" "list_all bare_key (map fst vs)" and d: "wf_yvalue d" "wf_yvalue (YMap vs)"
    and m: "resolvePathSegments d segs = Some (YMap m)"
  shows "populateHandler d p vs i = ok (mutate_at d segs (\<lambda>_. YMap (obj_set_all m vs)))"
proof -
  have r: "resolvePath d p = Some (YMap m)" using m by (simp add: resolvePath_def printed_parse [OF p(1)])
  have "list_all (\<lambda>(k, v). wf_yvalue v) vs" using d(2) by (auto simp: wf_entries_iff list_all_iff)
  from populate_loop_printed(1) [OF p(1) d(1) m p(2) this resolve_wf [OF m d(1)]]
  show ?thesis by (simp add: populateHandler_def r mutate_id [OF m d(1)])
qed

lemma split_spec:
  assumes p: "printed_path p segs" "list_all bare_key (concat (map snd gs))" "list_all bare_key (map fst gs)"
    and d: "wf_yvalue d" and m: "resolvePathSegments d segs = Some (YMap m)"
    and keys: "distinct (concat (map snd gs))" "list_all (has_own m) (concat (map snd gs))"
      "\<forall>g \<in> set (map fst gs). has_own m g \<longrightarrow> g \<in> set (concat (map snd gs))"
    and gs: "wf_object gs"
  shows "splitHandler d p gs i = ok (mutate_at d segs (\<lambda>_. YMap (obj_set_all
     (foldl obj_delete m (concat (map snd gs))) (map (\<lambda>(g, ks). (g, YMap (sub_mapping m ks))) gs))))"
proof -
  let ?ks = "concat (map snd gs)"
  let ?groups = "map (\<lambda>(g, ks). (g, YMap (sub_mapping m ks))) gs"
  have r: "resolvePath d p = Some (YMap m)" using m by (simp add: resolvePath_def printed_parse [OF p(1)])
  have fst: "map fst ?groups = map fst gs" by (induction gs) auto
  have names: "list_all bare_key (map fst ?groups)" unfolding fst by (rule p(3))
  have g: "obj_build ?groups = ?groups" by (rule obj_build_wf) (unfold fst, rule gs)
  have vals: "list_all (\<lambda>(k, v). wf_yvalue v) ?groups"
    by (auto simp: list_all_iff sub_mapping_wf simp del: wf_yvalue.simps)
  have c: "create_groups (delete_keys (deepClone d) p ?ks) p ?groups
      = Inr (mutate_at d segs (\<lambda>_. YMap (obj_set_all (foldl obj_delete m ?ks) ?groups)))"
    unfolding deepClone_id [OF d] delete_keys_printed [OF p(1) d m p(2)]
    by (rule populate_loop_printed(2) [OF p(1) d m names vals wf_deleted [OF resolve_wf [OF m d]]])
  have own: "\<not> list_ex (\<lambda>k. \<not> has_own m k) ?ks" using keys(2) by (auto simp: list_ex_iff list_all_iff)
  have fresh: "\<not> list_ex (\<lambda>g. has_own m g \<and> g \<notin> set ?ks) (map fst gs)"
    using keys(3) unfolding list_ex_iff by blast
  show ?thesis
    unfolding splitHandler_def r option.case yvalue.case Let_def distinct_remdups_id [OF keys(1)] g c written_def
    using keys(1) own fresh by simp
qed

section \<open>Definition, renaming and folding\<close>

lemma snoc_key: "p \<noteq> [] \<Longrightarrow> last p = SegKey k \<Longrightarrow> p = butlast p @ [SegKey k]"
  by (metis append_butlast_last_id)

text \<open>A define that succeeds is a set of the empty mapping at an absent key of a mapping.\<close>

lemma define_effect:
  assumes d: "wf_yvalue d" and ok: "defineHandler d p i = OpResult d' None"
  shows "resolvePath d p = None \<and> setHandler d p (YMap []) j = OpResult d' None"
proof -
  let ?q = "butlast (parsePath p)"
  obtain m k where k: "list_all is_key (parsePath p)" "parsePath p \<noteq> []" "last (parsePath p) = SegKey k"
      and m: "resolvePathSegments d ?q = Some (YMap m)" "\<not> has_own m k"
      and d': "d' = mutate_at (deepClone d) ?q (\<lambda>v. case v of YMap m \<Rightarrow> YMap (obj_set m k (YMap [])) | _ \<Rightarrow> v)"
    using ok by (auto simp: defineHandler_def Let_def fail_def ok_def yopsError_def
        split: if_splits option.splits yvalue.splits path_segment.splits)
  have p: "parsePath p = ?q @ [SegKey k]" by (rule snoc_key [OF k(2,3)])
  have "list_all is_key ?q" using k(1) by (auto simp: list_all_iff dest: in_set_butlastD)
  then have q: "list_all segment_ok ?q" by (auto simp: list_all_iff elim!: is_key.elims)
  have "setRecursive d (?q @ [SegKey k]) (YMap []) = Inr (mutate_at d ?q (\<lambda>_. YMap (obj_set m k (YMap []))))"
    using set_child [OF q m(1), of k "YMap []"] by (simp add: deepClone_id del: deepClone.simps)
  moreover have "mutate_at d ?q (\<lambda>_. YMap (obj_set m k (YMap []))) = d'"
    unfolding d' deepClone_id [OF d] by (rule mutate_cong [OF m(1)]) simp
  ultimately have "setAtPath d p (YMap []) = Inr d'"
    using p by (simp add: setAtPath_def setAtPathSegments_eq [OF d])
  moreover have "resolvePath d p = None"
    using m(2) resolve_child [OF m(1), of k] p by (simp add: resolvePath_def has_own_def)
  ultimately show ?thesis by (simp add: setHandler_def ok_def)
qed

text \<open>A rename rewrites the parent mapping: the new key has the old value, the old key is gone.\<close>

lemma rename_effect:
  assumes d: "wf_yvalue d" and ok: "renameHandler d p to i = OpResult d' None"
  shows "\<exists>q old m. parsePath p = q @ [SegKey old] \<and> resolvePathSegments d q = Some (YMap m)
    \<and> d' = mutate_at d q (\<lambda>_. YMap (renamed_entries old to m))
    \<and> (\<forall>k. map_of (renamed_entries old to m) k =
          (if k = to then map_of m old else if k = old then None else map_of m k))"
proof -
  let ?q = "butlast (parsePath p)"
  obtain v k m where k: "parsePath p \<noteq> []" "last (parsePath p) = SegKey k"
      and v: "resolvePathSegments d (parsePath p) = Some v"
      and m: "resolvePathSegments d ?q = Some (YMap m)" "\<not> has_own m to"
      and d': "d' = mutate_at (deepClone d) ?q (\<lambda>v. case v of YMap m \<Rightarrow> YMap (renamed_entries k to m) | _ \<Rightarrow> v)"
    using ok by (auto simp: renameHandler_def Let_def fail_def ok_def yopsError_def
        split: if_splits option.splits yvalue.splits path_segment.splits)
  have p: "parsePath p = ?q @ [SegKey k]" by (rule snoc_key [OF k])
  have "map_of m k = Some v" using v resolve_child [OF m(1), of k] p by simp
  then have "k \<in> set (map fst m)" by (metis map_of_SomeD image_set fst_conv imageI)
  moreover have "wf_object m" using resolve_wf [OF m(1) d] by simp
  moreover have "to \<notin> set (map fst m)" using m(2) by (simp add: has_own_iff)
  ultimately have "\<forall>j. map_of (renamed_entries k to m) j =
      (if j = to then map_of m k else if j = k then None else map_of m j)"
    using renamed_entries_lookup by blast
  moreover have "d' = mutate_at d ?q (\<lambda>_. YMap (renamed_entries k to m))"
    unfolding d' deepClone_id [OF d] by (rule mutate_cong [OF m(1)]) simp
  ultimately show ?thesis using p m(1) by blast
qed

lemma fold_cases:
  assumes d: "wf_yvalue d" and ok: "foldHandler d p i = OpResult d' None"
  shows "\<exists>ck child deleted. resolvePathSegments d (parsePath p) = Some (YMap [(ck, child)])
    \<and> deleteAtPathSegments d (parsePath p) = Some deleted
    \<and> setAtPathSegments deleted (butlast (parsePath p) @ [SegKey ck]) child = Inr d'"
proof -
  obtain v where v: "resolvePathSegments d (parsePath p) = Some v"
    using ok by (cases "resolvePathSegments d (parsePath p)") (auto simp: foldHandler_def Let_def fail_def)
  obtain ck child where m: "v = YMap [(ck, child)]"
    using ok by (auto simp: foldHandler_def Let_def v fail_def ok_def split: yvalue.splits list.splits prod.splits)
  have w: "deepClone child = child" using resolve_wf [OF v d] by (simp add: m deepClone_id)
  obtain e where e: "deleteAtPathSegments d (parsePath p) = Some e"
    using ok by (cases "deleteAtPathSegments d (parsePath p)") (auto simp: foldHandler_def Let_def v m fail_def deepClone_id [OF d])
  then have "written (setAtPathSegments e (butlast (parsePath p) @ [SegKey ck]) child) = OpResult d' None"
    using ok by (simp add: foldHandler_def Let_def v m deepClone_id [OF d] w)
  then have "setAtPathSegments e (butlast (parsePath p) @ [SegKey ck]) child = Inr d'"
    by (simp add: written_def ok_def split: sum.splits)
  with e v m show ?thesis by blast
qed

lemma fold_effect:
  assumes d: "wf_yvalue d" and ok: "foldHandler d p i = OpResult d' None"
    and p: "parsePath p = q @ [SegKey k]" "plain_path q" "list_all segment_ok q"
  shows "\<exists>m ck child. resolvePathSegments d q = Some (YMap m) \<and> map_of m k = Some (YMap [(ck, child)])
    \<and> d' = mutate_at d q (\<lambda>_. YMap (obj_set (obj_delete m k) ck child))"
proof -
  obtain ck child e where f: "resolvePathSegments d (q @ [SegKey k]) = Some (YMap [(ck, child)])"
      "deleteAtPathSegments d (q @ [SegKey k]) = Some e" "setAtPathSegments e (q @ [SegKey ck]) child = Inr d'"
    using fold_cases [OF d ok] by (auto simp: p(1))
  obtain m where m: "resolvePathSegments d q = Some (YMap m)" "map_of m k = Some (YMap [(ck, child)])"
    using resolve_last_key [of "q @ [SegKey k]" k d] f(1) by auto
  have e: "e = mutate_at d q (\<lambda>_. YMap (obj_delete m k))"
    using f(2) delete_child [OF m] by (simp add: deleteAtPathSegments_eq [OF d])
  have ew: "wf_yvalue e" using f(2) d deleteAtPathSegments_wf by blast
  have "resolvePathSegments e q = Some (YMap (obj_delete m k))" unfolding e using mutate_get [OF p(2) m(1)] by simp
  from set_child [OF p(3) this, of ck child] f(3)
  have "d' = mutate_at d q (\<lambda>_. YMap (obj_set (obj_delete m k) ck (deepClone child)))"
    unfolding setAtPathSegments_eq [OF ew] by (simp add: e mutate_twice [OF p(2)])
  moreover have "deepClone child = child" using resolve_wf [OF f(1) d] by (simp add: deepClone_id)
  ultimately show ?thesis using m by auto
qed

section \<open>Error codes\<close>

fun code_name :: "yops_error_code \<Rightarrow> string" where
  "code_name PATH_NOT_FOUND = ''PATH_NOT_FOUND''"
| "code_name ALREADY_EXISTS = ''ALREADY_EXISTS''"
| "code_name NOT_A_MAPPING = ''NOT_A_MAPPING''"
| "code_name NOT_A_SEQUENCE = ''NOT_A_SEQUENCE''"
| "code_name NOT_SIBLINGS = ''NOT_SIBLINGS''"
| "code_name NOT_FOLDABLE = ''NOT_FOLDABLE''"
| "code_name INVALID_PATH = ''INVALID_PATH''"
| "code_name ASSERTION_FAILED = ''ASSERTION_FAILED''"
| "code_name UNKNOWN_OP = ''UNKNOWN_OP''"
| "code_name INVALID_OP = ''INVALID_OP''"

definition codes_in :: "yops_error_code set \<Rightarrow> op_result \<Rightarrow> bool" where
  "codes_in C r \<longleftrightarrow> (\<forall>d e. r = OpResult d (Some e) \<longrightarrow> error_code e \<in> C)"

lemma codes_in_simps [simp]:
  "codes_in C Throws" "codes_in C (ok d)" "codes_in C (written r)" "codes_in C (fail d c i) \<longleftrightarrow> c \<in> C"
  by (auto simp: codes_in_def ok_def fail_def yopsError_def written_def split: sum.splits)

lemma codes_fold: "codes_in {PATH_NOT_FOUND, NOT_FOLDABLE} (foldHandler d p i)"
  unfolding foldHandler_def Let_def
  by (cases "resolvePathSegments d (parsePath p)") (auto split: yvalue.split list.split option.split)

definition spec_codes :: "yop \<Rightarrow> yops_error_code set" where
  "spec_codes op = {c. u (code_name c) \<in> set (spec_errors (op_spec_of op))}"

lemma handler_codes: "codes_in (spec_codes op) (handle op d i)"
proof (cases op)
  case (Fold p)
  have "{PATH_NOT_FOUND, NOT_FOLDABLE} \<subseteq> spec_codes op"
    by (simp add: Fold spec_codes_def op_spec_of_def yops_spec_lookup raw_defs plain_op_def)
  then show ?thesis using codes_fold [of d p i] by (auto simp: Fold codes_in_def)
qed (simp_all add: handler_defs Let_def spec_codes_def op_spec_of_def yops_spec_lookup raw_defs plain_op_def
    split: option.split yvalue.split path_segment.split sum.split)

section \<open>What the new mappings hold\<close>

lemma child_clone: "wf_yvalue (YMap m) \<Longrightarrow> map_of m k = Some v \<Longrightarrow> deepClone (the (map_of m k)) = v"
  using wf_map_lookup [of m k v] by (simp add: deepClone_id)

lemma sub_mapping_lookup:
  assumes "wf_yvalue (YMap m)" "list_all (has_own m) ks"
  shows "map_of (sub_mapping m ks) k = (if k \<in> set ks then map_of m k else None)"
  using assms(2) unfolding sub_mapping_def map_of_obj_set_all
proof (induction ks rule: rev_induct)
  case (snoc c ks)
  then obtain v where "map_of m c = Some v" by (auto simp: has_own_def)
  with snoc child_clone [OF assms(1) this] show ?case by (auto split: option.splits)
qed simp

lemma snoc_split: "ks @ [c] = xs @ c' # ys \<longleftrightarrow> ys = [] \<and> xs = ks \<and> c' = c \<or> (\<exists>ys'. ys = ys' @ [c] \<and> ks = xs @ c' # ys')"
  by (cases ys rule: rev_cases) auto

lemma merged_lookup:
  assumes w: "wf_yvalue (YMap m)" and "list_all (has_own m) ks" "list_all (\<lambda>k. is_mapping (the (map_of m k))) ks"
  shows "map_of (merged_mapping m ks) k = Some v \<longleftrightarrow> (\<exists>xs c ys n. ks = xs @ c # ys \<and> map_of m c = Some (YMap n)
    \<and> map_of n k = Some v \<and> (\<forall>c' \<in> set ys. \<forall>n'. map_of m c' = Some (YMap n') \<longrightarrow> map_of n' k = None))"
  using assms(2,3) unfolding merged_mapping_def map_of_obj_set_all
proof (induction ks rule: rev_induct)
  case (snoc c ks)
  let ?E = "\<lambda>ks. concat (map (\<lambda>k. entries_of (deepClone (the (map_of m k)))) ks)"
  obtain n where n: "map_of m c = Some (YMap n)"
    using snoc.prems by (cases "the (map_of m c)") (auto simp: has_own_def)
  have d: "distinct (map fst n)" using wf_map_lookup [OF w n] wf_keys_distinct by simp
  have "map_of (rev n) = map_of n" by (rule map_of_permute) (use d in \<open>simp_all flip: rev_map\<close>)
  then have "map_of (rev (?E (ks @ [c]))) k = (case map_of n k of Some v \<Rightarrow> Some v | None \<Rightarrow> map_of (rev (?E ks)) k)"
    using child_clone [OF w n] entries_of_def [of "YMap n"] by (simp add: map_add_def)
  moreover have "(\<exists>xs c' ys n'. ks @ [c] = xs @ c' # ys \<and> P xs c' ys n') \<longleftrightarrow>
      (\<exists>n'. P ks c [] n') \<or> (\<exists>xs c' ys n'. ks = xs @ c' # ys \<and> P xs c' (ys @ [c]) n')" for P :: "_ \<Rightarrow> _ \<Rightarrow> _ \<Rightarrow> (jstring \<times> yvalue) list \<Rightarrow> bool"
    unfolding snoc_split by blast
  ultimately show ?case using snoc n by (auto split: option.splits)
qed simp

end
