(* ===== verification/Validator.thy ===== *)
theory Validator
  imports TypedOps
begin

text \<open>
  packages/yops/src/validator.ts, format.ts and yamlProfile.ts: the pre-flight diagnostics of an op
  list. A diagnostic keeps its severity, code, operation index, field and path; the message and the
  suggestion are texts for people and are not modelled. \<open>validateOp\<close> is \<open>None\<close> where the source
  throws (a mapping payload under an inherited name such as \<open>constructor\<close>). The YAML parser is the
  parameter \<open>parse\<close>: the documents of a text with their errors, the nodes in the order of \<open>visit\<close>
  and their JSON value.
\<close>

section \<open>Diagnostics\<close>

datatype severity = SevError | SevWarning | SevInfo

datatype diagnostic_code =
    YOPS_INVALID_YAML
  | YOPS_YAML_PROFILE_UNSUPPORTED
  | YOPS_DOCUMENT_NOT_MAPPING_OR_ARRAY
  | YOPS_DOCUMENT_YOPS_NOT_ARRAY
  | YOPS_OP_NOT_MAPPING
  | YOPS_OP_NO_KEY
  | YOPS_OP_UNKNOWN
  | YOPS_OP_PAYLOAD_NOT_MAPPING
  | YOPS_OP_FIELD_MISSING
  | YOPS_OP_FIELD_UNKNOWN
  | YOPS_OP_FIELD_TYPE_MISMATCH
  | YOPS_OP_ENUM_VIOLATION
  | YOPS_OP_REFINEMENT_VIOLATION
  | YOPS_PATH_EMPTY
  | YOPS_PATH_UNCLOSED_QUOTE
  | YOPS_PATH_INVALID_ESCAPE
  | YOPS_PATH_INVALID_INDEX_SYNTAX
  | YOPS_PATH_INDEX_OUT_OF_RANGE
  | YOPS_PATH_INVALID_MATCH_SYNTAX
  | YOPS_PATH_LIKELY_DOUBLE_ESCAPED

record yops_diagnostic =
  d_severity :: severity
  d_code :: diagnostic_code
  d_op_index :: "nat option"
  d_field :: "jstring option"
  d_path :: "jstring option"

definition diagnostic :: "severity \<Rightarrow> diagnostic_code \<Rightarrow> nat option \<Rightarrow> jstring option \<Rightarrow> jstring option \<Rightarrow>
    yops_diagnostic" where
  "diagnostic s c i f p = \<lparr>d_severity = s, d_code = c, d_op_index = i, d_field = f, d_path = p\<rparr>"

section \<open>Field types\<close>

definition runtimeMatchesSpecType :: "yvalue \<Rightarrow> jstring \<Rightarrow> bool" where
  "runtimeMatchesSpecType v t =
     (if t = u ''any'' then True
      else if t = u ''string'' then (case v of YStr _ \<Rightarrow> True | _ \<Rightarrow> False)
      else if t = u ''number'' then (case v of YNum _ \<Rightarrow> True | _ \<Rightarrow> False)
      else if t = u ''boolean'' then (case v of YBool _ \<Rightarrow> True | _ \<Rightarrow> False)
      else if t = u ''mapping'' then (case v of YMap _ \<Rightarrow> True | _ \<Rightarrow> False)
      else if t = u ''sequence'' then (case v of YSeq _ \<Rightarrow> True | _ \<Rightarrow> False)
      else True)"

definition ROOTABLE_PATH_FIELDS :: "(jstring \<times> jstring list) list" where
  "ROOTABLE_PATH_FIELDS = [(u ''nest'', [u ''path'']), (u ''split'', [u ''path'']), (u ''merge'', [u ''path'']),
     (u ''pick'', [u ''path'']), (u ''omit'', [u ''path''])]"

definition isRootablePathField :: "jstring \<Rightarrow> jstring \<Rightarrow> bool" where
  "isRootablePathField opName fieldName =
     (case map_of ROOTABLE_PATH_FIELDS opName of Some fs \<Rightarrow> fieldName \<in> set fs | None \<Rightarrow> False)"

section \<open>Paths\<close>

text \<open>The inner loop of \<open>splitRawSegments\<close>: the quoted text with its closing quote, and the rest.\<close>

fun skip_quoted :: "jstring \<Rightarrow> jstring \<times> jstring" where
  "skip_quoted [] = ([], [])"
| "skip_quoted [c] = ([c], [])"
| "skip_quoted (c # d # r) =
     (if c = bslash then (let (q, rest) = skip_quoted r in (c # d # q, rest))
      else if c = dquote then ([c], d # r)
      else (let (q, rest) = skip_quoted (d # r) in (c # q, rest)))"

lemma skip_quoted_length: "length (snd (skip_quoted s)) \<le> length s"
  by (induction s rule: skip_quoted.induct) (auto simp: split_def Let_def)

function split_raw :: "jstring \<Rightarrow> jstring \<Rightarrow> jstring list" where
  "split_raw cur [] = [cur]"
| "split_raw cur (c # r) =
     (if c = dquote then split_raw (cur @ c # fst (skip_quoted r)) (snd (skip_quoted r))
      else if c = slash then cur # split_raw [] r
      else split_raw (cur @ [c]) r)"
  by pat_completeness auto
termination by (relation "measure (\<lambda>(cur, s). length s)") (auto simp: skip_quoted_length le_imp_less_Suc)

definition splitRawSegments :: "jstring \<Rightarrow> jstring list" where
  "splitRawSegments path = split_raw [] path"

fun path_diagnostic_code :: "path_error_code \<Rightarrow> diagnostic_code" where
  "path_diagnostic_code UNCLOSED_QUOTE = YOPS_PATH_UNCLOSED_QUOTE"
| "path_diagnostic_code INVALID_ESCAPE = YOPS_PATH_INVALID_ESCAPE"
| "path_diagnostic_code INVALID_INDEX_SYNTAX = YOPS_PATH_INVALID_INDEX_SYNTAX"
| "path_diagnostic_code INVALID_MATCH_SYNTAX = YOPS_PATH_INVALID_MATCH_SYNTAX"
| "path_diagnostic_code INDEX_OUT_OF_RANGE = YOPS_PATH_INDEX_OUT_OF_RANGE"

fun has_escaped_quote :: "jstring \<Rightarrow> bool" where
  "has_escaped_quote (c # d # r) = (c = bslash \<and> d = dquote \<or> has_escaped_quote (d # r))"
| "has_escaped_quote _ = False"

definition raw_segment_diagnostics :: "nat \<Rightarrow> jstring \<Rightarrow> jstring \<Rightarrow> jstring \<Rightarrow> yops_diagnostic list" where
  "raw_segment_diagnostics i f path raw =
     (if raw \<noteq> [] \<and> hd raw = dquote then []
      else if raw \<noteq> [] \<and> hd raw = lbracket
      then (if index_regex raw = None \<and> match_regex raw = None
            then [diagnostic SevError
                    (if equals_sign \<in> set raw then YOPS_PATH_INVALID_MATCH_SYNTAX else YOPS_PATH_INVALID_INDEX_SYNTAX)
                    (Some i) (Some f) (Some path)]
            else [])
      else if has_escaped_quote raw
      then [diagnostic SevInfo YOPS_PATH_LIKELY_DOUBLE_ESCAPED (Some i) (Some f) (Some path)]
      else [])"

definition validatePath :: "yvalue \<Rightarrow> nat \<Rightarrow> jstring \<Rightarrow> bool \<Rightarrow> yops_diagnostic list" where
  "validatePath v i f rootable =
     (case v of
        YStr path \<Rightarrow>
          if path = []
          then (if rootable then [] else [diagnostic SevError YOPS_PATH_EMPTY (Some i) (Some f) (Some path)])
          else (case tryParsePath path of
              Inl (c, pos) \<Rightarrow> [diagnostic SevError (path_diagnostic_code c) (Some i) (Some f) (Some path)]
            | Inr _ \<Rightarrow> concat (map (raw_segment_diagnostics i f path) (splitRawSegments path)))
      | _ \<Rightarrow> [])"

section \<open>Source metadata\<close>

definition nonempty_string :: "yvalue option \<Rightarrow> bool" where
  "nonempty_string v = (case v of Some (YStr s) \<Rightarrow> s \<noteq> [] | _ \<Rightarrow> False)"

definition source_violation :: "nat \<Rightarrow> yops_diagnostic" where
  "source_violation i = diagnostic SevError YOPS_OP_REFINEMENT_VIOLATION (Some i) None None"

definition validateSource :: "yvalue \<Rightarrow> nat \<Rightarrow> yops_diagnostic list" where
  "validateSource v i =
     (case v of
        YMap m \<Rightarrow>
          if map_of m (u ''type'') = Some (YStr (u ''human''))
          then (if nonempty_string (map_of m (u ''author'')) then [] else [source_violation i])
          else if map_of m (u ''type'') = Some (YStr (u ''llm''))
          then (case map_of m (u ''turn_ref'') of
              Some (YMap turnRef) \<Rightarrow>
                (if nonempty_string (map_of turnRef (u ''turn_hash'')) then [] else [source_violation i])
                @ (if nonempty_string (map_of turnRef (u ''quote'')) then [] else [source_violation i])
            | _ \<Rightarrow> [source_violation i])
          else [source_violation i]
      | _ \<Rightarrow> [source_violation i])"

section \<open>Refinements\<close>

definition NON_EMPTY_STRING_FIELDS :: "(jstring \<times> jstring list) list" where
  "NON_EMPTY_STRING_FIELDS =
     [(u ''rename'', [u ''to'']), (u ''nest'', [u ''under'']), (u ''merge'', [u ''into''])]"

definition STRING_ARRAY_FIELDS :: "(jstring \<times> jstring list) list" where
  "STRING_ARRAY_FIELDS = [(u ''nest'', [u ''keys'']), (u ''merge'', [u ''keys'']), (u ''pick'', [u ''keys'']),
     (u ''omit'', [u ''keys''])]"

definition qualifiedField :: "jstring \<Rightarrow> jstring \<Rightarrow> jstring" where
  "qualifiedField opName fieldName = opName @ u ''.'' @ fieldName"

fun is_string :: "yvalue \<Rightarrow> bool" where
  "is_string (YStr _) = True"
| "is_string _ = False"

definition table_fields :: "(jstring \<times> jstring list) list \<Rightarrow> jstring \<Rightarrow> jstring list" where
  "table_fields table opName = (case map_of table opName of Some fs \<Rightarrow> fs | None \<Rightarrow> [])"

definition refinement :: "nat \<Rightarrow> jstring option \<Rightarrow> yops_diagnostic" where
  "refinement i f = diagnostic SevError YOPS_OP_REFINEMENT_VIOLATION (Some i) f None"

definition string_elements :: "nat \<Rightarrow> jstring \<Rightarrow> yvalue list \<Rightarrow> yops_diagnostic list" where
  "string_elements i f xs = map (\<lambda>_. refinement i (Some f)) (filter (\<lambda>x. \<not> is_string x) xs)"

definition group_refinements :: "nat \<Rightarrow> (jstring \<times> yvalue) list \<Rightarrow> yops_diagnostic list" where
  "group_refinements i into = concat (map (\<lambda>(g, members). case members of
      YSeq xs \<Rightarrow> string_elements i (u ''split.into'') xs
    | _ \<Rightarrow> [refinement i (Some (u ''split.into''))]) into)"

definition validateOpRefinements :: "jstring \<Rightarrow> (jstring \<times> yvalue) list \<Rightarrow> nat \<Rightarrow> yops_diagnostic list" where
  "validateOpRefinements opName payload i =
     (if opName = u ''assert'' \<and> map_of payload (u ''equals'') = None \<and> map_of payload (u ''exists'') = None
        \<and> map_of payload (u ''type'') = None then [refinement i None] else [])
     @ concat (map (\<lambda>f. case map_of payload f of
           Some (YStr s) \<Rightarrow> if s = [] then [refinement i (Some (qualifiedField opName f))] else []
         | _ \<Rightarrow> []) (table_fields NON_EMPTY_STRING_FIELDS opName))
     @ concat (map (\<lambda>f. case map_of payload f of
           Some (YSeq xs) \<Rightarrow> string_elements i (qualifiedField opName f) xs
         | _ \<Rightarrow> []) (table_fields STRING_ARRAY_FIELDS opName))
     @ (if opName = u ''split'' then (case map_of payload (u ''into'') of
           Some (YMap into) \<Rightarrow> group_refinements i into | _ \<Rightarrow> []) else [])"

section \<open>One operation\<close>

definition path_field_names :: "path_fields \<Rightarrow> jstring list" where
  "path_field_names pf = concat (map (\<lambda>f. case f of None \<Rightarrow> [] | Some n \<Rightarrow> [n])
     [primary pf, source_path pf, destination pf])"

definition field_diagnostics :: "jstring \<Rightarrow> op_spec \<Rightarrow> (jstring \<times> yvalue) list \<Rightarrow> nat \<Rightarrow>
    jstring \<times> field_spec \<Rightarrow> yops_diagnostic list" where
  "field_diagnostics opName os payload i e = (case e of (n, fs) \<Rightarrow>
     (case map_of payload n of
        None \<Rightarrow> []
      | Some v \<Rightarrow>
          if \<not> runtimeMatchesSpecType v (field_type fs)
          then [diagnostic SevError YOPS_OP_FIELD_TYPE_MISMATCH (Some i) (Some (qualifiedField opName n)) None]
          else if (case (field_enum fs, v) of (Some es, YStr s) \<Rightarrow> s \<notin> set es | _ \<Rightarrow> False)
          then [diagnostic SevError YOPS_OP_ENUM_VIOLATION (Some i) (Some (qualifiedField opName n)) None]
          else if n \<in> set (path_field_names (op_path_fields os))
          then validatePath v i (qualifiedField opName n) (isRootablePathField opName n)
          else []))"

definition payload_diagnostics :: "jstring \<Rightarrow> op_spec \<Rightarrow> (jstring \<times> yvalue) list \<Rightarrow> nat \<Rightarrow> yops_diagnostic list" where
  "payload_diagnostics opName os payload i =
     map (\<lambda>(n, fs). diagnostic SevError YOPS_OP_FIELD_MISSING (Some i) (Some (qualifiedField opName n)) None)
       (filter (\<lambda>(n, fs). required fs \<and> \<not> has_own payload n) (spec_fields os))
     @ map (\<lambda>(n, v). diagnostic SevError YOPS_OP_FIELD_UNKNOWN (Some i) (Some (qualifiedField opName n)) None)
       (filter (\<lambda>(n, v). \<not> has_own (spec_fields os) n) payload)
     @ concat (map (field_diagnostics opName os payload i) (spec_fields os))
     @ validateOpRefinements opName payload i"

definition outer_diagnostics :: "jstring \<Rightarrow> (jstring \<times> yvalue) list \<Rightarrow> nat \<Rightarrow> yops_diagnostic list" where
  "outer_diagnostics opName op i =
     map (\<lambda>_. diagnostic SevError YOPS_OP_FIELD_UNKNOWN (Some i) None None)
       (filter (\<lambda>(k, v). k \<noteq> opName \<and> k \<notin> set OP_METADATA_KEYS) op)
     @ (case map_of op (u ''source'') of Some v \<Rightarrow> validateSource v i | None \<Rightarrow> [])"

definition validateOp :: "yops_spec \<Rightarrow> yvalue \<Rightarrow> nat \<Rightarrow> yops_diagnostic list option" where
  "validateOp spec rawOp i =
     (case rawOp of
        YMap op \<Rightarrow>
          (case resolveOpName rawOp of
             None \<Rightarrow> Some [diagnostic SevError YOPS_OP_NO_KEY (Some i) None None]
           | Some opName \<Rightarrow>
               (let out = outer_diagnostics opName op i in
                case map_of spec opName of
                  None \<Rightarrow>
                    if opName \<notin> set PROTOTYPE_NAMES
                    then Some (out @ [diagnostic SevError YOPS_OP_UNKNOWN (Some i) (Some opName) None])
                    else (case map_of op opName of
                        Some (YMap _) \<Rightarrow> None
                      | _ \<Rightarrow> Some (out @ [diagnostic SevError YOPS_OP_PAYLOAD_NOT_MAPPING (Some i) (Some opName) None]))
                | Some os \<Rightarrow>
                    (case map_of op opName of
                       Some (YMap payload) \<Rightarrow> Some (out @ payload_diagnostics opName os payload i)
                     | _ \<Rightarrow> Some (out @ [diagnostic SevError YOPS_OP_PAYLOAD_NOT_MAPPING (Some i) (Some opName) None]))))
      | _ \<Rightarrow> Some [diagnostic SevError YOPS_OP_NOT_MAPPING (Some i) None None])"

section \<open>Op lists and documents\<close>

fun validate_from :: "yops_spec \<Rightarrow> nat \<Rightarrow> yvalue list \<Rightarrow> yops_diagnostic list option" where
  "validate_from spec i [] = Some []"
| "validate_from spec i (op # ops) =
     (case validateOp spec op i of None \<Rightarrow> None
      | Some ds \<Rightarrow> map_option ((@) ds) (validate_from spec (i + 1) ops))"

text \<open>The argument is \<open>unknown[]\<close>; a value that is not an array is reported.\<close>

definition validateYOpsOps :: "yvalue \<Rightarrow> yops_diagnostic list option" where
  "validateYOpsOps ops =
     (case ops of
        YSeq xs \<Rightarrow> validate_from yops_spec 0 xs
      | _ \<Rightarrow> Some [diagnostic SevError YOPS_DOCUMENT_NOT_MAPPING_OR_ARRAY None (Some (u ''document.yops'')) None])"

datatype yaml_node = YamlAlias | YamlNode bool | YamlPair bool

record yaml_document =
  yd_errors :: "jstring list"
  yd_nodes :: "yaml_node list"
  yd_value :: yvalue

datatype yaml_result = YamlOk "yvalue option" | YamlSyntax | YamlUnsupported

fun profile_violation :: "yaml_node \<Rightarrow> bool" where
  "profile_violation YamlAlias = True"
| "profile_violation (YamlNode has_anchor) = has_anchor"
| "profile_violation (YamlPair plain_merge_key) = plain_merge_key"

definition parseYamlDeclaration :: "(jstring \<Rightarrow> yaml_document list) \<Rightarrow> jstring \<Rightarrow> yaml_result" where
  "parseYamlDeclaration parse text' =
     (case parse text' of
        [] \<Rightarrow> YamlOk None
      | [doc] \<Rightarrow>
          if yd_errors doc \<noteq> [] then YamlSyntax
          else if list_ex profile_violation (yd_nodes doc) then YamlUnsupported
          else YamlOk (Some (yd_value doc))
      | _ \<Rightarrow> YamlUnsupported)"

definition parseYOpsYaml :: "(jstring \<Rightarrow> yaml_document list) \<Rightarrow> jstring \<Rightarrow> yvalue list option" where
  "parseYOpsYaml parse text' =
     (case parseYamlDeclaration parse text' of
        YamlOk (Some (YSeq ops)) \<Rightarrow> Some ops
      | YamlOk (Some (YMap m)) \<Rightarrow> (case map_of m (u ''yops'') of Some (YSeq ops) \<Rightarrow> Some ops | _ \<Rightarrow> None)
      | _ \<Rightarrow> None)"

definition validateYOpsYaml :: "(jstring \<Rightarrow> yaml_document list) \<Rightarrow> jstring \<Rightarrow> yops_diagnostic list option" where
  "validateYOpsYaml parse text' =
     (case parseYamlDeclaration parse text' of
        YamlUnsupported \<Rightarrow> Some [diagnostic SevError YOPS_YAML_PROFILE_UNSUPPORTED None None None]
      | YamlSyntax \<Rightarrow> Some [diagnostic SevError YOPS_INVALID_YAML None None None]
      | YamlOk (Some (YSeq ops)) \<Rightarrow> validateYOpsOps (YSeq ops)
      | YamlOk (Some (YMap m)) \<Rightarrow>
          (case map_of m (u ''yops'') of
             Some (YSeq ops) \<Rightarrow> validateYOpsOps (YSeq ops)
           | _ \<Rightarrow> Some [diagnostic SevError YOPS_DOCUMENT_YOPS_NOT_ARRAY None (Some (u ''document.yops'')) None])
      | YamlOk _ \<Rightarrow> Some [diagnostic SevError YOPS_DOCUMENT_NOT_MAPPING_OR_ARRAY None None None])"

end
