(* ===== verification/OperationData.thy ===== *)
theory OperationData
  imports TypedOps
begin

text \<open>
  The operation object that packages/yops/src/schema.ts accepts, as data: it holds one operation and
  nothing else (\<open>encodes\<close>; \<open>holds_op\<close> allows a source beside it), whatever the order of its fields, and
  the engine does with it what it does with \<open>op_value\<close> of that operation.
\<close>

section \<open>Reading the fields back\<close>

lemma as_string_value: "as_string v = Some s \<Longrightarrow> v = YStr s"
  by (auto elim: as_string.elims)

lemma as_map_value: "as_map v = Some m \<Longrightarrow> v = YMap m"
  by (auto elim: as_map.elims)

lemma as_bool_value: "as_bool v = Some b \<Longrightarrow> v = YBool b"
  by (auto elim: as_bool.elims)

lemma as_order_value: "as_order v = Some r \<Longrightarrow> v = YStr (u (order_name r))"
  by (auto simp: as_order_def order_name_def split: if_splits)

lemma as_kind_value: "as_kind v = Some k \<Longrightarrow> v = YStr (u (kind_name k))"
  by (auto simp: as_kind_def kind_name_def split: if_splits)

lemma as_strings_value: "as_strings v = Some ks \<Longrightarrow> v = str_seq ks"
proof -
  assume "as_strings v = Some ks"
  then obtain xs where x: "v = YSeq xs" "list_all2 (\<lambda>x y. as_string x = Some y) xs ks"
    by (cases v) (simp_all add: as_strings_def all_some_map)
  from x(2) have "xs = map YStr ks" by (induction xs ks rule: list_all2_induct) (auto dest: as_string_value)
  then show "v = str_seq ks" by (simp add: x(1) str_seq_def)
qed

lemma as_groups_value: "as_groups v = Some gs \<Longrightarrow> v = YMap (map (map_prod id str_seq) gs)"
proof -
  assume a: "as_groups v = Some gs"
  then obtain m where m: "v = YMap m" by (cases v) (simp_all add: as_groups_def)
  have "list_all2 (\<lambda>e y. map_option (Pair (fst e)) (as_strings (snd e)) = Some y) m gs"
    using a unfolding m as_groups_def by (simp add: all_some_map split_beta)
  then have "m = map (map_prod id str_seq) gs"
    by (induction m gs rule: list_all2_induct) (auto dest: as_strings_value)
  then show ?thesis by (simp add: m)
qed

lemma field_back: "field cast m k = Some x \<Longrightarrow> (\<And>v. cast v = Some x \<Longrightarrow> v = f x) \<Longrightarrow> map_of m (u k) = Some (f x)"
  by (auto simp: field_def bind_eq_Some_conv)

lemma opt_field_back:
  "opt_field cast m k = Some x \<Longrightarrow> (\<And>v y. cast v = Some y \<Longrightarrow> v = f y) \<Longrightarrow> map_of m (u k) = map_option f x"
  by (auto simp: opt_field_def split: option.splits)

lemma fields_back:
  "field as_string m k = Some s \<Longrightarrow> map_of m (u k) = Some (YStr s)"
  "field Some m k = Some v \<Longrightarrow> map_of m (u k) = Some v"
  "field as_map m k = Some vs \<Longrightarrow> map_of m (u k) = Some (YMap vs)"
  "field as_strings m k = Some ks \<Longrightarrow> map_of m (u k) = Some (str_seq ks)"
  "field as_groups m k = Some gs \<Longrightarrow> map_of m (u k) = Some (YMap (map (map_prod id str_seq) gs))"
  "opt_field as_string m k = Some b \<Longrightarrow> map_of m (u k) = map_option YStr b"
  "opt_field Some m k = Some e \<Longrightarrow> map_of m (u k) = e"
  "opt_field as_bool m k = Some x \<Longrightarrow> map_of m (u k) = map_option YBool x"
  "opt_field as_order m k = Some r \<Longrightarrow> map_of m (u k) = map_option (\<lambda>r. YStr (u (order_name r))) r"
  "opt_field as_kind m k = Some t \<Longrightarrow> map_of m (u k) = map_option (\<lambda>t. YStr (u (kind_name t))) t"
  using field_back [of as_string m k s YStr] field_back [of Some m k v id] field_back [of as_map m k vs YMap]
    field_back [of as_strings m k ks str_seq] field_back [of as_groups m k gs "\<lambda>gs. YMap (map (map_prod id str_seq) gs)"]
    opt_field_back [of as_string m k b YStr] opt_field_back [of Some m k e id] opt_field_back [of as_bool m k x YBool]
    opt_field_back [of as_order m k r "\<lambda>r. YStr (u (order_name r))"] opt_field_back [of as_kind m k t "\<lambda>t. YStr (u (kind_name t))"]
    as_string_value as_map_value as_bool_value as_order_value as_kind_value as_strings_value as_groups_value
  by (simp_all add: option.map_id)

section \<open>An accepted operation\<close>

text \<open>A raw operation holds \<open>op\<close>: the name of \<open>op\<close> with its fields, in any order, and at most a source beside it.\<close>

definition holds_op :: "yvalue \<Rightarrow> yop \<Rightarrow> bool" where
  "holds_op v op \<longleftrightarrow> (\<exists>m flds. v = YMap m \<and> set (map fst m) \<subseteq> {u (op_name op), u ''source''}
     \<and> map_of m (u (op_name op)) = Some (YMap flds) \<and> map_of flds = map_of (op_fields op))"

definition encodes :: "yvalue \<Rightarrow> yop \<Rightarrow> bool" where
  "encodes v op \<longleftrightarrow> (\<exists>flds. v = YMap [(u (op_name op), YMap flds)] \<and> map_of flds = map_of (op_fields op))"

lemma encodes_raw: "encodes (op_value op None) op"
  by (simp add: encodes_def op_value_def opt_entry_def)

lemma decode_lookup: "map_of f = map_of g \<Longrightarrow> decode_op n f = decode_op n g"
  unfolding decode_op_def decoders_def field_def opt_field_def by simp

lemma encodes_decode: "encodes (YMap [(n, YMap flds)]) op \<Longrightarrow> decode_op n flds = Some op"
  using decode_op_fields [of op] decode_lookup [of flds "op_fields op" n] by (auto simp: encodes_def)

text \<open>A raw operation holds at most one operation.\<close>

lemma holds_op_unique:
  assumes "holds_op v op" "holds_op v op'"
  shows "op = op'"
proof -
  obtain m flds flds' where m: "v = YMap m" "set (map fst m) \<subseteq> {u (op_name op'), u ''source''}"
      "map_of m (u (op_name op)) = Some (YMap flds)" "map_of flds = map_of (op_fields op)"
      "map_of m (u (op_name op')) = Some (YMap flds')" "map_of flds' = map_of (op_fields op')"
    using assms unfolding holds_op_def by auto
  have "u (op_name op) \<in> set (map fst m)" using m(3) unfolding key_lookup_iff by blast
  then have n: "u (op_name op) = u (op_name op')"
    using m(2) op_name_not_source [of op] by (auto simp del: set_map)
  then have "map_of (op_fields op) = map_of (op_fields op')" using m(3-6) by simp
  from decode_lookup [OF this] have "decode_op (u (op_name op)) (op_fields op) = decode_op (u (op_name op')) (op_fields op')"
    unfolding n .
  then show ?thesis unfolding decode_op_fields by (rule option.inject [THEN iffD1])
qed

text \<open>Strictness leaves no room for other fields, so decoding loses nothing.\<close>

lemma restricted_lookup:
  assumes "fst ` set m \<subseteq> K" "fst ` set g \<subseteq> K" "\<And>k. k \<in> K \<Longrightarrow> map_of m k = map_of g k"
  shows "map_of m = map_of g"
proof
  fix k
  show "map_of m k = map_of g k"
  proof (cases "k \<in> K")
    case False
    then have "map_of m k = None" "map_of g k = None" using assms(1,2) unfolding map_of_None_iff set_map by blast+
    then show ?thesis by simp
  qed (rule assms(3))
qed

lemma decoded_fields:
  assumes z: "zod_spec acc" and "(n, s) \<in> set payload_schemas" "acc s (YMap m)" "decode_op (u n) m = Some op"
  shows "op_name op = n \<and> map_of m = map_of (op_fields op)"
proof -
  have "list_all (\<lambda>(n, s). acc s (YMap m) \<longrightarrow> decode_op (u n) m = Some op \<longrightarrow> op_name op = n \<and> map_of m = map_of (op_fields op)) payload_schemas"
    unfolding payload_schemas_def list.pred_inject prod.case zodD(9,10) [OF z] yvalue.case decode_simps
    by (intro conjI impI list.pred_inject(1); elim conjE; clarsimp simp: lift_defs bind_eq_Some_conv simp del: map_of.simps;
        erule restricted_lookup; auto simp: opt_entry_def dest!: fields_back split: option.split)
  then show ?thesis using assms(2-4) by (auto simp: list_all_iff)
qed

lemma field_ok_lookup: "map_of m = map_of g \<Longrightarrow> field_ok acc m = field_ok acc g"
  by (auto simp: field_ok_def fun_eq_iff)

lemma keys_lookup: "map_of m = map_of g \<Longrightarrow> set (map fst m) = set (map fst g)"
  by (simp add: set_eq_iff key_lookup_iff del: set_map)

lemma payload_lookup:
  assumes z: "zod_spec acc" and s: "(n, s) \<in> set payload_schemas" and e: "map_of m = map_of g"
  shows "acc s (YMap m) = acc s (YMap g)"
proof -
  have obj: "acc (ZObject strict fs) (YMap m) = acc (ZObject strict fs) (YMap g)" for strict fs
    unfolding zodD(9) [OF z] yvalue.case field_ok_lookup [OF e] keys_lookup [OF e] ..
  have "list_all (\<lambda>(n, s). acc s (YMap m) = acc s (YMap g)) payload_schemas"
    unfolding payload_schemas_def list.pred_inject prod.case by (simp add: obj zodD(10) [OF z] e)
  then show ?thesis using s by (auto simp: list_all_iff)
qed

lemma drop_element: "x \<notin> A \<Longrightarrow> A \<subseteq> {y, x} \<Longrightarrow> A \<subseteq> {y}"
  by auto

lemma singleton_list: "set xs \<subseteq> {x} \<Longrightarrow> distinct xs \<Longrightarrow> x \<in> set xs \<Longrightarrow> xs = [x]"
  by (cases xs; cases "tl xs") auto

text \<open>An accepted operation without source annotation holds one operation.\<close>

lemma accepted_encodes:
  assumes z: "zod_spec acc" and a: "acc YOpSchema v" and src: "\<And>m. v = YMap m \<Longrightarrow> \<not> has_own m (u ''source'')"
    and wf: "wf_yvalue v"
  shows "\<exists>op. encodes v op"
proof -
  obtain n s where s: "(n, s) \<in> set payload_schemas" "acc (op_schema (n, s)) v"
    using a by (auto simp: YOpSchema_def zodD(7) [OF z] list_ex_iff)
  obtain m where m: "v = YMap m" "field_ok acc m (zreq n s)" "set (map fst m) \<subseteq> {u n, u ''source''}"
    using s(2) by (cases v) (simp_all add: op_schema_def zodD(9) [OF z])
  obtain p where p: "map_of m (u n) = Some p" "acc s p"
    using m(2) by (cases "map_of m (u n)") (simp_all add: field_ok_def)
  have "u ''source'' \<notin> set (map fst m)" using src [OF m(1)] by (simp add: has_own_def map_of_None_iff del: set_map)
  then have keys: "set (map fst m) \<subseteq> {u n}" by (rule drop_element [OF _ m(3)])
  moreover have "distinct (map fst m)" using wf wf_keys_distinct by (simp add: m(1))
  moreover have "u n \<in> set (map fst m)" unfolding key_lookup_iff using p(1) by blast
  ultimately have "map fst m = [u n]"
    using keys singleton_list [of "map fst m" "u n"] by blast
  then have "m = [(u n, p)]" using p(1) by (auto simp: map_eq_Cons_conv)
  moreover obtain flds op where d: "p = YMap flds" "decode_op (u n) flds = Some op"
    using payload_decodes [OF z s(1) p(2)] by blast
  ultimately have "encodes v op"
    using decoded_fields [OF z s(1) _ d(2)] m(1) p(2) by (simp add: encodes_def)
  then show ?thesis ..
qed

lemma encodes_accepted:
  assumes z: "zod_spec acc" and e: "encodes v op"
  shows "acc YOpSchema v = acc YOpSchema (op_value op None)"
proof -
  obtain flds where v: "v = YMap [(u (op_name op), YMap flds)]" "map_of flds = map_of (op_fields op)"
    using e by (auto simp: encodes_def)
  have "acc (op_schema e) v = acc (op_schema e) (op_value op None)" if "e \<in> set payload_schemas" for e
    using payload_lookup [OF z, of "fst e" "snd e" flds "op_fields op"] that v(2) op_name_not_source [of op]
    by (simp add: v(1) op_value_def opt_entry_def op_schema_def zodD(9) [OF z] field_ok_def)
  then show ?thesis by (simp add: YOpSchema_def zodD(7) [OF z] list_ex_iff)
qed

lemma encodes_guards:
  assumes z: "zod_spec acc" and e: "encodes v op"
  shows "(\<exists>flds. guards yops_registry acc v n flds \<and> decode_op n flds = Some x) \<longleftrightarrow> n = u (op_name op) \<and> x = op \<and> admissible op"
proof -
  obtain flds where v: "v = YMap [(u (op_name op), YMap flds)]" "map_of flds = map_of (op_fields op)"
    using e by (auto simp: encodes_def)
  have unk: "unknown_field m os \<longleftrightarrow> \<not> set (map fst m) \<subseteq> dom (map_of (spec_fields os))" for m os
    by (auto simp: unknown_field_def has_own_def list_ex_iff dom_def)
  have "validateFields flds os i = validateFields (op_fields op) os i" for os i
    unfolding validateFields_def unk keys_lookup [OF v(2)] by (simp add: missing_required_def enum_violation_def has_own_def v(2))
  moreover have "role_path pf flds = role_path pf (op_fields op)" for pf
    by (rule ext) (simp only: role_path_def v(2))
  then have "getOpPaths yops_registry [(u (op_name op), YMap flds)] = getOpPaths yops_registry [(u (op_name op), YMap (op_fields op))]"
    by (simp add: getOpPaths_def resolveOpName_def split: option.split)
  ultimately have "guards yops_registry acc v n flds \<longleftrightarrow> guards yops_registry acc (op_value op None) n (op_fields op)"
    using encodes_accepted [OF z e]
    by (auto simp: guards_def v(1) op_value_def opt_entry_def resolveOpName_def)
  moreover have "guards yops_registry acc v n g \<Longrightarrow> g = flds" for g
    by (auto simp: guards_def v(1) split: if_splits)
  moreover have "decode_op (u (op_name op)) flds = Some op" using encodes_decode e v(1) by simp
  ultimately show ?thesis unfolding guards_typed [OF z] by (metis option.inject)
qed

text \<open>The engine does not see the order of the fields.\<close>

lemma encodes_step:
  assumes z: "zod_spec acc" and e: "encodes v op"
  shows "(\<exists>ws. step_op yops_registry acc v d i = (Inr r, ws)) \<longleftrightarrow> admissible op \<and> handle op d i = OpResult r None"
proof -
  have "(\<exists>ws. step_op yops_registry acc v d i = (Inr r, ws)) \<longleftrightarrow>
      (\<exists>n flds x. (guards yops_registry acc v n flds \<and> decode_op n flds = Some x) \<and> n \<in> set handler_names \<and> handle x d i = OpResult r None)"
    (is "_ = ?r")
  proof
    show "\<exists>ws. step_op yops_registry acc v d i = (Inr r, ws) \<Longrightarrow> ?r"
      unfolding yops.step_iff using yops_registry_spec by (auto simp: handler_for_def split: option.splits if_splits)
    assume ?r
    then obtain n flds x where "guards yops_registry acc v n flds" "decode_op n flds = Some x" "n \<in> set handler_names"
      "handle x d i = OpResult r None" by blast
    then have "guards yops_registry acc v n flds" "reg_handlers yops_registry n = Some (handler_for n)"
      "handler_for n d flds i = OpResult r None" using yops_registry_spec by (simp_all add: handler_for_def)
    then show "\<exists>ws. step_op yops_registry acc v d i = (Inr r, ws)" unfolding yops.step_iff by blast
  qed
  also have "\<dots> \<longleftrightarrow> (\<exists>n x. (\<exists>flds. guards yops_registry acc v n flds \<and> decode_op n flds = Some x) \<and> n \<in> set handler_names \<and> handle x d i = OpResult r None)"
    by blast
  finally show ?thesis unfolding encodes_guards [OF z e] using known_op [of op] by blast
qed

lemma encodes_runs:
  assumes z: "zod_spec acc"
  shows "list_all2 encodes vs ops \<Longrightarrow> runs yops_registry acc i d vs r \<longleftrightarrow> runs yops_registry acc i d (map (\<lambda>op. op_value op None) ops) r"
proof (induction vs ops arbitrary: i d rule: list_all2_induct)
  case (Cons v vs op ops)
  then show ?case
    using encodes_step [OF z Cons.hyps(1), of d i] by (simp add: typed_runs [OF z]) (auto simp: runs_Cons_iff)
qed simp

end
