(* ===== verification/ValidatorLaws.thy ===== *)
theory ValidatorLaws
  imports Validator OperationData
begin

text \<open>
  The validator against the engine: a raw operation without error diagnostics holds one operation of the
  package (\<open>holds_op\<close>), that operation is admissible, and it passes every guard of the engine's loop, when
  the optional source fields that the validator does not look at are well typed; so the engine can only
  refuse it for what the document is.
\<close>

section \<open>Clean diagnostics\<close>

definition clean :: "yops_diagnostic list \<Rightarrow> bool" where
  "clean ds \<longleftrightarrow> list_all (\<lambda>d. d_severity d \<noteq> SevError) ds"

lemma clean_simps [simp]:
  "clean []" "clean (d # ds) \<longleftrightarrow> d_severity d \<noteq> SevError \<and> clean ds" "clean (xs @ ys) \<longleftrightarrow> clean xs \<and> clean ys"
  "clean (concat dss) \<longleftrightarrow> list_all clean dss" "d_severity (diagnostic s c i f p) = s"
  by (auto simp: clean_def diagnostic_def list_all_iff)

lemma clean_map_error [simp]: "clean (map (\<lambda>x. diagnostic SevError c i (f x) (g x)) xs) \<longleftrightarrow> xs = []"
  by (cases xs) auto

lemma validatePath_clean:
  "clean (validatePath (YStr s) i f r) \<Longrightarrow> (s = [] \<and> r) \<or> (s \<noteq> [] \<and> (\<exists>segs. tryParsePath s = Inr segs))"
  by (auto simp: validatePath_def split: if_splits sum.splits)

lemma string_elements_clean: "clean (string_elements i f xs) \<longleftrightarrow> list_all is_string xs"
  by (auto simp: string_elements_def refinement_def list_all_iff filter_empty_conv)

lemma strings_accepted: "zod_spec acc \<Longrightarrow> list_all is_string xs \<Longrightarrow> acc (ZArray (ZString 0)) (YSeq xs)"
  by (auto simp: zodD(1,3) list_all_iff elim!: is_string.elims split: yvalue.splits)

lemma groups_accepted: "zod_spec acc \<Longrightarrow> clean (group_refinements i m) \<Longrightarrow> acc (ZRecord (ZArray (ZString 0))) (YMap m)"
  by (fastforce simp: group_refinements_def zodD(4) list_all_iff string_elements_clean refinement_def
      intro: strings_accepted split: yvalue.splits)

lemma type_simps [simp]:
  "runtimeMatchesSpecType v (u ''any'')"
  "runtimeMatchesSpecType v (u ''string'') \<longleftrightarrow> (\<exists>s. v = YStr s)"
  "runtimeMatchesSpecType v (u ''boolean'') \<longleftrightarrow> (\<exists>b. v = YBool b)"
  "runtimeMatchesSpecType v (u ''mapping'') \<longleftrightarrow> (\<exists>m. v = YMap m)"
  "runtimeMatchesSpecType v (u ''sequence'') \<longleftrightarrow> (\<exists>xs. v = YSeq xs)"
  by (cases v; simp add: runtimeMatchesSpecType_def)+

lemma field_clean: "clean (field_diagnostics opName os payload i (n, fs)) \<longleftrightarrow>
    (\<forall>v. map_of payload n = Some v \<longrightarrow> runtimeMatchesSpecType v (field_type fs)
      \<and> (\<forall>es s. field_enum fs = Some es \<longrightarrow> v = YStr s \<longrightarrow> s \<in> set es)
      \<and> (n \<in> set (path_field_names (op_path_fields os)) \<longrightarrow>
           clean (validatePath v i (qualifiedField opName n) (isRootablePathField opName n))))"
  by (auto simp: field_diagnostics_def split: option.split yvalue.split)

lemma payload_clean:
  assumes "clean (payload_diagnostics opName os payload i)"
  shows "\<forall>(n, fs) \<in> set (spec_fields os). required fs \<longrightarrow> has_own payload n"
    and "\<forall>(n, v) \<in> set payload. has_own (spec_fields os) n"
    and "\<forall>e \<in> set (spec_fields os). clean (field_diagnostics opName os payload i e)"
    and "clean (validateOpRefinements opName payload i)"
  using assms by (auto simp: payload_diagnostics_def list_all_iff filter_empty_conv split_def)

section \<open>Accepted payloads\<close>

text \<open>The diagnostics of a payload, field by field.\<close>

lemma keys_known: "(\<forall>(n, v) \<in> set payload. has_own fs n) \<longleftrightarrow> set (map fst payload) \<subseteq> set (map fst fs)"
  by (force simp: has_own_iff)

definition string_ok :: "bool \<Rightarrow> yvalue \<Rightarrow> bool" where
  "string_ok root v \<longleftrightarrow> (\<exists>s. v = YStr s \<and> ((s = [] \<and> root) \<or> (s \<noteq> [] \<and> (\<exists>segs. tryParsePath s = Inr segs))))"

lemma clean_path: "v = YStr s \<Longrightarrow> clean (validatePath v i f r) \<Longrightarrow> string_ok r v"
  by (auto simp: string_ok_def dest: validatePath_clean)

lemma field_type_clean:
  "clean (field_diagnostics opName os payload i (n, fs)) \<Longrightarrow> map_of payload n = Some v \<Longrightarrow>
     runtimeMatchesSpecType v (field_type fs)"
  by (simp add: field_clean)

lemma field_enum_clean:
  "clean (field_diagnostics opName os payload i (n, fs)) \<Longrightarrow> map_of payload n = Some (YStr s) \<Longrightarrow>
     field_enum fs = Some es \<Longrightarrow> s \<in> set es"
  by (simp add: field_clean)

lemma field_path_clean:
  "clean (field_diagnostics opName os payload i (n, fs)) \<Longrightarrow> map_of payload n = Some v \<Longrightarrow>
     n \<in> set (path_field_names (op_path_fields os)) \<Longrightarrow> field_type fs = u ''string'' \<Longrightarrow>
     string_ok (isRootablePathField opName n) v"
  unfolding field_clean by (metis clean_path type_simps(2))

text \<open>One field of the payload against its schema.\<close>

lemma accept_object:
  assumes "zod_spec acc" "set (map fst payload) \<subseteq> set (map fst fs)" "list_all (field_ok acc payload) fs"
  shows "acc (ZObject True fs) (YMap payload)"
  using assms(2,3) by (simp add: zodD(9) [OF assms(1)])

lemma accept_root_path:
  assumes z: "zod_spec acc" and c: "clean (field_diagnostics opName os payload i (n, fs))"
    and "has_own payload n" "field_type fs = u ''string''"
  shows "field_ok acc payload (n, False, ZString 0)"
  using field_type_clean [OF c] assms(3,4) by (auto simp: field_ok_def has_own_def zodD(1) [OF z])

lemma accept_path:
  assumes z: "zod_spec acc" and c: "clean (field_diagnostics opName os payload i (n, fs))"
    and "has_own payload n" "field_type fs = u ''string''" "n \<in> set (path_field_names (op_path_fields os))"
    and "\<not> isRootablePathField opName n"
  shows "field_ok acc payload (n, False, ZString 1)"
  using field_path_clean [OF c] assms(3-6)
  by (fastforce simp: field_ok_def has_own_def string_ok_def zodD(1) [OF z] Suc_le_eq)

lemma accept_mapping:
  assumes z: "zod_spec acc" and c: "clean (field_diagnostics opName os payload i (n, fs))"
    and "has_own payload n" "field_type fs = u ''mapping''"
  shows "field_ok acc payload (n, False, ZRecord ZValue)"
  using field_type_clean [OF c] assms(3,4)
  by (fastforce simp: field_ok_def has_own_def zodD(4) [OF z] zod_value [OF z] list_all_iff)

lemma accept_optional:
  assumes z: "zod_spec acc" and c: "clean (field_diagnostics opName os payload i (n, fs))"
  shows "field_type fs = u ''string'' \<Longrightarrow> field_ok acc payload (n, True, ZString 0)"
    and "field_type fs = u ''boolean'' \<Longrightarrow> field_ok acc payload (n, True, ZBoolean)"
    and "field_type fs = u ''string'' \<Longrightarrow> field_enum fs = Some es \<Longrightarrow> field_ok acc payload (n, True, ZEnum es)"
  using field_type_clean [OF c] field_enum_clean [OF c]
  by (fastforce simp: field_ok_def zodD(1,2,5) [OF z] split: option.split)+

text \<open>The facts of a clean payload, with the fields of its operation as data of yops.yaml.\<close>

lemma payload_facts:
  assumes "clean (payload_diagnostics k os payload i)" "os = plain_op k r"
  shows "set (map fst payload) \<subseteq> set (map fst (the (r_fields r)))
    \<and> list_all (\<lambda>(n, f). (required (plain_field f) \<longrightarrow> has_own payload n)
         \<and> clean (field_diagnostics k os payload i (n, plain_field f))) (the (r_fields r))
    \<and> op_path_fields os = the (r_path_fields r)
    \<and> clean (validateOpRefinements k payload i)"
proof -
  have os: "spec_fields os = map (\<lambda>(n, f). (n, plain_field f)) (the (r_fields r))"
      "op_path_fields os = the (r_path_fields r)"
    using assms(2) by (simp_all add: plain_op_def)
  have "set (map fst payload) \<subseteq> set (map fst (the (r_fields r)))"
    using payload_clean(2) [OF assms(1)] unfolding keys_known os fst_plain_fields .
  moreover have "list_all (\<lambda>(n, f). (required (plain_field f) \<longrightarrow> has_own payload n)
         \<and> clean (field_diagnostics k os payload i (n, plain_field f))) (the (r_fields r))"
    using payload_clean(1,3) [OF assms(1)] by (force simp: list_all_iff os)
  ultimately show ?thesis using payload_clean(4) [OF assms(1)] os(2) by simp
qed

lemmas payload_data = plain_field_def primary_path_def from_to_def path_field_names_def
  isRootablePathField_def ROOTABLE_PATH_FIELDS_def

lemma refinement_clean:
  assumes "clean (validateOpRefinements opName payload i)"
  shows "opName = u ''assert'' \<Longrightarrow> map_of payload (u ''equals'') \<noteq> None \<or> map_of payload (u ''exists'') \<noteq> None
      \<or> map_of payload (u ''type'') \<noteq> None"
    and "f \<in> set (table_fields NON_EMPTY_STRING_FIELDS opName) \<Longrightarrow> map_of payload f = Some (YStr t) \<Longrightarrow> t \<noteq> []"
    and "f \<in> set (table_fields STRING_ARRAY_FIELDS opName) \<Longrightarrow> map_of payload f = Some (YSeq xs) \<Longrightarrow> list_all is_string xs"
    and "opName = u ''split'' \<Longrightarrow> map_of payload (u ''into'') = Some (YMap m) \<Longrightarrow> clean (group_refinements i m)"
proof -
  note c = assms [unfolded validateOpRefinements_def clean_simps]
  show "opName = u ''assert'' \<Longrightarrow> map_of payload (u ''equals'') \<noteq> None \<or> map_of payload (u ''exists'') \<noteq> None
      \<or> map_of payload (u ''type'') \<noteq> None"
    using c by (auto simp: refinement_def split: if_splits)
  show "f \<in> set (table_fields NON_EMPTY_STRING_FIELDS opName) \<Longrightarrow> map_of payload f = Some (YStr t) \<Longrightarrow> t \<noteq> []"
    using c by (auto simp: refinement_def list_all_iff)
  show "f \<in> set (table_fields STRING_ARRAY_FIELDS opName) \<Longrightarrow> map_of payload f = Some (YSeq xs) \<Longrightarrow> list_all is_string xs"
    using c string_elements_clean by (fastforce simp: list_all_iff)
  show "opName = u ''split'' \<Longrightarrow> map_of payload (u ''into'') = Some (YMap m) \<Longrightarrow> clean (group_refinements i m)"
    using c by simp
qed

lemma accept_value: "zod_spec acc \<Longrightarrow> has_own payload n \<or> opt \<Longrightarrow> field_ok acc payload (n, opt, ZValue)"
  by (auto simp: field_ok_def has_own_def zod_value split: option.split)

text \<open>Fields that the refinements look at.\<close>

lemma accept_nonempty:
  assumes z: "zod_spec acc" and "clean (field_diagnostics opName os payload i (n, fs))"
    "clean (validateOpRefinements opName payload i)"
    "has_own payload n" "field_type fs = u ''string''" "n \<in> set (table_fields NON_EMPTY_STRING_FIELDS opName)"
  shows "field_ok acc payload (n, False, ZString 1)"
  using field_type_clean [OF assms(2)] refinement_clean(2) [OF assms(3,6)] assms(4,5)
  by (fastforce simp: field_ok_def has_own_def zodD(1) [OF z] Suc_le_eq)

lemma accept_keys:
  assumes z: "zod_spec acc" and "clean (field_diagnostics opName os payload i (n, fs))"
    "clean (validateOpRefinements opName payload i)"
    "has_own payload n" "field_type fs = u ''sequence''" "n \<in> set (table_fields STRING_ARRAY_FIELDS opName)"
  shows "field_ok acc payload (n, False, ZArray (ZString 0))"
  using field_type_clean [OF assms(2)] refinement_clean(3) [OF assms(3,6)] assms(4,5) strings_accepted [OF z]
  by (fastforce simp: field_ok_def has_own_def)

lemma accept_groups:
  assumes z: "zod_spec acc" and "clean (field_diagnostics (u ''split'') os payload i (u ''into'', fs))"
    "clean (validateOpRefinements (u ''split'') payload i)" "has_own payload (u ''into'')" "field_type fs = u ''mapping''"
  shows "field_ok acc payload (u ''into'', False, ZRecord (ZArray (ZString 0)))"
  using field_type_clean [OF assms(2)] refinement_clean(4) [OF assms(3)] assms(4,5) groups_accepted [OF z]
  by (fastforce simp: field_ok_def has_own_def)

lemma accept_condition:
  assumes z: "zod_spec acc" and "clean (validateOpRefinements (u ''assert'') payload i)" "acc s (YMap payload)"
  shows "acc (ZRefined [u ''equals'', u ''exists'', u ''type''] s) (YMap payload)"
  using refinement_clean(1) [OF assms(2)] assms(3) by (auto simp: zodD(10) [OF z])

lemmas table_data = payload_data table_fields_def NON_EMPTY_STRING_FIELDS_def STRING_ARRAY_FIELDS_def

text \<open>The schemas of schema.ts and the operations of yops.yaml are in the same order.\<close>

lemma accepted_payloads:
  assumes z: "zod_spec acc"
  shows "list_all2 (\<lambda>(n, s) (k, r). k = u n \<and> (\<forall>os. os = plain_op k r \<longrightarrow>
      clean (payload_diagnostics k os payload i) \<longrightarrow> acc s (YMap payload))) payload_schemas raw_yops"
  unfolding payload_schemas_def raw_defs append_Cons append_Nil list.rel_inject prod.case
  apply (intro conjI allI impI list.rel_inject(1) refl; (drule (1) payload_facts; elim conjE)?)
  apply (simp_all add: payload_data del: One_nat_def)
  apply (((rule accept_condition [OF z], assumption)?, rule accept_object [OF z], simp, elim conjE, unfold list.pred_inject,
    intro conjI list.pred_inject(1), ((erule accept_path [OF z]; (assumption | (simp add: table_data; fail)))
    | (erule accept_root_path [OF z]; (assumption | (simp add: table_data; fail)))
    | (erule accept_nonempty [OF z]; (assumption | (simp add: table_data; fail)))
    | (erule accept_keys [OF z]; (assumption | (simp add: table_data; fail)))
    | (erule accept_groups [OF z]; (assumption | (simp add: table_data; fail)))
    | (erule accept_mapping [OF z]; (assumption | (simp add: table_data; fail)))
    | (erule accept_optional [OF z]; (assumption | (simp add: table_data; fail)))
    | (rule accept_value [OF z]; simp add: table_data; fail))+)+)
  done

section \<open>The guards of the engine\<close>

definition optional_field_ok :: "(jstring \<times> yvalue) list \<Rightarrow> string \<Rightarrow> (yvalue \<Rightarrow> bool) \<Rightarrow> bool" where
  "optional_field_ok m k P \<longleftrightarrow> (case map_of m (u k) of None \<Rightarrow> True | Some v \<Rightarrow> P v)"

text \<open>The optional fields of a source that the schema checks and the validator does not.\<close>

definition source_options_ok :: "yvalue \<Rightarrow> bool" where
  "source_options_ok v = (case v of
     YMap m \<Rightarrow>
       (map_of m (u ''type'') = Some (YStr (u ''llm'')) \<longrightarrow>
          optional_field_ok m ''model'' is_string \<and> optional_field_ok m ''at'' is_string)
       \<and> (map_of m (u ''type'') = Some (YStr (u ''human'')) \<longrightarrow>
          optional_field_ok m ''surface'' (in_enum (map u [''tree'', ''script'', ''inline''])))
   | _ \<Rightarrow> True)"

lemma nonempty_string_iff: "nonempty_string x \<longleftrightarrow> (\<exists>s. x = Some (YStr s) \<and> s \<noteq> [])"
  by (auto simp: nonempty_string_def split: option.splits yvalue.splits)

lemma source_accepted:
  assumes z: "zod_spec acc" and c: "clean (validateSource v i)" and o: "source_options_ok v"
  shows "acc SourceSchema v"
proof -
  obtain m where v: "v = YMap m" using c by (cases v) (simp_all add: validateSource_def source_violation_def)
  have str: "acc (ZString 0) w \<longleftrightarrow> is_string w" for w by (cases w) (simp_all add: zodD(1) [OF z])
  consider (human) "map_of m (u ''type'') = Some (YStr (u ''human''))" "nonempty_string (map_of m (u ''author''))"
    | (llm) t where "map_of m (u ''type'') = Some (YStr (u ''llm''))" "map_of m (u ''turn_ref'') = Some (YMap t)"
        "nonempty_string (map_of t (u ''turn_hash''))" "nonempty_string (map_of t (u ''quote''))"
    using c by (auto simp: v validateSource_def source_violation_def split: if_splits option.splits yvalue.splits)
  then show ?thesis
  proof cases
    case human
    then have "acc HumanSourceSchema v"
      using o by (auto simp: v HumanSourceSchema_def zodD(1,5,6,9) [OF z] field_ok_def nonempty_string_iff
          source_options_ok_def optional_field_ok_def in_enum_def Suc_le_eq split: option.splits yvalue.splits)
    then show ?thesis by (simp add: SourceSchema_def zodD(8) [OF z])
  next
    case llm
    then have "acc LLMSourceSchema v"
      using o by (auto simp: v LLMSourceSchema_def zodD(6,9) [OF z] field_ok_def nonempty_string_iff str
          source_options_ok_def optional_field_ok_def zodD(1) [OF z, of "Suc 0"] Suc_le_eq split: option.splits)
    then show ?thesis by (simp add: SourceSchema_def zodD(8) [OF z])
  qed
qed

lemma enum_fields_are_strings:
  assumes os: "map_of yops_spec n = Some os" and f: "(k, fs) \<in> set (spec_fields os)" "field_enum fs = Some es"
  shows "field_type fs = u ''string''"
proof -
  have all: "list_all (\<lambda>(n, r). list_all (\<lambda>(k, f). r_enum f \<noteq> None \<longrightarrow> r_type f = u ''string'') (the (r_fields r))) raw_yops"
    by (simp add: raw_defs)
  obtain r where r: "(n, r) \<in> set raw_yops" "os = plain_op n r"
    using os by (auto simp: yops_spec_lookup dest: map_of_SomeD)
  then obtain g where g: "(k, g) \<in> set (the (r_fields r))" "fs = plain_field g"
    using f(1) by (auto simp: plain_op_def)
  then have "r_enum g \<noteq> None" using f(2) by (simp add: plain_field_def)
  with all r(1) g show ?thesis by (fastforce simp: list_all_iff plain_field_def)
qed

lemma fields_pass:
  assumes os: "map_of yops_spec n = Some os" and c: "clean (payload_diagnostics n os payload i)"
  shows "validateFields payload os j = None"
proof -
  note x = payload_clean [OF c]
  have "\<not> enum_violation payload os"
  proof
    assume "enum_violation payload os"
    then obtain k fs es v where e: "(k, fs) \<in> set (spec_fields os)" "field_enum fs = Some es"
        "map_of payload k = Some v" "\<not> in_enum es v"
      by (auto simp: enum_violation_def list_ex_iff split: option.splits)
    have cl: "clean (field_diagnostics n os payload i (k, fs))" using x(3) e(1) by blast
    from field_type_clean [OF cl e(3)] enum_fields_are_strings [OF os e(1,2)] obtain s where "v = YStr s" by auto
    with field_enum_clean [OF cl _ e(2), of s] e(3,4) show False by (simp add: in_enum_def)
  qed
  moreover have "\<not> missing_required payload os" using x(1) by (auto simp: missing_required_def list_ex_iff)
  moreover have "\<not> unknown_field payload os" using x(2) by (auto simp: unknown_field_def list_ex_iff)
  ultimately show ?thesis by (simp add: validateFields_def)
qed

lemma paths_pass:
  assumes os: "map_of yops_spec n = Some os" and c: "clean (payload_diagnostics n os payload i)"
    and op: "resolveOpName (YMap op) = Some n" "map_of op n = Some (YMap payload)"
  shows "list_all (\<lambda>(role, path). \<exists>segs. tryParsePath path = Inr segs) (getOpPaths yops_registry op)"
proof -
  note x = payload_clean [OF c]
  have "\<exists>segs. tryParsePath path = Inr segs"
    if r: "(role', path) \<in> set (role_path (op_path_fields os) payload role)" for role role' path
  proof -
    from r obtain f where f: "role_field (op_path_fields os) role = Some f" "map_of payload f = Some (YStr path)" "path \<noteq> []"
      unfolding role_path_def by (cases "role_field (op_path_fields os) role")
        (auto split: option.splits yvalue.splits if_splits)
    have "(f, YStr path) \<in> set payload" using f(2) by (rule map_of_SomeD)
    then have "has_own (spec_fields os) f" using x(2) by blast
    then obtain fs where fs: "(f, fs) \<in> set (spec_fields os)" by (auto simp: has_own_def dest: map_of_SomeD)
    have "f \<in> set (path_field_names (op_path_fields os))"
      using f(1) by (cases role) (auto simp: role_field_def path_field_names_def)
    then have "clean (validatePath (YStr path) i (qualifiedField n f) (isRootablePathField n f))"
      using x(3) fs f(2) unfolding field_clean [symmetric] by (auto simp: field_clean)
    from validatePath_clean [OF this] f(3) show ?thesis by blast
  qed
  then show ?thesis
    using op os yops_registry_spec by (auto simp: getOpPaths_def getPathFields_def list_all_iff)
qed

lemma yop_accepted:
  assumes z: "zod_spec acc" and n: "(k, s) \<in> set payload_schemas" and "acc s (YMap payload)"
    and op: "map_of op (u k) = Some (YMap payload)"
    and c: "clean (outer_diagnostics (u k) op i)"
    and o: "\<And>v. map_of op (u ''source'') = Some v \<Longrightarrow> source_options_ok v"
  shows "acc YOpSchema (YMap op)"
proof -
  have keys: "set (map fst op) \<subseteq> {u k, u ''source''}"
    using c by (auto simp: outer_diagnostics_def filter_empty_conv OP_METADATA_KEYS_def)
  have src: "acc SourceSchema v" if "map_of op (u ''source'') = Some v" for v
    using that c o [OF that] source_accepted [OF z] by (auto simp: outer_diagnostics_def)
  have "acc (op_schema (k, s)) (YMap op)"
    using keys src assms(3) op by (auto simp: op_schema_def zodD(9) [OF z] field_ok_def split: option.split)
  then show ?thesis using n by (auto simp: YOpSchema_def zodD(7) [OF z] list_ex_iff)
qed

lemma validated_shape:
  assumes v: "validateOp yops_spec rawOp i = Some ds" "clean ds"
  shows "\<exists>op n os payload. rawOp = YMap op \<and> resolveOpName (YMap op) = Some n \<and> map_of yops_spec n = Some os
    \<and> map_of op n = Some (YMap payload) \<and> clean (outer_diagnostics n op i) \<and> clean (payload_diagnostics n os payload i)"
proof -
  obtain op where op: "rawOp = YMap op" using v by (cases rawOp) (auto simp: validateOp_def)
  obtain n where n: "resolveOpName (YMap op) = Some n"
    using v by (cases "resolveOpName (YMap op)") (auto simp: validateOp_def op)
  obtain os where os: "map_of yops_spec n = Some os"
    using v by (cases "map_of yops_spec n")
      (auto simp: validateOp_def op n Let_def split: if_splits option.splits yvalue.splits)
  obtain payload where "map_of op n = Some (YMap payload)"
    using v by (cases "map_of op n") (auto simp: validateOp_def op n os Let_def split: yvalue.splits)
  moreover from this have "ds = outer_diagnostics n op i @ payload_diagnostics n os payload i"
    using v(1) by (simp add: validateOp_def op n os)
  ultimately show ?thesis using op n os v(2) by auto
qed

lemma accepted_payload:
  assumes z: "zod_spec acc" and os: "map_of yops_spec n = Some os" and c: "clean (payload_diagnostics n os payload i)"
  shows "\<exists>k s. n = u k \<and> (k, s) \<in> set payload_schemas \<and> acc s (YMap payload)"
proof -
  obtain r where r: "map_of raw_yops n = Some r" "os = plain_op n r" using os by (auto simp: yops_spec_lookup)
  obtain j where j: "j < length raw_yops" "raw_yops ! j = (n, r)"
    using map_of_SomeD [OF r(1)] by (auto simp: in_set_conv_nth)
  obtain k s where e: "payload_schemas ! j = (k, s)" by fastforce
  have len: "length payload_schemas = length raw_yops"
    using accepted_payloads [OF z, of payload i] by (rule list_all2_lengthD)
  have "n = u k \<and> acc s (YMap payload)"
    using list_all2_nthD2 [OF accepted_payloads [OF z, of payload i] j(1)] c r(2) by (simp add: e j(2))
  moreover have "(k, s) \<in> set payload_schemas" using e j(1) len by (metis nth_mem)
  ultimately show ?thesis by blast
qed

section \<open>The operation that a validated object holds\<close>

lemma same_role_paths: "map_of flds = map_of g \<Longrightarrow> role_path pf flds = role_path pf g"
  by (rule ext) (simp only: role_path_def)

lemma admissible_payload:
  assumes z: "zod_spec acc" and s: "(k, s) \<in> set payload_schemas" "acc s (YMap payload)"
    and op: "op_name op = k" "map_of payload = map_of (op_fields op)"
    and m: "resolveOpName (YMap m) = Some (u k)" "map_of m (u k) = Some (YMap payload)"
    and p: "list_all (\<lambda>(role, path). \<exists>segs. tryParsePath path = Inr segs) (getOpPaths yops_registry m)"
  shows "admissible op"
proof -
  have "s = payload_schema op"
    using eq_key_imp_eq_value [OF distinct_payloads, of "op_name op"] s(1) payload_schema_in [of op] op(1) by blast
  then have "acc (payload_schema op) (YMap (op_fields op))"
    using payload_lookup [OF z s(1) op(2)] s(2) by simp
  moreover have "getOpPaths yops_registry m = getOpPaths yops_registry ((u (op_name op), YMap (op_fields op)) # opt_entry ''source'' id None)"
    using m op_resolves [of op None] same_role_paths [OF op(2)] op(1)
    by (simp add: getOpPaths_def op_value_def split: option.split)
  ultimately show ?thesis
    using payload_accepts [OF z, of op] paths_valid [of op None] p by (simp add: admissible_def)
qed

lemma validated_holds:
  assumes z: "zod_spec acc" and v: "validateOp yops_spec rawOp i = Some ds" "clean ds"
    and o: "\<And>op v. rawOp = YMap op \<Longrightarrow> map_of op (u ''source'') = Some v \<Longrightarrow> source_options_ok v"
  shows "\<exists>n flds op. guards yops_registry acc rawOp n flds \<and> n \<in> set handler_names \<and> decode_op n flds = Some op
    \<and> holds_op rawOp op \<and> admissible op"
proof -
  obtain m n os payload where r: "rawOp = YMap m" "resolveOpName (YMap m) = Some n"
      "map_of yops_spec n = Some os" "map_of m n = Some (YMap payload)"
    and c: "clean (outer_diagnostics n m i)" "clean (payload_diagnostics n os payload i)"
    using validated_shape [OF v] by blast
  have n: "n \<in> set handler_names" using r(3) spec_has_own [of n] by (simp add: has_own_def)
  obtain k s where k: "n = u k" and s: "(k, s) \<in> set payload_schemas" and acc: "acc s (YMap payload)"
    using accepted_payload [OF z r(3) c(2)] by blast
  obtain op where op: "decode_op (u k) payload = Some op" using payload_decodes [OF z s acc] by auto
  note f = decoded_fields [OF z s acc op]
  note p = paths_pass [OF r(3) c(2) r(2,4)]
  have "acc YOpSchema rawOp" using yop_accepted [OF z s acc, of m i] r c(1) o by (simp add: k)
  moreover have "validateFields payload (the (getOpSpec yops_registry n)) 0 = None"
    using fields_pass [OF r(3) c(2)] r(3) yops_registry_spec by (simp add: getOpSpec_def)
  ultimately have "guards yops_registry acc rawOp n payload" unfolding guards_def using r p by blast
  moreover have "set (map fst m) \<subseteq> {n, u ''source''}"
    using c(1) by (auto simp: outer_diagnostics_def filter_empty_conv OP_METADATA_KEYS_def)
  then have "holds_op rawOp op" using f r(1,4) k by (auto simp: holds_op_def simp del: set_map)
  moreover have "admissible op" using admissible_payload [OF z s acc _ _ _ _ p] f r(2,4) k by blast
  ultimately show ?thesis using n op k by blast
qed

text \<open>Past its guards a step is the handler; an exception is the engine's own error.\<close>

definition handler_outcome :: "nat \<Rightarrow> op_result \<Rightarrow> yops_error + yvalue" where
  "handler_outcome i r = (case r of
     Throws \<Rightarrow> Inl (yopsError INVALID_OP i)
   | OpResult d None \<Rightarrow> Inr d
   | OpResult d (Some e) \<Rightarrow> Inl e)"

lemma guarded_step:
  assumes g: "guards yops_registry acc rawOp n flds" and n: "n \<in> set handler_names" and op: "decode_op n flds = Some op"
  shows "fst (step_op yops_registry acc rawOp d i) = handler_outcome i (handle op d i)"
proof -
  obtain m where m: "rawOp = YMap m" "resolveOpName (YMap m) = Some n" "map_of m n = Some (YMap flds)"
      "validateFields flds (the (getOpSpec yops_registry n)) 0 = None" "acc YOpSchema (YMap m)"
      "list_all (\<lambda>(role, path). \<exists>segs. tryParsePath path = Inr segs) (getOpPaths yops_registry m)"
    using g by (auto simp: guards_def)
  have h: "getHandler yops_registry n = Some (handler_for n)"
    using n yops_registry_spec by (simp add: getHandler_def)
  have v: "validateFields flds (the (getOpSpec yops_registry n)) i = None"
    using m(4) by (simp add: validateFields_def split: if_splits)
  have p: "\<not> list_ex (\<lambda>(role, path). case tryParsePath path of Inl _ \<Rightarrow> True | Inr _ \<Rightarrow> False) (getOpPaths yops_registry m)"
    using m(6) yops.path_guard by blast
  have "handler_for n d flds i = handle op d i" by (simp add: handler_for_def op)
  then show ?thesis
    unfolding step_op_def m(1) yvalue.case m(2) option.case h m(3) Let_def v
    using m(5) p by (simp add: handler_outcome_def split: op_result.split option.split)
qed

end
