(* ===== verification/Samples.thy ===== *)
theory Samples
  imports RecipeLaws HandlerSpecs ValidatorLaws
begin

text \<open>
  A small document for the witnesses, and simplification rules that evaluate the model of
  packages/yops on concrete documents and paths of unquoted keys.
\<close>

section \<open>A document for the witnesses\<close>

definition sample_doc :: yvalue where
  "sample_doc = YMap [(u ''a'', YMap [(u ''x'', YNull)]), (u ''b'', YSeq [YBool True, YBool False, YBool True])]"

lemma parsePath_bare: "bare_key k \<Longrightarrow> parsePath k = [SegKey k]"
  using key_path_parse [of "[]" "[]" k]
  by (simp add: printed_path_def plain_path_def key_path_def formatPathSegments_def)

lemma bare_u: "bare_key (u s) \<longleftrightarrow> s \<noteq> [] \<and> list_all (\<lambda>c. c \<notin> set [CHR ''/'', CHR 0x22, CHR 0x5C, CHR ''['', CHR '']'', CHR ''='']) s"
  by (auto simp: bare_key_def u_def reserved_char_def list_ex_iff list_all_iff)

lemma path_ok_bare: "bare_key k \<Longrightarrow> path_ok k"
  using parse_format [of "[SegKey k]"]
  by (simp add: path_ok_def formatPathSegments_def formatPathSegment_def bare_key_def)

lemmas wf_data = wf_keys_def key_before_def alpha_index is_digit_cu

lemmas sample_simps = sample_doc_def parsePath_bare bare_u path_ok_bare path_op_simps get_child_def put_child_def
  descend_def seg_pos_def resolvePath_def wf_data
  map_sum_right_def obj_set_def has_own_def removable_def plain_path_def deepClone_id

lemma sample_wf: "wf_yvalue sample_doc"
  by (simp add: sample_simps)

lemma printed_bare: "bare_key k \<Longrightarrow> printed_path k [SegKey k]"
  by (simp add: printed_path_def plain_path_def formatPathSegments_def formatPathSegment_def bare_key_def)

section \<open>Two operations on it\<close>

definition sample_rest :: yvalue where
  "sample_rest = YMap [(u ''b'', YSeq [YBool True, YBool False, YBool True])]"

definition sample_reordered :: yvalue where
  "sample_reordered = YMap [(u ''b'', YSeq [YBool True, YBool False, YBool True]), (u ''a'', YMap [(u ''x'', YNull)])]"

definition drop_value :: "string \<Rightarrow> yvalue" where
  "drop_value k = op_value (Drop (u k)) None"

lemma sample_rest_wf: "wf_yvalue sample_rest"
  by (simp add: sample_rest_def wf_data)

lemma sample_same: "same sample_doc sample_reordered"
proof -
  have "wf_yvalue sample_reordered" by (simp add: sample_reordered_def wf_data)
  moreover have "abs_val sample_doc = abs_val sample_reordered"
    unfolding sample_doc_def sample_reordered_def abs_val_map by (simp add: abs_obj_eq_iff u_Cons)
  ultimately show ?thesis using sample_wf by (simp add: same_def)
qed

lemma sample_drops:
  "handle (Drop (u ''a'')) sample_doc i = OpResult sample_rest None"
  "handle (Drop (u ''b'')) sample_rest i = OpResult (YMap []) None"
  using sample_wf sample_rest_wf
  by (simp_all add: dropHandler_def deleteAtPath_def deleteAtPathSegments_eq parsePath_bare bare_u)
    (simp_all add: sample_simps sample_rest_def ok_def obj_delete_def u_Cons)

lemma drop_value_wf: "wf_yvalue (drop_value k)"
  by (simp add: drop_value_def op_value_def opt_entry_def wf_data)

lemma drop_runs:
  "runs yops_registry zod_eval 0 sample_doc [drop_value ''a''] sample_rest"
  "runs yops_registry zod_eval 0 sample_rest [drop_value ''b''] (YMap [])"
proof -
  have "admissible (Drop (u ''a''))" "admissible (Drop (u ''b''))" by (simp_all add: admissible_def path_ok_bare bare_u)
  then show "runs yops_registry zod_eval 0 sample_doc [drop_value ''a''] sample_rest"
    "runs yops_registry zod_eval 0 sample_rest [drop_value ''b''] (YMap [])"
    unfolding drop_value_def typed_runs [OF zod_eval_spec] using sample_drops by simp_all
qed

declare deepClone.simps [simp del]

end
