(* ===== verification/YopsProperties.thy ===== *)
theory YopsProperties
  imports Samples
begin

text \<open>
  The properties of packages/yops, each over the definitions of the components below it and proved
  from their lemmas. A witness applies its property at a concrete document.
\<close>

section \<open>Documents\<close>

text \<open>
  C18: two YValues have the same canonical encoding exactly when they are the same document up to
  the order of mapping keys.
\<close>

theorem canonical_encoding_decides_equality:
  assumes "wf_yvalue v" "wf_yvalue w"
  shows "canonicalKey v = canonicalKey w \<longleftrightarrow> abs_val v = abs_val w"
  using assms by (rule canonicalKey_eq_iff_abs)

theorem canonical_encoding_decides_equality_witness:
  "canonicalKey (YMap [(u ''a'', YNum (num_int 1)), (u ''b'', YNull)])
     = canonicalKey (YMap [(u ''b'', YNull), (u ''a'', YNum (num_int 1))])
   \<longleftrightarrow> abs_val (YMap [(u ''a'', YNum (num_int 1)), (u ''b'', YNull)])
     = abs_val (YMap [(u ''b'', YNull), (u ''a'', YNum (num_int 1))])"
  by (rule canonical_encoding_decides_equality) (simp_all add: sample_simps)

section \<open>Paths\<close>

text \<open>
  C19: every list of segments that the path grammar can express is read back unchanged from its
  text: tryParsePath of formatPathSegments(segments) succeeds with the same segments.
\<close>

theorem path_format_parse_roundtrip:
  assumes "list_all segment_ok segs"
  shows "tryParsePath (formatPathSegments segs) = Inr segs"
  using assms by (rule parse_format)

theorem path_format_parse_roundtrip_witness:
  "tryParsePath (formatPathSegments [SegKey (u ''a/b''), SegIndex 3, SegMatch (u ''id'') (u ''x'')])
     = Inr [SegKey (u ''a/b''), SegIndex 3, SegMatch (u ''id'') (u ''x'')]"
  by (rule path_format_parse_roundtrip) (simp add: MAX_SAFE_INTEGER_def u_Cons)

text \<open>
  C10: the path operations read and write a document as an unordered tree: resolving, writing and
  deleting commute with the abstraction that forgets the order of keys, errors included.
\<close>

theorem path_operations_refine_tree:
  assumes "wf_yvalue d" "wf_yvalue v"
  shows "aresolve (abs_val d) p = map_option abs_val (resolvePathSegments d p)
    \<and> aset (abs_val d) p (abs_val v) = map_sum_right abs_val (setAtPathSegments d p v)
    \<and> adelete (abs_val d) p = map_option abs_val (deleteAtPathSegments d p)"
  unfolding setAtPathSegments_eq [OF assms(1)] deleteAtPathSegments_eq [OF assms(1)]
  by (intro conjI resolve_abs setRecursive_abs deleteRecursive_abs assms)

theorem path_operations_refine_tree_witness:
  "aresolve (abs_val sample_doc) [SegKey (u ''b'')] = map_option abs_val (resolvePathSegments sample_doc [SegKey (u ''b'')])
    \<and> aset (abs_val sample_doc) [SegKey (u ''b'')] (abs_val YNull)
        = map_sum_right abs_val (setAtPathSegments sample_doc [SegKey (u ''b'')] YNull)
    \<and> adelete (abs_val sample_doc) [SegKey (u ''b'')] = map_option abs_val (deleteAtPathSegments sample_doc [SegKey (u ''b'')])"
  by (rule path_operations_refine_tree [OF sample_wf]) simp

section \<open>The engine\<close>

text \<open>
  C1: a run of operations is all or nothing: it succeeds exactly when every operation was applied
  and exactly when it reports no error, it never counts more operations than there are, and when it
  fails the document it returns is the one it was given.
\<close>

theorem run_is_atomic:
  assumes "wf_yvalue d" "r = applyYOps yops_registry acc d ops"
  shows "(res_ok r \<longleftrightarrow> res_applied r = length ops) \<and> (res_ok r \<longleftrightarrow> res_error r = None)
    \<and> res_applied r \<le> length ops \<and> (\<not> res_ok r \<longrightarrow> res_doc r = d)"
  using apply_from_applied [of 0 yops_registry acc d d "[]" ops] apply_from_failure [of yops_registry acc d 0 d "[]" ops]
  unfolding assms(2) applyYOps_def Let_def deepClone_id [OF assms(1)] add_0 by blast

theorem run_is_atomic_witness:
  "\<not> res_ok (applyYOps yops_registry zod_eval sample_doc [YNull])
    \<and> res_doc (applyYOps yops_registry zod_eval sample_doc [YNull]) = sample_doc"
proof -
  have "\<not> res_ok (applyYOps yops_registry zod_eval sample_doc [YNull])"
    by (simp add: applyYOps_def Let_def step_op_def)
  then show ?thesis
    using run_is_atomic [OF sample_wf refl, of zod_eval "[YNull]"] by blast
qed

text \<open>
  C17: a run does not depend on the order of keys: on two documents that differ only in it, the same
  operations succeed together, and their results differ only in it again.
\<close>

theorem run_ignores_key_order:
  assumes "list_all wf_yvalue ops" "same d d'" "res_ok (applyYOps yops_registry acc d ops)"
  shows "res_ok (applyYOps yops_registry acc d' ops)
    \<and> same (res_doc (applyYOps yops_registry acc d ops)) (res_doc (applyYOps yops_registry acc d' ops))"
  using assms by (rule yops.apply_same)

theorem run_ignores_key_order_witness:
  "res_ok (applyYOps yops_registry zod_eval sample_reordered [drop_value ''a''])
    \<and> same sample_rest (res_doc (applyYOps yops_registry zod_eval sample_reordered [drop_value ''a'']))"
  using run_ignores_key_order [OF _ sample_same, of "[drop_value ''a'']" zod_eval] drop_runs(1)
  unfolding yops.apply_runs [OF sample_wf, symmetric] by (simp add: drop_value_wf)

text \<open>
  C39: a run of two lists of operations one after the other is the run of the second on the result
  of the first.
\<close>

theorem run_composes:
  assumes "wf_yvalue d" "list_all wf_yvalue xs"
  shows "res_ok (applyYOps yops_registry acc d (xs @ ys)) \<and> res_doc (applyYOps yops_registry acc d (xs @ ys)) = r \<longleftrightarrow>
     res_ok (applyYOps yops_registry acc d xs)
     \<and> res_ok (applyYOps yops_registry acc (res_doc (applyYOps yops_registry acc d xs)) ys)
     \<and> res_doc (applyYOps yops_registry acc (res_doc (applyYOps yops_registry acc d xs)) ys) = r"
  using assms by (rule yops.apply_append)

theorem run_composes_witness:
  "res_ok (applyYOps yops_registry zod_eval sample_doc ([drop_value ''a''] @ [drop_value ''b'']))
    \<and> res_doc (applyYOps yops_registry zod_eval sample_doc ([drop_value ''a''] @ [drop_value ''b''])) = YMap []"
proof -
  have "list_all wf_yvalue [drop_value ''a'']" by (simp add: drop_value_wf)
  from run_composes [OF sample_wf this] show ?thesis
    using drop_runs [folded yops.apply_runs [OF sample_wf] yops.apply_runs [OF sample_rest_wf]] by metis
qed

text \<open>
  The registry of the package is complete: its bootstrap succeeds and exactly the operations of
  yops.yaml have a handler, the one that decodes the payload and runs it.
\<close>

theorem registry_is_complete:
  "registerAllHandlers (newRegistry yops_spec) = Inr yops_registry \<and> validate_registry yops_registry = Inr ()
    \<and> (\<forall>n. getHandler yops_registry n = (if n \<in> set (operationNames yops_registry) then Some (handler_for n) else None))"
  using yops_registry_spec yops_registry_valid by (auto simp: getHandler_def operationNames_def spec_names)

text \<open>
  C27: on an encoded operation a step of the engine succeeds exactly when the operation is
  admissible (its strings are non-empty where the schema wants it, its paths parse, an assert has a
  condition) and its handler succeeds, with the document of the handler.
\<close>

theorem engine_step_is_handler:
  assumes "zod_spec acc"
  shows "(\<exists>ws. step_op yops_registry acc (op_value op None) d i = (Inr r, ws)) \<longleftrightarrow>
     admissible op \<and> handle op d i = OpResult r None"
  using assms by (rule typed_step)

theorem engine_step_is_handler_witness:
  "(\<exists>ws. step_op yops_registry zod_eval (op_value (SetOp (u ''a'') YNull) None) sample_doc 0 = (Inr YNull, ws)) \<longleftrightarrow>
     admissible (SetOp (u ''a'') YNull) \<and> handle (SetOp (u ''a'') YNull) sample_doc 0 = OpResult YNull None"
  by (rule engine_step_is_handler [OF zod_eval_spec])

text \<open>
  C3: a raw operation for which the validator reports no error holds exactly one operation: its name and
  its fields, in any order, with at most a source beside it. That operation is admissible (its strings are
  non-empty where the schema wants it, its paths parse, an assert has a condition), and on every document
  the engine does with the raw operation what the handler of that operation does. The hypothesis on the
  source: its optional fields, at which the validator does not look, are well typed.
\<close>

theorem validated_operation_reaches_handler:
  assumes "zod_spec acc" "validateOp yops_spec rawOp i = Some ds" "clean ds"
    and "\<And>op v. rawOp = YMap op \<Longrightarrow> map_of op (u ''source'') = Some v \<Longrightarrow> source_options_ok v"
  shows "\<exists>!op. holds_op rawOp op \<and> admissible op
    \<and> (\<forall>d j. fst (step_op yops_registry acc rawOp d j) = handler_outcome j (handle op d j))"
  using validated_holds [OF assms(1-3)] assms(4) guarded_step holds_op_unique by blast

theorem validated_operation_reaches_handler_witness:
  "holds_op (YMap [(u ''drop'', YMap [(u ''path'', YStr (u ''a''))])]) (Drop (u ''a''))
    \<and> fst (step_op yops_registry zod_eval (YMap [(u ''drop'', YMap [(u ''path'', YStr (u ''a''))])]) sample_doc 0)
      = Inr sample_rest"
proof -
  let ?raw = "YMap [(u ''drop'', YMap [(u ''path'', YStr (u ''a''))])]"
  have t: "tryParsePath (u ''a'') = Inr [SegKey (u ''a'')]"
    using parse_format [of "[SegKey (u ''a'')]"] by (simp add: formatPathSegments_def formatPathSegment_def u_Cons reserved_char_def)
  have p: "validatePath (YStr (u ''a'')) 0 f r = []" for f r
    by (simp add: validatePath_def t) (simp add: splitRawSegments_def raw_segment_diagnostics_def u_Cons)
  have v: "validateOp yops_spec ?raw 0 = Some []"
    by (simp add: validateOp_def resolveOpName_def OP_METADATA_KEYS_def yops_spec_lookup raw_defs plain_op_def
        plain_field_def outer_diagnostics_def payload_diagnostics_def field_diagnostics_def has_own_def
        validateOpRefinements_def table_fields_def NON_EMPTY_STRING_FIELDS_def STRING_ARRAY_FIELDS_def
        path_field_names_def primary_path_def p)
  have src: "source_options_ok w" if "?raw = YMap m" "map_of m (u ''source'') = Some w" for m w
    using that by auto
  have h: "holds_op ?raw (Drop (u ''a''))" by (auto simp: holds_op_def)
  obtain op where op: "holds_op ?raw op" "fst (step_op yops_registry zod_eval ?raw sample_doc 0) = handler_outcome 0 (handle op sample_doc 0)"
    using validated_operation_reaches_handler [OF zod_eval_spec v clean_simps(1)] src by blast
  show ?thesis using op(2) h sample_drops(1) [of 0] unfolding holds_op_unique [OF op(1) h] by (simp add: handler_outcome_def)
qed

text \<open>
  C26: an error that a handler returns carries one of the codes that yops.yaml lists for its
  operation, and the index of the operation; the document is the one it was given.
\<close>

theorem handler_errors_are_declared:
  assumes "handle op d i = OpResult d' (Some e)"
  shows "u (code_name (error_code e)) \<in> set (spec_errors (op_spec_of op)) \<and> op_index e = i \<and> d' = d"
  using handler_codes [of op d i] handler.error_keeps [OF assms] assms by (simp add: codes_in_def spec_codes_def)

theorem handler_errors_are_declared_witness:
  "u (code_name PATH_NOT_FOUND) \<in> set (spec_errors (op_spec_of (Drop (u ''c''))))"
proof -
  have "handle (Drop (u ''c'')) sample_doc 0 = OpResult sample_doc (Some (yopsError PATH_NOT_FOUND 0))"
    using sample_wf by (simp add: dropHandler_def deleteAtPath_def deleteAtPathSegments_eq parsePath_bare bare_u)
      (simp add: sample_simps fail_def)
  from handler_errors_are_declared [OF this] show ?thesis by (simp add: yopsError_def)
qed

section \<open>Operations on places\<close>

text \<open>
  C28: set writes at its path and nowhere else; on a path of keys it succeeds exactly when every
  proper prefix of the path that exists is a mapping.
\<close>

theorem set_writes_its_place:
  assumes "wf_yvalue d" "wf_yvalue v" "plain_path (parsePath p)"
  shows "(setHandler d p v i = OpResult d' None \<longrightarrow> resolvePath d' p = Some v
      \<and> (\<forall>q. diverge (parsePath p) q \<longrightarrow> resolvePathSegments d' q = resolvePathSegments d q))
    \<and> (list_all is_key (parsePath p) \<and> parsePath p \<noteq> [] \<longrightarrow>
        ((\<exists>d'. setHandler d p v i = OpResult d' None) \<longleftrightarrow> writable_keys d (parsePath p)))"
proof (intro conjI impI)
  assume s: "setHandler d p v i = OpResult d' None"
  from set_effect [OF assms s] show "resolvePath d' p = Some v" by blast
  from set_effect [OF assms s]
  show "\<forall>q. diverge (parsePath p) q \<longrightarrow> resolvePathSegments d' q = resolvePathSegments d q" by blast
next
  assume k: "list_all is_key (parsePath p) \<and> parsePath p \<noteq> []"
  have "(\<exists>d'. setHandler d p v i = OpResult d' None) \<longleftrightarrow> (\<exists>d'. setRecursive d (parsePath p) v = Inr d')"
    by (auto simp: setHandler_def setAtPath_def setAtPathSegments_eq [OF assms(1)] ok_def fail_def split: sum.split)
  with k set_ok_iff show "(\<exists>d'. setHandler d p v i = OpResult d' None) \<longleftrightarrow> writable_keys d (parsePath p)" by blast
qed

theorem set_writes_its_place_witness:
  "resolvePath (YMap [(u ''a'', YNull), (u ''b'', YSeq [YBool True, YBool False, YBool True])]) (u ''a'') = Some YNull"
proof -
  have "setHandler sample_doc (u ''a'') YNull 0
      = OpResult (YMap [(u ''a'', YNull), (u ''b'', YSeq [YBool True, YBool False, YBool True])]) None"
    using sample_wf by (simp add: setHandler_def setAtPath_def setAtPathSegments_eq parsePath_bare bare_u)
      (simp add: sample_simps ok_def)
  with set_writes_its_place [OF sample_wf, of YNull "u ''a''" 0] show ?thesis
    by (simp add: parsePath_bare bare_u plain_path_def)
qed

text \<open>
  C20: a move puts the value at its destination, leaves nothing at its source and touches no place
  that is apart from both.
\<close>

theorem move_moves:
  assumes "wf_yvalue d" "moveHandler d src to i = OpResult d' None"
    and "plain_path (parsePath to)" "removable (parsePath src)" "diverge (parsePath to) (parsePath src)"
  shows "resolvePath d' to = resolvePath d src \<and> resolvePath d src \<noteq> None \<and> resolvePath d' src = None
    \<and> (\<forall>q. diverge (parsePath to) q \<longrightarrow> diverge (parsePath src) q \<longrightarrow>
          resolvePathSegments d' q = resolvePathSegments d q)"
  using assms by (rule move_effect)

theorem move_moves_witness:
  "resolvePath (YMap [(u ''b'', YNull)]) (u ''b'') = resolvePath (YMap [(u ''a'', YNull)]) (u ''a'')"
proof -
  have w: "wf_yvalue (YMap [(u ''a'', YNull)])" "wf_yvalue (YMap [(u ''a'', YNull), (u ''b'', YNull)])"
    by (simp_all add: sample_simps)
  have s: "\<not> starts_with (u ''b'') (u ''a'' @ [slash])" by (simp add: starts_with_def u_Cons)
  have "moveHandler (YMap [(u ''a'', YNull)]) (u ''a'') (u ''b'') 0 = OpResult (YMap [(u ''b'', YNull)]) None"
    by (simp add: moveHandler_def s resolvePath_def setAtPath_def deleteAtPath_def setAtPathSegments_eq
        deleteAtPathSegments_eq deepClone_id wf_data parsePath_bare bare_u)
      (simp add: sample_simps del_child_def obj_delete_def deleteAtPathSegments_eq ok_def)
  from move_moves [OF w(1) this] show ?thesis by (simp add: parsePath_bare bare_u plain_path_def removable_def)
qed

text \<open>
  C40: a clone puts the value of its source at an absent destination and touches no place apart
  from it.
\<close>

theorem clone_copies:
  assumes "wf_yvalue d" "cloneHandler d src to i = OpResult d' None" "plain_path (parsePath to)"
  shows "resolvePath d' to = resolvePath d src \<and> resolvePath d src \<noteq> None \<and> resolvePath d to = None
    \<and> (\<forall>q. diverge (parsePath to) q \<longrightarrow> resolvePathSegments d' q = resolvePathSegments d q)"
  using assms by (rule clone_effect)

theorem clone_copies_witness:
  "resolvePath (YMap [(u ''a'', YNull), (u ''b'', YNull)]) (u ''b'') = resolvePath (YMap [(u ''a'', YNull)]) (u ''a'')"
proof -
  have "cloneHandler (YMap [(u ''a'', YNull)]) (u ''a'') (u ''b'') 0 = OpResult (YMap [(u ''a'', YNull), (u ''b'', YNull)]) None"
    by (simp add: cloneHandler_def resolvePath_def setAtPath_def setAtPathSegments_eq deepClone_id wf_data parsePath_bare bare_u)
      (simp add: sample_simps ok_def written_def)
  then show ?thesis
    using clone_copies [of "YMap [(u ''a'', YNull)]" "u ''a''" "u ''b''" 0]
    by (simp add: parsePath_bare bare_u plain_path_def wf_data)
qed

text \<open>
  after a successful unset the path is absent, nothing apart from it has changed, and an unset
  of an absent path changes nothing.
\<close>

theorem unset_removes:
  assumes "wf_yvalue d" "unsetHandler d p i = OpResult d' None" "removable (parsePath p)"
  shows "resolvePath d' p = None \<and> (resolvePath d p = None \<longrightarrow> d' = d)
    \<and> (\<forall>q. diverge (parsePath p) q \<longrightarrow> resolvePathSegments d' q = resolvePathSegments d q)"
  using assms by (rule unset_effect)

theorem unset_removes_witness: "resolvePath (YMap [(u ''a'', YNull)]) (u ''b'') = None"
proof -
  have "unsetHandler (YMap [(u ''a'', YNull), (u ''b'', YNull)]) (u ''b'') 0 = OpResult (YMap [(u ''a'', YNull)]) None"
    by (simp add: unsetHandler_def Let_def deleteAtPathSegments_eq deepClone_id wf_data parsePath_bare bare_u)
      (simp add: sample_simps del_child_def obj_delete_def ok_def)
  then show ?thesis
    using unset_removes [of "YMap [(u ''a'', YNull), (u ''b'', YNull)]" "u ''b''" 0]
    by (simp add: parsePath_bare bare_u removable_def plain_path_def wf_data)
qed

text \<open>
  A define that succeeds found no value at its path, and is the set of an empty mapping there.
\<close>

theorem define_is_set_of_empty_mapping:
  assumes "wf_yvalue d" "defineHandler d p i = OpResult d' None"
  shows "resolvePath d p = None \<and> setHandler d p (YMap []) j = OpResult d' None"
  using assms by (rule define_effect)

theorem define_is_set_of_empty_mapping_witness:
  "setHandler (YMap [(u ''a'', YNull)]) (u ''b'') (YMap []) 0 = OpResult (YMap [(u ''a'', YNull), (u ''b'', YMap [])]) None"
proof -
  have "defineHandler (YMap [(u ''a'', YNull)]) (u ''b'') 0 = OpResult (YMap [(u ''a'', YNull), (u ''b'', YMap [])]) None"
    by (simp add: defineHandler_def Let_def deepClone_id wf_data parsePath_bare bare_u) (simp add: sample_simps ok_def)
  then show ?thesis using define_is_set_of_empty_mapping [of "YMap [(u ''a'', YNull)]"] by (simp add: wf_data)
qed

text \<open>
  A rename rewrites the parent mapping only: the new key has the old value, the old key is
  gone, every other key keeps its value.
\<close>

theorem rename_renames:
  assumes "wf_yvalue d" "renameHandler d p to i = OpResult d' None"
  shows "\<exists>q old m. parsePath p = q @ [SegKey old] \<and> resolvePathSegments d q = Some (YMap m)
    \<and> d' = mutate_at d q (\<lambda>_. YMap (renamed_entries old to m))
    \<and> (\<forall>k. map_of (renamed_entries old to m) k =
          (if k = to then map_of m old else if k = old then None else map_of m k))"
  using assms by (rule rename_effect)

theorem rename_renames_witness:
  "\<exists>q old m. parsePath (u ''a'') = q @ [SegKey old] \<and> resolvePathSegments (YMap [(u ''a'', YNull)]) q = Some (YMap m)
    \<and> YMap [(u ''c'', YNull)] = mutate_at (YMap [(u ''a'', YNull)]) q (\<lambda>_. YMap (renamed_entries old (u ''c'') m))"
proof -
  have "renameHandler (YMap [(u ''a'', YNull)]) (u ''a'') (u ''c'') 0 = OpResult (YMap [(u ''c'', YNull)]) None"
    by (simp add: renameHandler_def Let_def deepClone_id wf_data parsePath_bare bare_u)
      (simp add: sample_simps renamed_entries_def obj_set_all_def ok_def)
  then show ?thesis using rename_renames [of "YMap [(u ''a'', YNull)]"] by (fastforce simp: wf_data)
qed

section \<open>Operations on mappings and sequences\<close>

text \<open>
  a fold replaces a mapping with one entry by that entry in the parent mapping.
\<close>

theorem fold_lifts_the_child:
  assumes "wf_yvalue d" "foldHandler d p i = OpResult d' None"
    and "parsePath p = q @ [SegKey k]" "plain_path q" "list_all segment_ok q"
  shows "\<exists>m ck child. resolvePathSegments d q = Some (YMap m) \<and> map_of m k = Some (YMap [(ck, child)])
    \<and> d' = mutate_at d q (\<lambda>_. YMap (obj_set (obj_delete m k) ck child))"
  using assms by (rule fold_effect)

theorem fold_lifts_the_child_witness:
  "\<exists>m ck child. resolvePathSegments (YMap [(u ''a'', YMap [(u ''b'', YNull)])]) [] = Some (YMap m)
    \<and> map_of m (u ''a'') = Some (YMap [(ck, child)])
    \<and> YMap [(u ''b'', YNull)] = mutate_at (YMap [(u ''a'', YMap [(u ''b'', YNull)])]) [] (\<lambda>_. YMap (obj_set (obj_delete m (u ''a'')) ck child))"
proof -
  have "foldHandler (YMap [(u ''a'', YMap [(u ''b'', YNull)])]) (u ''a'') 0 = OpResult (YMap [(u ''b'', YNull)]) None"
    by (simp add: foldHandler_def Let_def deepClone_id deleteAtPathSegments_eq setAtPathSegments_eq wf_data parsePath_bare bare_u)
      (simp add: sample_simps del_child_def obj_delete_def setAtPathSegments_eq ok_def written_def)
  then show ?thesis
    by (rule fold_lifts_the_child [rotated]) (simp_all add: wf_data parsePath_bare bare_u plain_path_def)
qed

text \<open>
  C37: sort replaces the sequence at its path by its sorted permutation in which items with equal
  keys keep their order, ascending unless desc is asked for; a missing key, a value that is no sequence and an
  absent path are errors.
\<close>

theorem sort_sorts:
  assumes "path_ok p" "wf_yvalue d"
  shows "sortHandler d p by r i = (case resolvePath d p of
       None \<Rightarrow> fail d PATH_NOT_FOUND i
     | Some (YSeq xs) \<Rightarrow> if keys_missing by xs then fail d INVALID_OP i
         else ok (mutate_at d (parsePath p) (\<lambda>_. YSeq (js_sort (sort_compare by (order_of r)) xs)))
     | Some _ \<Rightarrow> fail d NOT_A_SEQUENCE i)
    \<and> mset (js_sort (sort_compare by (order_of r)) xs) = mset xs
    \<and> sorted_wrt (\<lambda>a b. sort_compare by (order_of r) a b \<le> 0) (js_sort (sort_compare by (order_of r)) xs)
    \<and> (\<forall>a. filter (\<lambda>b. sort_compare by (order_of r) a b = 0) (js_sort (sort_compare by (order_of r)) xs)
         = filter (\<lambda>b. sort_compare by (order_of r) a b = 0) xs)
    \<and> (r \<noteq> Some Desc \<longrightarrow> sorted_wrt (\<lambda>a b. compareYValues (item_key by a) (item_key by b) \<le> 0) (js_sort (sort_compare by (order_of r)) xs))
    \<and> (r = Some Desc \<longrightarrow> sorted_wrt (\<lambda>a b. 0 \<le> compareYValues (item_key by a) (item_key by b)) (js_sort (sort_compare by (order_of r)) xs))"
proof -
  have "sorted_wrt (\<lambda>a b. sort_compare by (order_of r) a b \<le> 0) (js_sort (sort_compare by (order_of r)) xs)"
    using sort_result [of "by" "order_of r" xs] by blast
  then have "(r \<noteq> Some Desc \<longrightarrow> sorted_wrt (\<lambda>a b. compareYValues (item_key by a) (item_key by b) \<le> 0) (js_sort (sort_compare by (order_of r)) xs))
    \<and> (r = Some Desc \<longrightarrow> sorted_wrt (\<lambda>a b. 0 \<le> compareYValues (item_key by a) (item_key by b)) (js_sort (sort_compare by (order_of r)) xs))"
    by (cases "order_of r") (auto simp: sort_compare_def order_of_def split: option.splits elim: sorted_wrt_mono_rel [rotated])
  then show ?thesis using sort_spec [OF assms, of "by" r i] sort_result [of "by" "order_of r" xs] unfolding rewritten_def by blast
qed

theorem sort_sorts_witness:
  "sortHandler sample_doc (u ''b'') None None 0 = ok (mutate_at sample_doc [SegKey (u ''b'')]
     (\<lambda>_. YSeq (js_sort (sort_compare None Asc) [YBool True, YBool False, YBool True])))"
proof -
  have "resolvePath sample_doc (u ''b'') = Some (YSeq [YBool True, YBool False, YBool True])" by (simp add: sample_simps)
  with sort_sorts [of "u ''b''" sample_doc None None 0] show ?thesis
    by (simp add: path_ok_bare bare_u sample_wf keys_missing_def order_of_def parsePath_bare)
qed

text \<open>
  C38: unique keeps exactly the items whose key no earlier item has, where keys are equal when they
  are the same value up to the order of keys.
\<close>

theorem unique_keeps_first_items:
  assumes "path_ok p" "wf_yvalue d" "resolvePath d p = Some (YSeq xs)" "\<not> keys_missing by xs"
  shows "uniqueHandler d p by i =
    ok (mutate_at d (parsePath p) (\<lambda>_. YSeq (first_of_key (\<lambda>x. canonicalKey (item_key by x)) xs)))"
  using unique_spec [OF assms(1,2), of "by" i] assms(3,4) resolve_wf' [OF assms(2,3)]
  by (simp add: rewritten_def unique_result)

theorem unique_keeps_first_items_witness:
  "uniqueHandler sample_doc (u ''b'') None 0 = ok (mutate_at sample_doc (parsePath (u ''b''))
     (\<lambda>_. YSeq (first_of_key (\<lambda>x. canonicalKey (item_key None x)) [YBool True, YBool False, YBool True])))"
  by (rule unique_keeps_first_items) (simp_all add: path_ok_bare bare_u sample_wf keys_missing_def, simp add: sample_simps)

text \<open>
  Pick keeps the entries with the given keys and omit the others, both in their old order.
\<close>

theorem pick_and_omit_filter:
  assumes "path_ok p" "wf_yvalue d" "resolvePath d p = Some (YMap m)"
  shows "pickHandler d p ks i = ok (mutate_at d (parsePath p) (\<lambda>_. YMap (filter (\<lambda>(k, v). k \<in> set ks) m)))
    \<and> omitHandler d p ks i = ok (mutate_at d (parsePath p) (\<lambda>_. YMap (filter (\<lambda>(k, v). k \<notin> set ks) m)))"
  using pick_spec [OF assms(1,2)] omit_spec [OF assms(1,2)] assms(3) by (simp add: rewritten_def)

theorem pick_and_omit_filter_witness:
  "pickHandler sample_doc (u ''a'') [] 0 = ok (mutate_at sample_doc (parsePath (u ''a'')) (\<lambda>_. YMap (filter (\<lambda>(k, v). k \<in> set []) [(u ''x'', YNull)])))
   \<and> omitHandler sample_doc (u ''a'') [] 0 = ok (mutate_at sample_doc (parsePath (u ''a'')) (\<lambda>_. YMap (filter (\<lambda>(k, v). k \<notin> set []) [(u ''x'', YNull)])))"
  by (rule pick_and_omit_filter) (simp add: path_ok_bare bare_u, rule sample_wf, simp add: sample_simps)



text \<open>
  C36: on a mapping at a printed path, merge with unquoted keys replaces the given child mappings by
  one mapping with their entries, and refuses unknown keys and children that are no mappings; the merged
  mapping has under each key the value of the last child that has this key.
\<close>

theorem merge_merges:
  assumes "printed_path p segs" "list_all bare_key ks" "bare_key n" "wf_yvalue d"
    and "resolvePathSegments d segs = Some (YMap m)"
  shows "mergeHandler d p ks n i =
     (if \<not> list_all (has_own m) ks then fail d NOT_SIBLINGS i
      else if \<not> list_all (\<lambda>k. is_mapping (the (map_of m k))) ks then fail d NOT_A_MAPPING i
      else ok (mutate_at d segs (\<lambda>_. YMap (obj_set (foldl obj_delete m ks) n (YMap (merged_mapping m ks))))))
    \<and> (list_all (has_own m) ks \<and> list_all (\<lambda>k. is_mapping (the (map_of m k))) ks \<longrightarrow> (\<forall>k v. map_of (merged_mapping m ks) k = Some v \<longleftrightarrow>
         (\<exists>xs c ys w. ks = xs @ c # ys \<and> map_of m c = Some (YMap w) \<and> map_of w k = Some v
            \<and> (\<forall>c' \<in> set ys. \<forall>w'. map_of m c' = Some (YMap w') \<longrightarrow> map_of w' k = None))))"
  using merge_spec [OF assms, of i] merged_lookup [OF resolve_wf [OF assms(5,4)]] by blast

theorem merge_merges_witness:
  "mergeHandler (YMap [(u ''r'', YMap [(u ''a'', YMap [(u ''x'', YNull)]), (u ''b'', YMap [(u ''x'', YBool True)])])])
       (u ''r'') [u ''a'', u ''b''] (u ''y'') 0
     = ok (mutate_at (YMap [(u ''r'', YMap [(u ''a'', YMap [(u ''x'', YNull)]), (u ''b'', YMap [(u ''x'', YBool True)])])])
         [SegKey (u ''r'')] (\<lambda>_. YMap [(u ''y'', YMap [(u ''x'', YBool True)])]))"
proof -
  let ?m = "[(u ''a'', YMap [(u ''x'', YNull)]), (u ''b'', YMap [(u ''x'', YBool True)])]"
  have wf: "wf_yvalue (YMap [(u ''r'', YMap ?m)])" by (simp add: wf_data)
  have "printed_path (u ''r'') [SegKey (u ''r'')]" by (rule printed_bare) (simp add: bare_u)
  moreover have "resolvePathSegments (YMap [(u ''r'', YMap ?m)]) [SegKey (u ''r'')] = Some (YMap ?m)"
    by (simp add: sample_simps)
  moreover have "merged_mapping ?m [u ''a'', u ''b''] = [(u ''x'', YBool True)]"
    by (simp add: merged_mapping_def entries_of_def deepClone_id wf_data obj_set_all_def obj_set_def has_own_def)
  moreover have "obj_set (foldl obj_delete ?m [u ''a'', u ''b'']) (u ''y'') w = [(u ''y'', w)]" for w
    by (simp add: obj_delete_def obj_set_def has_own_def alpha_index is_digit_cu)
  ultimately show ?thesis
    using merge_merges [of "u ''r''" "[SegKey (u ''r'')]" "[u ''a'', u ''b'']" "u ''y''" "YMap [(u ''r'', YMap ?m)]" ?m 0] wf
    by (simp add: bare_u has_own_def)
qed

text \<open>
  C35: split with distinct, known source keys and free group names takes the keys out of the mapping
  and adds one mapping per group with the values of its keys.
\<close>

theorem split_splits:
  assumes "printed_path p segs" "list_all bare_key (concat (map snd gs))" "list_all bare_key (map fst gs)"
    and "wf_yvalue d" "resolvePathSegments d segs = Some (YMap m)"
    and "distinct (concat (map snd gs))" "list_all (has_own m) (concat (map snd gs))"
    and "\<forall>g \<in> set (map fst gs). has_own m g \<longrightarrow> g \<in> set (concat (map snd gs))" "wf_object gs"
  shows "splitHandler d p gs i = ok (mutate_at d segs (\<lambda>_. YMap (obj_set_all
     (foldl obj_delete m (concat (map snd gs))) (map (\<lambda>(g, ks). (g, YMap (sub_mapping m ks))) gs))))
    \<and> (\<forall>g \<in> set gs. \<forall>k. map_of (sub_mapping m (snd g)) k = (if k \<in> set (snd g) then map_of m k else None))"
proof (intro conjI ballI allI)
  fix g k
  assume "g \<in> set gs"
  then have "list_all (has_own m) (snd g)" using assms(7) by (auto simp: list_all_iff)
  with sub_mapping_lookup [OF resolve_wf [OF assms(5,4)]]
  show "map_of (sub_mapping m (snd g)) k = (if k \<in> set (snd g) then map_of m k else None)" by blast
qed (rule split_spec [OF assms])

theorem split_splits_witness:
  "splitHandler sample_doc (u ''a'') [(u ''g'', [u ''x''])] 0 =
     ok (mutate_at sample_doc [SegKey (u ''a'')] (\<lambda>_. YMap [(u ''g'', YMap [(u ''x'', YNull)])]))"
proof -
  have "printed_path (u ''a'') [SegKey (u ''a'')]"
    by (simp add: printed_path_def plain_path_def formatPathSegments_def formatPathSegment_def u_Cons reserved_char_def)
  moreover have "resolvePathSegments sample_doc [SegKey (u ''a'')] = Some (YMap [(u ''x'', YNull)])"
    by (simp add: sample_simps)
  ultimately show ?thesis
    using split_splits [of "u ''a''" "[SegKey (u ''a'')]" "[(u ''g'', [u ''x''])]" sample_doc "[(u ''x'', YNull)]" 0] sample_wf
    by (simp add: bare_u has_own_def sub_mapping_def obj_set_all_def obj_delete_def obj_set_def alpha_index is_digit_cu deepClone_id wf_keys_def)
qed

section \<open>Recipes\<close>

text \<open>
  C7: compiling native operations to the primitive profile keeps their outcome: on the same base
  the native list and the compiled list succeed together, with the same document up to key order.
\<close>

theorem primitive_profile_keeps_outcome:
  assumes "wf_yvalue base" "list_all (\<lambda>e. wf_yvalue (sourced_value e)) es"
    and "outs = pr_operations (compileYOpsOperationsToPrimitiveProfile acc base es)"
  shows "(res_ok (applyYOps yops_registry acc base (map sourced_value es)) \<longleftrightarrow>
      res_ok (applyYOps yops_registry acc base outs)) \<and>
    (res_ok (applyYOps yops_registry acc base (map sourced_value es)) \<longrightarrow>
      same (res_doc (applyYOps yops_registry acc base (map sourced_value es)))
        (res_doc (applyYOps yops_registry acc base outs)))"
  using assms by (rule profile_equivalent)

theorem primitive_profile_keeps_outcome_witness:
  "res_ok (applyYOps yops_registry zod_eval sample_doc (map sourced_value [(Sort (u ''b'') None None, None)])) \<longleftrightarrow>
   res_ok (applyYOps yops_registry zod_eval sample_doc (pr_operations
     (compileYOpsOperationsToPrimitiveProfile zod_eval sample_doc [(Sort (u ''b'') None None, None)])))"
proof -
  have "list_all (\<lambda>e. wf_yvalue (sourced_value e)) [(Sort (u ''b'') None None, None)]"
    by (simp add: sourced_value_def op_value_wf del: op_value_def)
  from primitive_profile_keeps_outcome [OF sample_wf this refl] show ?thesis by blast
qed

text \<open>
  What a recipe compiles to stays in the profile that its compiler declares, and holds well
  formed values only.
\<close>

theorem recipe_output_in_profile:
  assumes "compileYOpsRecipe input = Inr ops"
  shows "list_all (\<lambda>op. op_name op \<in> set (output_operation_names input) \<and> wf_op op) ops"
  using compile_profile [OF assms] compile_wf [OF assms] by (simp add: list_all_iff)

theorem recipe_output_in_profile_witness:
  "list_all (\<lambda>op. op_name op \<in> set (output_operation_names (AppendItem (u ''b'') (YSeq []) YNull)) \<and> wf_op op)
     [Assert (u ''b'') (Some (YSeq [])) None None, SetOp (u ''b'') (YSeq [YNull])]"
proof (rule recipe_output_in_profile)
  have t: "js_trim (u ''b'') = u ''b''" by (simp add: js_trim_def u_Cons) (simp add: is_js_space_def cu_def)
  show "compileYOpsRecipe (AppendItem (u ''b'') (YSeq []) YNull)
      = Inr [Assert (u ''b'') (Some (YSeq [])) None None, SetOp (u ''b'') (YSeq [YNull])]"
    by (simp add: compileYOpsSequenceAppend_def assertRecipePath_def t assertSequenceValue_def assert_set_def cloneYValue_def deepClone_id)
qed

end
