(* ===== verification/YopsFindings.thy ===== *)
theory YopsFindings
  imports Samples
begin

text \<open>
  Behaviours of packages/yops that differ from what a comment, yops.yaml or the name of the
  operation says, each on one concrete input.
\<close>

section \<open>The validator and the classifier on inherited names\<close>

text \<open>\<open>validateYOpsOps\<close> is documented to never throw; on \<open>[{constructor: {}}]\<close> it does.\<close>

lemma validator_throws_on_inherited_name:
  "validateYOpsOps (YSeq [YMap [(u ''constructor'', YMap [])]]) = None"
  by (simp add: validateYOpsOps_def validateOp_def resolveOpName_def OP_METADATA_KEYS_def yops_spec_lookup raw_defs
      PROTOTYPE_NAMES_def Let_def)

text \<open>\<open>classifyYOp\<close> falls back to \<open>dtl\<close> by its comment; on \<open>{toString: {}}\<close> it returns undefined.\<close>

lemma classify_undefined_on_inherited_name:
  "classifyYOp (Some yops_spec) (YMap [(u ''toString'', YMap [])]) = None"
  by (simp add: classifyYOp_def resolveOpName_def OP_METADATA_KEYS_def yops_spec_lookup raw_defs PROTOTYPE_NAMES_def)

section \<open>Child paths built from unquoted keys\<close>

lemma parse_slash_key: "parsePath (u ''a/b'') = [SegKey (u ''a''), SegKey (u ''b'')]"
  using parsePath_format [of "[SegKey (u ''a''), SegKey (u ''b'')]"]
  by (simp add: formatPathSegments_def formatPathSegment_def u_Cons reserved_char_def)

text \<open>nest with the key \<open>a/b\<close> copies its value under the new key and leaves the old entry.\<close>

lemma nest_keeps_slash_key:
  "nestHandler (YMap [(u ''a/b'', YNull)]) [] [u ''a/b''] (u ''g'') 0
     = OpResult (YMap [(u ''a/b'', YNull), (u ''g'', YMap [(u ''a/b'', YNull)])]) None"
proof -
  have r: "parsePath [] = []" by (simp add: parsePath_def tryParsePath_def)
  show ?thesis
    by (simp add: nestHandler_def resolvePath_def r parse_slash_key delete_keys_def delete_if_present_def deleteAtPath_def
        key_path_def deleteAtPathSegments_eq setAtPath_def setAtPathSegments_eq parsePath_bare bare_u
        sub_mapping_def obj_set_all_def deepClone_id wf_data path_op_simps get_child_def descend_def
        map_sum_right_def put_child_def obj_set_def has_own_def written_def ok_def)
qed

section \<open>Moves\<close>

lemma parse_quoted_parent: "parsePath (u (CHR 0x22 # ''a'' @ CHR 0x22 # ''/b'')) = [SegKey (u ''a''), SegKey (u ''b'')]"
  by (simp add: parsePath_def tryParsePath_def u_Cons)
    (subst parse_loop.simps, simp add: read_segment_def, subst parse_loop.simps,
      simp add: read_segment_def classifyStrictRawSegment_def)

text \<open>
  The destination of a move must not lie inside its source; the check compares texts, so a quoted
  spelling of the source passes it and the value is lost although the move succeeds.
\<close>

lemma move_into_quoted_source_loses_value:
  "moveHandler (YMap [(u ''a'', YMap [])]) (u ''a'') (u (CHR 0x22 # ''a'' @ CHR 0x22 # ''/b'')) 0 = OpResult (YMap []) None"
proof -
  have s: "\<not> starts_with (u (CHR 0x22 # ''a'' @ CHR 0x22 # ''/b'')) (u ''a'' @ [slash])"
    by (simp add: starts_with_def u_Cons)
  show ?thesis
    by (simp only: moveHandler_def s resolvePath_def setAtPath_def deleteAtPath_def parse_quoted_parent)
      (simp add: setAtPathSegments_eq deleteAtPathSegments_eq deepClone_id wf_data parsePath_bare bare_u
        path_op_simps get_child_def descend_def map_sum_right_def put_child_def del_child_def obj_set_def obj_delete_def
        has_own_def ok_def)
qed

section \<open>Fold\<close>

text \<open>fold promotes the child over a sibling of the same name, whose value is lost.\<close>

lemma fold_overwrites_sibling:
  "foldHandler (YMap [(u ''a'', YMap [(u ''b'', YNull)]), (u ''b'', YBool True)]) (u ''a'') 0
     = OpResult (YMap [(u ''b'', YNull)]) None"
  by (simp add: foldHandler_def Let_def parsePath_bare bare_u path_op_simps get_child_def deepClone_id wf_data
      deleteAtPathSegments_eq setAtPathSegments_eq del_child_def obj_delete_def descend_def map_sum_right_def put_child_def
      obj_set_def has_own_def written_def ok_def)

section \<open>Writes through a scalar\<close>

text \<open>
  clone to a path below a scalar throws out of the handler, so the engine reports \<open>INVALID_OP\<close>, a code
  that yops.yaml does not list for clone.
\<close>

lemma clone_below_scalar_throws:
  "handle (Clone (u ''a'') (u ''a/b'')) (YMap [(u ''a'', YNull)]) 0 = Throws
    \<and> u (code_name INVALID_OP) \<notin> set (spec_errors (op_spec_of (Clone (u ''a'') (u ''a/b''))))"
  by (simp add: cloneHandler_def resolvePath_def parse_slash_key parsePath_bare bare_u path_op_simps get_child_def
      setAtPath_def setAtPathSegments_eq wf_data descend_def written_def deepClone_id op_spec_of_def yops_spec_lookup
      raw_defs plain_op_def)

section \<open>Text after a quoted segment\<close>

text \<open>The text after a closing quote is appended to the segment, and an empty key follows it.\<close>

lemma text_after_quote_adds_empty_key:
  "tryParsePath (u (CHR 0x22 # ''a'' @ CHR 0x22 # ''b'')) = Inr [SegKey (u ''ab''), SegKey []]"
  by (simp add: tryParsePath_def u_Cons)
    (subst parse_loop.simps, simp add: read_segment_def, subst parse_loop.simps, simp)

end
