(* ===== verification/JsUnicode.thy ===== *)
theory JsUnicode
  imports JsSort JsObject
begin

text \<open>
  The string encodings of the runtime that packages/transition relies on: the default order of
  \<open>Array.prototype.sort\<close> (UTF-16 code units), well-formed strings (no lone surrogate),
  \<open>TextEncoder\<close> and the fatal \<open>TextDecoder\<close> of UTF-8.
\<close>

section \<open>Code unit order\<close>

definition compareUnits :: "jstring \<Rightarrow> jstring \<Rightarrow> int" where
  "compareUnits a b = compare_points (map unat a) (map unat b)"

lemma compareUnits_0 [simp]: "compareUnits a b = 0 \<longleftrightarrow> a = b"
  using inj_map_eq_map [of "unat :: code_unit \<Rightarrow> nat" a b]
  by (simp add: compareUnits_def compare_points_0 inj_def flip: word_unat_eq_iff)

interpretation unit_order: js_comparator compareUnits
proof
  fix x y z
  show "compareUnits y x \<le> 0 \<longleftrightarrow> 0 \<le> compareUnits x y"
    unfolding compareUnits_def using compare_points_neg [of "map unat y" "map unat x"] by linarith
  show "compareUnits x y \<le> 0 \<Longrightarrow> compareUnits y z \<le> 0 \<Longrightarrow> compareUnits x z \<le> 0"
    unfolding compareUnits_def by (rule compare_points_trans)
qed

section \<open>Well-formed strings\<close>

fun well_formed :: "jstring \<Rightarrow> bool" where
  "well_formed [] \<longleftrightarrow> True"
| "well_formed [c] \<longleftrightarrow> \<not> is_high_surrogate c \<and> \<not> is_low_surrogate c"
| "well_formed (c # d # r) \<longleftrightarrow>
     (if is_high_surrogate c then is_low_surrogate d \<and> well_formed r
      else \<not> is_low_surrogate c \<and> well_formed (d # r))"

definition scalar :: "nat \<Rightarrow> bool" where
  "scalar n \<longleftrightarrow> n < 0x110000 \<and> \<not> (0xD800 \<le> n \<and> n \<le> 0xDFFF)"

lemma well_formed_scalars: "well_formed s \<Longrightarrow> list_all scalar (codepoints s)"
proof (induction s rule: well_formed.induct)
  case (2 c)
  then show ?case
    using unsigned_less [of c, where ?'a = nat] by (auto simp: scalar_def is_high_surrogate_def is_low_surrogate_def)
next
  case (3 c d r)
  have c: "unat c < 65536" using unsigned_less [of c, where ?'a = nat] by simp
  show ?case
  proof (cases "is_high_surrogate c")
    case True
    then have "is_low_surrogate d" "list_all scalar (codepoints r)" using 3 by simp_all
    moreover have "unat c - 0xD800 < 0x400" "unat d - 0xDC00 < 0x400"
      using True \<open>is_low_surrogate d\<close> by (auto simp: is_high_surrogate_def is_low_surrogate_def)
    ultimately show ?thesis using True by (simp add: scalar_def list_all_iff)
  next
    case False
    with 3 have "\<not> is_low_surrogate c" "list_all scalar (codepoints (d # r))" by simp_all
    moreover have "scalar (unat c)"
      using False c \<open>\<not> is_low_surrogate c\<close> by (auto simp: scalar_def is_high_surrogate_def is_low_surrogate_def)
    ultimately show ?thesis using False by simp
  qed
qed simp

section \<open>UTF-8\<close>

type_synonym byte = "8 word"

definition byte :: "nat \<Rightarrow> byte" where
  "byte n = of_nat n"

definition utf8_point :: "nat \<Rightarrow> byte list" where
  "utf8_point n =
     (if n < 0x80 then [byte n]
      else if n < 0x800 then [byte (0xC0 + n div 64), byte (0x80 + n mod 64)]
      else if n < 0x10000 then
        [byte (0xE0 + n div 4096), byte (0x80 + n div 64 mod 64), byte (0x80 + n mod 64)]
      else [byte (0xF0 + n div 262144), byte (0x80 + n div 4096 mod 64), byte (0x80 + n div 64 mod 64),
            byte (0x80 + n mod 64)])"

text \<open>\<open>TextEncoder\<close>: a lone surrogate is encoded as the replacement character.\<close>

definition utf8_encode :: "jstring \<Rightarrow> byte list" where
  "utf8_encode s = concat (map (\<lambda>n. utf8_point (if scalar n then n else 0xFFFD)) (codepoints s))"

text \<open>
  The UTF-8 decoder of the Encoding standard in fatal mode: a continuation byte is
  \<open>0x80..0xBF\<close>, narrowed after \<open>0xE0\<close>, \<open>0xED\<close>, \<open>0xF0\<close> and \<open>0xF4\<close> against overlong forms,
  surrogates and values above \<open>0x10FFFF\<close>.
\<close>

definition continues :: "nat \<Rightarrow> nat \<Rightarrow> byte \<Rightarrow> bool" where
  "continues lo hi b \<longleftrightarrow> lo \<le> unat b \<and> unat b \<le> hi"

fun decode_points :: "byte list \<Rightarrow> nat list option" where
  "decode_points [] = Some []"
| "decode_points (a # r) =
     (let n = unat a in
      if n < 0x80 then map_option (Cons n) (decode_points r)
      else if 0xC2 \<le> n \<and> n \<le> 0xDF then
        (case r of b # r' \<Rightarrow>
            if continues 0x80 0xBF b
            then map_option (Cons ((n - 0xC0) * 64 + (unat b - 0x80))) (decode_points r') else None
         | _ \<Rightarrow> None)
      else if 0xE0 \<le> n \<and> n \<le> 0xEF then
        (case r of b # c # r' \<Rightarrow>
            if continues (if n = 0xE0 then 0xA0 else 0x80) (if n = 0xED then 0x9F else 0xBF) b \<and> continues 0x80 0xBF c
            then map_option (Cons ((n - 0xE0) * 4096 + (unat b - 0x80) * 64 + (unat c - 0x80))) (decode_points r')
            else None
         | _ \<Rightarrow> None)
      else if 0xF0 \<le> n \<and> n \<le> 0xF4 then
        (case r of b # c # d # r' \<Rightarrow>
            if continues (if n = 0xF0 then 0x90 else 0x80) (if n = 0xF4 then 0x8F else 0xBF) b
               \<and> continues 0x80 0xBF c \<and> continues 0x80 0xBF d
            then map_option (Cons ((n - 0xF0) * 262144 + (unat b - 0x80) * 4096 + (unat c - 0x80) * 64 + (unat d - 0x80)))
                   (decode_points r')
            else None
         | _ \<Rightarrow> None)
      else None)"

text \<open>\<open>TextDecoder\<close> drops one leading byte order mark.\<close>

definition utf8_decode :: "byte list \<Rightarrow> jstring option" where
  "utf8_decode bs =
     (let bs' = (if take 3 bs = [byte 0xEF, byte 0xBB, byte 0xBF] then drop 3 bs else bs)
      in map_option (\<lambda>ns. concat (map utf16_encode ns)) (decode_points bs'))"

subsection \<open>What is encoded is decoded\<close>

lemma unat_byte: "n < 256 \<Longrightarrow> unat (byte n) = n"
  by (simp add: byte_def unat_of_nat take_bit_eq_mod)

lemma base64_digits:
  "x * 64 + m = n \<Longrightarrow> y * 64 + t = x \<Longrightarrow> q * 64 + p = y \<Longrightarrow> q * 262144 + p * 4096 + t * 64 + m = n"
  for n :: nat
  by simp

lemma decode_point:
  assumes "scalar n"
  shows "decode_points (utf8_point n @ r) = map_option (Cons n) (decode_points r)"
proof -
  have n: "n < 0x110000" "\<not> (0xD800 \<le> n \<and> n \<le> 0xDFFF)" using assms by (simp_all add: scalar_def)
  consider "n < 0x80" | "0x80 \<le> n" "n < 0x800" | "0x800 \<le> n" "n < 0x10000" | "0x10000 \<le> n" by linarith
  then show ?thesis
  proof cases
    case 1
    then show ?thesis by (simp add: utf8_point_def unat_byte)
  next
    case 2
    obtain q m where q: "n div 64 = q" and m: "n mod 64 = m" by blast
    have "2 \<le> q" "q \<le> 31" "m \<le> 63" "q * 64 + m = n" using 2 by (auto simp flip: q m)
    then show ?thesis using 2 by (simp add: utf8_point_def unat_byte continues_def Let_def q m)
  next
    case 3
    have d: "n div 4096 < 16" "n div 64 mod 64 < 64" "n mod 64 < 64" using 3 by simp_all
    have e: "n div 4096 * 4096 + n div 64 mod 64 * 64 + n mod 64 = n"
    proof -
      have "n div 4096 = n div 64 div 64" by (simp flip: div_mult2_eq)
      then show ?thesis using mult_div_mod_eq [of 64 n] mult_div_mod_eq [of 64 "n div 64"] by linarith
    qed
    have l: "n div 4096 = 0 \<Longrightarrow> 32 \<le> n div 64 mod 64" "n div 4096 = 13 \<Longrightarrow> n div 64 mod 64 < 32"
      using 3 n e d by linarith+
    obtain q p m where q: "n div 4096 = q" and p: "n div 64 mod 64 = p" and m: "n mod 64 = m" by blast
    have "q \<le> 15" "p \<le> 63" "m \<le> 63" "q * 4096 + p * 64 + m = n" "q = 0 \<Longrightarrow> 32 \<le> p" "q = 13 \<Longrightarrow> p \<le> 31"
      using d e l unfolding q p m by linarith+
    then show ?thesis using 3 by (simp add: utf8_point_def unat_byte continues_def Let_def q p m)
  next
    case 4
    have d: "n div 262144 < 5" "n div 4096 mod 64 < 64" "n div 64 mod 64 < 64" "n mod 64 < 64" using n by simp_all
    have e: "n div 262144 * 262144 + n div 4096 mod 64 * 4096 + n div 64 mod 64 * 64 + n mod 64 = n"
    proof -
      have "n div 4096 = n div 64 div 64" "n div 262144 = n div 64 div 64 div 64" by (simp_all flip: div_mult2_eq)
      then show ?thesis
        using base64_digits [OF div_mult_mod_eq [of n 64] div_mult_mod_eq [of "n div 64" 64]
            div_mult_mod_eq [of "n div 64 div 64" 64]] by (simp only:)
    qed
    obtain q p t m where q: "n div 262144 = q" and p: "n div 4096 mod 64 = p" and t: "n div 64 mod 64 = t"
      and m: "n mod 64 = m" by blast
    note de = d [unfolded q p t m] e [unfolded q p t m]
    have "q \<le> 4" "p \<le> 63" "t \<le> 63" "m \<le> 63" "q * 262144 + p * 4096 + t * 64 + m = n"
      using de by simp_all
    moreover have "q = 0 \<Longrightarrow> 16 \<le> p" "q = 4 \<Longrightarrow> p \<le> 15" using de 4 n(1) by linarith+
    ultimately show ?thesis using 4 by (simp add: utf8_point_def unat_byte continues_def Let_def q p t m)
  qed
qed

lemma decode_scalars: "list_all scalar ns \<Longrightarrow> decode_points (concat (map utf8_point ns)) = Some ns"
  by (induction ns) (simp_all add: decode_point)

lemma utf8_encode_well_formed:
  "well_formed s \<Longrightarrow> utf8_encode s = concat (map utf8_point (codepoints s))"
  unfolding utf8_encode_def using well_formed_scalars [of s]
  by (intro arg_cong [where f = concat] map_cong) (auto simp: list_all_iff)

lemma utf8_first_ascii:
  assumes "unat c < 128"
  shows "\<exists>r. utf8_encode (c # s) = byte (unat c) # r"
proof -
  have "\<exists>ns. codepoints (c # s) = unat c # ns"
    using assms by (cases s) (auto simp: is_high_surrogate_def)
  then show ?thesis using assms by (auto simp: utf8_encode_def utf8_point_def scalar_def)
qed

theorem utf8_roundtrip:
  assumes "well_formed (c # s)" "unat c < 128"
  shows "utf8_decode (utf8_encode (c # s)) = Some (c # s)"
proof -
  obtain r where r: "utf8_encode (c # s) = byte (unat c) # r" using utf8_first_ascii [OF assms(2)] by blast
  have "byte (unat c) \<noteq> byte 0xEF" using assms(2) unat_byte [of "unat c"] unat_byte [of "0xEF"] by auto
  then have "utf8_decode (utf8_encode (c # s)) = map_option (\<lambda>ns. concat (map utf16_encode ns)) (decode_points (utf8_encode (c # s)))"
    by (simp add: utf8_decode_def Let_def r)
  also have "\<dots> = Some (c # s)"
    using decode_scalars [OF well_formed_scalars [OF assms(1)]]
    unfolding utf8_encode_well_formed [OF assms(1)] by (simp add: utf16_roundtrip)
  finally show ?thesis .
qed

lemma utf8_inj:
  assumes "well_formed a" "well_formed b" "utf8_encode a = utf8_encode b"
  shows "a = b"
proof -
  have "Some (codepoints a) = Some (codepoints b)"
    using assms(3) unfolding utf8_encode_well_formed [OF assms(1)] utf8_encode_well_formed [OF assms(2)]
    using decode_scalars [OF well_formed_scalars [OF assms(1)]] decode_scalars [OF well_formed_scalars [OF assms(2)]]
    by metis
  then show ?thesis by simp
qed

section \<open>Bytewise order\<close>

fun compare_bytes :: "byte list \<Rightarrow> byte list \<Rightarrow> int" where
  "compare_bytes [] bs = - int (length bs)"
| "compare_bytes as [] = int (length as)"
| "compare_bytes (a # as) (b # bs) =
     (if a \<noteq> b then uint a - uint b else compare_bytes as bs)"

lemma compare_bytes_0 [simp]: "compare_bytes a b = 0 \<longleftrightarrow> a = b"
  by (induction a b rule: compare_bytes.induct) (auto simp: word_uint_eq_iff)

lemma compare_bytes_neg: "compare_bytes b a = - compare_bytes a b"
proof (induction a b rule: compare_bytes.induct)
  case (1 bs)
  then show ?case by (cases bs) auto
qed auto

lemma compare_bytes_trans: "compare_bytes a b \<le> 0 \<Longrightarrow> compare_bytes b c \<le> 0 \<Longrightarrow> compare_bytes a c \<le> 0"
proof (induction a b arbitrary: c rule: compare_bytes.induct)
  case (3 a as b bs)
  then show ?case by (cases c) (auto simp: word_uint_eq_iff split: if_splits)
qed auto

end
