(* ===== verification/JsDouble.thy ===== *)
theory JsDouble
  imports Complex_Main JsNumber
begin

text \<open>
  \<open>Number(text)\<close> of the runtime: the decimal that a text spells is rounded to the nearest binary64
  (ties to even), overflow is infinite, and the result is named by its shortest decimal, as
  Number::toString of ECMA-262 chooses it. A finite binary64 is \<open>m * 2 ^ e\<close> with \<open>m < 2 ^ 53\<close>,
  \<open>-1074 \<le> e \<le> 971\<close> and \<open>2 ^ 52 \<le> m\<close> unless \<open>e = -1074\<close>.
\<close>

section \<open>Rounding to binary64\<close>

fun bits :: "nat \<Rightarrow> nat" where
  "bits n = (if n = 0 then 0 else Suc (bits (n div 2)))"

declare bits.simps [simp del]

definition half_even :: "nat \<Rightarrow> nat \<Rightarrow> nat" where
  "half_even p q = (let d = p div q; r = p mod q in
     if 2 * r < q \<or> (2 * r = q \<and> even d) then d else d + 1)"

text \<open>The quotient \<open>a / b\<close> in units of \<open>2 ^ e\<close>, as a fraction.\<close>

definition num_units :: "nat \<Rightarrow> int \<Rightarrow> nat" where
  "num_units a e = a * 2 ^ nat (- e)"

definition den_units :: "nat \<Rightarrow> int \<Rightarrow> nat" where
  "den_units b e = b * 2 ^ nat e"

definition double_exponent :: "nat \<Rightarrow> nat \<Rightarrow> int" where
  "double_exponent a b =
     (let e = int (bits a) - int (bits b) - 53
      in max (-1074) (if 2 ^ 53 * den_units b e \<le> num_units a e then e + 1 else e))"

definition nearest_double :: "nat \<Rightarrow> nat \<Rightarrow> (nat \<times> int) option" where
  "nearest_double a b =
     (let e = double_exponent a b; m = half_even (num_units a e) (den_units b e);
          (m, e) = (if m = 2 ^ 53 then (2 ^ 52, e + 1) else (m, e))
      in if e > 971 then None else Some (m, e))"

text \<open>The binary64 nearest to \<open>s * 10 ^ x\<close>.\<close>

definition read_decimal :: "nat \<Rightarrow> int \<Rightarrow> (nat \<times> int) option" where
  "read_decimal s x = nearest_double (s * 10 ^ nat x) (10 ^ nat (- x))"

section \<open>The shortest decimal\<close>

text \<open>The exact decimal of a binary64; \<open>2 ^ - k = 5 ^ k * 10 ^ - k\<close>.\<close>

definition exact_decimal :: "nat \<times> int \<Rightarrow> nat \<times> int" where
  "exact_decimal d = (case d of (m, e) \<Rightarrow> if 0 \<le> e then (m * 2 ^ nat e, 0) else (m * 5 ^ nat (- e), e))"

function shortest_from :: "nat \<times> int \<Rightarrow> nat \<Rightarrow> nat \<Rightarrow> nat \<Rightarrow> int \<Rightarrow> nat \<times> int" where
  "shortest_from d k n s x =
     (if n \<le> k then (s, x)
      else let unit = 10 ^ (n - k); c = s div unit; y = x + int (n - k);
               low = read_decimal c y = Some d; high = read_decimal (c + 1) y = Some d;
               closer = 2 * (s mod unit) < unit \<or> (2 * (s mod unit) = unit \<and> even c)
           in if low \<and> (closer \<or> \<not> high) then (c, y)
              else if high then (c + 1, y)
              else shortest_from d (k + 1) n s x)"
  by pat_completeness auto
termination
  by (relation "measure (\<lambda>(d, k, n, s, x). n - k)") auto

declare shortest_from.simps [simp del]

definition shortest_decimal :: "nat \<times> int \<Rightarrow> nat \<times> int" where
  "shortest_decimal d = (case exact_decimal d of (s, x) \<Rightarrow> shortest_from d 1 (length (dec_digits s)) s x)"

section \<open>Number\<close>

text \<open>The number that a decimal denotes; \<open>None\<close> where it overflows to infinity.\<close>

definition js_number :: "int \<times> int \<Rightarrow> jsnum option" where
  "js_number d =
     (if fst d = 0 then Some (num_int 0)
      else case read_decimal (nat \<bar>fst d\<bar>) (snd d) of
        None \<Rightarrow> None
      | Some (m, e) \<Rightarrow> if m = 0 then Some (num_int 0)
          else (case shortest_decimal (m, e) of (s, x) \<Rightarrow> Some (mk_num (sgn (fst d) * int s) x)))"

definition is_double :: "jsnum \<Rightarrow> bool" where
  "is_double n \<longleftrightarrow> js_number (num_decimal n) = Some n"

lemma is_double_0: "is_double (num_int 0)"
  by (simp add: is_double_def js_number_def normalize.simps)

section \<open>Rounding depends on the quotient alone\<close>

lemma bits_bounds: "0 < n \<Longrightarrow> 0 < bits n \<and> 2 ^ (bits n - 1) \<le> n \<and> n < 2 ^ bits n"
proof (induction n rule: bits.induct)
  case (1 n)
  show ?case
  proof (cases "n = 1")
    case True
    then show ?thesis by (simp add: bits.simps [of "Suc 0"] bits.simps [of 0])
  next
    case False
    with 1 have h: "0 < bits (n div 2)" "2 ^ (bits (n div 2) - 1) \<le> n div 2" "n div 2 < 2 ^ bits (n div 2)" by simp_all
    then have "2 * 2 ^ (bits (n div 2) - 1) \<le> n" "n < 2 * 2 ^ bits (n div 2)" by linarith+
    moreover have "(2::nat) * 2 ^ (bits (n div 2) - 1) = 2 ^ bits (n div 2)"
      using h(1) by (cases "bits (n div 2)") simp_all
    ultimately show ?thesis using 1(2) by (subst (1 2 3) bits.simps) simp
  qed
qed

definition ratio :: "nat \<Rightarrow> nat \<Rightarrow> int \<Rightarrow> real" where
  "ratio a b e = real a / real b * 2 powi (- e)"

lemma ratio_add: "ratio a b (e + d) = ratio a b e / 2 powi d"
  by (simp add: ratio_def power_int_diff field_simps power_int_minus power_int_add)

lemma ratio_mono: "e \<le> e' \<Longrightarrow> ratio a b e' \<le> ratio a b e"
  unfolding ratio_def by (intro mult_left_mono power_int_increasing) simp_all

lemma den_units_pos: "0 < b \<Longrightarrow> 0 < den_units b e"
  by (simp add: den_units_def)

lemma num_units_ratio: "0 < b \<Longrightarrow> real (num_units a e) = ratio a b e * real (den_units b e)"
  by (cases "0 \<le> e") (simp_all add: num_units_def den_units_def ratio_def power_int_def field_simps)

lemma num_units_le_iff: "0 < b \<Longrightarrow> k * den_units b e \<le> num_units a e \<longleftrightarrow> real k \<le> ratio a b e"
  and num_units_less_iff: "0 < b \<Longrightarrow> num_units a e < k * den_units b e \<longleftrightarrow> ratio a b e < real k"
proof -
  assume b: "0 < b"
  have p: "0 < real (den_units b e)" using den_units_pos [OF b] by simp
  have "k * den_units b e \<le> num_units a e \<longleftrightarrow> real k * real (den_units b e) \<le> ratio a b e * real (den_units b e)"
    by (simp flip: num_units_ratio [OF b] of_nat_mult)
  with p show "k * den_units b e \<le> num_units a e \<longleftrightarrow> real k \<le> ratio a b e" by simp
  have "num_units a e < k * den_units b e \<longleftrightarrow> ratio a b e * real (den_units b e) < real k * real (den_units b e)"
    by (simp flip: num_units_ratio [OF b] of_nat_mult)
  with p show "num_units a e < k * den_units b e \<longleftrightarrow> ratio a b e < real k" by simp
qed

lemma ratio_normal_unique:
  assumes "2 ^ 52 \<le> ratio a b e" "ratio a b e < 2 ^ 53" "2 ^ 52 \<le> ratio a b e'" "ratio a b e' < 2 ^ 53"
  shows "e = e'"
proof -
  have "\<not> f < f'" if "2 ^ 52 \<le> ratio a b f'" "ratio a b f < 2 ^ 53" for f f'
  proof
    assume "f < f'"
    then have "ratio a b f' \<le> ratio a b (f + 1)" by (intro ratio_mono) simp
    also have "\<dots> = ratio a b f / 2" by (simp add: ratio_add)
    finally show False using that by simp
  qed
  from this [OF assms(1,4)] this [OF assms(3,2)] show ?thesis by linarith
qed

definition free_exponent :: "nat \<Rightarrow> nat \<Rightarrow> int" where
  "free_exponent a b = (let e = int (bits a) - int (bits b) - 53 in if 2 ^ 53 * den_units b e \<le> num_units a e then e + 1 else e)"

lemma double_exponent_free: "double_exponent a b = max (-1074) (free_exponent a b)"
  by (simp add: double_exponent_def free_exponent_def Let_def)

lemma free_exponent_normal:
  assumes "0 < a" "0 < b"
  shows "2 ^ 52 \<le> ratio a b (free_exponent a b) \<and> ratio a b (free_exponent a b) < 2 ^ 53"
proof -
  let ?i = "bits a" and ?j = "bits b" and ?e = "int (bits a) - int (bits b) - 53"
  have a: "2 ^ (?i - 1) \<le> real a" "real a < 2 ^ ?i" "0 < ?i"
    using bits_bounds [OF assms(1)] by simp_all
  have b: "2 ^ (?j - 1) \<le> real b" "real b < 2 ^ ?j" "0 < ?j" "0 < real b"
    using bits_bounds [OF assms(2)] assms(2) by simp_all
  have p: "(2::real) powi (- ?e) = 2 ^ 53 * 2 ^ ?j / 2 ^ ?i"
  proof -
    have "- ?e = int (53 + ?j) - int ?i" by simp
    then have "(2::real) powi (- ?e) = 2 powi int (53 + ?j) / 2 powi int ?i"
      by (simp only: power_int_diff [OF disjI1] numeral_neq_zero not_False_eq_True)
    then show ?thesis unfolding power_int_of_nat power_add .
  qed
  have ai: "2 * 2 ^ (?i - 1) = (2::real) ^ ?i" using a(3) by (cases ?i) simp_all
  have bj: "2 * 2 ^ (?j - 1) = (2::real) ^ ?j" using b(3) by (cases ?j) simp_all
  have lower: "2 ^ 52 \<le> ratio a b ?e"
  proof -
    have "2 ^ ?i \<le> 2 * real a" "real b \<le> 2 ^ ?j" using a(1) b(2) ai by linarith+
    then have "2 ^ 52 * (real b * 2 ^ ?i) \<le> 2 ^ 52 * (2 ^ ?j * (2 * real a))"
      by (intro mult_left_mono mult_mono) simp_all
    then show ?thesis using b(4) unfolding ratio_def p by (simp add: field_simps)
  qed
  have upper: "ratio a b ?e < 2 ^ 54"
  proof -
    have "2 ^ ?j \<le> 2 * real b" "0 < real a" using b(1) bj assms(1) by linarith+
    then have "real a * 2 ^ ?j < 2 ^ ?i * (2 * real b)"
      using a(2) by (intro mult_less_le_imp_less) simp_all
    then show ?thesis using b(4) unfolding ratio_def p by (simp add: field_simps)
  qed
  have "ratio a b (?e + 1) = ratio a b ?e / 2" using ratio_add [of a b ?e 1] by (simp only: power_int_1_right)
  then show ?thesis
    using lower upper num_units_le_iff [OF assms(2), of "2 ^ 53" ?e a] by (simp add: free_exponent_def Let_def)
qed

lemma half_even_scale: "0 < c \<Longrightarrow> half_even (p * c) (q * c) = half_even p q"
  by (simp add: half_even_def Let_def flip: mult.assoc)

lemma half_even_exact: "0 < q \<Longrightarrow> half_even (m * q) q = m"
  by (simp add: half_even_def)

lemma half_even_lower: "0 < q \<Longrightarrow> k * q \<le> p \<Longrightarrow> k \<le> half_even p q"
  by (auto simp: half_even_def Let_def less_eq_div_iff_mult_less_eq intro: le_SucI)

lemma half_even_upper: "0 < q \<Longrightarrow> p < k * q \<Longrightarrow> half_even p q \<le> k"
  by (auto simp: half_even_def Let_def div_less_iff_less_mult Suc_le_eq intro: less_imp_le)

lemma nearest_double_cong:
  assumes "0 < a" "0 < b" "0 < a'" "0 < b'" and eq: "a * b' = a' * b"
  shows "nearest_double a b = nearest_double a' b'"
proof -
  have r: "ratio a b e = ratio a' b' e" for e
    using assms(2,4) eq by (simp add: ratio_def frac_eq_eq flip: of_nat_mult)
  have f: "free_exponent a b = free_exponent a' b'"
    using free_exponent_normal [OF assms(1,2)] free_exponent_normal [OF assms(3,4)] unfolding r
    by (blast intro: ratio_normal_unique)
  have h: "half_even (num_units a e) (den_units b e) = half_even (num_units a' e) (den_units b' e)" for e
  proof -
    have "num_units a e * den_units b' e = num_units a' e * den_units b e"
    proof -
      have "a * X * (b' * Y) = a' * X * (b * Y)" for X Y :: nat
        using arg_cong [OF eq, of "\<lambda>z. z * (X * Y)"] by (simp only: ac_simps)
      then show ?thesis unfolding num_units_def den_units_def .
    qed
    then have "half_even (num_units a e * den_units b' e) (den_units b e * den_units b' e) = half_even (num_units a' e * den_units b e) (den_units b' e * den_units b e)"
      by (simp only: mult.commute)
    then show ?thesis unfolding half_even_scale [OF den_units_pos [OF assms(4)]] half_even_scale [OF den_units_pos [OF assms(2)]] .
  qed
  show ?thesis unfolding nearest_double_def double_exponent_free f h ..
qed

section \<open>A rounded number rounds to itself\<close>

definition double_ok :: "nat \<times> int \<Rightarrow> bool" where
  "double_ok d \<longleftrightarrow> fst d < 2 ^ 53 \<and> -1074 \<le> snd d \<and> snd d \<le> 971 \<and> (2 ^ 52 \<le> fst d \<or> snd d = -1074)"

lemma nearest_double_ok:
  assumes "0 < a" "0 < b" "nearest_double a b = Some d"
  shows "double_ok d"
proof -
  let ?f = "free_exponent a b" let ?e = "max (-1074) ?f"
  let ?m = "half_even (num_units a ?e) (den_units b ?e)"
  have f: "2 ^ 52 \<le> ratio a b ?f" "ratio a b ?f < 2 ^ 53" using free_exponent_normal [OF assms(1,2)] by auto
  have "ratio a b ?e \<le> ratio a b ?f" by (rule ratio_mono) simp
  then have "num_units a ?e < 2 ^ 53 * den_units b ?e" using f(2) num_units_less_iff [OF assms(2), of a ?e "2 ^ 53"] by simp
  then have up: "?m \<le> 2 ^ 53" using half_even_upper den_units_pos [OF assms(2)] by blast
  have low: "2 ^ 52 \<le> ?m" if "-1074 \<le> ?f"
    using that f(1) num_units_le_iff [OF assms(2), of "2 ^ 52" ?f a] den_units_pos [OF assms(2)]
    by (intro half_even_lower) (simp_all add: max_absorb2)
  from assms(3) have "d = (if ?m = 2 ^ 53 then (2 ^ 52, ?e + 1) else (?m, ?e))" "snd d \<le> 971"
    by (auto simp: nearest_double_def double_exponent_free Let_def split: if_splits)
  then show ?thesis using up low by (auto simp: double_ok_def max_def split: if_splits)
qed

lemma nearest_double_exact:
  assumes "double_ok (m, e)" "0 < m" "0 < a" "0 < b" and eq: "ratio a b e = real m"
  shows "nearest_double a b = Some (m, e)"
proof -
  let ?f = "free_exponent a b"
  have f: "2 ^ 52 \<le> ratio a b ?f" "ratio a b ?f < 2 ^ 53" using free_exponent_normal [OF assms(3,4)] by auto
  have m: "real m < 2 ^ 53" using assms(1) by (simp add: double_ok_def)
  have e: "max (-1074) ?f = e"
  proof (cases "2 ^ 52 \<le> m")
    case True
    then have "2 ^ 52 \<le> real m" by simp
    then have "?f = e" using m by (intro ratio_normal_unique [OF f]) (simp_all only: eq)
    then show ?thesis using assms(1) by (simp add: double_ok_def)
  next
    case False
    then have sub: "e = -1074" "real m < 2 ^ 52" using assms(1) by (simp_all add: double_ok_def)
    have "?f < -1074"
    proof (rule ccontr)
      assume "\<not> ?f < -1074"
      then have "ratio a b ?f \<le> ratio a b e" by (intro ratio_mono) (simp add: sub)
      then show False using f(1) sub(2) eq by simp
    qed
    then show ?thesis using sub(1) by simp
  qed
  have "real (num_units a e) = real (m * den_units b e)" using num_units_ratio [OF assms(4), of a e] by (simp add: eq)
  then have "num_units a e = m * den_units b e" by (simp only: of_nat_eq_iff)
  then have "half_even (num_units a e) (den_units b e) = m" using half_even_exact [OF den_units_pos [OF assms(4)]] by simp
  then show ?thesis
    using assms(1) by (simp add: nearest_double_def double_exponent_free e Let_def double_ok_def)
qed

lemma read_exact:
  assumes "double_ok (m, e)" "0 < m" "exact_decimal (m, e) = (s, x)"
  shows "read_decimal s x = Some (m, e) \<and> 0 < s"
proof (cases "0 \<le> e")
  case True
  then have s: "s = m * 2 ^ nat e" "x = 0" using assms(3) by (simp_all add: exact_decimal_def)
  have "ratio (m * 2 ^ nat e) 1 e = real m" unfolding ratio_def power_int_minus using True by (simp add: power_int_def)
  then show ?thesis using assms(1,2) s by (simp add: read_decimal_def nearest_double_exact)
next
  case False
  then have s: "s = m * 5 ^ nat (- e)" "x = e" using assms(3) by (auto simp: exact_decimal_def)
  have t: "(10::real) ^ k = 5 ^ k * 2 ^ k" for k by (simp flip: power_mult_distrib)
  have "ratio (m * 5 ^ nat (- e)) (10 ^ nat (- e)) e = real m"
    using False by (simp add: ratio_def power_int_def t)
  then show ?thesis using assms(1,2) s False by (simp add: read_decimal_def nearest_double_exact)
qed

lemma shortest_reads: "read_decimal s x = Some d \<Longrightarrow> shortest_from d k n s x = (s', x') \<Longrightarrow> read_decimal s' x' = Some d"
proof (induction d k n s x rule: shortest_from.induct)
  case (1 d k n s x)
  show ?case
  proof (cases "n \<le> k")
    case True
    then show ?thesis using 1 by (simp add: shortest_from.simps [of d k])
  next
    case False
    then show ?thesis using 1 by (simp add: shortest_from.simps [of d k] Let_def split: if_splits)
  qed
qed

lemma read_decimal_pos: "0 < s \<Longrightarrow> read_decimal s x = Some d \<Longrightarrow> double_ok d"
  unfolding read_decimal_def by (rule nearest_double_ok) simp_all

lemma read_decimal_shift: "0 < s \<Longrightarrow> read_decimal (s * 10 ^ j) x = read_decimal s (x + int j)"
proof -
  assume s: "0 < s"
  have "s * 10 ^ j * 10 ^ nat x * 10 ^ nat (- (x + int j)) = s * 10 ^ nat (x + int j) * 10 ^ nat (- x)"
  proof -
    have "j + nat x + nat (- (x + int j)) = nat (x + int j) + nat (- x)" by linarith
    then show ?thesis by (simp only: mult.assoc flip: power_add)
  qed
  then show ?thesis unfolding read_decimal_def using s by (intro nearest_double_cong) simp_all
qed

lemma read_normalize:
  assumes "normalize s x = (t, y)" "s \<noteq> 0"
  shows "read_decimal (nat \<bar>s\<bar>) x = read_decimal (nat \<bar>t\<bar>) y \<and> t \<noteq> 0 \<and> sgn t = sgn s"
  using assms
proof (induction s x rule: normalize.induct)
  case (1 s x)
  show ?case
  proof (cases "10 dvd s")
    case True
    then obtain r where r: "s = 10 * r" by blast
    with 1 True have "read_decimal (nat \<bar>r\<bar>) (x + 1) = read_decimal (nat \<bar>t\<bar>) y \<and> t \<noteq> 0 \<and> sgn t = sgn r"
      by (simp add: normalize.simps [of "10 * r"])
    moreover have "nat \<bar>s\<bar> = nat \<bar>r\<bar> * 10 ^ 1" using r by (simp add: abs_mult nat_mult_distrib)
    ultimately show ?thesis
      using read_decimal_shift [of "nat \<bar>r\<bar>" 1 x] r 1(3) by (simp add: sgn_mult)
  next
    case False
    with 1 show ?thesis by (simp add: normalize.simps [of s])
  qed
qed

lemma half_even_0: "half_even 0 q = 0"
  by (auto simp: half_even_def)

lemma read_zero: "read_decimal 0 x = Some (m, e) \<Longrightarrow> m = 0"
  by (simp add: read_decimal_def nearest_double_def num_units_def half_even_0 Let_def split: if_splits)

text \<open>The decimal that names a number reads as the same binary64, with the same sign.\<close>

lemma js_number_reads:
  assumes "js_number d = Some n" "fst d \<noteq> 0" "read_decimal (nat \<bar>fst d\<bar>) (snd d) = Some (m, e)" "0 < m"
  shows "read_decimal (nat \<bar>fst (num_decimal n)\<bar>) (snd (num_decimal n)) = Some (m, e)
    \<and> sgn (fst (num_decimal n)) = sgn (fst d) \<and> is_double n"
proof -
  obtain s x where r: "shortest_decimal (m, e) = (s, x)" "n = mk_num (sgn (fst d) * int s) x"
    using assms by (auto simp: js_number_def split: prod.splits)
  have ok: "double_ok (m, e)" using assms(2,3) by (intro read_decimal_pos) simp_all
  obtain s0 x0 where e: "exact_decimal (m, e) = (s0, x0)" by fastforce
  have "read_decimal s0 x0 = Some (m, e)" using read_exact [OF ok assms(4) e] by blast
  then have s: "read_decimal s x = Some (m, e)"
    by (rule shortest_reads) (use r(1) e in \<open>simp add: shortest_decimal_def\<close>)
  have s0: "s \<noteq> 0" using s assms(4) read_zero [of x m e] by (cases "s = 0") simp_all
  let ?t = "sgn (fst d) * int s"
  have t: "?t \<noteq> 0" "nat \<bar>?t\<bar> = s" "sgn ?t = sgn (fst d)"
    using assms(2) s0 by (simp_all add: abs_mult sgn_mult sgn_0_0)
  obtain t' y where y: "normalize ?t x = (t', y)" by fastforce
  from read_normalize [OF y t(1)] s t
  have "read_decimal (nat \<bar>t'\<bar>) y = Some (m, e)" "t' \<noteq> 0" "sgn t' = sgn (fst d)" by simp_all
  moreover have "num_decimal n = (t', y)" by (simp add: r(2) y)
  ultimately show ?thesis using assms(4) r by (simp add: is_double_def js_number_def)
qed

theorem js_number_rounds: "js_number d = Some n \<Longrightarrow> is_double n"
proof -
  assume n: "js_number d = Some n"
  show ?thesis
  proof (cases "n = num_int 0")
    case True
    then show ?thesis using is_double_0 by simp
  next
    case False
    with n obtain m e where "fst d \<noteq> 0" "read_decimal (nat \<bar>fst d\<bar>) (snd d) = Some (m, e)" "0 < m"
      by (auto simp: js_number_def split: if_splits option.splits prod.splits)
    with js_number_reads [OF n] show ?thesis by blast
  qed
qed

end
