(* ===== verification/TransitionTypes.thy ===== *)
theory TransitionTypes
  imports YValue
begin

text \<open>
  packages/transition/src/contracts.ts and errors.ts: the vocabulary of the Transition protocol. A
  protocol value is a \<open>yvalue\<close>; the four protocol objects (State, Effect, Statement, CommitV2) are
  typed records, and \<open>object_value\<close> is the protocol value that the runtime holds for one. The
  schema of a descriptor is fixed by its kind, so a descriptor keeps its kind and its digest.
  Messages and diagnostic paths of errors are not modelled.
\<close>

section \<open>Errors\<close>

datatype protocol_error_code =
    OBJECT_NOT_FOUND
  | OBJECT_DIGEST_MISMATCH
  | UNSUPPORTED_MEDIA_TYPE
  | UNSUPPORTED_SEMANTICS
  | SCHEMA_INVALID
  | NON_CANONICAL_VALUE
  | INTEGRITY_CHAIN_INVALID
  | EFFECT_CLAIM_FALSE
  | STALE_BASE

text \<open>What a protocol function throws: a protocol error, the replay control signal, or anything
  else that a driver throws.\<close>

datatype thrown =
    TransitionProtocolError protocol_error_code
  | ReplayPreconditionFailedError
  | OtherError

section \<open>Constants\<close>

definition STATE_SCHEMA :: jstring where "STATE_SCHEMA = u ''t3x/state/v1''"
definition EFFECT_SCHEMA :: jstring where "EFFECT_SCHEMA = u ''t3x/effect/v1''"
definition STATEMENT_SCHEMA :: jstring where "STATEMENT_SCHEMA = u ''t3x/statement/v1''"
definition COMMIT_V2_SCHEMA :: jstring where "COMMIT_V2_SCHEMA = u ''t3x/commit/v2''"
definition PROPOSAL_PREDICATE_TYPE :: jstring where "PROPOSAL_PREDICATE_TYPE = u ''t3x.proposal/v1''"
definition DECISION_PREDICATE_TYPE :: jstring where "DECISION_PREDICATE_TYPE = u ''t3x.decision/v1''"
definition PROTOCOL_HASH_ALGORITHM :: jstring where "PROTOCOL_HASH_ALGORITHM = u ''sha256''"
definition PROTOCOL_DIGEST_DOMAIN :: jstring where "PROTOCOL_DIGEST_DOMAIN = u ''t3x-object-v1''"

lemmas schema_defs = STATE_SCHEMA_def EFFECT_SCHEMA_def STATEMENT_SCHEMA_def COMMIT_V2_SCHEMA_def
lemmas predicate_type_defs = PROPOSAL_PREDICATE_TYPE_def DECISION_PREDICATE_TYPE_def

datatype object_kind = KState | KEffect | KStatement | KCommit

fun object_kind_name :: "object_kind \<Rightarrow> jstring" where
  "object_kind_name KState = u ''state''"
| "object_kind_name KEffect = u ''effect''"
| "object_kind_name KStatement = u ''statement''"
| "object_kind_name KCommit = u ''commit''"

fun expectedSchema :: "object_kind \<Rightarrow> jstring" where
  "expectedSchema KState = STATE_SCHEMA"
| "expectedSchema KEffect = EFFECT_SCHEMA"
| "expectedSchema KStatement = STATEMENT_SCHEMA"
| "expectedSchema KCommit = COMMIT_V2_SCHEMA"

section \<open>Descriptors and references\<close>

record object_descriptor =
  desc_kind :: object_kind
  desc_digest :: jstring

record resource_descriptor =
  res_uri :: jstring
  res_media_type :: jstring
  res_digest :: jstring

datatype actor_kind = Human | Agent | Service

record actor_ref =
  actor_kind :: actor_kind
  actor_id :: jstring

record evidence_ref =
  ev_resource :: resource_descriptor
  ev_scheme :: jstring
  ev_value :: yvalue

record state_codec_ref =
  codec_media_type :: jstring
  codec_version :: jstring

record mutation_driver_ref =
  drv_protocol :: jstring
  drv_version :: jstring
  drv_digest :: jstring

section \<open>Protocol objects\<close>

record state_object =
  st_codec :: state_codec_ref
  st_value :: yvalue

record effect_input =
  in_role :: jstring
  in_object :: object_descriptor

record effect_definition =
  ed_driver :: mutation_driver_ref
  ed_operations :: "yvalue list"
  ed_inputs :: "effect_input list"

record effect_object =
  ef_base :: object_descriptor
  ef_definition :: effect_definition
  ef_result :: object_descriptor

datatype claim_mode = Stated | Inferred | Authored

datatype string_claim =
    Claim claim_mode jstring "evidence_ref list"
  | Unspecified

datatype decision_policy = Evaluated resource_descriptor | NotEvaluated
datatype decision_outcome = Accepted | Overridden | Rejected

record decision_predicate =
  dp_policy :: decision_policy
  dp_considered :: "object_descriptor list"
  dp_outcome :: decision_outcome
  dp_rationale :: string_claim
  dp_decided_at :: jstring

text \<open>A predicate with its type; the core types have closed shapes, the others are open.\<close>

datatype statement_predicate =
    Proposal string_claim string_claim
  | Decision decision_predicate
  | External jstring yvalue

record statement_object =
  sm_subjects :: "object_descriptor list"
  sm_actor :: actor_ref
  sm_predicate :: statement_predicate

record commit_object =
  cm_parents :: "object_descriptor list"
  cm_decision :: object_descriptor
  cm_result :: object_descriptor

datatype protocol_object =
    PState state_object
  | PEffect effect_object
  | PStatement statement_object
  | PCommit commit_object

fun object_kind_of :: "protocol_object \<Rightarrow> object_kind" where
  "object_kind_of (PState _) = KState"
| "object_kind_of (PEffect _) = KEffect"
| "object_kind_of (PStatement _) = KStatement"
| "object_kind_of (PCommit _) = KCommit"

fun predicate_type :: "statement_predicate \<Rightarrow> jstring" where
  "predicate_type (Proposal _ _) = PROPOSAL_PREDICATE_TYPE"
| "predicate_type (Decision _) = DECISION_PREDICATE_TYPE"
| "predicate_type (External t _) = t"

section \<open>The protocol value of an object\<close>

definition descriptor_value :: "object_descriptor \<Rightarrow> yvalue" where
  "descriptor_value d = YMap [(u ''kind'', YStr (object_kind_name (desc_kind d))),
     (u ''schema'', YStr (expectedSchema (desc_kind d))), (u ''digest'', YStr (desc_digest d))]"

definition resource_value :: "resource_descriptor \<Rightarrow> yvalue" where
  "resource_value r = YMap [(u ''uri'', YStr (res_uri r)), (u ''mediaType'', YStr (res_media_type r)),
     (u ''digest'', YStr (res_digest r))]"

fun actor_kind_name :: "actor_kind \<Rightarrow> jstring" where
  "actor_kind_name Human = u ''human''"
| "actor_kind_name Agent = u ''agent''"
| "actor_kind_name Service = u ''service''"

definition actor_value :: "actor_ref \<Rightarrow> yvalue" where
  "actor_value a = YMap [(u ''kind'', YStr (actor_kind_name (actor_kind a))), (u ''id'', YStr (actor_id a))]"

definition evidence_value :: "evidence_ref \<Rightarrow> yvalue" where
  "evidence_value e = YMap [(u ''resource'', resource_value (ev_resource e)),
     (u ''locator'', YMap [(u ''scheme'', YStr (ev_scheme e)), (u ''value'', ev_value e)])]"

fun mode_name :: "claim_mode \<Rightarrow> jstring" where
  "mode_name Stated = u ''stated''"
| "mode_name Inferred = u ''inferred''"
| "mode_name Authored = u ''authored''"

fun claim_value :: "string_claim \<Rightarrow> yvalue" where
  "claim_value Unspecified = YMap [(u ''mode'', YStr (u ''unspecified''))]"
| "claim_value (Claim m v es) = YMap [(u ''mode'', YStr (mode_name m)), (u ''value'', YStr v),
     (u ''evidence'', YSeq (map evidence_value es))]"

fun policy_value :: "decision_policy \<Rightarrow> yvalue" where
  "policy_value NotEvaluated = YMap [(u ''mode'', YStr (u ''not_evaluated''))]"
| "policy_value (Evaluated r) = YMap [(u ''mode'', YStr (u ''evaluated'')), (u ''resource'', resource_value r)]"

fun outcome_name :: "decision_outcome \<Rightarrow> jstring" where
  "outcome_name Accepted = u ''accepted''"
| "outcome_name Overridden = u ''overridden''"
| "outcome_name Rejected = u ''rejected''"

fun predicate_value :: "statement_predicate \<Rightarrow> yvalue" where
  "predicate_value (Proposal i r) = YMap [(u ''intent'', claim_value i), (u ''rationale'', claim_value r)]"
| "predicate_value (Decision d) = YMap [(u ''policy'', policy_value (dp_policy d)),
     (u ''considered'', YSeq (map descriptor_value (dp_considered d))),
     (u ''outcome'', YStr (outcome_name (dp_outcome d))), (u ''rationale'', claim_value (dp_rationale d)),
     (u ''decidedAt'', YStr (dp_decided_at d))]"
| "predicate_value (External _ v) = v"

definition codec_value :: "state_codec_ref \<Rightarrow> yvalue" where
  "codec_value c = YMap [(u ''mediaType'', YStr (codec_media_type c)), (u ''version'', YStr (codec_version c))]"

definition driver_value :: "mutation_driver_ref \<Rightarrow> yvalue" where
  "driver_value d = YMap [(u ''protocol'', YStr (drv_protocol d)), (u ''protocolVersion'', YStr (drv_version d)),
     (u ''specDigest'', YStr (drv_digest d))]"

definition effect_input_value :: "effect_input \<Rightarrow> yvalue" where
  "effect_input_value i = YMap [(u ''role'', YStr (in_role i)), (u ''object'', descriptor_value (in_object i))]"

definition state_value :: "state_object \<Rightarrow> yvalue" where
  "state_value s = YMap [(u ''schema'', YStr STATE_SCHEMA), (u ''codec'', codec_value (st_codec s)),
     (u ''value'', st_value s)]"

definition definition_value :: "effect_definition \<Rightarrow> yvalue" where
  "definition_value d = YMap [(u ''driver'', driver_value (ed_driver d)), (u ''operations'', YSeq (ed_operations d)),
     (u ''inputs'', YSeq (map effect_input_value (ed_inputs d)))]"

definition effect_value :: "effect_object \<Rightarrow> yvalue" where
  "effect_value e = YMap [(u ''schema'', YStr EFFECT_SCHEMA), (u ''base'', descriptor_value (ef_base e)),
     (u ''driver'', driver_value (ed_driver (ef_definition e))),
     (u ''operations'', YSeq (ed_operations (ef_definition e))),
     (u ''inputs'', YSeq (map effect_input_value (ed_inputs (ef_definition e)))),
     (u ''result'', descriptor_value (ef_result e))]"

definition statement_value :: "statement_object \<Rightarrow> yvalue" where
  "statement_value s = YMap [(u ''schema'', YStr STATEMENT_SCHEMA),
     (u ''subjects'', YSeq (map descriptor_value (sm_subjects s))), (u ''actor'', actor_value (sm_actor s)),
     (u ''predicateType'', YStr (predicate_type (sm_predicate s))), (u ''predicate'', predicate_value (sm_predicate s))]"

definition commit_value :: "commit_object \<Rightarrow> yvalue" where
  "commit_value c = YMap [(u ''schema'', YStr COMMIT_V2_SCHEMA), (u ''parents'', YSeq (map descriptor_value (cm_parents c))),
     (u ''decision'', descriptor_value (cm_decision c)), (u ''result'', descriptor_value (cm_result c))]"

fun object_value :: "protocol_object \<Rightarrow> yvalue" where
  "object_value (PState s) = state_value s"
| "object_value (PEffect e) = effect_value e"
| "object_value (PStatement s) = statement_value s"
| "object_value (PCommit c) = commit_value c"

lemmas value_defs = descriptor_value_def resource_value_def actor_value_def evidence_value_def codec_value_def
  driver_value_def effect_input_value_def state_value_def definition_value_def effect_value_def statement_value_def commit_value_def

end
