(* ===== verification/ProtocolJson.thy ===== *)
theory ProtocolJson
  imports JsUnicode JsDouble TransitionTypes Canonical
begin

text \<open>
  packages/transition/src/canonical.ts and json.ts on protocol values: the canonical text (RFC 8785,
  keys in code unit order), its UTF-8 bytes and their order, and the strict JSON parser. The parser
  works on the rest of the input instead of a position; its recursion is bounded by a fuel, and a
  fuel of twice the input is always enough (\<open>parse_value_fuel\<close> of ProtocolJsonLaws). \<open>None\<close> is
  "out of fuel". canonical.ts on arbitrary runtime values is in RuntimeValues.
\<close>

type_synonym 'a protocol = "protocol_error_code + 'a"

section \<open>Canonical text\<close>

primrec unicode_ok :: "yvalue \<Rightarrow> bool" where
  "unicode_ok YNull \<longleftrightarrow> True"
| "unicode_ok (YBool b) \<longleftrightarrow> True"
| "unicode_ok (YNum n) \<longleftrightarrow> True"
| "unicode_ok (YStr s) \<longleftrightarrow> well_formed s"
| "unicode_ok (YSeq xs) \<longleftrightarrow> list_all unicode_ok xs"
| "unicode_ok (YMap kvs) \<longleftrightarrow> list_all (\<lambda>(k, b). well_formed k \<and> b) (map (map_prod id unicode_ok) kvs)"

primrec canonical_text :: "yvalue \<Rightarrow> jstring" where
  "canonical_text YNull = u ''null''"
| "canonical_text (YBool b) = (if b then u ''true'' else u ''false'')"
| "canonical_text (YNum n) = number_to_string n"
| "canonical_text (YStr s) = json_quote s"
| "canonical_text (YSeq xs) = cu CHR ''['' # join (cu CHR '','') (map canonical_text xs) @ [cu CHR '']'']"
| "canonical_text (YMap kvs) =
     (let obj = map (map_prod id canonical_text) kvs; keys = js_sort compareUnits (map fst kvs)
      in cu CHR ''{'' #
         join (cu CHR '','') (map (\<lambda>k. json_quote k @ cu CHR '':'' # the (map_of obj k)) keys) @
         [cu CHR ''}''])"

definition canonicalizeProtocolValue :: "yvalue \<Rightarrow> jstring protocol" where
  "canonicalizeProtocolValue v = (if unicode_ok v then Inr (canonical_text v) else Inl NON_CANONICAL_VALUE)"

definition canonicalProtocolBytes :: "yvalue \<Rightarrow> byte list protocol" where
  "canonicalProtocolBytes v = bind_result (canonicalizeProtocolValue v) (\<lambda>s. Inr (utf8_encode s))"

definition compareCanonicalValues :: "yvalue \<Rightarrow> yvalue \<Rightarrow> int protocol" where
  "compareCanonicalValues a b =
     bind_result (canonicalProtocolBytes a) (\<lambda>as.
     bind_result (canonicalProtocolBytes b) (\<lambda>bs. Inr (compare_bytes as bs)))"

section \<open>Tokens\<close>

definition is_json_space :: "code_unit \<Rightarrow> bool" where
  "is_json_space c \<longleftrightarrow> c = 32 \<or> c = 10 \<or> c = 13 \<or> c = 9"

definition skipWhitespace :: "jstring \<Rightarrow> jstring" where
  "skipWhitespace s = dropWhile is_json_space s"

definition parseLiteral :: "string \<Rightarrow> yvalue \<Rightarrow> jstring \<Rightarrow> (yvalue \<times> jstring) protocol" where
  "parseLiteral lit v s =
     (if take (length lit) s = u lit then Inr (v, drop (length lit) s) else Inl SCHEMA_INVALID)"

definition is_hex :: "code_unit \<Rightarrow> bool" where
  "is_hex c \<longleftrightarrow> is_digit c \<or> (65 \<le> unat c \<and> unat c \<le> 70) \<or> (97 \<le> unat c \<and> unat c \<le> 102)"

definition is_escape :: "code_unit \<Rightarrow> bool" where
  "is_escape c \<longleftrightarrow> c \<in> set (u [CHR 0x22, CHR 0x5C, CHR ''/'', CHR ''b'', CHR ''f'', CHR ''n'', CHR ''r'', CHR ''t''])"

text \<open>The loop of \<open>parseString\<close> after the opening quote: the raw text up to and with the closing quote.\<close>

fun scan_string :: "jstring \<Rightarrow> (jstring \<times> jstring) option" where
  "scan_string [] = None"
| "scan_string (c # r) =
     (if c = cu CHR 0x22 then Some ([c], r)
      else if unat c < 0x20 then None
      else if c = cu CHR 0x5C then
        (case r of [] \<Rightarrow> None
         | e # r1 \<Rightarrow>
             if e = cu CHR ''u'' then
               (case r1 of h1 # h2 # h3 # h4 # r2 \<Rightarrow>
                    if is_hex h1 \<and> is_hex h2 \<and> is_hex h3 \<and> is_hex h4
                    then map_option (map_prod (\<lambda>t. c # e # h1 # h2 # h3 # h4 # t) id) (scan_string r2) else None
                | _ \<Rightarrow> None)
             else if is_escape e then map_option (map_prod (\<lambda>t. c # e # t) id) (scan_string r1) else None)
      else map_option (map_prod (\<lambda>t. c # t) id) (scan_string r))"

definition parseString :: "jstring \<Rightarrow> (jstring \<times> jstring) protocol" where
  "parseString s = (case scan_string (drop 1 s) of
       None \<Rightarrow> Inl SCHEMA_INVALID
     | Some (raw, r) \<Rightarrow> (case json_unescape raw of
         None \<Rightarrow> Inl SCHEMA_INVALID
       | Some (text', _) \<Rightarrow> if well_formed text' then Inr (text', r) else Inl NON_CANONICAL_VALUE))"

text \<open>The longest match of the number pattern: sign, integer part, fraction, exponent.\<close>

definition match_fraction :: "jstring \<Rightarrow> jstring" where
  "match_fraction s = (case s of c # r \<Rightarrow>
     if c = cu CHR ''.'' \<and> takeWhile is_digit r \<noteq> [] then c # takeWhile is_digit r else [] | [] \<Rightarrow> [])"

definition match_exponent :: "jstring \<Rightarrow> jstring" where
  "match_exponent s = (case s of
     c # r \<Rightarrow>
       if c = cu CHR ''e'' \<or> c = cu CHR ''E'' then
         (case r of
            d # r' \<Rightarrow>
              if d = cu CHR ''+'' \<or> d = cu CHR ''-''
              then (if takeWhile is_digit r' \<noteq> [] then c # d # takeWhile is_digit r' else [])
              else (if takeWhile is_digit r \<noteq> [] then c # takeWhile is_digit r else [])
          | [] \<Rightarrow> [])
       else []
   | [] \<Rightarrow> [])"

definition match_integer :: "jstring \<Rightarrow> jstring option" where
  "match_integer s = (case s of c # r \<Rightarrow>
     if c = digit 0 then Some [c] else if is_digit c then Some (takeWhile is_digit s) else None | [] \<Rightarrow> None)"

definition match_number :: "jstring \<Rightarrow> jstring option" where
  "match_number s =
     (let sg = (case s of c # r \<Rightarrow> if c = cu CHR ''-'' then [c] else [] | [] \<Rightarrow> []);
          s1 = drop (length sg) s
      in case match_integer s1 of
           None \<Rightarrow> None
         | Some ip \<Rightarrow>
             let s2 = drop (length ip) s1; fr = match_fraction s2; s3 = drop (length fr) s2
             in Some (sg @ ip @ fr @ match_exponent s3))"

text \<open>\<open>Number(token)\<close>; \<open>read_number\<close> of JsNumber knows the lower-case exponent letter.\<close>

definition number_of_token :: "jstring \<Rightarrow> jsnum option" where
  "number_of_token t = js_number (read_number (map (\<lambda>c. if c = cu CHR ''E'' then cu CHR ''e'' else c) t))"

definition parseNumber :: "jstring \<Rightarrow> (yvalue \<times> jstring) protocol" where
  "parseNumber s = (case match_number s of
       None \<Rightarrow> Inl SCHEMA_INVALID
     | Some t \<Rightarrow> (case number_of_token t of
         None \<Rightarrow> Inl NON_CANONICAL_VALUE
       | Some n \<Rightarrow> Inr (YNum n, drop (length t) s)))"

section \<open>The strict parser\<close>

definition consume :: "char \<Rightarrow> jstring \<Rightarrow> jstring option" where
  "consume c s = (case s of d # r \<Rightarrow> if d = cu c then Some r else None | [] \<Rightarrow> None)"

definition more :: "('a \<times> jstring) protocol option \<Rightarrow> ('a \<times> jstring \<Rightarrow> ('b \<times> jstring) protocol option)
    \<Rightarrow> ('b \<times> jstring) protocol option" where
  "more r f = (case r of None \<Rightarrow> None | Some (Inl e) \<Rightarrow> Some (Inl e) | Some (Inr x) \<Rightarrow> f x)"

text \<open>
  \<open>parse_entries\<close> and \<open>parse_items\<close> are the loops of \<open>parseObject\<close> and \<open>parseArray\<close>; the set of keys
  that the source keeps is the set of keys of the object built so far.
\<close>

fun parse_value :: "nat \<Rightarrow> jstring \<Rightarrow> (yvalue \<times> jstring) protocol option"
  and parse_entries :: "nat \<Rightarrow> (jstring \<times> yvalue) list \<Rightarrow> jstring \<Rightarrow> (yvalue \<times> jstring) protocol option"
  and parse_items :: "nat \<Rightarrow> yvalue list \<Rightarrow> jstring \<Rightarrow> (yvalue \<times> jstring) protocol option" where
  "parse_value 0 s = None"
| "parse_value (Suc f) s =
     (case s of
        [] \<Rightarrow> Some (Inl SCHEMA_INVALID)
      | c # r \<Rightarrow>
          if c = cu CHR 0x22 then Some (bind_result (parseString s) (\<lambda>(t, r'). Inr (YStr t, r')))
          else if c = cu CHR ''{'' then
            (let r1 = skipWhitespace r in case consume CHR ''}'' r1 of
               Some r2 \<Rightarrow> Some (Inr (YMap [], r2)) | None \<Rightarrow> parse_entries f [] r1)
          else if c = cu CHR ''['' then
            (let r1 = skipWhitespace r in case consume CHR '']'' r1 of
               Some r2 \<Rightarrow> Some (Inr (YSeq [], r2)) | None \<Rightarrow> parse_items f [] r1)
          else if c = cu CHR ''t'' then Some (parseLiteral ''true'' (YBool True) s)
          else if c = cu CHR ''f'' then Some (parseLiteral ''false'' (YBool False) s)
          else if c = cu CHR ''n'' then Some (parseLiteral ''null'' YNull s)
          else if c = cu CHR ''-'' \<or> is_digit c then Some (parseNumber s)
          else Some (Inl SCHEMA_INVALID))"
| "parse_entries 0 result s = None"
| "parse_entries (Suc f) result s =
     (if take 1 s \<noteq> [cu CHR 0x22] then Some (Inl SCHEMA_INVALID)
      else case parseString s of
        Inl e \<Rightarrow> Some (Inl e)
      | Inr (key, r) \<Rightarrow>
          if has_own result key then Some (Inl SCHEMA_INVALID)
          else (case consume CHR '':'' (skipWhitespace r) of
              None \<Rightarrow> Some (Inl SCHEMA_INVALID)
            | Some r1 \<Rightarrow> more (parse_value f (skipWhitespace r1)) (\<lambda>(v, r2).
                let result' = obj_set result key v; r3 = skipWhitespace r2 in
                case consume CHR ''}'' r3 of
                  Some r4 \<Rightarrow> Some (Inr (YMap result', r4))
                | None \<Rightarrow> (case consume CHR '','' r3 of
                    None \<Rightarrow> Some (Inl SCHEMA_INVALID)
                  | Some r4 \<Rightarrow> parse_entries f result' (skipWhitespace r4)))))"
| "parse_items 0 result s = None"
| "parse_items (Suc f) result s =
     more (parse_value f s) (\<lambda>(v, r2).
       let result' = result @ [v]; r3 = skipWhitespace r2 in
       case consume CHR '']'' r3 of
         Some r4 \<Rightarrow> Some (Inr (YSeq result', r4))
       | None \<Rightarrow> (case consume CHR '','' r3 of
           None \<Rightarrow> Some (Inl SCHEMA_INVALID)
         | Some r4 \<Rightarrow> parse_items f result' (skipWhitespace r4)))"

definition strict_json :: "jstring \<Rightarrow> yvalue protocol option" where
  "strict_json s =
     (let s1 = skipWhitespace s in
      case parse_value (Suc (2 * length s1)) s1 of
        None \<Rightarrow> None
      | Some (Inl e) \<Rightarrow> Some (Inl e)
      | Some (Inr (v, r)) \<Rightarrow> Some (if skipWhitespace r = [] then Inr v else Inl SCHEMA_INVALID))"

text \<open>The input is a string or UTF-8 bytes. \<open>strict_json\<close> is never \<open>None\<close> (\<open>strict_json_total\<close>).\<close>

definition parseProtocolJson :: "jstring + byte list \<Rightarrow> yvalue protocol" where
  "parseProtocolJson input =
     (case (case input of Inl s \<Rightarrow> Some s | Inr bs \<Rightarrow> utf8_decode bs) of
        None \<Rightarrow> Inl SCHEMA_INVALID
      | Some s \<Rightarrow> the (strict_json s))"

end
