(* ===== verification/JsonRoundtrip.thy ===== *)
theory JsonRoundtrip
  imports ProtocolJsonLaws
begin

text \<open>
  The strict parser reads every canonical text back. The value it builds is \<open>sort_keys v\<close>, the value
  with its keys set in canonical order, which differs from \<open>v\<close> in the order of keys only.
\<close>

section \<open>Protocol values\<close>

text \<open>A value that the runtime can hold: well formed, and its numbers are binary64.\<close>

primrec doubles :: "yvalue \<Rightarrow> bool" where
  "doubles YNull \<longleftrightarrow> True"
| "doubles (YBool b) \<longleftrightarrow> True"
| "doubles (YNum n) \<longleftrightarrow> is_double n"
| "doubles (YStr s) \<longleftrightarrow> True"
| "doubles (YSeq xs) \<longleftrightarrow> list_all doubles xs"
| "doubles (YMap kvs) \<longleftrightarrow> list_all snd (map (map_prod id doubles) kvs)"

definition protocol_value :: "yvalue \<Rightarrow> bool" where
  "protocol_value v \<longleftrightarrow> wf_yvalue v \<and> doubles v \<and> unicode_ok v"

lemma protocol_scalars [simp]:
  "protocol_value YNull" "protocol_value (YBool b)" "protocol_value (YNum n) \<longleftrightarrow> is_double n"
  "protocol_value (YStr s) \<longleftrightarrow> well_formed s"
  by (simp_all add: protocol_value_def)

lemma protocol_seq [simp]: "protocol_value (YSeq xs) \<longleftrightarrow> list_all protocol_value xs"
  by (auto simp: protocol_value_def list_all_iff)

lemma protocol_map:
  "protocol_value (YMap kvs) \<longleftrightarrow> wf_object kvs \<and> list_all (\<lambda>(k, v). well_formed k \<and> protocol_value v) kvs"
  by (auto simp: protocol_value_def list_all_iff wf_entries_iff map_prod_def)

primrec sort_keys :: "yvalue \<Rightarrow> yvalue" where
  "sort_keys YNull = YNull"
| "sort_keys (YBool b) = YBool b"
| "sort_keys (YNum n) = YNum n"
| "sort_keys (YStr s) = YStr s"
| "sort_keys (YSeq xs) = YSeq (map sort_keys xs)"
| "sort_keys (YMap kvs) =
     (let obj = map (map_prod id sort_keys) kvs
      in YMap (obj_build (map (\<lambda>k. (k, the (map_of obj k))) (js_sort compareUnits (map fst kvs)))))"

interpretation canonical_text: sorted_encoding canonical_text compareUnits
  "\<lambda>es. cu CHR ''{'' # join (cu CHR '','') (map (\<lambda>(k, t). json_quote k @ cu CHR '':'' # t) es) @ [cu CHR ''}'']"
  "\<lambda>ts. cu CHR ''['' # join (cu CHR '','') ts @ [cu CHR '']'']"
  by unfold_locales (simp_all add: Let_def comp_def unit_order.js_comparator_axioms)

interpretation sort_keys: sorted_encoding sort_keys compareUnits "\<lambda>es. YMap (obj_build es)" YSeq
  by unfold_locales (simp_all add: Let_def unit_order.js_comparator_axioms)

section \<open>Numbers\<close>

definition ends :: "jstring \<Rightarrow> bool" where
  "ends r \<longleftrightarrow> (case r of [] \<Rightarrow> True | c # _ \<Rightarrow> separator c)"

lemma ends_simps [simp]: "ends []" "ends (c # r) \<longleftrightarrow> separator c"
  by (simp_all add: ends_def)

lemma separator_facts:
  assumes "separator c"
  shows "\<not> is_digit c" "c \<noteq> cu CHR ''.''" "c \<noteq> cu CHR ''e''" "c \<noteq> cu CHR ''E''"
  using assms by (auto simp: separator_def is_digit_cu)

lemma digit_prefix: "list_all is_digit ds \<Longrightarrow> stops is_digit r \<Longrightarrow> takeWhile is_digit (ds @ r) = ds"
  by (rule takeWhile_append_stops)

lemma stops_ends: "ends r \<Longrightarrow> stops is_digit r"
  by (cases r) (auto simp: stops_def separator_facts)

definition integer_part :: "jstring \<Rightarrow> bool" where
  "integer_part ip \<longleftrightarrow> ip = [digit 0] \<or> (ip \<noteq> [] \<and> list_all is_digit ip \<and> hd ip \<noteq> digit 0)"

definition fraction_part :: "jstring \<Rightarrow> bool" where
  "fraction_part fr \<longleftrightarrow> fr = [] \<or> (\<exists>ds. ds \<noteq> [] \<and> list_all is_digit ds \<and> fr = cu CHR ''.'' # ds)"

definition exponent_part :: "jstring \<Rightarrow> bool" where
  "exponent_part ex \<longleftrightarrow> ex = [] \<or> (\<exists>n. ex = cu CHR ''e'' # sign_digits n)"

lemma match_integer_part: "integer_part ip \<Longrightarrow> stops is_digit r \<Longrightarrow> match_integer (ip @ r) = Some ip"
proof -
  assume ip: "integer_part ip" and r: "stops is_digit r"
  show ?thesis
  proof (cases "ip = [digit 0]")
    case False
    then obtain c ds where c: "ip = c # ds" "is_digit c" "c \<noteq> digit 0" "list_all is_digit ip"
      using ip by (cases ip) (auto simp: integer_part_def)
    then show ?thesis using digit_prefix [OF c(4) r] by (simp add: match_integer_def)
  qed (simp add: match_integer_def)
qed

lemma match_fraction_part:
  "fraction_part fr \<Longrightarrow> stops is_digit r \<Longrightarrow> (fr = [] \<Longrightarrow> take 1 r \<noteq> [cu CHR ''.'']) \<Longrightarrow> match_fraction (fr @ r) = fr"
  by (cases r) (auto simp: fraction_part_def match_fraction_def digit_prefix)

lemma match_exponent_part: "exponent_part ex \<Longrightarrow> ends r \<Longrightarrow> match_exponent (ex @ r) = ex"
proof -
  assume ex: "exponent_part ex" and r: "ends r"
  show ?thesis
  proof (cases "ex = []")
    case True
    then show ?thesis using r by (cases r) (auto simp: match_exponent_def separator_facts)
  next
    case False
    then obtain n where n: "ex = cu CHR ''e'' # sign_digits n" using ex by (auto simp: exponent_part_def)
    then show ?thesis
      using digit_prefix [OF dec_digits_digits stops_ends [OF r]] by (simp add: match_exponent_def sign_digits_def)
  qed
qed

lemma match_token:
  assumes "integer_part ip" "fraction_part fr" "exponent_part ex" "ends r" "sg = [] \<or> sg = [cu CHR ''-'']"
  shows "match_number (sg @ ip @ fr @ ex @ r) = Some (sg @ ip @ fr @ ex)"
proof -
  have e: "stops is_digit (ex @ r)" "take 1 (ex @ r) \<noteq> [cu CHR ''.'']"
    using assms(3,4) by (auto simp: exponent_part_def stops_def ends_def separator_facts split: list.splits)
  have f: "stops is_digit (fr @ ex @ r)" using assms(2) e by (auto simp: fraction_part_def stops_def)
  obtain c ip' where c: "ip = c # ip'" "is_digit c" using assms(1) by (cases ip) (auto simp: integer_part_def)
  have "c \<noteq> cu CHR ''-''" using c(2) not_digit(3) by blast
  then show ?thesis
    using assms(5) match_integer_part [OF assms(1) f] match_fraction_part [OF assms(2) e(1)] e(2)
      match_exponent_part [OF assms(3,4)] c(1)
    by (auto simp: match_number_def Let_def)
qed

lemma dec_digits_head: "0 < n \<Longrightarrow> hd (dec_digits n) \<noteq> digit 0"
proof (induction n rule: dec_digits.induct)
  case (1 n)
  have inj: "digit i = digit j \<longleftrightarrow> i = j" if "i < 10" "j < 10" for i j
    using unat_digit [of i] unat_digit [of j] that by (metis add_left_cancel)
  show ?case
  proof (cases "n < 10")
    case True
    then show ?thesis using 1(2) inj [of n 0] by (subst dec_digits.simps) simp
  next
    case False
    then show ?thesis using 1(1) by (subst dec_digits.simps) (simp add: hd_append)
  qed
qed

lemma digit_0: "is_digit (digit 0)"
  by simp

text \<open>A printed decimal has the parts of the number pattern.\<close>

lemma format_parts:
  assumes "list_all is_digit ds" "ds \<noteq> []" "hd ds \<noteq> digit 0"
  shows "\<exists>ip fr ex. format_decimal ds e = ip @ fr @ ex \<and> integer_part ip \<and> fraction_part fr \<and> exponent_part ex"
proof -
  let ?k = "int (length ds)" let ?n = "?k + e"
  have z: "list_all is_digit (replicate j (digit 0))" for j by (simp add: list_all_iff)
  have ip: "integer_part (take (nat j) ds)" if "0 < j" for j
    using that assms by (cases ds; cases "nat j") (auto simp: integer_part_def list_all_iff dest: in_set_takeD)
  have i0: "integer_part [digit 0]" and f0: "fraction_part []" and e0: "exponent_part []"
    by (simp_all add: integer_part_def fraction_part_def exponent_part_def)
  have ez: "exponent_part (cu CHR ''e'' # sign_digits j)" for j by (auto simp: exponent_part_def)
  consider (plain) "?k \<le> ?n \<and> ?n \<le> 21" | (point) "\<not> (?k \<le> ?n \<and> ?n \<le> 21)" "0 < ?n \<and> ?n \<le> 21"
    | (zeros) "\<not> (?k \<le> ?n \<and> ?n \<le> 21)" "\<not> (0 < ?n \<and> ?n \<le> 21)" "-6 < ?n \<and> ?n \<le> 0"
    | (expo) "\<not> (?k \<le> ?n \<and> ?n \<le> 21)" "\<not> (0 < ?n \<and> ?n \<le> 21)" "\<not> (-6 < ?n \<and> ?n \<le> 0)"
    by blast
  then show ?thesis
  proof cases
    case plain
    then have f: "format_decimal ds e = (ds @ replicate (nat (?n - ?k)) (digit 0)) @ [] @ []"
      by (simp add: format_decimal_def Let_def)
    have "integer_part (ds @ replicate (nat (?n - ?k)) (digit 0))"
      using assms z by (simp add: integer_part_def)
    with f f0 e0 show ?thesis by blast
  next
    case point
    then have f: "format_decimal ds e = take (nat ?n) ds @ (cu CHR ''.'' # drop (nat ?n) ds) @ []"
      by (auto simp: format_decimal_def Let_def)
    have "fraction_part (cu CHR ''.'' # drop (nat ?n) ds)"
      using point assms(1) by (auto simp: fraction_part_def list_all_iff dest: in_set_dropD)
    with f ip [of ?n] e0 point show ?thesis by blast
  next
    case zeros
    then have f: "format_decimal ds e = [digit 0] @ (cu CHR ''.'' # replicate (nat (- ?n)) (digit 0) @ ds) @ []"
      by (auto simp: format_decimal_def Let_def)
    have "fraction_part (cu CHR ''.'' # replicate (nat (- ?n)) (digit 0) @ ds)"
      using assms(1,2) z by (simp add: fraction_part_def)
    with f i0 e0 show ?thesis by blast
  next
    case expo
    show ?thesis
    proof (cases "?k = 1")
      case True
      then have f: "format_decimal ds e = ds @ [] @ (cu CHR ''e'' # sign_digits (?n - 1))"
        using expo by (auto simp: format_decimal_def Let_def)
      have "integer_part ds" using assms by (simp add: integer_part_def)
      with f f0 ez show ?thesis by blast
    next
      case False
      then have f: "format_decimal ds e = take (nat 1) ds @ (cu CHR ''.'' # drop 1 ds) @ (cu CHR ''e'' # sign_digits (?n - 1))"
        using expo by (auto simp: format_decimal_def Let_def)
      have "drop 1 ds \<noteq> []" using False assms(2) by (cases ds) auto
      then have "fraction_part (cu CHR ''.'' # drop 1 ds)" using assms(1) by (auto simp: fraction_part_def list_all_iff dest: in_set_dropD)
      moreover have "integer_part (take (nat 1) ds)" by (rule ip) simp
      ultimately show ?thesis using f ez by blast
    qed
  qed
qed

lemma match_printed: "ends r \<Longrightarrow> match_number (number_to_string x @ r) = Some (number_to_string x)"
proof -
  assume r: "ends r"
  obtain s e where x: "num_decimal x = (s, e)" by fastforce
  obtain ip fr ex where p: "format_decimal (dec_digits (nat \<bar>s\<bar>)) e = ip @ fr @ ex" "integer_part ip" "fraction_part fr" "exponent_part ex"
  proof (cases "s = 0")
    case True
    then have "e = 0" using num_decimal_normal [of x] by (simp add: x)
    with True show ?thesis
      using that [of "[digit 0]" "[]" "[]"] format_decimal_0 by (simp add: integer_part_def fraction_part_def exponent_part_def)
  next
    case False
    then show ?thesis
      using that format_parts [OF dec_digits_digits dec_digits_nonempty dec_digits_head, of "nat \<bar>s\<bar>" e] by auto
  qed
  have "number_to_string x = (if s < 0 then [cu CHR ''-''] else []) @ ip @ fr @ ex"
    using p(1) by (cases "s < 0") (simp_all add: number_to_string_def decimal_to_string_def x)
  then show ?thesis using match_token [OF p(2-4) r, of "if s < 0 then [cu CHR ''-''] else []"] by simp
qed

lemma no_capital_e: "list_all is_number_char s \<Longrightarrow> map (\<lambda>c. if c = cu CHR ''E'' then cu CHR ''e'' else c) s = s"
  by (induction s) (auto simp: is_number_char_def is_digit_cu)

lemma parseNumber_printed:
  "is_double x \<Longrightarrow> ends r \<Longrightarrow> parseNumber (number_to_string x @ r) = Inr (YNum x, r)"
  by (simp add: parseNumber_def match_printed number_of_token_def no_capital_e number_to_string_chars
      read_number_roundtrip is_double_def)

section \<open>Strings\<close>

lemma is_hex_digit: "n < 16 \<Longrightarrow> is_hex (hex_digit n)"
  by (auto simp: is_hex_def is_digit_def unat_hex_digit)

lemma scan_letter:
  "is_escape e \<Longrightarrow> e \<noteq> cu CHR ''u'' \<Longrightarrow>
     scan_string (cu CHR 0x5C # e # r) = map_option (map_prod (\<lambda>t. cu CHR 0x5C # e # t) id) (scan_string r)"
  by (simp add: unat_cu)

lemma scan_hex4:
  assumes "is_hex h1" "is_hex h2" "is_hex h3" "is_hex h4"
  shows "scan_string (cu CHR 0x5C # cu CHR ''u'' # h1 # h2 # h3 # h4 # r) =
     map_option (map_prod (\<lambda>t. cu CHR 0x5C # cu CHR ''u'' # h1 # h2 # h3 # h4 # t) id) (scan_string r)"
  using assms by (simp add: unat_cu)

lemma scan_raw: "\<not> unat c < 32 \<Longrightarrow> c \<noteq> cu CHR 0x22 \<Longrightarrow> c \<noteq> cu CHR 0x5C \<Longrightarrow>
    scan_string (c # r) = map_option (map_prod ((#) c) id) (scan_string r)"
  by simp

lemma scan_quote: "scan_string (cu CHR 0x22 # r) = Some ([cu CHR 0x22], r)"
  by simp

declare scan_string.simps [simp del]

lemma escape_letters:
  "is_escape (cu CHR ''b'')" "is_escape (cu CHR ''t'')" "is_escape (cu CHR ''n'')" "is_escape (cu CHR ''f'')"
  "is_escape (cu CHR ''r'')" "is_escape (cu CHR 0x22)" "is_escape (cu CHR 0x5C)"
  by (simp_all add: is_escape_def u_def)

lemma scan_escape_unit:
  assumes "\<not> is_high_surrogate c" "\<not> is_low_surrogate c"
  shows "scan_string (esc_unit c @ r) = map_option (map_prod ((@) (esc_unit c)) id) (scan_string r)"
proof -
  have "unat c < 65536" using unsigned_less [of c, where ?'a = nat] by simp
  then have h: "is_hex (hex_digit (unat c div 4096))" "is_hex (hex_digit (unat c div 256 mod 16))"
    "is_hex (hex_digit (unat c div 16 mod 16))" "is_hex (hex_digit (unat c mod 16))"
    by (intro is_hex_digit; simp)+
  consider (short) "c \<in> {8, 9, 10, 12, 13, cu CHR 0x22, cu CHR 0x5C}"
    | (long) "c \<notin> {8, 9, 10, 12, 13, cu CHR 0x22, cu CHR 0x5C}" "c < 32"
    | (raw) "c \<notin> {8, 9, 10, 12, 13, cu CHR 0x22, cu CHR 0x5C}" "\<not> c < 32" by blast
  then show ?thesis
  proof cases
    case short
    then have "\<exists>e. esc_unit c = [cu CHR 0x5C, e] \<and> is_escape e \<and> e \<noteq> cu CHR ''u''"
      by (auto simp: esc_unit_def escape_letters)
    then obtain e where e: "esc_unit c = [cu CHR 0x5C, e]" "is_escape e" "e \<noteq> cu CHR ''u''" by blast
    have "(@) [cu CHR 0x5C, e] = (\<lambda>t. cu CHR 0x5C # e # t)" by (simp add: fun_eq_iff)
    then show ?thesis unfolding e(1) using scan_letter [OF e(2,3)] by simp
  next
    case long
    then have e: "esc_unit c = cu CHR 0x5C # cu CHR ''u'' # hex4 c" by (simp add: esc_unit_def)
    have "(@) (esc_unit c) = (\<lambda>t. cu CHR 0x5C # cu CHR ''u'' # hex_digit (unat c div 4096) # hex_digit (unat c div 256 mod 16)
        # hex_digit (unat c div 16 mod 16) # hex_digit (unat c mod 16) # t)"
      by (simp add: fun_eq_iff e hex4_def)
    then show ?thesis unfolding e hex4_def by (simp add: scan_hex4 [OF h])
  next
    case raw
    then have e: "esc_unit c = [c]" using assms by (simp add: esc_unit_def)
    have "(@) [c] = (#) c" by (simp add: fun_eq_iff)
    then show ?thesis unfolding e using raw by (simp add: scan_raw word_less_nat_alt)
  qed
qed

lemma surrogate_raw:
  assumes "is_high_surrogate c \<or> is_low_surrogate c"
  shows "\<not> unat c < 32" "c \<noteq> cu CHR 0x22" "c \<noteq> cu CHR 0x5C"
  using assms surrogate_units by (auto simp: is_high_surrogate_def is_low_surrogate_def)

lemma scan_escaped:
  "well_formed s \<Longrightarrow> scan_string (json_escape s @ cu CHR 0x22 # r) = Some (json_escape s @ [cu CHR 0x22], r)"
proof (induction s rule: json_escape.induct)
  case (2 c)
  then show ?case by (simp add: scan_escape_unit scan_quote)
next
  case (3 c d t)
  show ?case
  proof (cases "is_high_surrogate c \<and> is_low_surrogate d")
    case True
    then show ?thesis using 3 by (simp add: scan_raw surrogate_raw)
  next
    case False
    then have "\<not> is_high_surrogate c" "\<not> is_low_surrogate c" "well_formed (d # t)"
      using 3(3) by (auto split: if_splits)
    then show ?thesis using 3(2) False by (simp add: scan_escape_unit)
  qed
qed (simp add: scan_quote)

lemma parseString_quoted: "well_formed s \<Longrightarrow> parseString (json_quote s @ r) = Inr (s, r)"
  using json_unescape_roundtrip [of s "[]"] by (simp add: parseString_def json_quote_def scan_escaped)

section \<open>Values\<close>

lemma skip_solid: "s = [] \<or> \<not> is_json_space (hd s) \<Longrightarrow> skipWhitespace s = s"
  by (cases s) (auto simp: skipWhitespace_def)

definition solid :: "jstring \<Rightarrow> bool" where
  "solid s \<longleftrightarrow> (case s of [] \<Rightarrow> False | c # _ \<Rightarrow> \<not> is_json_space c \<and> c \<noteq> cu CHR '']'' \<and> c \<noteq> cu CHR ''}'')"

lemma solid_append: "solid s \<Longrightarrow> solid (s @ r)"
  by (cases s) (auto simp: solid_def)

lemma solid_skip [simp]: "solid s \<Longrightarrow> skipWhitespace s = s"
  by (cases s) (auto simp: solid_def skipWhitespace_def)

lemma solid_consume: "solid s \<Longrightarrow> consume CHR '']'' s = None" "solid s \<Longrightarrow> consume CHR ''}'' s = None"
  by (cases s; auto simp: solid_def consume_def)+

lemma space_cu: "is_json_space (cu c) \<longleftrightarrow> of_char c \<in> {32, 10, 13, 9 :: nat}"
  by (auto simp: is_json_space_def word_unat_eq_iff unat_cu)

lemma space_digit: "is_digit c \<Longrightarrow> \<not> is_json_space c"
  by (auto simp: is_digit_def is_json_space_def)

lemma canonical_text_solid: "solid (canonical_text v)"
proof (cases v)
  case (YNum n)
  then show ?thesis
    using number_to_string_hd [of n] by (auto simp: solid_def space_cu is_digit_cu space_digit)
qed (auto simp: solid_def u_Cons space_cu json_quote_def)

subsection \<open>Items and entries\<close>

definition reads_back :: "yvalue \<Rightarrow> bool" where
  "reads_back v \<longleftrightarrow> (\<forall>r f. ends r \<longrightarrow> 2 * length (canonical_text v @ r) < f \<longrightarrow>
     parse_value f (canonical_text v @ r) = Some (Inr (sort_keys v, r)))"

lemma reads_backD:
  "reads_back v \<Longrightarrow> ends r \<Longrightarrow> 2 * length (canonical_text v @ r) < f \<Longrightarrow>
     parse_value f (canonical_text v @ r) = Some (Inr (sort_keys v, r))"
  by (simp add: reads_back_def)

lemma join_solid: "xs \<noteq> [] \<Longrightarrow> (\<And>x. solid (g x)) \<Longrightarrow> solid (join c (map g xs) @ r)"
proof -
  assume xs: "xs \<noteq> []" and g: "\<And>x. solid (g x)"
  then obtain x ys where "xs = x # ys" by (cases xs) auto
  then have "\<exists>t. join c (map g xs) @ r = g x @ t" by (cases ys) auto
  then show ?thesis using solid_append [OF g [of x]] by auto
qed

lemma consume_simps [simp]:
  "consume c (cu d # r) = (if d = c then Some r else None)" "consume c [] = None"
  by (simp_all add: consume_def)

lemma skip_bracket [simp]:
  "skipWhitespace (cu CHR '','' # r) = cu CHR '','' # r" "skipWhitespace (cu CHR '']'' # r) = cu CHR '']'' # r"
  "skipWhitespace (cu CHR ''}'' # r) = cu CHR ''}'' # r" "skipWhitespace (cu CHR '':'' # r) = cu CHR '':'' # r"
  "skipWhitespace [] = []"
  by (simp_all add: skipWhitespace_def space_cu)

lemma separators [simp]: "separator (cu CHR '','')" "separator (cu CHR '']'')" "separator (cu CHR ''}'')"
  by (simp_all add: separator_def)

lemma parse_items_text:
  assumes "xs \<noteq> []" "\<forall>v \<in> set xs. reads_back v"
    and "2 * length (join (cu CHR '','') (map canonical_text xs) @ cu CHR '']'' # r) + 1 < f"
  shows "parse_items f acc (join (cu CHR '','') (map canonical_text xs) @ cu CHR '']'' # r)
    = Some (Inr (YSeq (acc @ map sort_keys xs), r))"
  using assms
proof (induction xs arbitrary: acc f)
  case (Cons x xs)
  obtain g where f: "f = Suc g" using Cons.prems(3) by (cases f) auto
  have x: "reads_back x" using Cons.prems(2) by simp
  show ?case
  proof (cases xs)
    case Nil
    then show ?thesis
      using reads_backD [OF x, of "cu CHR '']'' # r" g] Cons.prems(3) by (simp add: f more_def)
  next
    case (Cons y ys)
    let ?rest = "join (cu CHR '','') (map canonical_text xs) @ cu CHR '']'' # r"
    have t: "join (cu CHR '','') (map canonical_text (x # xs)) @ cu CHR '']'' # r = canonical_text x @ cu CHR '','' # ?rest"
      by (simp add: Cons)
    have "parse_items g (acc @ [sort_keys x]) ?rest = Some (Inr (YSeq ((acc @ [sort_keys x]) @ map sort_keys xs), r))"
      using Cons.prems(2,3) t Cons by (intro Cons.IH) (simp_all add: f)
    moreover have "solid ?rest" by (rule join_solid) (simp_all add: Cons canonical_text_solid)
    moreover have "parse_value g (canonical_text x @ cu CHR '','' # ?rest) = Some (Inr (sort_keys x, cu CHR '','' # ?rest))"
      using Cons.prems(3) t by (intro reads_backD [OF x]) (simp_all add: f)
    ultimately show ?thesis unfolding t by (simp add: f more_def)
  qed
qed simp

definition unit_entry :: "jstring \<times> yvalue \<Rightarrow> jstring" where
  "unit_entry e = json_quote (fst e) @ cu CHR '':'' # canonical_text (snd e)"

lemma quote_solid: "solid (json_quote k @ r)"
  by (simp add: json_quote_def solid_def space_cu)

lemma parse_entries_text:
  assumes "es \<noteq> []" "\<forall>(k, v) \<in> set es. well_formed k \<and> reads_back v"
    and "distinct (map fst es)" "\<forall>k \<in> set (map fst es). \<not> has_own acc k"
    and "2 * length (join (cu CHR '','') (map unit_entry es) @ cu CHR ''}'' # r) < f"
  shows "parse_entries f acc (join (cu CHR '','') (map unit_entry es) @ cu CHR ''}'' # r)
    = Some (Inr (YMap (obj_set_all acc (map (map_prod id sort_keys) es)), r))"
  using assms
proof (induction es arbitrary: acc f)
  case (Cons e es)
  obtain g where f: "f = Suc g" using Cons.prems(5) by (cases f) auto
  obtain k v where e: "e = (k, v)" by fastforce
  have kv: "well_formed k" "reads_back v" "\<not> has_own acc k" using Cons.prems(2,4) by (simp_all add: e)
  have q: "take 1 (json_quote k @ t) = [cu CHR 0x22]" for t by (simp add: json_quote_def)
  let ?z = "if es = [] then cu CHR ''}'' # r
    else cu CHR '','' # join (cu CHR '','') (map unit_entry es) @ cu CHR ''}'' # r"
  have t: "join (cu CHR '','') (map unit_entry (e # es)) @ cu CHR ''}'' # r
      = json_quote k @ cu CHR '':'' # canonical_text v @ ?z"
    by (cases es) (simp_all add: unit_entry_def e)
  have v: "parse_value g (canonical_text v @ ?z) = Some (Inr (sort_keys v, ?z))"
    using Cons.prems(5) unfolding t by (intro reads_backD [OF kv(2)]) (auto simp: f)
  have s: "skipWhitespace (canonical_text v @ ?z) = canonical_text v @ ?z"
    by (intro solid_skip solid_append canonical_text_solid)
  show ?case
  proof (cases "es = []")
    case True
    then show ?thesis
      unfolding t using v s q kv
      by (simp add: f parseString_quoted more_def e obj_set_all_def del: take_append)
  next
    case False
    let ?rest = "join (cu CHR '','') (map unit_entry es) @ cu CHR ''}'' # r"
    have "parse_entries g (obj_set acc k (sort_keys v)) ?rest
        = Some (Inr (YMap (obj_set_all (obj_set acc k (sort_keys v)) (map (map_prod id sort_keys) es)), r))"
      using Cons.prems t False by (intro Cons.IH) (auto simp: f e has_own_def)
    moreover have "solid ?rest" by (rule join_solid) (simp_all add: False unit_entry_def quote_solid)
    ultimately show ?thesis
      unfolding t using v s q kv False
      by (simp add: f parseString_quoted more_def e obj_set_all_def id_def del: take_append)
  qed
qed simp

subsection \<open>Every canonical text is read back\<close>

definition unit_sorted :: "(jstring \<times> yvalue) list \<Rightarrow> (jstring \<times> yvalue) list" where
  "unit_sorted kvs = map (\<lambda>k. (k, the (map_of kvs k))) (js_sort compareUnits (map fst kvs))"

lemma unit_sorted_keys: "map fst (unit_sorted kvs) = js_sort compareUnits (map fst kvs)"
  by (simp add: unit_sorted_def comp_def)

lemma unit_sorted_entry:
  assumes "(k, v) \<in> set (unit_sorted kvs)"
  shows "map_of kvs k = Some v"
proof -
  from assms have "k \<in> set (map fst kvs)" "v = the (map_of kvs k)" by (auto simp: unit_sorted_def)
  then show ?thesis unfolding key_lookup_iff by auto
qed

lemma map_of_unit_sorted [simp]: "map_of (unit_sorted kvs) k = map_of kvs k"
proof -
  have "map_of (unit_sorted kvs) k = (if k \<in> set (map fst kvs) then Some (the (map_of kvs k)) else None)"
    unfolding unit_sorted_def by (simp add: map_of_map_restrict [of "\<lambda>k. the (map_of kvs k)"] restrict_map_def)
  moreover have "k \<notin> set (map fst kvs) \<Longrightarrow> map_of kvs k = None" unfolding map_of_None_iff .
  moreover have "k \<in> set (map fst kvs) \<Longrightarrow> map_of kvs k = Some (the (map_of kvs k))" unfolding key_lookup_iff by auto
  ultimately show ?thesis by metis
qed

lemma the_map_prod: "k \<in> set (map fst kvs) \<Longrightarrow> the (map_of (map (map_prod id g) kvs) k) = g (the (map_of kvs k))"
  unfolding key_lookup_iff by (auto simp: map_of_map_prod)

lemma canonical_text_map:
  "canonical_text (YMap kvs) = cu CHR ''{'' # join (cu CHR '','') (map unit_entry (unit_sorted kvs)) @ [cu CHR ''}'']"
proof -
  have "map (\<lambda>k. json_quote k @ cu CHR '':'' # the (map_of (map (map_prod id canonical_text) kvs) k)) (js_sort compareUnits (map fst kvs))
      = map unit_entry (unit_sorted kvs)"
    unfolding unit_sorted_def map_map comp_def by (intro map_cong refl) (simp add: unit_entry_def the_map_prod)
  then show ?thesis by (simp add: Let_def)
qed

lemma sort_keys_map: "sort_keys (YMap kvs) = YMap (obj_build (map (map_prod id sort_keys) (unit_sorted kvs)))"
proof -
  have "map (\<lambda>k. (k, the (map_of (map (map_prod id sort_keys) kvs) k))) (js_sort compareUnits (map fst kvs))
      = map (map_prod id sort_keys) (unit_sorted kvs)"
    unfolding unit_sorted_def map_map comp_def by (intro map_cong refl) (simp add: the_map_prod)
  then show ?thesis by (simp add: Let_def)
qed

lemma digit_or_minus:
  assumes "is_digit c \<or> c = cu CHR ''-''"
  shows "c \<noteq> cu CHR 0x22" "c \<noteq> cu CHR ''{''" "c \<noteq> cu CHR ''[''" "c \<noteq> cu CHR ''t''" "c \<noteq> cu CHR ''f''" "c \<noteq> cu CHR ''n''"
  using assms by (auto simp: is_digit_cu)

lemma fuel_Suc: "2 * n < f \<Longrightarrow> \<exists>g. f = Suc g"
  by (cases f) auto

theorem canonical_text_reads_back: "protocol_value v \<Longrightarrow> reads_back v"
proof (induction v rule: yvalue_induct)
  case (Seq xs)
  have xs: "\<forall>v \<in> set xs. reads_back v" using Seq by (simp add: list_all_iff)
  show ?case unfolding reads_back_def
  proof (intro allI impI)
    fix r f assume f: "2 * length (canonical_text (YSeq xs) @ r) < f"
    then obtain g where g: "f = Suc g" using fuel_Suc by blast
    show "parse_value f (canonical_text (YSeq xs) @ r) = Some (Inr (sort_keys (YSeq xs), r))"
    proof (cases "xs = []")
      case False
      have s: "solid (join (cu CHR '','') (map canonical_text xs) @ cu CHR '']'' # r)"
        using False by (rule join_solid) (rule canonical_text_solid)
      show ?thesis
        using parse_items_text [OF False xs, of r g "[]"] f solid_skip [OF s] solid_consume [OF s] by (simp add: g Let_def)
    qed (simp add: g Let_def)
  qed
next
  case (Map kvs)
  have wf: "wf_object kvs" and all: "list_all (\<lambda>(k, v). well_formed k \<and> protocol_value v) kvs"
    using Map.prems by (simp_all add: protocol_map)
  have es: "\<forall>(k, v) \<in> set (unit_sorted kvs). well_formed k \<and> reads_back v"
    using all Map.IH by (auto simp: list_all_iff dest!: unit_sorted_entry map_of_SomeD)
  have d: "distinct (map fst (unit_sorted kvs))" using wf by (simp add: unit_sorted_keys wf_keys_distinct)
  show ?case unfolding reads_back_def
  proof (intro allI impI)
    fix r f assume f: "2 * length (canonical_text (YMap kvs) @ r) < f"
    then obtain g where g: "f = Suc g" using fuel_Suc by blast
    show "parse_value f (canonical_text (YMap kvs) @ r) = Some (Inr (sort_keys (YMap kvs), r))"
    proof (cases "unit_sorted kvs = []")
      case True
      then show ?thesis by (simp add: canonical_text_map sort_keys_map g Let_def obj_set_all_def del: canonical_text.simps sort_keys.simps)
    next
      case False
      have s: "solid (join (cu CHR '','') (map unit_entry (unit_sorted kvs)) @ cu CHR ''}'' # r)"
        using False by (rule join_solid) (simp add: unit_entry_def quote_solid)
      show ?thesis
        using parse_entries_text [OF False es d, of "[]" r g] f solid_skip [OF s] solid_consume [OF s]
        by (simp add: g Let_def canonical_text_map sort_keys_map has_own_def del: canonical_text.simps sort_keys.simps)
    qed
  qed
next
  case (Num n)
  obtain c t where c: "number_to_string n = c # t" "is_digit c \<or> c = cu CHR ''-''" using number_to_string_hd by blast
  show ?case unfolding reads_back_def
  proof (intro allI impI)
    fix r f assume r: "ends r" and f: "2 * length (canonical_text (YNum n) @ r) < f"
    then obtain g where g: "f = Suc g" using fuel_Suc by blast
    show "parse_value f (canonical_text (YNum n) @ r) = Some (Inr (sort_keys (YNum n), r))"
      using parseNumber_printed [of n r] Num r c digit_or_minus [OF c(2)] by (auto simp: g)
  qed
next
  case (Str s)
  show ?case unfolding reads_back_def
  proof (intro allI impI)
    fix r f assume f: "2 * length (canonical_text (YStr s) @ r) < f"
    then obtain g where g: "f = Suc g" using fuel_Suc by blast
    have "json_quote s @ r = cu CHR 0x22 # json_escape s @ cu CHR 0x22 # r" by (simp add: json_quote_def)
    then show "parse_value f (canonical_text (YStr s) @ r) = Some (Inr (sort_keys (YStr s), r))"
      using parseString_quoted [of s r] Str by (simp add: g)
  qed
next
  case Null
  show ?case unfolding reads_back_def
  proof (intro allI impI)
    fix r f assume "2 * length (canonical_text YNull @ r) < f"
    then obtain g where "f = Suc g" using fuel_Suc by blast
    then show "parse_value f (canonical_text YNull @ r) = Some (Inr (sort_keys YNull, r))"
      by (simp add: u_Cons parseLiteral_def)
  qed
next
  case (Bool b)
  show ?case unfolding reads_back_def
  proof (intro allI impI)
    fix r f assume "2 * length (canonical_text (YBool b) @ r) < f"
    then obtain g where "f = Suc g" using fuel_Suc by blast
    then show "parse_value f (canonical_text (YBool b) @ r) = Some (Inr (sort_keys (YBool b), r))"
      by (cases b) (simp_all add: u_Cons parseLiteral_def)
  qed
qed

theorem json_roundtrip:
  assumes "protocol_value v"
  shows "strict_json (canonical_text v) = Some (Inr (sort_keys v))"
proof -
  have "skipWhitespace (canonical_text v) = canonical_text v" by (rule solid_skip [OF canonical_text_solid])
  moreover have "parse_value (Suc (2 * length (canonical_text v))) (canonical_text v) = Some (Inr (sort_keys v, []))"
    using reads_backD [OF canonical_text_reads_back [OF assms], of "[]"] by (simp del: parse_value.simps)
  ultimately show ?thesis by (simp add: strict_json_def Let_def del: parse_value.simps)
qed

section \<open>Canonical order of keys\<close>

lemma sort_keys_abs: "wf_yvalue v \<Longrightarrow> abs_val (sort_keys v) = abs_val v \<and> wf_yvalue (sort_keys v)"
proof (induction v rule: yvalue_induct)
  case (Seq xs)
  then show ?case by (auto simp: list_all_iff)
next
  case (Map kvs)
  let ?es = "map (map_prod id sort_keys) (unit_sorted kvs)"
  have wf: "wf_object kvs" "wf_entries kvs" using Map.prems by simp_all
  have ih: "abs_val (sort_keys v) = abs_val v \<and> wf_yvalue (sort_keys v)" if "map_of kvs k = Some v" for k v
    using Map.IH [OF map_of_SomeD [OF that]] wf_entries_lookup [OF wf(2) that] by simp
  have d: "distinct (map fst ?es)" using wf_keys_distinct [OF wf(1)] by (simp add: comp_def unit_sorted_keys)
  have l: "map_of (obj_build ?es) k = map_option sort_keys (map_of kvs k)" for k
  proof -
    have "map_of (rev ?es) k = map_of ?es k"
      using d by (intro fun_cong [OF map_of_permute]) (simp_all add: comp_def flip: rev_map)
    then show ?thesis using map_of_obj_set_all [of "[]" ?es k] by (cases "map_of kvs k") (simp_all add: map_of_map_prod)
  qed
  have a: "abs_obj (obj_build ?es) = abs_obj kvs"
    using ih by (auto simp: abs_obj_eq_iff l option.map_comp comp_def intro!: option.map_cong)
  have "wf_entries ?es"
    using ih by (auto simp: wf_entries_iff dest!: unit_sorted_entry)
  then have "wf_yvalue (YMap (obj_build ?es))" by (rule wf_map_obj_build)
  then show ?case unfolding sort_keys_map by (simp add: a)
qed simp_all

lemma canonical_text_sort_keys: "wf_yvalue v \<Longrightarrow> canonical_text (sort_keys v) = canonical_text v"
  using canonical_text.cong [of "sort_keys v" v] sort_keys_abs [of v] by simp

theorem canonical_text_eq_iff:
  assumes "protocol_value v" "protocol_value w"
  shows "canonical_text v = canonical_text w \<longleftrightarrow> abs_val v = abs_val w"
proof
  assume "canonical_text v = canonical_text w"
  then have "sort_keys v = sort_keys w" using json_roundtrip [OF assms(1)] json_roundtrip [OF assms(2)] by simp
  then show "abs_val v = abs_val w"
    using sort_keys_abs [of v] sort_keys_abs [of w] assms by (simp add: protocol_value_def)
next
  assume "abs_val v = abs_val w"
  then show "canonical_text v = canonical_text w" using assms by (intro canonical_text.cong) (simp_all add: protocol_value_def)
qed

section \<open>Bytes\<close>

lemma well_formed_append: "well_formed a \<Longrightarrow> well_formed b \<Longrightarrow> well_formed (a @ b)"
proof (induction a rule: well_formed.induct)
  case (2 c)
  then show ?case by (cases b) simp_all
next
  case (3 c d r)
  then show ?case by (cases "is_high_surrogate c") simp_all
qed simp

lemma well_formed_plain: "list_all (\<lambda>c. \<not> is_high_surrogate c \<and> \<not> is_low_surrogate c) s \<Longrightarrow> well_formed s"
  by (induction s rule: well_formed.induct) auto

lemma plain_cu [simp]: "\<not> is_high_surrogate (cu c)" "\<not> is_low_surrogate (cu c)"
  using surrogate_units by blast+

lemma plain_small: "unat c < 128 \<Longrightarrow> \<not> is_high_surrogate c \<and> \<not> is_low_surrogate c"
  by (simp add: is_high_surrogate_def is_low_surrogate_def)

lemma well_formed_u [simp]: "well_formed (u s)"
  by (rule well_formed_plain) (simp add: u_def list_all_iff)

lemma well_formed_cu: "well_formed r \<Longrightarrow> well_formed (cu c # r)"
  using well_formed_append [of "[cu c]" r] by simp

lemma well_formed_number: "well_formed (number_to_string n)"
proof -
  have "is_number_char c \<Longrightarrow> \<not> is_high_surrogate c \<and> \<not> is_low_surrogate c" for c
    by (auto simp: is_number_char_def is_digit_def is_high_surrogate_def is_low_surrogate_def unat_cu)
  then show ?thesis using number_to_string_chars [of n] by (intro well_formed_plain) (auto simp: list_all_iff)
qed

lemma well_formed_esc_unit:
  assumes "\<not> is_high_surrogate c" "\<not> is_low_surrogate c"
  shows "well_formed (esc_unit c)"
proof -
  have h: "unat (hex_digit n) < 128" if "n < 16" for n using that by (simp add: unat_hex_digit)
  have "unat c < 65536" using unsigned_less [of c, where ?'a = nat] by simp
  then have "unat c div 4096 < 16" by simp
  with assms h show ?thesis
    by (intro well_formed_plain) (simp add: esc_unit_def hex4_def plain_small)
qed

lemma well_formed_escape: "well_formed s \<Longrightarrow> well_formed (json_escape s)"
proof (induction s rule: json_escape.induct)
  case (2 c)
  then show ?case by (simp add: well_formed_esc_unit)
next
  case (3 c d r)
  show ?case
  proof (cases "is_high_surrogate c \<and> is_low_surrogate d")
    case True
    with 3 show ?thesis by simp
  next
    case False
    with 3 show ?thesis by (auto intro!: well_formed_append well_formed_esc_unit split: if_splits)
  qed
qed simp

lemma well_formed_quote: "well_formed s \<Longrightarrow> well_formed (json_quote s)"
  unfolding json_quote_def by (intro well_formed_cu well_formed_append well_formed_escape) simp_all

lemma well_formed_join: "list_all well_formed xs \<Longrightarrow> well_formed (join (cu c) xs)"
  by (induction "cu c" xs rule: join.induct) (auto intro: well_formed_append well_formed_cu)

lemma canonical_text_well_formed: "unicode_ok v \<Longrightarrow> well_formed (canonical_text v)"
proof (induction v rule: yvalue_induct)
  case (Seq xs)
  then have "well_formed (join (cu CHR '','') (map canonical_text xs))"
    by (intro well_formed_join) (simp add: list_all_iff)
  then show ?case by (simp add: well_formed_cu well_formed_append)
next
  case (Map kvs)
  then have all: "\<forall>(k, v) \<in> set kvs. well_formed k \<and> unicode_ok v" by (auto simp: list_all_iff)
  have "list_all well_formed (map unit_entry (unit_sorted kvs))"
    unfolding list_all_iff using all Map.IH
    by (fastforce simp: unit_entry_def intro!: well_formed_append well_formed_quote well_formed_cu
        dest!: unit_sorted_entry map_of_SomeD)
  then have "well_formed (join (cu CHR '','') (map unit_entry (unit_sorted kvs)))" by (rule well_formed_join)
  then show ?case
    unfolding canonical_text_map by (intro well_formed_cu well_formed_append) simp_all
qed (simp_all add: well_formed_number well_formed_quote)

theorem bytes_roundtrip:
  assumes "protocol_value v" "canonicalProtocolBytes v = Inr bs"
  shows "parseProtocolJson (Inr bs) = Inr (sort_keys v)"
proof -
  have ok: "unicode_ok v" using assms(1) by (simp add: protocol_value_def)
  then have bs: "bs = utf8_encode (canonical_text v)"
    using assms(2) by (simp add: canonicalProtocolBytes_def canonicalizeProtocolValue_def)
  have first: "\<exists>c s. canonical_text v = c # s \<and> unat c < 128"
  proof (cases v)
    case (YNum n)
    then show ?thesis using number_to_string_hd [of n] by (auto simp: is_digit_def unat_cu)
  qed (auto simp: u_Cons unat_cu json_quote_def)
  then have "utf8_decode bs = Some (canonical_text v)"
    unfolding bs using utf8_roundtrip canonical_text_well_formed [OF ok] by auto
  then show ?thesis by (simp add: parseProtocolJson_def json_roundtrip [OF assms(1)])
qed

lemma bytes_ok: "protocol_value v \<Longrightarrow> canonicalProtocolBytes v = Inr (utf8_encode (canonical_text v))"
  by (simp add: canonicalProtocolBytes_def canonicalizeProtocolValue_def protocol_value_def)

theorem bytes_eq_iff:
  assumes "protocol_value v" "protocol_value w"
  shows "canonicalProtocolBytes v = canonicalProtocolBytes w \<longleftrightarrow> abs_val v = abs_val w"
proof -
  have wf: "well_formed (canonical_text v)" "well_formed (canonical_text w)"
    using assms by (simp_all add: canonical_text_well_formed protocol_value_def)
  show ?thesis
    using canonical_text_eq_iff [OF assms] utf8_inj [OF wf] by (auto simp: bytes_ok assms)
qed

end
