(* ===== verification/ProtocolParse.thy ===== *)
theory ProtocolParse
  imports JsonRoundtrip
begin

text \<open>
  packages/transition/src/parse.ts: the closed schemas of the protocol. Every function takes a protocol
  value and throws SCHEMA_INVALID or NON_CANONICAL_VALUE; where the source returns its argument cast
  to an interface, the model returns the typed record of TransitionTypes, and
  ProtocolParseLaws shows that the record says everything the value says. Paths of messages are
  left out.
\<close>

section \<open>Fields\<close>

definition assertProtocolDomain :: "yvalue \<Rightarrow> unit protocol" where
  "assertProtocolDomain v = bind_result (canonicalizeProtocolValue v) (\<lambda>_. Inr ())"

text \<open>\<open>schemaError\<close> under a condition.\<close>

abbreviation schema_check :: "bool \<Rightarrow> unit protocol" where
  "schema_check b \<equiv> require b SCHEMA_INVALID"

text \<open>\<open>closedRecord\<close> with the required and the allowed fields.\<close>

definition closedRecord :: "yvalue \<Rightarrow> string list \<Rightarrow> string list \<Rightarrow> (jstring \<times> yvalue) list protocol" where
  "closedRecord v required allowed =
     (case v of
        YMap m \<Rightarrow>
          bind_result (schema_check (list_all (\<lambda>(k, _). k \<in> set (map u allowed)) m)) (\<lambda>_.
          bind_result (schema_check (list_all (\<lambda>k. has_own m (u k)) required)) (\<lambda>_. Inr m))
      | _ \<Rightarrow> Inl SCHEMA_INVALID)"

text \<open>A field of a record; reading an absent one gives \<open>undefined\<close>, which every reader refuses.\<close>

definition field_of :: "(jstring \<times> yvalue) list \<Rightarrow> string \<Rightarrow> (yvalue \<Rightarrow> 'a protocol) \<Rightarrow> 'a protocol" where
  "field_of m k f = (case map_of m (u k) of None \<Rightarrow> Inl SCHEMA_INVALID | Some v \<Rightarrow> f v)"

definition arrayValue :: "yvalue \<Rightarrow> yvalue list protocol" where
  "arrayValue v = (case v of YSeq xs \<Rightarrow> Inr xs | _ \<Rightarrow> Inl SCHEMA_INVALID)"

text \<open>\<open>stringValue\<close> with its minimum, maximum (in code points) and pattern.\<close>

definition stringValue :: "nat \<Rightarrow> nat option \<Rightarrow> (jstring \<Rightarrow> bool) \<Rightarrow> yvalue \<Rightarrow> jstring protocol" where
  "stringValue mn mx pattern v =
     (case v of
        YStr s \<Rightarrow>
          bind_result (schema_check (mn \<le> length (codepoints s))) (\<lambda>_.
          bind_result (schema_check (case mx of None \<Rightarrow> True | Some m \<Rightarrow> length (codepoints s) \<le> m)) (\<lambda>_.
          bind_result (schema_check (pattern s)) (\<lambda>_. Inr s)))
      | _ \<Rightarrow> Inl SCHEMA_INVALID)"

abbreviation any_text :: "jstring \<Rightarrow> bool" where
  "any_text \<equiv> \<lambda>_. True"

definition literal :: "jstring \<Rightarrow> yvalue \<Rightarrow> unit protocol" where
  "literal expected v = schema_check (v = YStr expected)"

section \<open>Patterns\<close>

definition is_letter :: "code_unit \<Rightarrow> bool" where
  "is_letter c \<longleftrightarrow> (65 \<le> unat c \<and> unat c \<le> 90) \<or> (97 \<le> unat c \<and> unat c \<le> 122)"

definition identifier_pattern :: "jstring \<Rightarrow> bool" where
  "identifier_pattern s = (case s of [] \<Rightarrow> False
     | c # r \<Rightarrow> (is_letter c \<or> is_digit c) \<and> list_all (\<lambda>d. is_letter d \<or> is_digit d \<or> d \<in> set (u ''._:/-'')) r)"

definition is_lower_hex :: "code_unit \<Rightarrow> bool" where
  "is_lower_hex c \<longleftrightarrow> is_digit c \<or> (97 \<le> unat c \<and> unat c \<le> 102)"

definition digest_pattern :: "jstring \<Rightarrow> bool" where
  "digest_pattern s \<longleftrightarrow> take 7 s = u ''sha256:'' \<and> length (drop 7 s) = 64 \<and> list_all is_lower_hex (drop 7 s)"

text \<open>The two-digit groups of the timestamp pattern: month, day, hour, minute and second.\<close>

definition two_digits :: "(nat \<Rightarrow> bool) \<Rightarrow> jstring \<Rightarrow> bool" where
  "two_digits P s \<longleftrightarrow> length s = 2 \<and> list_all is_digit s \<and> P (digits_value s)"

definition timestamp_pattern :: "jstring \<Rightarrow> bool" where
  "timestamp_pattern s \<longleftrightarrow> length s = 24 \<and> list_all is_digit (take 4 s) \<and> s ! 4 = cu CHR ''-''
     \<and> two_digits (\<lambda>n. 1 \<le> n \<and> n \<le> 12) (take 2 (drop 5 s)) \<and> s ! 7 = cu CHR ''-''
     \<and> two_digits (\<lambda>n. n \<le> 31) (take 2 (drop 8 s)) \<and> s ! 10 = cu CHR ''T''
     \<and> two_digits (\<lambda>n. n \<le> 23) (take 2 (drop 11 s)) \<and> s ! 13 = cu CHR '':''
     \<and> two_digits (\<lambda>n. n \<le> 59) (take 2 (drop 14 s)) \<and> s ! 16 = cu CHR '':''
     \<and> two_digits (\<lambda>n. n \<le> 59) (take 2 (drop 17 s)) \<and> s ! 19 = cu CHR ''.''
     \<and> list_all is_digit (take 3 (drop 20 s)) \<and> s ! 23 = cu CHR ''Z''"

definition parse_identifier :: "yvalue \<Rightarrow> jstring protocol" where
  "parse_identifier = stringValue 1 (Some 256) identifier_pattern"

definition parse_digest :: "yvalue \<Rightarrow> jstring protocol" where
  "parse_digest = stringValue 0 None digest_pattern"

section \<open>Canonical sets\<close>

fun canonicalSet :: "yvalue list \<Rightarrow> unit protocol" where
  "canonicalSet [] = Inr ()"
| "canonicalSet [v] = Inr ()"
| "canonicalSet (v # w # vs) =
     bind_result (compareCanonicalValues v w) (\<lambda>c.
       if c = 0 then Inl NON_CANONICAL_VALUE else if c > 0 then Inl NON_CANONICAL_VALUE else canonicalSet (w # vs))"

section \<open>References\<close>

definition resourceDescriptor :: "yvalue \<Rightarrow> resource_descriptor protocol" where
  "resourceDescriptor v =
     bind_result (closedRecord v [''uri'', ''mediaType'', ''digest''] [''uri'', ''mediaType'', ''digest'']) (\<lambda>m.
     bind_result (field_of m ''uri'' (stringValue 1 (Some 2048) any_text)) (\<lambda>uri.
     bind_result (field_of m ''mediaType'' (stringValue 1 (Some 256) any_text)) (\<lambda>mt.
     bind_result (field_of m ''digest'' parse_digest) (\<lambda>d.
       Inr \<lparr>res_uri = uri, res_media_type = mt, res_digest = d\<rparr>))))"

definition kind_of_name :: "jstring \<Rightarrow> object_kind option" where
  "kind_of_name s =
     (if s = u ''state'' then Some KState else if s = u ''effect'' then Some KEffect
      else if s = u ''statement'' then Some KStatement else if s = u ''commit'' then Some KCommit else None)"

definition parseObjectDescriptor :: "yvalue \<Rightarrow> object_descriptor protocol" where
  "parseObjectDescriptor v =
     bind_result (assertProtocolDomain v) (\<lambda>_.
     bind_result (closedRecord v [''kind'', ''schema'', ''digest''] [''kind'', ''schema'', ''digest'']) (\<lambda>m.
     bind_result (field_of m ''kind'' (stringValue 0 None any_text)) (\<lambda>k.
       case kind_of_name k of
         None \<Rightarrow> Inl SCHEMA_INVALID
       | Some kind \<Rightarrow>
           bind_result (field_of m ''schema'' (literal (expectedSchema kind))) (\<lambda>_.
           bind_result (field_of m ''digest'' parse_digest) (\<lambda>d. Inr \<lparr>desc_kind = kind, desc_digest = d\<rparr>)))))"

definition descriptorOfKind :: "object_kind \<Rightarrow> yvalue \<Rightarrow> object_descriptor protocol" where
  "descriptorOfKind kind v =
     bind_result (parseObjectDescriptor v) (\<lambda>d.
     bind_result (schema_check (desc_kind d = kind)) (\<lambda>_. Inr d))"

definition actorRef :: "yvalue \<Rightarrow> actor_ref protocol" where
  "actorRef v =
     bind_result (closedRecord v [''kind'', ''id''] [''kind'', ''id'']) (\<lambda>m.
     bind_result (field_of m ''kind'' (\<lambda>k.
        if k = YStr (u ''human'') then Inr Human else if k = YStr (u ''agent'') then Inr Agent
        else if k = YStr (u ''service'') then Inr Service else Inl SCHEMA_INVALID)) (\<lambda>kind.
     bind_result (field_of m ''id'' (stringValue 1 (Some 512) any_text)) (\<lambda>i. Inr \<lparr>actor_kind = kind, actor_id = i\<rparr>)))"

definition evidenceRef :: "yvalue \<Rightarrow> evidence_ref protocol" where
  "evidenceRef v =
     bind_result (closedRecord v [''resource'', ''locator''] [''resource'', ''locator'']) (\<lambda>m.
     bind_result (field_of m ''resource'' resourceDescriptor) (\<lambda>r.
     bind_result (field_of m ''locator'' (\<lambda>l. closedRecord l [''scheme'', ''value''] [''scheme'', ''value''])) (\<lambda>l.
     bind_result (field_of l ''scheme'' parse_identifier) (\<lambda>s.
     bind_result (field_of l ''value'' (\<lambda>x. bind_result (assertProtocolDomain x) (\<lambda>_. Inr x))) (\<lambda>x.
       Inr \<lparr>ev_resource = r, ev_scheme = s, ev_value = x\<rparr>)))))"

definition evidenceSet :: "bool \<Rightarrow> yvalue \<Rightarrow> evidence_ref list protocol" where
  "evidenceSet requireMember v =
     bind_result (arrayValue v) (\<lambda>vs.
     bind_result (schema_check (\<not> (requireMember \<and> vs = []))) (\<lambda>_.
     bind_result (traverse evidenceRef vs) (\<lambda>es.
     bind_result (canonicalSet vs) (\<lambda>_. Inr es))))"

section \<open>Claims and predicates\<close>

definition mode_of_name :: "jstring \<Rightarrow> claim_mode option" where
  "mode_of_name s = (if s = u ''stated'' then Some Stated else if s = u ''inferred'' then Some Inferred
     else if s = u ''authored'' then Some Authored else None)"

definition stringClaim :: "yvalue \<Rightarrow> string_claim protocol" where
  "stringClaim v =
     bind_result (closedRecord v [''mode''] [''mode'', ''value'', ''evidence'']) (\<lambda>m.
     bind_result (field_of m ''mode'' (stringValue 0 None any_text)) (\<lambda>mode.
       if mode = u ''unspecified''
       then bind_result (closedRecord v [''mode''] [''mode'']) (\<lambda>_. Inr Unspecified)
       else (case mode_of_name mode of
           None \<Rightarrow> Inl SCHEMA_INVALID
         | Some md \<Rightarrow>
             bind_result (closedRecord v [''mode'', ''value'', ''evidence''] [''mode'', ''value'', ''evidence'']) (\<lambda>r.
             bind_result (field_of r ''value'' (stringValue 1 None any_text)) (\<lambda>t.
             bind_result (field_of r ''evidence'' (evidenceSet (md = Stated))) (\<lambda>es. Inr (Claim md t es)))))))"

definition proposalPredicate :: "yvalue \<Rightarrow> statement_predicate protocol" where
  "proposalPredicate v =
     bind_result (closedRecord v [''intent'', ''rationale''] [''intent'', ''rationale'']) (\<lambda>m.
     bind_result (field_of m ''intent'' stringClaim) (\<lambda>i.
     bind_result (field_of m ''rationale'' stringClaim) (\<lambda>r. Inr (Proposal i r))))"

definition decisionPolicy :: "yvalue \<Rightarrow> decision_policy protocol" where
  "decisionPolicy v =
     bind_result (closedRecord v [''mode''] [''mode'', ''resource'']) (\<lambda>m.
       if map_of m (u ''mode'') = Some (YStr (u ''not_evaluated''))
       then bind_result (closedRecord v [''mode''] [''mode'']) (\<lambda>_. Inr NotEvaluated)
       else if map_of m (u ''mode'') = Some (YStr (u ''evaluated''))
       then bind_result (closedRecord v [''mode'', ''resource''] [''mode'', ''resource'']) (\<lambda>e.
            bind_result (field_of e ''resource'' resourceDescriptor) (\<lambda>r. Inr (Evaluated r)))
       else Inl SCHEMA_INVALID)"

definition decision_outcome_of :: "yvalue \<Rightarrow> decision_outcome protocol" where
  "decision_outcome_of v =
     (if v = YStr (u ''accepted'') then Inr Accepted else if v = YStr (u ''overridden'') then Inr Overridden
      else if v = YStr (u ''rejected'') then Inr Rejected else Inl SCHEMA_INVALID)"

definition is_authored :: "string_claim \<Rightarrow> bool" where
  "is_authored c = (case c of Claim Authored _ _ \<Rightarrow> True | _ \<Rightarrow> False)"

definition decisionPredicate :: "yvalue \<Rightarrow> statement_predicate protocol" where
  "decisionPredicate v =
     bind_result (closedRecord v [''policy'', ''considered'', ''outcome'', ''rationale'', ''decidedAt'']
        [''policy'', ''considered'', ''outcome'', ''rationale'', ''decidedAt'']) (\<lambda>m.
     bind_result (field_of m ''policy'' decisionPolicy) (\<lambda>p.
     bind_result (field_of m ''considered'' arrayValue) (\<lambda>vs.
     bind_result (traverse (descriptorOfKind KStatement) vs) (\<lambda>cs.
     bind_result (canonicalSet vs) (\<lambda>_.
     bind_result (field_of m ''outcome'' decision_outcome_of) (\<lambda>out.
     bind_result (field_of m ''rationale'' stringClaim) (\<lambda>r.
     bind_result (schema_check (\<not> (out = Overridden \<and> \<not> is_authored r))) (\<lambda>_.
     bind_result (field_of m ''decidedAt'' (stringValue 0 None timestamp_pattern)) (\<lambda>t.
       Inr (Decision \<lparr>dp_policy = p, dp_considered = cs, dp_outcome = out, dp_rationale = r, dp_decided_at = t\<rparr>))))))))))"

section \<open>Protocol objects\<close>

definition stateCodecRef :: "yvalue \<Rightarrow> state_codec_ref protocol" where
  "stateCodecRef v =
     bind_result (closedRecord v [''mediaType'', ''version''] [''mediaType'', ''version'']) (\<lambda>m.
     bind_result (field_of m ''mediaType'' (stringValue 1 (Some 256) any_text)) (\<lambda>mt.
     bind_result (field_of m ''version'' parse_identifier) (\<lambda>vs. Inr \<lparr>codec_media_type = mt, codec_version = vs\<rparr>)))"

definition mutationDriverRef :: "yvalue \<Rightarrow> mutation_driver_ref protocol" where
  "mutationDriverRef v =
     bind_result (closedRecord v [''protocol'', ''protocolVersion'', ''specDigest'']
        [''protocol'', ''protocolVersion'', ''specDigest'']) (\<lambda>m.
     bind_result (field_of m ''protocol'' parse_identifier) (\<lambda>p.
     bind_result (field_of m ''protocolVersion'' parse_identifier) (\<lambda>pv.
     bind_result (field_of m ''specDigest'' parse_digest) (\<lambda>d.
       Inr \<lparr>drv_protocol = p, drv_version = pv, drv_digest = d\<rparr>))))"

definition parseState :: "yvalue \<Rightarrow> state_object protocol" where
  "parseState v =
     bind_result (assertProtocolDomain v) (\<lambda>_.
     bind_result (closedRecord v [''schema'', ''codec'', ''value''] [''schema'', ''codec'', ''value'']) (\<lambda>m.
     bind_result (field_of m ''schema'' (literal STATE_SCHEMA)) (\<lambda>_.
     bind_result (field_of m ''codec'' stateCodecRef) (\<lambda>c.
     bind_result (field_of m ''value'' (\<lambda>x. bind_result (assertProtocolDomain x) (\<lambda>_. Inr x))) (\<lambda>x.
       Inr \<lparr>st_codec = c, st_value = x\<rparr>)))))"

text \<open>The loop over the inputs, with the role of the previous input.\<close>

fun parse_inputs :: "jstring option \<Rightarrow> yvalue list \<Rightarrow> effect_input list protocol" where
  "parse_inputs previous [] = Inr []"
| "parse_inputs previous (v # vs) =
     bind_result (closedRecord v [''role'', ''object''] [''role'', ''object'']) (\<lambda>m.
     bind_result (field_of m ''role'' parse_identifier) (\<lambda>role.
     bind_result (field_of m ''object'' parseObjectDescriptor) (\<lambda>ob.
     bind_result (require (case previous of None \<Rightarrow> True | Some p \<Rightarrow> \<not> compareUnits p role \<ge> 0) NON_CANONICAL_VALUE) (\<lambda>_.
     bind_result (parse_inputs (Some role) vs) (\<lambda>ins. Inr (\<lparr>in_role = role, in_object = ob\<rparr> # ins))))))"

definition parseEffectDefinition :: "yvalue \<Rightarrow> effect_definition protocol" where
  "parseEffectDefinition v =
     bind_result (assertProtocolDomain v) (\<lambda>_.
     bind_result (closedRecord v [''driver'', ''operations'', ''inputs''] [''driver'', ''operations'', ''inputs'']) (\<lambda>m.
     bind_result (field_of m ''driver'' mutationDriverRef) (\<lambda>d.
     bind_result (field_of m ''operations'' arrayValue) (\<lambda>ops.
     bind_result (traverse assertProtocolDomain ops) (\<lambda>_.
     bind_result (field_of m ''inputs'' arrayValue) (\<lambda>vs.
     bind_result (parse_inputs None vs) (\<lambda>ins.
       Inr \<lparr>ed_driver = d, ed_operations = ops, ed_inputs = ins\<rparr>)))))))"

definition parseEffect :: "yvalue \<Rightarrow> effect_object protocol" where
  "parseEffect v =
     bind_result (assertProtocolDomain v) (\<lambda>_.
     bind_result (closedRecord v [''schema'', ''base'', ''driver'', ''operations'', ''inputs'', ''result'']
        [''schema'', ''base'', ''driver'', ''operations'', ''inputs'', ''result'']) (\<lambda>m.
     bind_result (field_of m ''schema'' (literal EFFECT_SCHEMA)) (\<lambda>_.
     bind_result (field_of m ''base'' (descriptorOfKind KState)) (\<lambda>b.
     bind_result (field_of m ''driver'' (\<lambda>d. field_of m ''operations'' (\<lambda>ops. field_of m ''inputs'' (\<lambda>ins.
        parseEffectDefinition (YMap [(u ''driver'', d), (u ''operations'', ops), (u ''inputs'', ins)]))))) (\<lambda>def.
     bind_result (field_of m ''result'' (descriptorOfKind KState)) (\<lambda>r.
       Inr \<lparr>ef_base = b, ef_definition = def, ef_result = r\<rparr>))))))"

definition one_subject :: "object_kind \<Rightarrow> object_descriptor list \<Rightarrow> bool" where
  "one_subject kind subjects \<longleftrightarrow> length subjects = 1 \<and> desc_kind (hd subjects) = kind"

definition parse_predicate :: "jstring \<Rightarrow> object_descriptor list \<Rightarrow> yvalue \<Rightarrow> statement_predicate protocol" where
  "parse_predicate t subjects v =
     (if t = PROPOSAL_PREDICATE_TYPE
      then bind_result (schema_check (one_subject KEffect subjects)) (\<lambda>_. proposalPredicate v)
      else if t = DECISION_PREDICATE_TYPE
      then bind_result (schema_check (one_subject KStatement subjects)) (\<lambda>_. decisionPredicate v)
      else bind_result (assertProtocolDomain v) (\<lambda>_. Inr (External t v)))"

definition parseStatement :: "yvalue \<Rightarrow> statement_object protocol" where
  "parseStatement v =
     bind_result (assertProtocolDomain v) (\<lambda>_.
     bind_result (closedRecord v [''schema'', ''subjects'', ''actor'', ''predicateType'', ''predicate'']
        [''schema'', ''subjects'', ''actor'', ''predicateType'', ''predicate'']) (\<lambda>m.
     bind_result (field_of m ''schema'' (literal STATEMENT_SCHEMA)) (\<lambda>_.
     bind_result (field_of m ''subjects'' arrayValue) (\<lambda>vs.
     bind_result (schema_check (vs \<noteq> [])) (\<lambda>_.
     bind_result (traverse parseObjectDescriptor vs) (\<lambda>subjects.
     bind_result (canonicalSet vs) (\<lambda>_.
     bind_result (field_of m ''actor'' actorRef) (\<lambda>a.
     bind_result (field_of m ''predicateType'' parse_identifier) (\<lambda>t.
     bind_result (field_of m ''predicate'' (parse_predicate t subjects)) (\<lambda>p.
       Inr \<lparr>sm_subjects = subjects, sm_actor = a, sm_predicate = p\<rparr>))))))))))"

definition parseProposalStatement :: "yvalue \<Rightarrow> statement_object protocol" where
  "parseProposalStatement v =
     bind_result (parseStatement v) (\<lambda>s.
     bind_result (schema_check (predicate_type (sm_predicate s) = PROPOSAL_PREDICATE_TYPE)) (\<lambda>_. Inr s))"

definition parseDecisionStatement :: "yvalue \<Rightarrow> statement_object protocol" where
  "parseDecisionStatement v =
     bind_result (parseStatement v) (\<lambda>s.
     bind_result (schema_check (predicate_type (sm_predicate s) = DECISION_PREDICATE_TYPE)) (\<lambda>_. Inr s))"

definition parseCommitV2 :: "yvalue \<Rightarrow> commit_object protocol" where
  "parseCommitV2 v =
     bind_result (assertProtocolDomain v) (\<lambda>_.
     bind_result (closedRecord v [''schema'', ''parents'', ''decision'', ''result'']
        [''schema'', ''parents'', ''decision'', ''result'']) (\<lambda>m.
     bind_result (field_of m ''schema'' (literal COMMIT_V2_SCHEMA)) (\<lambda>_.
     bind_result (field_of m ''parents'' arrayValue) (\<lambda>vs.
     bind_result (traverse (descriptorOfKind KCommit) vs) (\<lambda>ps.
     bind_result (field_of m ''decision'' (descriptorOfKind KStatement)) (\<lambda>d.
     bind_result (field_of m ''result'' (descriptorOfKind KState)) (\<lambda>r.
       Inr \<lparr>cm_parents = ps, cm_decision = d, cm_result = r\<rparr>)))))))"

definition parseProtocolObject :: "yvalue \<Rightarrow> protocol_object protocol" where
  "parseProtocolObject v =
     bind_result (assertProtocolDomain v) (\<lambda>_.
     bind_result (closedRecord v [''schema''] [''schema'', ''codec'', ''value'', ''base'', ''driver'', ''operations'',
        ''inputs'', ''result'', ''subjects'', ''actor'', ''predicateType'', ''predicate'', ''parents'', ''decision'']) (\<lambda>m.
       if map_of m (u ''schema'') = Some (YStr STATE_SCHEMA) then bind_result (parseState v) (\<lambda>s. Inr (PState s))
       else if map_of m (u ''schema'') = Some (YStr EFFECT_SCHEMA) then bind_result (parseEffect v) (\<lambda>e. Inr (PEffect e))
       else if map_of m (u ''schema'') = Some (YStr STATEMENT_SCHEMA) then bind_result (parseStatement v) (\<lambda>s. Inr (PStatement s))
       else if map_of m (u ''schema'') = Some (YStr COMMIT_V2_SCHEMA) then bind_result (parseCommitV2 v) (\<lambda>c. Inr (PCommit c))
       else Inl SCHEMA_INVALID))"

definition parseProtocolBytes :: "jstring + byte list \<Rightarrow> protocol_object protocol" where
  "parseProtocolBytes input = bind_result (parseProtocolJson input) parseProtocolObject"

end
