(* ===== verification/ProtocolParseLaws.thy ===== *)
theory ProtocolParseLaws
  imports ProtocolParse
begin

text \<open>
  Laws of parse.ts. The locale \<open>lossless\<close> is what every schema promises: the typed record that it
  returns denotes the value it was given, up to the order of keys, and is accepted again. It is
  interpreted on every schema of the protocol.
\<close>

section \<open>Reading fields\<close>

lemma field_ok [simp]: "field_of m k f = Inr x \<longleftrightarrow> (\<exists>v. map_of m (u k) = Some v \<and> f v = Inr x)"
  by (simp add: field_of_def split: option.split)

lemma stringValue_ok [simp]:
  "stringValue mn mx p v = Inr s \<longleftrightarrow> v = YStr s \<and> mn \<le> length (codepoints s)
     \<and> (case mx of None \<Rightarrow> True | Some m \<Rightarrow> length (codepoints s) \<le> m) \<and> p s"
  by (auto simp: stringValue_def split: yvalue.splits)

lemma arrayValue_ok [simp]: "arrayValue v = Inr xs \<longleftrightarrow> v = YSeq xs"
  by (auto simp: arrayValue_def split: yvalue.splits)

lemma literal_ok [simp]: "literal e v = Inr x \<longleftrightarrow> v = YStr e"
  by (simp add: literal_def)

lemma assert_ok [simp]: "assertProtocolDomain v = Inr x \<longleftrightarrow> unicode_ok v"
  by (simp add: assertProtocolDomain_def canonicalizeProtocolValue_def)

lemma closedRecord_ok:
  "closedRecord v required allowed = Inr m \<longleftrightarrow> v = YMap m \<and> set (map fst m) \<subseteq> set (map u allowed)
     \<and> list_all (\<lambda>k. has_own m (u k)) required"
  by (auto simp: closedRecord_def list_all_iff split: yvalue.splits)

text \<open>A closed record is determined by its fields.\<close>

lemma closed_fields:
  assumes "closedRecord v ks ks = Inr m" "map fst es = map u ks"
    and "list_all (\<lambda>(k, x). \<exists>y. map_of m k = Some y \<and> abs_val y = abs_val x) es"
  shows "abs_val (YMap es) = abs_val v"
proof -
  have m: "v = YMap m" "set (map fst m) \<subseteq> set (map fst es)"
    using assms(1) unfolding closedRecord_ok assms(2) by blast+
  have "map_option abs_val (map_of es k) = map_option abs_val (map_of m k)" for k
  proof (cases "map_of es k")
    case None
    then have "k \<notin> set (map fst m)" using m(2) map_of_None_iff [of es k] by blast
    then have "map_of m k = None" unfolding map_of_None_iff .
    with None show ?thesis by simp
  next
    case (Some x)
    then obtain y where "map_of m k = Some y" "abs_val y = abs_val x"
      using assms(3) map_of_SomeD [OF Some] by (auto simp: list_all_iff)
    with Some show ?thesis by simp
  qed
  then show ?thesis unfolding m(1) by (simp add: abs_obj_eq_iff)
qed

section \<open>Patterns\<close>

text \<open>The pattern of timestamps knows no months: it accepts a day 00 and a 31st of February.\<close>

lemma timestamp_day_zero:
  "timestamp_pattern (u ''2026-07-00T00:00:00.000Z'')" "timestamp_pattern (u ''2026-02-31T00:00:00.000Z'')"
  by code_simp+

section \<open>What does not depend on the order of keys\<close>

lemma map_of_entries: "distinct (map fst es) \<Longrightarrow> map (\<lambda>k. (k, the (map_of es k))) (map fst es) = es"
  unfolding map_map comp_def by (intro map_idI) auto

lemma list_all_sorted:
  assumes "distinct (map fst kvs)"
  shows "list_all P (map (map_prod id f) kvs) =
    list_all P (map (\<lambda>k. (k, the (map_of (map (map_prod id f) kvs) k))) (js_sort cmp (map fst kvs)))"
proof -
  let ?es = "map (map_prod id f) kvs"
  have keys: "map fst ?es = map fst kvs" by (simp add: comp_def)
  have "map (\<lambda>k. (k, the (map_of ?es k))) (map fst kvs) = ?es"
    using map_of_entries [of ?es] unfolding keys using assms by blast
  from arg_cong [OF this, of set]
  have "set (map (\<lambda>k. (k, the (map_of ?es k))) (js_sort cmp (map fst kvs))) = set ?es"
    unfolding set_map [of "\<lambda>k. (k, the (map_of ?es k))"] set_js_sort .
  then show ?thesis unfolding list_all_iff by blast
qed

interpretation unicode_ok: sorted_encoding unicode_ok compareUnits
  "\<lambda>es. list_all (\<lambda>(k, b). well_formed k \<and> b) es" "list_all (\<lambda>b. b)"
proof
  show "unicode_ok (YMap kvs) = list_all (\<lambda>(k, b). well_formed k \<and> b)
      (map (\<lambda>k. (k, the (map_of (map (map_prod id unicode_ok) kvs) k))) (js_sort compareUnits (map fst kvs)))"
    if "distinct (map fst kvs)" for kvs
    unfolding unicode_ok.simps(6) by (rule list_all_sorted [OF that])
next
  show "compareUnits a b = 0 \<Longrightarrow> a = b" for a b by simp
next
  show "unicode_ok (YSeq xs) = list_all (\<lambda>b. b) (map unicode_ok xs)" for xs
    by (simp add: list.pred_map comp_def)
qed

interpretation doubles: sorted_encoding doubles compareUnits "list_all snd" "list_all (\<lambda>b. b)"
proof
  show "doubles (YMap kvs) = list_all snd
      (map (\<lambda>k. (k, the (map_of (map (map_prod id doubles) kvs) k))) (js_sort compareUnits (map fst kvs)))"
    if "distinct (map fst kvs)" for kvs
    unfolding doubles.simps(6) by (rule list_all_sorted [OF that])
next
  show "compareUnits a b = 0 \<Longrightarrow> a = b" for a b by simp
next
  show "doubles (YSeq xs) = list_all (\<lambda>b. b) (map doubles xs)" for xs
    by (simp add: list.pred_map comp_def)
qed

lemma protocol_value_cong: "wf_yvalue w \<Longrightarrow> abs_val w = abs_val v \<Longrightarrow> protocol_value v \<Longrightarrow> protocol_value w"
  using unicode_ok.cong [of v w] doubles.cong [of v w] by (simp add: protocol_value_def)

lemma bytes_cong:
  "wf_yvalue v \<Longrightarrow> wf_yvalue w \<Longrightarrow> abs_val v = abs_val w \<Longrightarrow> canonicalProtocolBytes v = canonicalProtocolBytes w"
  using canonical_text.cong [of v w] unicode_ok.cong [of v w]
  by (simp add: canonicalProtocolBytes_def canonicalizeProtocolValue_def)

lemma canonicalSet_cong:
  "list_all2 (\<lambda>v w. wf_yvalue v \<and> wf_yvalue w \<and> abs_val v = abs_val w) vs ws \<Longrightarrow> canonicalSet vs = canonicalSet ws"
proof (induction vs arbitrary: ws rule: canonicalSet.induct)
  case (3 v w vs)
  then obtain v' w' vs' where ws: "ws = v' # w' # vs'" by (auto simp: list_all2_Cons1)
  have "compareCanonicalValues v w = compareCanonicalValues v' w'"
    using 3(2) unfolding ws compareCanonicalValues_def by (simp add: bytes_cong [of v v'] bytes_cong [of w w'])
  moreover have "canonicalSet (w # vs) = canonicalSet (w' # vs')" if "compareCanonicalValues v w = Inr c" "c < 0" for c
    using 3(1) [of c "w' # vs'"] 3(2) that unfolding ws by simp
  ultimately show ?case unfolding ws
    by (cases "compareCanonicalValues v' w'") simp_all
qed (auto simp: list_all2_Cons1)

section \<open>Lossless schemas\<close>

locale lossless =
  fixes parse :: "yvalue \<Rightarrow> 'a protocol" and denote :: "'a \<Rightarrow> yvalue"
  assumes denotes: "wf_yvalue v \<Longrightarrow> parse v = Inr x \<Longrightarrow> abs_val (denote x) = abs_val v"
    and denote_wf: "wf_yvalue v \<Longrightarrow> parse v = Inr x \<Longrightarrow> wf_yvalue (denote x)"
    and again: "wf_yvalue v \<Longrightarrow> parse v = Inr x \<Longrightarrow> parse (denote x) = Inr x"
begin

lemma items:
  assumes "list_all wf_yvalue vs" "traverse parse vs = Inr xs"
  shows "map abs_val (map denote xs) = map abs_val vs" "list_all wf_yvalue (map denote xs)"
    "traverse parse (map denote xs) = Inr xs"
    "list_all2 (\<lambda>v w. wf_yvalue v \<and> wf_yvalue w \<and> abs_val v = abs_val w) vs (map denote xs)"
proof -
  have r: "list_all2 (\<lambda>v x. wf_yvalue v \<and> parse v = Inr x) vs xs"
    using assms by (auto simp: traverse_ok list_all2_conv_all_nth list_all_length)
  then have s: "list_all2 (\<lambda>v x. wf_yvalue v \<and> abs_val (denote x) = abs_val v \<and> wf_yvalue (denote x) \<and> parse (denote x) = Inr x) vs xs"
    by (rule list.rel_mono_strong) (auto dest: denotes denote_wf again)
  then show "map abs_val (map denote xs) = map abs_val vs" by (induction rule: list_all2_induct) auto
  from s show "list_all wf_yvalue (map denote xs)" by (induction rule: list_all2_induct) auto
  from s show "traverse parse (map denote xs) = Inr xs" by (induction rule: list_all2_induct) auto
  from s show "list_all2 (\<lambda>v w. wf_yvalue v \<and> wf_yvalue w \<and> abs_val v = abs_val w) vs (map denote xs)"
    by (induction rule: list_all2_induct) auto
qed

lemma sets: "list_all wf_yvalue vs \<Longrightarrow> traverse parse vs = Inr xs \<Longrightarrow> canonicalSet (map denote xs) = canonicalSet vs"
  using canonicalSet_cong [OF items(4)] by simp

end

text \<open>The values of records: their keys are no indices, so their order is the one written.\<close>

lemma wf_fields: "distinct ks \<Longrightarrow> list_all (\<lambda>k. k \<noteq> [] \<and> \<not> is_digit (cu (hd k))) ks \<Longrightarrow> wf_keys (map u ks)"
proof (induction ks)
  case (Cons k ks)
  have "array_index (u j) = None" if "j \<noteq> []" "\<not> is_digit (cu (hd j))" for j
    using that alpha_index [of "hd j" "tl j"] by simp
  then show ?case using Cons by (auto simp: wf_keys_def key_before_def list_all_iff)
qed simp

lemma wf_record:
  "map fst es = map u ks \<Longrightarrow> distinct ks \<Longrightarrow> list_all (\<lambda>k. k \<noteq> [] \<and> \<not> is_digit (cu (hd k))) ks \<Longrightarrow> wf_entries es \<Longrightarrow>
     wf_yvalue (YMap es)"
  using wf_fields [of ks] by simp

lemma sub_wf: "wf_yvalue v \<Longrightarrow> closedRecord v r a = Inr m \<Longrightarrow> map_of m k = Some x \<Longrightarrow> wf_yvalue x"
  unfolding closedRecord_ok by (auto intro: wf_map_lookup)

lemma closed_value:
  "map fst es = map u ks \<Longrightarrow> closedRecord (YMap es) ks ks = Inr es"
proof -
  assume k: "map fst es = map u ks"
  have "has_own es (u j)" if "j \<in> set ks" for j
    using that arg_cong [OF k, of set] by (force simp: has_own_iff)
  then show ?thesis unfolding closedRecord_ok k by (simp add: list_all_iff)
qed

lemmas record_keys = is_digit_cu

interpretation resource: lossless resourceDescriptor resource_value
proof
  fix v x assume wf: "wf_yvalue v" and p: "resourceDescriptor v = Inr x"
  then obtain m where m: "closedRecord v [''uri'', ''mediaType'', ''digest''] [''uri'', ''mediaType'', ''digest''] = Inr m"
    "map_of m (u ''uri'') = Some (YStr (res_uri x))" "map_of m (u ''mediaType'') = Some (YStr (res_media_type x))"
    "map_of m (u ''digest'') = Some (YStr (res_digest x))" 
    by (auto simp: resourceDescriptor_def parse_digest_def)
  show "abs_val (resource_value x) = abs_val v"
    unfolding resource_value_def using m by (intro closed_fields [OF m(1)]) simp_all
  show "wf_yvalue (resource_value x)"
    unfolding resource_value_def by (rule wf_record [of _ "[''uri'', ''mediaType'', ''digest'']"]) (simp_all add: record_keys)
  show "resourceDescriptor (resource_value x) = Inr x"
    using p unfolding resourceDescriptor_def resource_value_def
    by (auto simp: closed_value parse_digest_def)
qed

lemma kind_of_name_ok [simp]: "kind_of_name (object_kind_name k) = Some k"
  by (cases k) (simp_all add: kind_of_name_def)

lemma kind_of_nameD: "kind_of_name s = Some k \<Longrightarrow> s = object_kind_name k"
  by (auto simp: kind_of_name_def split: if_splits)

lemma unicode_ok_abs: "wf_yvalue v \<Longrightarrow> wf_yvalue w \<Longrightarrow> abs_val w = abs_val v \<Longrightarrow> unicode_ok v \<Longrightarrow> unicode_ok w"
  using unicode_ok.cong [of v w] by simp

interpretation descriptor: lossless parseObjectDescriptor descriptor_value
proof
  fix v x assume wf: "wf_yvalue v" and p: "parseObjectDescriptor v = Inr x"
  then obtain m where m: "unicode_ok v" "closedRecord v [''kind'', ''schema'', ''digest''] [''kind'', ''schema'', ''digest''] = Inr m"
    "map_of m (u ''kind'') = Some (YStr (object_kind_name (desc_kind x)))"
    "map_of m (u ''schema'') = Some (YStr (expectedSchema (desc_kind x)))"
    "map_of m (u ''digest'') = Some (YStr (desc_digest x))"
    by (auto simp: parseObjectDescriptor_def parse_digest_def split: option.splits dest!: kind_of_nameD)
  show a: "abs_val (descriptor_value x) = abs_val v"
    unfolding descriptor_value_def using m by (intro closed_fields [OF m(2)]) simp_all
  show w: "wf_yvalue (descriptor_value x)"
    unfolding descriptor_value_def by (rule wf_record [of _ "[''kind'', ''schema'', ''digest'']"]) (simp_all add: record_keys)
  have "unicode_ok (descriptor_value x)" by (rule unicode_ok_abs [OF wf w a m(1)])
  then show "parseObjectDescriptor (descriptor_value x) = Inr x"
    using p unfolding parseObjectDescriptor_def descriptor_value_def
    by (auto simp: closed_value parse_digest_def split: option.splits dest!: kind_of_nameD)
qed

interpretation descriptor_of_kind: lossless "descriptorOfKind k" descriptor_value
  by unfold_locales (auto simp: descriptorOfKind_def descriptor.denotes descriptor.denote_wf descriptor.again)

interpretation actor: lossless actorRef actor_value
proof
  fix v x assume wf: "wf_yvalue v" and p: "actorRef v = Inr x"
  then obtain m where m: "closedRecord v [''kind'', ''id''] [''kind'', ''id''] = Inr m"
    "map_of m (u ''kind'') = Some (YStr (actor_kind_name (actor_kind x)))" "map_of m (u ''id'') = Some (YStr (actor_id x))"
    by (auto simp: actorRef_def split: if_splits)
  show "abs_val (actor_value x) = abs_val v"
    unfolding actor_value_def using m by (intro closed_fields [OF m(1)]) simp_all
  show "wf_yvalue (actor_value x)"
    unfolding actor_value_def by (rule wf_record [of _ "[''kind'', ''id'']"]) (simp_all add: record_keys)
  show "actorRef (actor_value x) = Inr x"
    using p unfolding actorRef_def actor_value_def by (cases "actor_kind x") (auto simp: closed_value split: if_splits)
qed

interpretation codec: lossless stateCodecRef codec_value
proof
  fix v x assume wf: "wf_yvalue v" and p: "stateCodecRef v = Inr x"
  then obtain m where m: "closedRecord v [''mediaType'', ''version''] [''mediaType'', ''version''] = Inr m"
    "map_of m (u ''mediaType'') = Some (YStr (codec_media_type x))" "map_of m (u ''version'') = Some (YStr (codec_version x))"
    by (auto simp: stateCodecRef_def parse_identifier_def)
  show "abs_val (codec_value x) = abs_val v"
    unfolding codec_value_def using m by (intro closed_fields [OF m(1)]) simp_all
  show "wf_yvalue (codec_value x)"
    unfolding codec_value_def by (rule wf_record [of _ "[''mediaType'', ''version'']"]) (simp_all add: record_keys)
  show "stateCodecRef (codec_value x) = Inr x"
    using p unfolding stateCodecRef_def codec_value_def by (auto simp: closed_value parse_identifier_def)
qed

interpretation driver: lossless mutationDriverRef driver_value
proof
  fix v x assume wf: "wf_yvalue v" and p: "mutationDriverRef v = Inr x"
  then obtain m where m: "closedRecord v [''protocol'', ''protocolVersion'', ''specDigest''] [''protocol'', ''protocolVersion'', ''specDigest''] = Inr m"
    "map_of m (u ''protocol'') = Some (YStr (drv_protocol x))" "map_of m (u ''protocolVersion'') = Some (YStr (drv_version x))"
    "map_of m (u ''specDigest'') = Some (YStr (drv_digest x))"
    by (auto simp: mutationDriverRef_def parse_identifier_def parse_digest_def)
  show "abs_val (driver_value x) = abs_val v"
    unfolding driver_value_def using m by (intro closed_fields [OF m(1)]) simp_all
  show "wf_yvalue (driver_value x)"
    unfolding driver_value_def
    by (rule wf_record [of _ "[''protocol'', ''protocolVersion'', ''specDigest'']"]) (simp_all add: record_keys)
  show "mutationDriverRef (driver_value x) = Inr x"
    using p unfolding mutationDriverRef_def driver_value_def by (auto simp: closed_value parse_identifier_def parse_digest_def)
qed

interpretation evidence: lossless evidenceRef evidence_value
proof
  fix v x assume wf: "wf_yvalue v" and p: "evidenceRef v = Inr x"
  then obtain m r l where m: "closedRecord v [''resource'', ''locator''] [''resource'', ''locator''] = Inr m"
    "map_of m (u ''resource'') = Some r" "resourceDescriptor r = Inr (ev_resource x)"
    "map_of m (u ''locator'') = Some (YMap l)" "closedRecord (YMap l) [''scheme'', ''value''] [''scheme'', ''value''] = Inr l"
    "map_of l (u ''scheme'') = Some (YStr (ev_scheme x))" "map_of l (u ''value'') = Some (ev_value x)" "unicode_ok (ev_value x)"
    by (auto simp: evidenceRef_def parse_identifier_def closedRecord_ok)
  have wr: "wf_yvalue r" and wl: "wf_yvalue (YMap l)" using sub_wf [OF wf m(1)] m(2,4) by blast+
  have wx: "wf_yvalue (ev_value x)" by (rule sub_wf [OF wl m(5,7)])
  have la: "abs_val (YMap [(u ''scheme'', YStr (ev_scheme x)), (u ''value'', ev_value x)]) = abs_val (YMap l)"
    using m by (intro closed_fields [OF m(5)]) simp_all
  have lw: "wf_yvalue (YMap [(u ''scheme'', YStr (ev_scheme x)), (u ''value'', ev_value x)])"
    using wx by (intro wf_record [of _ "[''scheme'', ''value'']"]) (simp_all add: record_keys)
  show "abs_val (evidence_value x) = abs_val v"
    unfolding evidence_value_def using m(2,4) la resource.denotes [OF wr m(3)]
    by (intro closed_fields [OF m(1)]) (simp_all del: abs_val_map)
  show "wf_yvalue (evidence_value x)"
    unfolding evidence_value_def using lw resource.denote_wf [OF wr m(3)]
    by (intro wf_record [of _ "[''resource'', ''locator'']"]) (simp_all add: record_keys)
  show "evidenceRef (evidence_value x) = Inr x"
    using p resource.again [OF wr m(3)] m(8) unfolding evidenceRef_def evidence_value_def
    by (auto simp: closed_value parse_identifier_def)
qed

subsection \<open>Claims and predicates\<close>

lemma mode_of_name_ok [simp]: "mode_of_name (mode_name m) = Some m"
  by (cases m) (simp_all add: mode_of_name_def)

lemma mode_of_nameD: "mode_of_name s = Some m \<Longrightarrow> s = mode_name m"
  by (auto simp: mode_of_name_def split: if_splits)

lemma evidenceSet_ok:
  "evidenceSet b v = Inr es \<longleftrightarrow> (\<exists>vs. v = YSeq vs \<and> \<not> (b \<and> vs = []) \<and> traverse evidenceRef vs = Inr es \<and> canonicalSet vs = Inr ())"
  by (auto simp: evidenceSet_def)

interpretation evidence_set: lossless "evidenceSet b" "\<lambda>es. YSeq (map evidence_value es)"
proof
  fix v x assume wf: "wf_yvalue v" and p: "evidenceSet b v = Inr x"
  then obtain vs where vs: "v = YSeq vs" "\<not> (b \<and> vs = [])" "traverse evidenceRef vs = Inr x" "canonicalSet vs = Inr ()"
    by (auto simp: evidenceSet_ok)
  have w: "list_all wf_yvalue vs" using wf vs(1) by simp
  note l = evidence.items [OF w vs(3)]
  show "abs_val (YSeq (map evidence_value x)) = abs_val v" using l(1) by (simp add: vs(1))
  show "wf_yvalue (YSeq (map evidence_value x))" using l(2) by simp
  have "vs = [] \<longleftrightarrow> map evidence_value x = []" using list_all2_lengthD [OF l(4)] by auto
  then show "evidenceSet b (YSeq (map evidence_value x)) = Inr x"
    using vs l(3) evidence.sets [OF w vs(3)] by (simp add: evidenceSet_ok)
qed

interpretation claim: lossless stringClaim claim_value
proof
  fix v x assume wf: "wf_yvalue v" and p: "stringClaim v = Inr x"
  let ?all = "[''mode'', ''value'', ''evidence'']"
  consider (unspecified) m where "x = Unspecified" "closedRecord v [''mode''] [''mode''] = Inr m"
      "map_of m (u ''mode'') = Some (YStr (u ''unspecified''))"
    | (stated) m md t e es where "x = Claim md t es" "closedRecord v ?all ?all = Inr m"
      "map_of m (u ''mode'') = Some (YStr (mode_name md))" "map_of m (u ''value'') = Some (YStr t)"
      "map_of m (u ''evidence'') = Some e" "evidenceSet (md = Stated) e = Inr es" "1 \<le> length (codepoints t)"
    using p by (auto simp: stringClaim_def closedRecord_ok split: if_splits option.splits dest!: mode_of_nameD)
  then have "abs_val (claim_value x) = abs_val v \<and> wf_yvalue (claim_value x) \<and> stringClaim (claim_value x) = Inr x"
  proof cases
    case unspecified
    have "abs_val (claim_value x) = abs_val v"
      unfolding unspecified(1) claim_value.simps using unspecified(3) by (intro closed_fields [OF unspecified(2)]) simp_all
    moreover have "wf_yvalue (claim_value x)"
      unfolding unspecified(1) claim_value.simps by (rule wf_record [of _ "[''mode'']"]) (simp_all add: record_keys)
    moreover have "stringClaim (claim_value x) = Inr x"
      unfolding unspecified(1) by (simp add: stringClaim_def closedRecord_def has_own_def)
    ultimately show ?thesis by blast
  next
    case stated
    have we: "wf_yvalue e" by (rule sub_wf [OF wf stated(2,5)])
    note l = evidence_set.denotes [OF we stated(6)] evidence_set.denote_wf [OF we stated(6)] evidence_set.again [OF we stated(6)]
    have n: "mode_name md \<noteq> u ''unspecified''" by (cases md) simp_all
    have "abs_val (claim_value x) = abs_val v"
      unfolding stated(1) claim_value.simps using stated(3-5) l(1) by (intro closed_fields [OF stated(2)]) simp_all
    moreover have "wf_yvalue (claim_value x)"
      unfolding stated(1) claim_value.simps using l(2) by (intro wf_record [of _ ?all]) (simp_all add: record_keys)
    moreover have "stringClaim (claim_value x) = Inr x"
      unfolding stated(1) using n l(3) stated(7) by (simp add: stringClaim_def closedRecord_def has_own_def field_of_def stringValue_def)
    ultimately show ?thesis by blast
  qed
  then show "abs_val (claim_value x) = abs_val v" "wf_yvalue (claim_value x)" "stringClaim (claim_value x) = Inr x" by blast+
qed

interpretation policy: lossless decisionPolicy policy_value
proof
  fix v x assume wf: "wf_yvalue v" and p: "decisionPolicy v = Inr x"
  let ?all = "[''mode'', ''resource'']"
  consider (none) m where "x = NotEvaluated" "closedRecord v [''mode''] [''mode''] = Inr m"
      "map_of m (u ''mode'') = Some (YStr (u ''not_evaluated''))"
    | (some) m r d where "x = Evaluated d" "closedRecord v ?all ?all = Inr m"
      "map_of m (u ''mode'') = Some (YStr (u ''evaluated''))" "map_of m (u ''resource'') = Some r" "resourceDescriptor r = Inr d"
    using p by (auto simp: decisionPolicy_def closedRecord_ok split: if_splits)
  then have "abs_val (policy_value x) = abs_val v \<and> wf_yvalue (policy_value x) \<and> decisionPolicy (policy_value x) = Inr x"
  proof cases
    case none
    have "abs_val (policy_value x) = abs_val v"
      unfolding none(1) policy_value.simps using none(3) by (intro closed_fields [OF none(2)]) simp_all
    moreover have "wf_yvalue (policy_value x)"
      unfolding none(1) policy_value.simps by (rule wf_record [of _ "[''mode'']"]) (simp_all add: record_keys)
    moreover have "decisionPolicy (policy_value x) = Inr x"
      unfolding none(1) by (simp add: decisionPolicy_def closedRecord_def has_own_def)
    ultimately show ?thesis by blast
  next
    case some
    have wr: "wf_yvalue r" by (rule sub_wf [OF wf some(2,4)])
    note l = resource.denotes [OF wr some(5)] resource.denote_wf [OF wr some(5)] resource.again [OF wr some(5)]
    have "abs_val (policy_value x) = abs_val v"
      unfolding some(1) policy_value.simps using some(3,4) l(1) by (intro closed_fields [OF some(2)]) simp_all
    moreover have "wf_yvalue (policy_value x)"
      unfolding some(1) policy_value.simps using l(2) by (intro wf_record [of _ ?all]) (simp_all add: record_keys)
    moreover have "decisionPolicy (policy_value x) = Inr x"
      unfolding some(1) using l(3) by (simp add: decisionPolicy_def closedRecord_def has_own_def field_of_def)
    ultimately show ?thesis by blast
  qed
  then show "abs_val (policy_value x) = abs_val v" "wf_yvalue (policy_value x)" "decisionPolicy (policy_value x) = Inr x" by blast+
qed

lemma proposal_lossless:
  assumes "wf_yvalue v" "proposalPredicate v = Inr x"
  shows "abs_val (predicate_value x) = abs_val v \<and> wf_yvalue (predicate_value x) \<and> proposalPredicate (predicate_value x) = Inr x"
proof -
  let ?ks = "[''intent'', ''rationale'']"
  from assms(2) obtain m a b i r where m: "x = Proposal i r" "closedRecord v ?ks ?ks = Inr m"
    "map_of m (u ''intent'') = Some a" "stringClaim a = Inr i" "map_of m (u ''rationale'') = Some b" "stringClaim b = Inr r"
    by (auto simp: proposalPredicate_def)
  note wa = sub_wf [OF assms(1) m(2,3)] and wb = sub_wf [OF assms(1) m(2,5)]
  have "abs_val (predicate_value x) = abs_val v" unfolding m(1) predicate_value.simps
    using m(3,5) claim.denotes [OF wa m(4)] claim.denotes [OF wb m(6)] by (intro closed_fields [OF m(2)]) simp_all
  moreover have "wf_yvalue (predicate_value x)" unfolding m(1) predicate_value.simps
    using claim.denote_wf [OF wa m(4)] claim.denote_wf [OF wb m(6)]
    by (intro wf_record [of _ ?ks]) (simp_all add: record_keys)
  moreover have "proposalPredicate (predicate_value x) = Inr x" unfolding m(1)
    using claim.again [OF wa m(4)] claim.again [OF wb m(6)] by (simp add: proposalPredicate_def closed_value)
  ultimately show ?thesis by blast
qed

lemma outcome_ok [simp]: "decision_outcome_of v = Inr out \<longleftrightarrow> v = YStr (outcome_name out)"
  by (cases out) (auto simp: decision_outcome_of_def)

lemma outcome_name_eq [simp]: "outcome_name a = outcome_name b \<longleftrightarrow> a = b"
  by (cases a; cases b) simp_all

lemma decision_ok:
  "decisionPredicate v = Inr x \<Longrightarrow> \<exists>d m p vs r.
     x = Decision d \<and> closedRecord v [''policy'', ''considered'', ''outcome'', ''rationale'', ''decidedAt'']
       [''policy'', ''considered'', ''outcome'', ''rationale'', ''decidedAt''] = Inr m
   \<and> map_of m (u ''policy'') = Some p \<and> decisionPolicy p = Inr (dp_policy d)
   \<and> map_of m (u ''considered'') = Some (YSeq vs) \<and> traverse (descriptorOfKind KStatement) vs = Inr (dp_considered d)
   \<and> canonicalSet vs = Inr () \<and> map_of m (u ''outcome'') = Some (YStr (outcome_name (dp_outcome d)))
   \<and> map_of m (u ''rationale'') = Some r \<and> stringClaim r = Inr (dp_rationale d)
   \<and> (dp_outcome d = Overridden \<longrightarrow> is_authored (dp_rationale d))
   \<and> map_of m (u ''decidedAt'') = Some (YStr (dp_decided_at d)) \<and> timestamp_pattern (dp_decided_at d)"
  by (auto simp: decisionPredicate_def)

lemma decision_lossless:
  assumes wf: "wf_yvalue v" and p: "decisionPredicate v = Inr x"
  shows "abs_val (predicate_value x) = abs_val v \<and> wf_yvalue (predicate_value x) \<and> decisionPredicate (predicate_value x) = Inr x"
proof -
  let ?ks = "[''policy'', ''considered'', ''outcome'', ''rationale'', ''decidedAt'']"
  from decision_ok [OF p] obtain d m q vs r where m: "x = Decision d" "closedRecord v ?ks ?ks = Inr m"
    "map_of m (u ''policy'') = Some q" "decisionPolicy q = Inr (dp_policy d)"
    "map_of m (u ''considered'') = Some (YSeq vs)" "traverse (descriptorOfKind KStatement) vs = Inr (dp_considered d)"
    "canonicalSet vs = Inr ()" "map_of m (u ''outcome'') = Some (YStr (outcome_name (dp_outcome d)))"
    "map_of m (u ''rationale'') = Some r" "stringClaim r = Inr (dp_rationale d)"
    "dp_outcome d = Overridden \<longrightarrow> is_authored (dp_rationale d)"
    "map_of m (u ''decidedAt'') = Some (YStr (dp_decided_at d))" "timestamp_pattern (dp_decided_at d)" by auto
  have wq: "wf_yvalue q" and wr: "wf_yvalue r" using sub_wf [OF wf m(2)] m(3,9) by blast+
  have "wf_yvalue (YSeq vs)" by (rule sub_wf [OF wf m(2,5)])
  then have wvs: "list_all wf_yvalue vs" by simp
  note ds = descriptor_of_kind.items [OF wvs m(6)] descriptor_of_kind.sets [OF wvs m(6)]
  note ps = policy.denotes [OF wq m(4)] policy.denote_wf [OF wq m(4)] policy.again [OF wq m(4)]
  note rs = claim.denotes [OF wr m(10)] claim.denote_wf [OF wr m(10)] claim.again [OF wr m(10)]
  have "abs_val (predicate_value x) = abs_val v" unfolding m(1) predicate_value.simps
    using m(3,5,8,9,12) ds(1) ps(1) rs(1) by (intro closed_fields [OF m(2)]) simp_all
  moreover have "wf_yvalue (predicate_value x)" unfolding m(1) predicate_value.simps
    using ds(2) ps(2) rs(2) by (intro wf_record [of _ ?ks]) (simp_all add: record_keys)
  moreover have "decisionPredicate (predicate_value x) = Inr x" unfolding m(1)
    using ds(3,5) ps(3) rs(3) m(7,11,13) by (auto simp: decisionPredicate_def closed_value)
  ultimately show ?thesis by blast
qed

interpretation predicate: lossless "parse_predicate t subjects" predicate_value
proof
  fix v x assume wf: "wf_yvalue v" and p: "parse_predicate t subjects v = Inr x"
  have "abs_val (predicate_value x) = abs_val v \<and> wf_yvalue (predicate_value x) \<and> parse_predicate t subjects (predicate_value x) = Inr x"
    using p proposal_lossless [OF wf] decision_lossless [OF wf] wf
    by (auto simp: parse_predicate_def split: if_splits)
  then show "abs_val (predicate_value x) = abs_val v" "wf_yvalue (predicate_value x)"
    "parse_predicate t subjects (predicate_value x) = Inr x" by blast+
qed

lemma predicate_typeD: "parse_predicate t subjects v = Inr p \<Longrightarrow> predicate_type p = t"
  by (auto simp: parse_predicate_def proposalPredicate_def decisionPredicate_def split: if_splits)

subsection \<open>Protocol objects\<close>

interpretation state: lossless parseState state_value
proof
  fix v x assume wf: "wf_yvalue v" and p: "parseState v = Inr x"
  let ?ks = "[''schema'', ''codec'', ''value'']"
  from p obtain m c where m: "unicode_ok v" "closedRecord v ?ks ?ks = Inr m" "map_of m (u ''schema'') = Some (YStr STATE_SCHEMA)"
    "map_of m (u ''codec'') = Some c" "stateCodecRef c = Inr (st_codec x)"
    "map_of m (u ''value'') = Some (st_value x)" "unicode_ok (st_value x)"
    by (auto simp: parseState_def)
  have wc: "wf_yvalue c" and wx: "wf_yvalue (st_value x)" using sub_wf [OF wf m(2)] m(4,6) by blast+
  show a: "abs_val (state_value x) = abs_val v" unfolding state_value_def
    using m(3,4,6) codec.denotes [OF wc m(5)] by (intro closed_fields [OF m(2)]) simp_all
  show w: "wf_yvalue (state_value x)" unfolding state_value_def
    using wx codec.denote_wf [OF wc m(5)] by (intro wf_record [of _ ?ks]) (simp_all add: record_keys)
  have "unicode_ok (state_value x)" by (rule unicode_ok_abs [OF wf w a m(1)])
  then show "parseState (state_value x) = Inr x"
    using m(7) codec.again [OF wc m(5)] unfolding parseState_def state_value_def by (simp add: closed_value)
qed

lemma input_ok:
  assumes wf: "wf_yvalue v" and m: "closedRecord v [''role'', ''object''] [''role'', ''object''] = Inr m"
    "map_of m (u ''role'') = Some r" "parse_identifier r = Inr role" "map_of m (u ''object'') = Some b"
    "parseObjectDescriptor b = Inr ob"
  defines "x \<equiv> \<lparr>in_role = role, in_object = ob\<rparr>"
  shows "abs_val (effect_input_value x) = abs_val v" "wf_yvalue (effect_input_value x)"
proof -
  note wb = sub_wf [OF wf m(1,4)]
  have r: "r = YStr role" using m(3) by (auto simp: parse_identifier_def)
  show "abs_val (effect_input_value x) = abs_val v" unfolding effect_input_value_def x_def
    using m(2,4) r descriptor.denotes [OF wb m(5)] by (intro closed_fields [OF m(1)]) simp_all
  show "wf_yvalue (effect_input_value x)" unfolding effect_input_value_def x_def
    using descriptor.denote_wf [OF wb m(5)] by (intro wf_record [of _ "[''role'', ''object'']"]) (simp_all add: record_keys)
qed

lemma inputs_lossless:
  "list_all wf_yvalue vs \<Longrightarrow> parse_inputs previous vs = Inr ins \<Longrightarrow>
     map abs_val (map effect_input_value ins) = map abs_val vs \<and> list_all wf_yvalue (map effect_input_value ins)
     \<and> parse_inputs previous (map effect_input_value ins) = Inr ins"
proof (induction vs arbitrary: previous ins)
  case (Cons v vs)
  from Cons.prems(2) obtain m r role b ob rest where m: "closedRecord v [''role'', ''object''] [''role'', ''object''] = Inr m"
    "map_of m (u ''role'') = Some r" "parse_identifier r = Inr role" "map_of m (u ''object'') = Some b"
    "parseObjectDescriptor b = Inr ob" "parse_inputs (Some role) vs = Inr rest"
    "(case previous of None \<Rightarrow> True | Some p \<Rightarrow> \<not> compareUnits p role \<ge> 0)"
    "ins = \<lparr>in_role = role, in_object = ob\<rparr> # rest"
    by auto
  have wf: "wf_yvalue v" "list_all wf_yvalue vs" using Cons.prems(1) by simp_all
  note wb = sub_wf [OF wf(1) m(1,4)]
  have i: "parse_identifier (YStr role) = Inr role" using m(3) by (auto simp: parse_identifier_def)
  show ?case unfolding m(8)
    using Cons.IH [OF wf(2) m(6)] input_ok [OF wf(1) m(1-5)] descriptor.again [OF wb m(5)] m(7) i
    by (simp add: effect_input_value_def closed_value)
qed simp

interpretation inputs: lossless "\<lambda>v. bind_result (arrayValue v) (parse_inputs None)" "\<lambda>ins. YSeq (map effect_input_value ins)"
proof
  fix v x assume wf: "wf_yvalue v" and p: "bind_result (arrayValue v) (parse_inputs None) = Inr x"
  then obtain vs where vs: "v = YSeq vs" "parse_inputs None vs = Inr x" "list_all wf_yvalue vs" by auto
  note l = inputs_lossless [OF vs(3,2)]
  show "abs_val (YSeq (map effect_input_value x)) = abs_val v" using l by (simp add: vs(1))
  show "wf_yvalue (YSeq (map effect_input_value x))" using l by simp
  show "bind_result (arrayValue (YSeq (map effect_input_value x))) (parse_inputs None) = Inr x" using l by simp
qed

lemma definition_ok:
  assumes "parseEffectDefinition v = Inr x"
  obtains m d i where "unicode_ok v"
    "closedRecord v [''driver'', ''operations'', ''inputs''] [''driver'', ''operations'', ''inputs''] = Inr m"
    "map_of m (u ''driver'') = Some d" "mutationDriverRef d = Inr (ed_driver x)"
    "map_of m (u ''operations'') = Some (YSeq (ed_operations x))" "\<exists>us. traverse assertProtocolDomain (ed_operations x) = Inr us"
    "map_of m (u ''inputs'') = Some i" "bind_result (arrayValue i) (parse_inputs None) = Inr (ed_inputs x)"
  using assms by (fastforce simp: parseEffectDefinition_def)

interpretation definitions: lossless parseEffectDefinition definition_value
proof
  fix v x assume wf: "wf_yvalue v" and p: "parseEffectDefinition v = Inr x"
  let ?ks = "[''driver'', ''operations'', ''inputs'']"
  from p obtain m d i where m: "unicode_ok v" "closedRecord v ?ks ?ks = Inr m"
    "map_of m (u ''driver'') = Some d" "mutationDriverRef d = Inr (ed_driver x)"
    "map_of m (u ''operations'') = Some (YSeq (ed_operations x))" "\<exists>us. traverse assertProtocolDomain (ed_operations x) = Inr us"
    "map_of m (u ''inputs'') = Some i" "bind_result (arrayValue i) (parse_inputs None) = Inr (ed_inputs x)"
    by (rule definition_ok)
  have ws: "wf_yvalue d" "wf_yvalue (YSeq (ed_operations x))" "wf_yvalue i" using sub_wf [OF wf m(2)] m(3,5,7) by blast+
  show a: "abs_val (definition_value x) = abs_val v" unfolding definition_value_def
    using m(3,5,7) driver.denotes [OF ws(1) m(4)] inputs.denotes [OF ws(3) m(8)] by (intro closed_fields [OF m(2)]) simp_all
  show w: "wf_yvalue (definition_value x)" unfolding definition_value_def
    using ws(2) driver.denote_wf [OF ws(1) m(4)] inputs.denote_wf [OF ws(3) m(8)]
    by (intro wf_record [of _ ?ks]) (simp_all add: record_keys)
  have "unicode_ok (definition_value x)" by (rule unicode_ok_abs [OF wf w a m(1)])
  then show "parseEffectDefinition (definition_value x) = Inr x"
    using m(6) driver.again [OF ws(1) m(4)] inputs.again [OF ws(3) m(8)]
    unfolding parseEffectDefinition_def definition_value_def by (auto simp: closed_value)
qed

lemma effect_ok:
  assumes "parseEffect v = Inr x"
  obtains m b d os i r where "unicode_ok v"
    "closedRecord v [''schema'', ''base'', ''driver'', ''operations'', ''inputs'', ''result'']
       [''schema'', ''base'', ''driver'', ''operations'', ''inputs'', ''result''] = Inr m"
    "map_of m (u ''schema'') = Some (YStr EFFECT_SCHEMA)"
    "map_of m (u ''base'') = Some b" "descriptorOfKind KState b = Inr (ef_base x)"
    "map_of m (u ''driver'') = Some d" "map_of m (u ''operations'') = Some os" "map_of m (u ''inputs'') = Some i"
    "parseEffectDefinition (YMap [(u ''driver'', d), (u ''operations'', os), (u ''inputs'', i)]) = Inr (ef_definition x)"
    "map_of m (u ''result'') = Some r" "descriptorOfKind KState r = Inr (ef_result x)"
  using assms by (fastforce simp: parseEffect_def)

interpretation effect: lossless parseEffect effect_value
proof
  fix v x assume wf: "wf_yvalue v" and p: "parseEffect v = Inr x"
  let ?ks = "[''schema'', ''base'', ''driver'', ''operations'', ''inputs'', ''result'']"
  from p obtain m b d os i r where m: "unicode_ok v" "closedRecord v ?ks ?ks = Inr m"
    "map_of m (u ''schema'') = Some (YStr EFFECT_SCHEMA)"
    "map_of m (u ''base'') = Some b" "descriptorOfKind KState b = Inr (ef_base x)"
    "map_of m (u ''driver'') = Some d" "map_of m (u ''operations'') = Some os" "map_of m (u ''inputs'') = Some i"
    and def: "parseEffectDefinition (YMap [(u ''driver'', d), (u ''operations'', os), (u ''inputs'', i)]) = Inr (ef_definition x)"
    and r: "map_of m (u ''result'') = Some r" "descriptorOfKind KState r = Inr (ef_result x)"
    by (rule effect_ok)
  have ws: "wf_yvalue b" "wf_yvalue d" "wf_yvalue os" "wf_yvalue i" "wf_yvalue r"
    using sub_wf [OF wf m(2)] m(4,6-8) r(1) by blast+
  have wd: "wf_yvalue (YMap [(u ''driver'', d), (u ''operations'', os), (u ''inputs'', i)])"
    using ws by (intro wf_record [of _ "[''driver'', ''operations'', ''inputs'']"]) (simp_all add: record_keys)
  have "mutationDriverRef d = Inr (ed_driver (ef_definition x)) \<and> os = YSeq (ed_operations (ef_definition x))
    \<and> bind_result (arrayValue i) (parse_inputs None) = Inr (ed_inputs (ef_definition x))"
  proof (rule definition_ok [OF def])
    fix m' d' i'
    assume "closedRecord (YMap [(u ''driver'', d), (u ''operations'', os), (u ''inputs'', i)])
        [''driver'', ''operations'', ''inputs''] [''driver'', ''operations'', ''inputs''] = Inr m'"
    then have m': "m' = [(u ''driver'', d), (u ''operations'', os), (u ''inputs'', i)]" unfolding closedRecord_ok by simp
    assume "map_of m' (u ''driver'') = Some d'" "mutationDriverRef d' = Inr (ed_driver (ef_definition x))"
      "map_of m' (u ''operations'') = Some (YSeq (ed_operations (ef_definition x)))" "map_of m' (u ''inputs'') = Some i'"
      "bind_result (arrayValue i') (parse_inputs None) = Inr (ed_inputs (ef_definition x))"
    then show ?thesis unfolding m' by (auto simp del: bind_result_ok)
  qed
  then have f: "mutationDriverRef d = Inr (ed_driver (ef_definition x))" "os = YSeq (ed_operations (ef_definition x))"
    "bind_result (arrayValue i) (parse_inputs None) = Inr (ed_inputs (ef_definition x))" by blast+
  show a: "abs_val (effect_value x) = abs_val v" unfolding effect_value_def
    using m(3,4,6-8) r(1) f(2) descriptor_of_kind.denotes [OF ws(1) m(5)] driver.denotes [OF ws(2) f(1)]
      inputs.denotes [OF ws(4) f(3)] descriptor_of_kind.denotes [OF ws(5) r(2)]
    by (intro closed_fields [OF m(2)]) simp_all
  show w: "wf_yvalue (effect_value x)" unfolding effect_value_def
    using ws(3) f(2) descriptor_of_kind.denote_wf [OF ws(1) m(5)] driver.denote_wf [OF ws(2) f(1)]
      inputs.denote_wf [OF ws(4) f(3)] descriptor_of_kind.denote_wf [OF ws(5) r(2)]
    by (intro wf_record [of _ ?ks]) (simp_all add: record_keys)
  have "unicode_ok (effect_value x)" by (rule unicode_ok_abs [OF wf w a m(1)])
  then show "parseEffect (effect_value x) = Inr x"
    using descriptor_of_kind.again [OF ws(1) m(5)] definitions.again [OF wd def, unfolded definition_value_def]
      descriptor_of_kind.again [OF ws(5) r(2)]
    unfolding parseEffect_def effect_value_def by (simp add: closed_value)
qed

lemma statement_ok:
  assumes "parseStatement v = Inr x"
  obtains m vs a t p where "unicode_ok v"
    "closedRecord v [''schema'', ''subjects'', ''actor'', ''predicateType'', ''predicate'']
       [''schema'', ''subjects'', ''actor'', ''predicateType'', ''predicate''] = Inr m"
    "map_of m (u ''schema'') = Some (YStr STATEMENT_SCHEMA)"
    "map_of m (u ''subjects'') = Some (YSeq vs)" "vs \<noteq> []" "traverse parseObjectDescriptor vs = Inr (sm_subjects x)"
    "canonicalSet vs = Inr ()" "map_of m (u ''actor'') = Some a" "actorRef a = Inr (sm_actor x)"
    "map_of m (u ''predicateType'') = Some (YStr t)" "parse_identifier (YStr t) = Inr t"
    "map_of m (u ''predicate'') = Some p" "parse_predicate t (sm_subjects x) p = Inr (sm_predicate x)"
  using assms by (fastforce simp: parseStatement_def parse_identifier_def)

interpretation statement: lossless parseStatement statement_value
proof
  fix v x assume wf: "wf_yvalue v" and p: "parseStatement v = Inr x"
  let ?ks = "[''schema'', ''subjects'', ''actor'', ''predicateType'', ''predicate'']"
  from p obtain m vs a t q where m: "unicode_ok v" "closedRecord v ?ks ?ks = Inr m"
    "map_of m (u ''schema'') = Some (YStr STATEMENT_SCHEMA)"
    "map_of m (u ''subjects'') = Some (YSeq vs)" "vs \<noteq> []" "traverse parseObjectDescriptor vs = Inr (sm_subjects x)"
    "canonicalSet vs = Inr ()" "map_of m (u ''actor'') = Some a" "actorRef a = Inr (sm_actor x)"
    "map_of m (u ''predicateType'') = Some (YStr t)" "parse_identifier (YStr t) = Inr t"
    "map_of m (u ''predicate'') = Some q" "parse_predicate t (sm_subjects x) q = Inr (sm_predicate x)"
    by (rule statement_ok)
  have ws: "wf_yvalue (YSeq vs)" "wf_yvalue a" "wf_yvalue q" using sub_wf [OF wf m(2)] m(4,8,12) by blast+
  from ws(1) have wvs: "list_all wf_yvalue vs" by simp
  note ds = descriptor.items [OF wvs m(6)] descriptor.sets [OF wvs m(6)]
  note t = predicate_typeD [OF m(13)]
  show a: "abs_val (statement_value x) = abs_val v" unfolding statement_value_def t
    using m(3,4,8,10,12) ds(1) actor.denotes [OF ws(2) m(9)] predicate.denotes [OF ws(3) m(13)]
    by (intro closed_fields [OF m(2)]) simp_all
  show w: "wf_yvalue (statement_value x)" unfolding statement_value_def
    using ds(2) actor.denote_wf [OF ws(2) m(9)] predicate.denote_wf [OF ws(3) m(13)]
    by (intro wf_record [of _ ?ks]) (simp_all add: record_keys)
  have "unicode_ok (statement_value x)" by (rule unicode_ok_abs [OF wf w a m(1)])
  moreover have "sm_subjects x \<noteq> []" using m(5) list_all2_lengthD [OF ds(4)] by auto
  ultimately show "parseStatement (statement_value x) = Inr x"
    using ds(3,5) m(7,11) actor.again [OF ws(2) m(9)] predicate.again [OF ws(3) m(13)]
    unfolding parseStatement_def statement_value_def t by (simp add: closed_value)
qed

interpretation commit: lossless parseCommitV2 commit_value
proof
  fix v x assume wf: "wf_yvalue v" and p: "parseCommitV2 v = Inr x"
  let ?ks = "[''schema'', ''parents'', ''decision'', ''result'']"
  from p obtain m vs d r where m: "unicode_ok v" "closedRecord v ?ks ?ks = Inr m"
    "map_of m (u ''schema'') = Some (YStr COMMIT_V2_SCHEMA)"
    "map_of m (u ''parents'') = Some (YSeq vs)" "traverse (descriptorOfKind KCommit) vs = Inr (cm_parents x)"
    "map_of m (u ''decision'') = Some d" "descriptorOfKind KStatement d = Inr (cm_decision x)"
    "map_of m (u ''result'') = Some r" "descriptorOfKind KState r = Inr (cm_result x)"
    by (fastforce simp: parseCommitV2_def)
  have ws: "wf_yvalue (YSeq vs)" "wf_yvalue d" "wf_yvalue r" using sub_wf [OF wf m(2)] m(4,6,8) by blast+
  from ws(1) have wvs: "list_all wf_yvalue vs" by simp
  note ds = descriptor_of_kind.items [OF wvs m(5)]
  note l = descriptor_of_kind.denotes [OF ws(2) m(7)] descriptor_of_kind.denotes [OF ws(3) m(9)]
    descriptor_of_kind.denote_wf [OF ws(2) m(7)] descriptor_of_kind.denote_wf [OF ws(3) m(9)]
    descriptor_of_kind.again [OF ws(2) m(7)] descriptor_of_kind.again [OF ws(3) m(9)]
  show a: "abs_val (commit_value x) = abs_val v" unfolding commit_value_def
    using m(3,4,6,8) ds(1) l(1,2) by (intro closed_fields [OF m(2)]) simp_all
  show w: "wf_yvalue (commit_value x)" unfolding commit_value_def
    using ds(2) l(3,4) by (intro wf_record [of _ ?ks]) (simp_all add: record_keys)
  have "unicode_ok (commit_value x)" by (rule unicode_ok_abs [OF wf w a m(1)])
  then show "parseCommitV2 (commit_value x) = Inr x"
    using ds(3) l(5,6) unfolding parseCommitV2_def commit_value_def by (simp add: closed_value)
qed

interpretation objects: lossless parseProtocolObject object_value
proof
  fix v x assume wf: "wf_yvalue v" and p: "parseProtocolObject v = Inr x"
  from p have u: "unicode_ok v" by (simp add: parseProtocolObject_def)
  have all: "abs_val (object_value x) = abs_val v \<and> wf_yvalue (object_value x) \<and>
    (case x of PState s \<Rightarrow> parseState (state_value s) = Inr s | PEffect s \<Rightarrow> parseEffect (effect_value s) = Inr s
     | PStatement s \<Rightarrow> parseStatement (statement_value s) = Inr s | PCommit s \<Rightarrow> parseCommitV2 (commit_value s) = Inr s)"
    using p state.denotes [OF wf] state.denote_wf [OF wf] state.again [OF wf] effect.denotes [OF wf] effect.denote_wf [OF wf]
      effect.again [OF wf] statement.denotes [OF wf] statement.denote_wf [OF wf] statement.again [OF wf]
      commit.denotes [OF wf] commit.denote_wf [OF wf] commit.again [OF wf]
    unfolding parseProtocolObject_def by (auto split: if_splits)
  then show a: "abs_val (object_value x) = abs_val v" and w: "wf_yvalue (object_value x)" by blast+
  have "unicode_ok (object_value x)" by (rule unicode_ok_abs [OF wf w a u])
  then show "parseProtocolObject (object_value x) = Inr x"
    using all unfolding parseProtocolObject_def
    by (cases x) (simp_all add: state_value_def effect_value_def statement_value_def commit_value_def schema_defs
        closedRecord_def has_own_def)
qed

end
