(* ===== verification/Sha256.thy ===== *)
theory Sha256
  imports JsUnicode
begin

text \<open>
  SHA-256 (FIPS 180-4), the hash that createHash of Node computes for packages/transition: 32-bit words,
  padding, message schedule, compression, and the lower-case hexadecimal digest. What the protocol
  needs of it is here too: the digest has 64 characters, all lower-case hexadecimal digits.
\<close>

unbundle bit_operations_syntax

type_synonym word32 = "32 word"
type_synonym hash_state = "word32 \<times> word32 \<times> word32 \<times> word32 \<times> word32 \<times> word32 \<times> word32 \<times> word32"

text \<open>The round constants and the initial state of the standard, in decimal.\<close>

definition sha_constants :: "word32 list" where
  "sha_constants = [
     1116352408, 1899447441, 3049323471, 3921009573, 961987163, 1508970993,
     2453635748, 2870763221, 3624381080, 310598401, 607225278, 1426881987,
     1925078388, 2162078206, 2614888103, 3248222580, 3835390401, 4022224774,
     264347078, 604807628, 770255983, 1249150122, 1555081692, 1996064986,
     2554220882, 2821834349, 2952996808, 3210313671, 3336571891, 3584528711,
     113926993, 338241895, 666307205, 773529912, 1294757372, 1396182291,
     1695183700, 1986661051, 2177026350, 2456956037, 2730485921, 2820302411,
     3259730800, 3345764771, 3516065817, 3600352804, 4094571909, 275423344,
     430227734, 506948616, 659060556, 883997877, 958139571, 1322822218,
     1537002063, 1747873779, 1955562222, 2024104815, 2227730452, 2361852424,
     2428436474, 2756734187, 3204031479, 3329325298]"

definition sha_initial :: hash_state where
  "sha_initial = (1779033703, 3144134277, 1013904242, 2773480762, 1359893119, 2600822924, 528734635, 1541459225)"

section \<open>Padding\<close>

text \<open>A one bit, zeros up to eight bytes short of a block, and the length in bits, most significant byte first.\<close>

definition length_bytes :: "nat \<Rightarrow> byte list" where
  "length_bytes n = map (\<lambda>i. ucast (drop_bit (8 * i) (of_nat (8 * n) :: 64 word))) (rev [0..<8])"

definition sha_pad :: "byte list \<Rightarrow> byte list" where
  "sha_pad m = m @ 0x80 # replicate ((119 - length m mod 64) mod 64) 0 @ length_bytes (length m)"

lemma sha_pad_blocks: "length (sha_pad m) mod 64 = 0"
proof -
  define q r z where "q = length m div 64" and "r = length m mod 64" and "z = (119 - r) mod 64"
  have l: "length (sha_pad m) = 64 * q + (r + 9 + z)"
    unfolding sha_pad_def length_bytes_def q_def z_def r_def by simp
  have "r < 64" unfolding r_def by simp
  then have "z = (if r < 56 then 55 - r else 119 - r)"
    unfolding z_def using le_mod_geq [of 64 "119 - r"] by (simp add: mod_less)
  with \<open>r < 64\<close> have "r + 9 + z = 64 \<or> r + 9 + z = 128" by auto
  then obtain k where "r + 9 + z = 64 * k" by (auto intro: that [of 1] that [of 2])
  then have "length (sha_pad m) = 64 * (q + k)" unfolding l by simp
  then show ?thesis by simp
qed

section \<open>Compression\<close>

fun word_list :: "byte list \<Rightarrow> word32 list" where
  "word_list (a # b # c # d # r) =
     (push_bit 24 (ucast a) OR push_bit 16 (ucast b) OR push_bit 8 (ucast c) OR ucast d) # word_list r"
| "word_list _ = []"

definition small_sigma0 :: "word32 \<Rightarrow> word32" where
  "small_sigma0 x = word_rotr 7 x XOR word_rotr 18 x XOR drop_bit 3 x"

definition small_sigma1 :: "word32 \<Rightarrow> word32" where
  "small_sigma1 x = word_rotr 17 x XOR word_rotr 19 x XOR drop_bit 10 x"

definition big_sigma0 :: "word32 \<Rightarrow> word32" where
  "big_sigma0 x = word_rotr 2 x XOR word_rotr 13 x XOR word_rotr 22 x"

definition big_sigma1 :: "word32 \<Rightarrow> word32" where
  "big_sigma1 x = word_rotr 6 x XOR word_rotr 11 x XOR word_rotr 25 x"

text \<open>The schedule, the latest word first: the next word is made of the 2nd, 7th, 15th and 16th last.\<close>

primrec schedule :: "nat \<Rightarrow> word32 list \<Rightarrow> word32 list" where
  "schedule 0 ws = ws"
| "schedule (Suc n) ws = schedule n ((small_sigma1 (ws ! 1) + ws ! 6 + small_sigma0 (ws ! 14) + ws ! 15) # ws)"

fun sha_round :: "hash_state \<Rightarrow> word32 \<times> word32 \<Rightarrow> hash_state" where
  "sha_round (a, b, c, d, e, f, g, h) (k, w) =
     (let t1 = h + big_sigma1 e + ((e AND f) XOR (NOT e AND g)) + k + w;
          t2 = big_sigma0 a + ((a AND b) XOR (a AND c) XOR (b AND c))
      in (t1 + t2, a, b, c, d + t1, e, f, g))"

fun add_state :: "hash_state \<Rightarrow> hash_state \<Rightarrow> hash_state" where
  "add_state (a, b, c, d, e, f, g, h) (a', b', c', d', e', f', g', h') =
     (a + a', b + b', c + c', d + d', e + e', f + f', g + g', h + h')"

definition sha_block :: "hash_state \<Rightarrow> byte list \<Rightarrow> hash_state" where
  "sha_block s block =
     add_state s (foldl sha_round s (zip sha_constants (rev (schedule 48 (rev (word_list block))))))"

function sha_blocks :: "hash_state \<Rightarrow> byte list \<Rightarrow> hash_state" where
  "sha_blocks s m = (if m = [] then s else sha_blocks (sha_block s (take 64 m)) (drop 64 m))"
  by pat_completeness auto
termination by (relation "measure (\<lambda>(s, m). length m)") auto

declare sha_blocks.simps [simp del]

section \<open>The digest\<close>

definition word_hex :: "word32 \<Rightarrow> jstring" where
  "word_hex w = map (\<lambda>i. hex_digit (unat (take_bit 4 (drop_bit (4 * i) w)))) (rev [0..<8])"

fun state_hex :: "hash_state \<Rightarrow> jstring" where
  "state_hex (a, b, c, d, e, f, g, h) =
     word_hex a @ word_hex b @ word_hex c @ word_hex d @ word_hex e @ word_hex f @ word_hex g @ word_hex h"

definition sha256_hex :: "byte list \<Rightarrow> jstring" where
  "sha256_hex m = state_hex (sha_blocks sha_initial (sha_pad m))"

lemma word_hex_digits: "length (word_hex w) = 8"
  "c \<in> set (word_hex w) \<Longrightarrow> 48 \<le> unat c \<and> unat c \<le> 57 \<or> 97 \<le> unat c \<and> unat c \<le> 102"
proof -
  show "length (word_hex w) = 8" by (simp add: word_hex_def)
  assume "c \<in> set (word_hex w)"
  then obtain v :: word32 where n: "c = hex_digit (unat (take_bit 4 v))" by (auto simp: word_hex_def)
  have l: "unat (take_bit 4 v) < 16" using take_bit_nat_less_exp [of 4 "unat v"] by (simp only: unsigned_take_bit_eq) simp
  then show "48 \<le> unat c \<and> unat c \<le> 57 \<or> 97 \<le> unat c \<and> unat c \<le> 102"
    unfolding n unat_hex_digit [OF l] using l by (simp split: if_split)
qed

lemma prod_cases8: obtains a b c d e f g h where "s = (a, b, c, d, e, f, g, h)"
  by (metis surj_pair)

lemma sha256_hex_digits: "length (sha256_hex m) = 64"
  "c \<in> set (sha256_hex m) \<Longrightarrow> 48 \<le> unat c \<and> unat c \<le> 57 \<or> 97 \<le> unat c \<and> unat c \<le> 102"
proof -
  obtain a b c' d e f g h where s: "sha_blocks sha_initial (sha_pad m) = (a, b, c', d, e, f, g, h)"
    using prod_cases8 by blast
  show "length (sha256_hex m) = 64" by (simp add: sha256_hex_def s word_hex_digits(1))
  show "c \<in> set (sha256_hex m) \<Longrightarrow> 48 \<le> unat c \<and> unat c \<le> 57 \<or> 97 \<le> unat c \<and> unat c \<le> 102"
    unfolding sha256_hex_def s state_hex.simps set_append using word_hex_digits(2) [of c] by blast
qed

text \<open>The test vector of the standard.\<close>

lemma sha256_abc:
  "sha256_hex [0x61, 0x62, 0x63] = u ''ba7816bf8f01cfea414140de5dae2223b00361a396177a9cb410ff61f20015ad''"
  by code_simp

end
