(* ===== verification/ProtocolIdentity.thy ===== *)
theory ProtocolIdentity
  imports ProtocolParseLaws Sha256
begin

text \<open>
  packages/transition/src/identity.ts: the canonical bytes of a protocol object, its digest under the
  domain prefix of its kind and schema, and its descriptor. The second half shows that the bytes that
  are hashed determine the object up to the order of keys, so that two objects with one digest are the
  same object or a collision of SHA-256.
\<close>

section \<open>Identity\<close>

definition kindForSchema :: "jstring \<Rightarrow> object_kind option" where
  "kindForSchema s =
     (if s = STATE_SCHEMA then Some KState else if s = EFFECT_SCHEMA then Some KEffect
      else if s = STATEMENT_SCHEMA then Some KStatement else if s = COMMIT_V2_SCHEMA then Some KCommit else None)"

definition canonicalProtocolObjectBytes :: "protocol_object \<Rightarrow> byte list protocol" where
  "canonicalProtocolObjectBytes ob =
     bind_result (parseProtocolObject (object_value ob)) (\<lambda>parsed. canonicalProtocolBytes (object_value parsed))"

definition digest_prefix :: "object_kind \<Rightarrow> jstring \<Rightarrow> jstring" where
  "digest_prefix kind schema = PROTOCOL_DIGEST_DOMAIN @ [0] @ object_kind_name kind @ [0] @ schema @ [0]"

definition digestCanonicalProtocolBytes :: "object_kind \<Rightarrow> jstring \<Rightarrow> byte list \<Rightarrow> jstring protocol" where
  "digestCanonicalProtocolBytes kind schema bytes =
     bind_result (require (expectedSchema kind = schema) UNSUPPORTED_MEDIA_TYPE) (\<lambda>_.
       Inr (PROTOCOL_HASH_ALGORITHM @ u '':'' @ sha256_hex (utf8_encode (digest_prefix kind schema) @ bytes)))"

text \<open>The schema of a typed object is the one of its kind.\<close>

abbreviation schema_of :: "protocol_object \<Rightarrow> jstring" where
  "schema_of ob \<equiv> expectedSchema (object_kind_of ob)"

definition digestProtocolObject :: "protocol_object \<Rightarrow> jstring protocol" where
  "digestProtocolObject ob =
     bind_result (parseProtocolObject (object_value ob)) (\<lambda>parsed.
     case kindForSchema (schema_of parsed) of
       None \<Rightarrow> Inl UNSUPPORTED_MEDIA_TYPE
     | Some kind \<Rightarrow>
         bind_result (canonicalProtocolObjectBytes parsed) (\<lambda>bytes.
           digestCanonicalProtocolBytes kind (schema_of parsed) bytes))"

definition describeProtocolObject :: "protocol_object \<Rightarrow> object_descriptor protocol" where
  "describeProtocolObject ob =
     bind_result (parseProtocolObject (object_value ob)) (\<lambda>parsed.
     case kindForSchema (schema_of parsed) of
       None \<Rightarrow> Inl UNSUPPORTED_MEDIA_TYPE
     | Some kind \<Rightarrow> bind_result (digestProtocolObject parsed) (\<lambda>d. Inr \<lparr>desc_kind = kind, desc_digest = d\<rparr>))"

section \<open>What the strict parser returns\<close>

text \<open>Every value that the strict parser returns is a protocol value.\<close>

definition in_domain :: "(yvalue \<times> jstring) protocol option \<Rightarrow> bool" where
  "in_domain r \<longleftrightarrow> (case r of Some (Inr (v, rest)) \<Rightarrow> protocol_value v | _ \<Rightarrow> True)"

lemma in_domain_simps [simp]:
  "in_domain None" "in_domain (Some (Inl e))" "in_domain (Some (Inr (v, r))) \<longleftrightarrow> protocol_value v"
  by (simp_all add: in_domain_def)

lemma in_domain_more:
  "in_domain r \<Longrightarrow> (\<And>v s. r = Some (Inr (v, s)) \<Longrightarrow> protocol_value v \<Longrightarrow> in_domain (f (v, s))) \<Longrightarrow> in_domain (more r f)"
  by (auto simp: more_def split: option.split sum.split)

lemma parseString_domain: "parseString s = Inr (t, r) \<Longrightarrow> well_formed t"
  by (auto simp: parseString_def split: option.splits prod.splits if_splits)

lemma parseNumber_domain: "in_domain (Some (parseNumber s))"
proof (cases "parseNumber s")
  case (Inr p)
  then obtain n r where "p = (YNum n, r)" "number_of_token (the (match_number s)) = Some n"
    by (auto simp: parseNumber_def split: option.splits)
  then show ?thesis using Inr js_number_rounds by (simp add: number_of_token_def)
qed simp

lemma parseLiteral_domain: "protocol_value v \<Longrightarrow> in_domain (Some (parseLiteral lit v s))"
  by (simp add: parseLiteral_def)

lemma protocol_obj_set:
  assumes "protocol_value (YMap m)" "well_formed k" "protocol_value v"
  shows "protocol_value (YMap (obj_set m k v))"
  unfolding protocol_map list_all_iff
proof
  show "wf_object (obj_set m k v)" using assms(1) by (simp add: protocol_map wf_obj_set)
  show "\<forall>e\<in>set (obj_set m k v). case e of (k, v) \<Rightarrow> well_formed k \<and> protocol_value v"
    using entries_obj_set [of m k v] assms unfolding protocol_map list_all_iff by blast
qed

lemma parse_domain:
  shows "in_domain (parse_value f s)"
    and "protocol_value (YMap m) \<Longrightarrow> in_domain (parse_entries f m s)"
    and "list_all protocol_value xs \<Longrightarrow> in_domain (parse_items f xs s)"
proof (induction f s and f m s and f xs s rule: parse_value_parse_entries_parse_items.induct)
  case (2 f s)
  have e: "protocol_value (YMap [])" by (simp add: protocol_map wf_keys_def)
  have t: "in_domain (Some (bind_result (parseString w) (\<lambda>(t, r'). Inr (YStr t, r'))))" for w
    using parseString_domain [of w] by (cases "parseString w") auto
  show ?case
    using 2 e by (simp add: t parseNumber_domain parseLiteral_domain Let_def split: list.split option.split)
next
  case (4 f m s)
  show ?case
  proof (cases "parseString s")
    case (Inr p)
    obtain key r where p: "p = (key, r)" by fastforce
    have k: "well_formed key" using parseString_domain Inr p by simp
    show ?thesis using 4 k Inr
      by (auto simp: p Let_def protocol_obj_set intro!: in_domain_more split: option.split)
  qed simp
next
  case (6 f xs s)
  then show ?case by (auto simp: Let_def intro!: in_domain_more split: option.split)
qed simp_all

lemma strict_json_domain: "strict_json s = Some (Inr v) \<Longrightarrow> protocol_value v"
  using parse_domain(1) [of "Suc (2 * length (skipWhitespace s))" "skipWhitespace s"]
  by (auto simp: strict_json_def Let_def simp del: parse_value.simps split: option.splits sum.splits if_splits)

lemma parseProtocolJson_domain: "parseProtocolJson input = Inr v \<Longrightarrow> protocol_value v"
proof -
  assume "parseProtocolJson input = Inr v"
  then obtain s where "the (strict_json s) = Inr v"
    by (auto simp: parseProtocolJson_def split: option.splits sum.splits)
  then have "strict_json s = Some (Inr v)" using strict_json_total [of s] by (cases "strict_json s") simp_all
  then show ?thesis by (rule strict_json_domain)
qed

section \<open>Objects of the protocol\<close>

text \<open>A typed object whose protocol value parses back to it; every parsed object is one.\<close>

definition valid_object :: "protocol_object \<Rightarrow> bool" where
  "valid_object ob \<longleftrightarrow> protocol_value (object_value ob) \<and> parseProtocolObject (object_value ob) = Inr ob"

lemma parsed_valid:
  assumes "protocol_value v" "parseProtocolObject v = Inr ob"
  shows "valid_object ob" "abs_val (object_value ob) = abs_val v"
proof -
  have wf: "wf_yvalue v" using assms(1) by (simp add: protocol_value_def)
  show a: "abs_val (object_value ob) = abs_val v" by (rule objects.denotes [OF wf assms(2)])
  show "valid_object ob"
    unfolding valid_object_def using objects.again [OF wf assms(2)]
      protocol_value_cong [OF objects.denote_wf [OF wf assms(2)] a assms(1)] by blast
qed

text \<open>What is hashed: the domain prefix and the canonical bytes.\<close>

definition preimage :: "protocol_object \<Rightarrow> byte list" where
  "preimage ob = utf8_encode (digest_prefix (object_kind_of ob) (schema_of ob)) @ utf8_encode (canonical_text (object_value ob))"

lemma kindForSchema_expected [simp]: "kindForSchema (expectedSchema k) = Some k"
  by (cases k) (simp_all add: kindForSchema_def schema_defs)

lemma valid_bytes:
  "valid_object ob \<Longrightarrow> canonicalProtocolObjectBytes ob = Inr (utf8_encode (canonical_text (object_value ob)))"
  by (simp add: valid_object_def canonicalProtocolObjectBytes_def bytes_ok)

lemma valid_digest:
  "valid_object ob \<Longrightarrow> digestProtocolObject ob = Inr (u ''sha256:'' @ sha256_hex (preimage ob))"
  by (simp add: digestProtocolObject_def valid_bytes digestCanonicalProtocolBytes_def preimage_def require_def
      PROTOCOL_HASH_ALGORITHM_def valid_object_def u_def)

definition descriptor_of :: "protocol_object \<Rightarrow> object_descriptor" where
  "descriptor_of ob = \<lparr>desc_kind = object_kind_of ob, desc_digest = u ''sha256:'' @ sha256_hex (preimage ob)\<rparr>"

lemma valid_describe: "valid_object ob \<Longrightarrow> describeProtocolObject ob = Inr (descriptor_of ob)"
  using valid_digest [of ob] by (simp add: describeProtocolObject_def descriptor_of_def valid_object_def)

lemma descriptor_of_digest: "digest_pattern (desc_digest (descriptor_of ob))"
proof -
  have "list_all is_lower_hex (sha256_hex (preimage ob))"
    using sha256_hex_digits(2) [of _ "preimage ob"] by (auto simp: list_all_iff is_lower_hex_def is_digit_def)
  then show ?thesis by (simp add: digest_pattern_def descriptor_of_def sha256_hex_digits(1) u_def)
qed

section \<open>One digest, one object\<close>

lemma codepoints_append:
  "list_all (\<lambda>c. \<not> is_high_surrogate c) a \<Longrightarrow> codepoints (a @ b) = codepoints a @ codepoints b"
proof (induction a rule: codepoints.induct)
  case (2 c)
  then show ?case by (cases b) simp_all
qed auto

lemma utf8_encode_append: "list_all (\<lambda>c. \<not> is_high_surrogate c) a \<Longrightarrow> utf8_encode (a @ b) = utf8_encode a @ utf8_encode b"
  by (simp add: utf8_encode_def codepoints_append)

lemma prefix_plain:
  "list_all (\<lambda>c. \<not> is_high_surrogate c \<and> \<not> is_low_surrogate c) (digest_prefix k (expectedSchema k))"
proof -
  have "list_all (\<lambda>c. \<not> is_high_surrogate c \<and> \<not> is_low_surrogate c) (u s)" for s
    by (simp add: u_def list_all_iff)
  moreover have "\<not> is_high_surrogate 0 \<and> \<not> is_low_surrogate 0" by (simp add: plain_small)
  ultimately show ?thesis by (cases k) (simp_all add: digest_prefix_def schema_defs PROTOCOL_DIGEST_DOMAIN_def)
qed

lemma cu_0: "cu c = 0 \<longleftrightarrow> c = CHR 0x00"
  using cu_eq_iff [of c "CHR 0x00"] by (simp add: cu_def)

text \<open>No prefix of a kind continues to the prefix of another one.\<close>

lemma prefix_kind:
  assumes "digest_prefix k (expectedSchema k) @ a = digest_prefix l (expectedSchema l) @ b"
  shows "k = l \<and> a = b"
proof -
  have "object_kind_name k @ 0 # x = object_kind_name l @ 0 # y \<Longrightarrow> k = l" for x y
    by (cases k; cases l) (auto simp: u_Cons cu_0)
  then have "k = l" using assms by (auto simp: digest_prefix_def)
  with assms show ?thesis by simp
qed

theorem preimage_eq:
  assumes "valid_object x" "valid_object y" "preimage x = preimage y"
  shows "object_kind_of x = object_kind_of y \<and> abs_val (object_value x) = abs_val (object_value y)"
proof -
  let ?p = "\<lambda>ob. digest_prefix (object_kind_of ob) (schema_of ob)" and ?t = "\<lambda>ob. canonical_text (object_value ob)"
  have v: "protocol_value (object_value x)" "protocol_value (object_value y)" using assms by (simp_all add: valid_object_def)
  have wf: "well_formed (?p ob @ ?t ob)" if "protocol_value (object_value ob)" for ob
    using that prefix_plain [of "object_kind_of ob"]
    by (intro well_formed_append well_formed_plain canonical_text_well_formed) (simp_all add: protocol_value_def)
  have enc: "preimage ob = utf8_encode (?p ob @ ?t ob)" for ob
    using prefix_plain [of "object_kind_of ob"] by (simp add: preimage_def utf8_encode_append list_all_iff)
  have "?p x @ ?t x = ?p y @ ?t y"
    using utf8_inj [OF wf [OF v(1)] wf [OF v(2)]] assms(3) by (simp add: enc)
  then have "object_kind_of x = object_kind_of y" "?t x = ?t y" using prefix_kind by blast+
  then show ?thesis using canonical_text_eq_iff [OF v] by blast
qed

lemma valid_same_describe:
  "valid_object x \<Longrightarrow> valid_object y \<Longrightarrow> describeProtocolObject x = describeProtocolObject y \<longleftrightarrow>
     object_kind_of x = object_kind_of y \<and> sha256_hex (preimage x) = sha256_hex (preimage y)"
  by (auto simp: valid_describe descriptor_of_def)

end
