(* ===== verification/ProtocolSame.thy ===== *)
theory ProtocolSame
  imports ProtocolParseLaws SameDoc
begin

text \<open>
  The parsers of parse.ts do not look at the order of keys: on two values that are the same document
  they both throw the same error or both return. \<open>agree Q\<close> relates such results; one rule per
  combinator of ProtocolParse, and every schema follows its definition.
\<close>

named_theorems agree_intros \<open>parsers respect sameness of documents\<close>

definition agree :: "('a \<Rightarrow> 'b \<Rightarrow> bool) \<Rightarrow> 'a protocol \<Rightarrow> 'b protocol \<Rightarrow> bool" where
  "agree Q r s = rel_sum (=) Q r s"

abbreviation whatever :: "'a \<Rightarrow> 'b \<Rightarrow> bool" where
  "whatever \<equiv> \<lambda>_ _. True"

lemma agree_simps [simp]:
  "agree Q (Inl e) (Inl d) \<longleftrightarrow> e = d" "agree Q (Inr x) (Inr y) \<longleftrightarrow> Q x y"
  "\<not> agree Q (Inl e) (Inr y)" "\<not> agree Q (Inr x) (Inl d)"
  by (simp_all add: agree_def)

lemma agree_bind: "agree P r s \<Longrightarrow> (\<And>x y. P x y \<Longrightarrow> agree Q (f x) (g y)) \<Longrightarrow> agree Q (bind_result r f) (bind_result s g)"
  by (cases r; cases s) auto

lemma agree_mono: "agree P r s \<Longrightarrow> (\<And>x y. P x y \<Longrightarrow> Q x y) \<Longrightarrow> agree Q r s"
  by (cases r; cases s) auto

lemma agree_require: "b = c \<Longrightarrow> agree whatever (require b e) (require c e)"
  by (simp add: require_def)

lemma agree_option:
  "x = y \<Longrightarrow> agree Q n n' \<Longrightarrow> (\<And>k. agree Q (f k) (g k)) \<Longrightarrow>
     agree Q (case x of None \<Rightarrow> n | Some k \<Rightarrow> f k) (case y of None \<Rightarrow> n' | Some k \<Rightarrow> g k)"
  by (cases y) simp_all

lemma agree_if: "b = c \<Longrightarrow> agree Q r r' \<Longrightarrow> agree Q s s' \<Longrightarrow> agree Q (if b then r else s) (if c then r' else s')"
  by simp

lemma agree_traverse:
  "list_all2 P vs ws \<Longrightarrow> (\<And>v w. P v w \<Longrightarrow> agree Q (f v) (g w)) \<Longrightarrow> agree (list_all2 Q) (traverse f vs) (traverse g ws)"
proof (induction rule: list_all2_induct)
  case (Cons v vs w ws)
  have "agree (list_all2 Q) (traverse f vs) (traverse g ws)" using Cons by blast
  then show ?case using Cons(1,4) by (auto intro!: agree_bind)
qed simp

section \<open>Fields\<close>

lemma agree_domain: "same v w \<Longrightarrow> agree whatever (assertProtocolDomain v) (assertProtocolDomain w)"
  using unicode_ok.cong [of v w]
  by (simp add: same_def assertProtocolDomain_def canonicalizeProtocolValue_def)

lemma agree_closedRecord:
  assumes "same v w"
  shows "agree (\<lambda>m n. same (YMap m) (YMap n)) (closedRecord v required allowed) (closedRecord w required allowed)"
  using assms
proof (cases rule: same_cases)
  case (Map m m')
  have keys: "set (map fst m) = set (map fst m')"
    using same_has_own [OF Map(3)] by (auto simp: has_own_iff set_eq_iff)
  have "list_all (\<lambda>(k, _). k \<in> A) m = list_all (\<lambda>(k, _). k \<in> A) m'" for A
  proof -
    have "list_all (\<lambda>(k, _). k \<in> A) l \<longleftrightarrow> set (map fst l) \<subseteq> A" for l :: "(jstring \<times> yvalue) list"
      by (auto simp: list_all_iff)
    then show ?thesis using keys by simp
  qed
  moreover have "list_all (\<lambda>k. has_own m (u k)) required = list_all (\<lambda>k. has_own m' (u k)) required"
    using same_has_own [OF Map(3)] by simp
  ultimately show ?thesis using Map by (simp add: closedRecord_def require_def)
next
  case Scalar
  then show ?thesis by (cases v; cases w) (simp_all add: closedRecord_def)
qed (simp add: closedRecord_def)

lemma agree_field:
  assumes "same (YMap m) (YMap n)" "\<And>v w. same v w \<Longrightarrow> agree Q (f v) (g w)"
  shows "agree Q (field_of m k f) (field_of n k g)"
  using same_Map_lookup [OF assms(1), of "u k"] assms(2)
  by (auto simp: field_of_def elim!: option.rel_cases split: option.split)

lemma agree_arrayValue: "same v w \<Longrightarrow> agree (list_all2 same) (arrayValue v) (arrayValue w)"
  by (erule same_cases; cases v; cases w) (auto simp: arrayValue_def)

lemma agree_same_scalar:
  assumes "same v w" "\<And>m. f (YMap m) = Inl e" "\<And>xs. f (YSeq xs) = Inl e"
  shows "agree (=) (f v) (f w)"
  using assms(1)
proof (cases rule: same_cases)
  case Scalar
  then show ?thesis by (cases "f v") simp_all
qed (simp_all add: assms(2,3))

lemma agree_stringValue: "same v w \<Longrightarrow> agree (=) (stringValue a b p v) (stringValue a b p w)"
  by (rule agree_same_scalar) (simp_all add: stringValue_def)

lemma agree_literal: "same v w \<Longrightarrow> agree (=) (literal e v) (literal e w)"
  by (rule agree_same_scalar) (simp_all add: literal_def require_def)

lemma agree_outcome: "same v w \<Longrightarrow> agree (=) (decision_outcome_of v) (decision_outcome_of w)"
  by (rule agree_same_scalar) (simp_all add: decision_outcome_of_def)

lemma agree_identifier: "same v w \<Longrightarrow> agree (=) (parse_identifier v) (parse_identifier w)"
  unfolding parse_identifier_def by (rule agree_stringValue)

lemma agree_digest: "same v w \<Longrightarrow> agree (=) (parse_digest v) (parse_digest w)"
  unfolding parse_digest_def by (rule agree_stringValue)

lemma agree_canonicalSet: "list_all2 same vs ws \<Longrightarrow> agree whatever (canonicalSet vs) (canonicalSet ws)"
proof -
  assume "list_all2 same vs ws"
  then have "list_all2 (\<lambda>v w. wf_yvalue v \<and> wf_yvalue w \<and> abs_val v = abs_val w) vs ws"
    by (rule list_all2_mono) (auto simp: same_def)
  from canonicalSet_cong [OF this] show ?thesis by (cases "canonicalSet ws") simp_all
qed

lemmas agree_rules = agree_bind agree_require agree_domain agree_closedRecord agree_field agree_arrayValue
  agree_stringValue agree_literal agree_outcome agree_identifier agree_digest agree_canonicalSet

section \<open>References, claims and predicates\<close>

lemma agree_resource: "same v w \<Longrightarrow> agree (=) (resourceDescriptor v) (resourceDescriptor w)"
  unfolding resourceDescriptor_def by (rule agree_rules | assumption | simp)+

lemma agree_descriptor: "same v w \<Longrightarrow> agree (=) (parseObjectDescriptor v) (parseObjectDescriptor w)"
  unfolding parseObjectDescriptor_def
  by (rule agree_rules agree_option | assumption | simp)+

lemma agree_descriptorOfKind: "same v w \<Longrightarrow> agree (=) (descriptorOfKind k v) (descriptorOfKind k w)"
  unfolding descriptorOfKind_def by (rule agree_bind agree_descriptor agree_require | assumption | simp)+

lemma same_YStr: "same v w \<Longrightarrow> v = YStr s \<longleftrightarrow> w = YStr s"
  by (auto elim: same_cases)

lemma agree_actor: "same v w \<Longrightarrow> agree (=) (actorRef v) (actorRef w)"
proof -
  have "agree (=) (if k = YStr (u ''human'') then Inr Human else if k = YStr (u ''agent'') then Inr Agent
        else if k = YStr (u ''service'') then Inr Service else Inl SCHEMA_INVALID)
     (if k' = YStr (u ''human'') then Inr Human else if k' = YStr (u ''agent'') then Inr Agent
        else if k' = YStr (u ''service'') then Inr Service else Inl SCHEMA_INVALID)" if "same k k'" for k k'
    using same_YStr [OF that] by simp
  note kind = this
  show "same v w \<Longrightarrow> agree (=) (actorRef v) (actorRef w)"
    unfolding actorRef_def by (rule agree_rules kind | assumption | simp)+
qed

lemma agree_domain_value: "same v w \<Longrightarrow>
    agree same (bind_result (assertProtocolDomain v) (\<lambda>_. Inr v)) (bind_result (assertProtocolDomain w) (\<lambda>_. Inr w))"
  by (rule agree_bind [OF agree_domain]) simp_all

lemma agree_evidence: "same v w \<Longrightarrow> agree whatever (evidenceRef v) (evidenceRef w)"
  unfolding evidenceRef_def
  by (rule agree_bind agree_closedRecord agree_field agree_resource agree_identifier agree_domain_value | assumption | simp)+

lemma agree_evidenceSet: "same v w \<Longrightarrow> agree whatever (evidenceSet b v) (evidenceSet b w)"
  unfolding evidenceSet_def
  by (rule agree_bind agree_arrayValue agree_require agree_traverse agree_evidence agree_canonicalSet | assumption
      | simp | force dest: list_all2_lengthD)+

lemma agree_claim: "same v w \<Longrightarrow> agree (\<lambda>c d. is_authored c = is_authored d) (stringClaim v) (stringClaim w)"
proof -
  assume s: "same v w"
  have "agree (\<lambda>c d. is_authored c = is_authored d)
     (bind_result (closedRecord v ks ks) (\<lambda>r. bind_result (field_of r ''value'' (stringValue 1 None any_text)) (\<lambda>t.
        bind_result (field_of r ''evidence'' (evidenceSet (md = Stated))) (\<lambda>es. Inr (Claim md t es)))))
     (bind_result (closedRecord w ks ks) (\<lambda>r. bind_result (field_of r ''value'' (stringValue 1 None any_text)) (\<lambda>t.
        bind_result (field_of r ''evidence'' (evidenceSet (md = Stated))) (\<lambda>es. Inr (Claim md t es)))))" for ks md
    by (rule agree_bind agree_closedRecord agree_field agree_stringValue agree_evidenceSet s | assumption | simp add: is_authored_def)+
  note stated = this
  show ?thesis unfolding stringClaim_def
    by (rule agree_bind [OF agree_closedRecord [OF s]], rule agree_bind [OF agree_field], assumption, rule agree_stringValue, assumption)
      (use stated agree_bind [OF agree_closedRecord [OF s], where f = "\<lambda>_. Inr Unspecified" and g = "\<lambda>_. Inr Unspecified"]
        in \<open>simp split: option.split\<close>)
qed

lemma agree_proposal: "same v w \<Longrightarrow> agree whatever (proposalPredicate v) (proposalPredicate w)"
  unfolding proposalPredicate_def
  by (rule agree_bind agree_closedRecord agree_field agree_claim | assumption | simp)+

lemma same_lookup_eq:
  "same (YMap m) (YMap n) \<Longrightarrow> map_of m k = Some (YStr s) \<longleftrightarrow> map_of n k = Some (YStr s)"
  using same_Map_lookup [of m n k] same_YStr [of "the (map_of m k)" "the (map_of n k)" s]
  by (cases "map_of m k"; cases "map_of n k") simp_all

lemma agree_policy: "same v w \<Longrightarrow> agree whatever (decisionPolicy v) (decisionPolicy w)"
  unfolding decisionPolicy_def
  by (rule agree_bind agree_closedRecord agree_field agree_resource agree_if same_lookup_eq | assumption | simp)+

lemma agree_decision: "same v w \<Longrightarrow> agree whatever (decisionPredicate v) (decisionPredicate w)"
  unfolding decisionPredicate_def
  by (rule agree_bind agree_closedRecord agree_field agree_policy agree_arrayValue agree_traverse agree_descriptorOfKind
      agree_canonicalSet agree_outcome agree_claim agree_require agree_stringValue | assumption | simp)+

section \<open>Protocol objects\<close>

lemma agree_codec: "same v w \<Longrightarrow> agree (=) (stateCodecRef v) (stateCodecRef w)"
  unfolding stateCodecRef_def by (rule agree_rules | assumption | simp)+

lemma agree_driver: "same v w \<Longrightarrow> agree (=) (mutationDriverRef v) (mutationDriverRef w)"
  unfolding mutationDriverRef_def by (rule agree_rules | assumption | simp)+

lemma agree_state: "same v w \<Longrightarrow> agree whatever (parseState v) (parseState w)"
  unfolding parseState_def
  by (rule agree_bind agree_domain agree_closedRecord agree_field agree_literal agree_codec agree_domain_value | assumption | simp)+

lemma agree_inputs: "list_all2 same vs ws \<Longrightarrow> agree (=) (parse_inputs p vs) (parse_inputs p ws)"
proof (induction arbitrary: p rule: list_all2_induct)
  case (Cons v vs w ws)
  have rest: "agree (=) (parse_inputs a vs) (parse_inputs b ws)" if "a = b" for a b using Cons.IH that by simp
  show ?case unfolding parse_inputs.simps
    by (rule agree_bind agree_closedRecord agree_field agree_identifier agree_descriptor agree_require rest Cons.hyps
      | assumption | simp split: option.split)+
qed simp

lemma agree_definition: "same v w \<Longrightarrow> agree whatever (parseEffectDefinition v) (parseEffectDefinition w)"
  unfolding parseEffectDefinition_def
  by (rule agree_bind agree_domain agree_closedRecord agree_field agree_driver agree_arrayValue agree_traverse
      agree_inputs | assumption | simp)+

lemma same_definition:
  assumes "same d d'" "same ops ops'" "same ins ins'"
  shows "same (YMap [(u ''driver'', d), (u ''operations'', ops), (u ''inputs'', ins)])
    (YMap [(u ''driver'', d'), (u ''operations'', ops'), (u ''inputs'', ins')])"
proof -
  have wf: "wf_yvalue (YMap [(u ''driver'', a), (u ''operations'', b), (u ''inputs'', c)])"
    if "wf_yvalue a" "wf_yvalue b" "wf_yvalue c" for a b c
    using that by (intro wf_record [of _ "[''driver'', ''operations'', ''inputs'']"]) (simp_all add: record_keys)
  show ?thesis unfolding same_Map_iff using assms by (intro conjI wf) (auto simp: same_def)
qed

lemma agree_effect: "same v w \<Longrightarrow> agree whatever (parseEffect v) (parseEffect w)"
  unfolding parseEffect_def
  by (rule agree_bind agree_domain agree_closedRecord agree_field agree_literal agree_descriptorOfKind
      agree_definition same_definition | assumption | simp)+

lemma agree_predicate: "same v w \<Longrightarrow> t = t' \<Longrightarrow> ds = ds' \<Longrightarrow>
    agree whatever (parse_predicate t ds v) (parse_predicate t' ds' w)"
  unfolding parse_predicate_def
  by (rule agree_if agree_bind agree_require agree_proposal agree_decision agree_domain | assumption | simp)+

lemma list_all2_eq_iff [simp]: "list_all2 (=) xs ys \<longleftrightarrow> xs = ys"
  by (simp add: list.rel_eq)

lemma agree_statement: "same v w \<Longrightarrow> agree whatever (parseStatement v) (parseStatement w)"
  unfolding parseStatement_def
  by (rule agree_bind agree_domain agree_closedRecord agree_field agree_literal agree_arrayValue agree_require
      agree_traverse agree_descriptor agree_canonicalSet agree_actor agree_identifier agree_predicate | assumption
      | force dest: list_all2_lengthD | simp)+

lemma agree_commit: "same v w \<Longrightarrow> agree whatever (parseCommitV2 v) (parseCommitV2 w)"
  unfolding parseCommitV2_def
  by (rule agree_bind agree_domain agree_closedRecord agree_field agree_literal agree_arrayValue
      agree_traverse agree_descriptorOfKind | assumption | simp)+

theorem agree_object: "same v w \<Longrightarrow> agree whatever (parseProtocolObject v) (parseProtocolObject w)"
  unfolding parseProtocolObject_def
  by (rule agree_bind agree_domain agree_closedRecord agree_if same_lookup_eq agree_state agree_effect agree_statement
      agree_commit | assumption | simp)+

end
