(* ===== verification/Resolver.thy ===== *)
theory Resolver
  imports ProtocolIdentity ProtocolSame
begin

text \<open>
  packages/transition/src/resolver.ts: fetching protocol objects by descriptor. A resolver is a
  function from descriptors to bytes that may throw (the \<open>get\<close> of \<open>ObjectResolver\<close>); it is not
  trusted. \<open>content_store\<close> is what a store of objects promises its readers, and the in-memory store
  of the source is interpreted in it. A resolver answers every request for a descriptor alike; the
  awaiting of its answers is not modelled.
\<close>

section \<open>Requests\<close>

text \<open>A protocol computation among those that may throw anything.\<close>

definition throwing :: "'a protocol \<Rightarrow> thrown + 'a" where
  "throwing r = (case r of Inl e \<Rightarrow> Inl (TransitionProtocolError e) | Inr x \<Rightarrow> Inr x)"

lemma throwing_ok [simp]: "throwing r = Inr x \<longleftrightarrow> r = Inr x"
  by (simp add: throwing_def split: sum.split)

lemma throwing_error: "throwing r = Inl t \<longleftrightarrow> (\<exists>e. r = Inl e \<and> t = TransitionProtocolError e)"
  by (auto simp: throwing_def split: sum.split)

lemma throwing_Inl [simp]: "throwing (Inl e) = Inl (TransitionProtocolError e)"
  by (simp add: throwing_def)

abbreviation check_that :: "bool \<Rightarrow> protocol_error_code \<Rightarrow> thrown + unit" where
  "check_that b e \<equiv> require b (TransitionProtocolError e)"

type_synonym resolver = "object_descriptor \<Rightarrow> thrown + byte list option"

definition descriptorKey :: "object_descriptor \<Rightarrow> jstring" where
  "descriptorKey d = object_kind_name (desc_kind d) @ [0] @ expectedSchema (desc_kind d) @ [0] @ desc_digest d"

definition bytesEqual :: "byte list \<Rightarrow> byte list \<Rightarrow> bool" where
  "bytesEqual left right \<longleftrightarrow> length left = length right \<and> list_all (\<lambda>(a, b). a = b) (zip left right)"

text \<open>A typed descriptor has the schema of its kind, so the comparison of schemas is the one of kinds.\<close>

definition resolveProtocolObject :: "resolver \<Rightarrow> object_descriptor \<Rightarrow> thrown + protocol_object" where
  "resolveProtocolObject get requested =
     bind_result (throwing (parseObjectDescriptor (descriptor_value requested))) (\<lambda>descriptor.
     bind_result (get descriptor) (\<lambda>found. case found of
       None \<Rightarrow> Inl (TransitionProtocolError OBJECT_NOT_FOUND)
     | Some bytes \<Rightarrow>
         bind_result (throwing (digestCanonicalProtocolBytes (desc_kind descriptor) (expectedSchema (desc_kind descriptor)) bytes)) (\<lambda>resolvedDigest.
         bind_result (check_that (resolvedDigest = desc_digest descriptor) OBJECT_DIGEST_MISMATCH) (\<lambda>_.
         bind_result (throwing (parseProtocolBytes (Inr bytes))) (\<lambda>ob.
         bind_result (throwing (describeProtocolObject ob)) (\<lambda>actual.
         bind_result (check_that (desc_kind actual = desc_kind descriptor) UNSUPPORTED_MEDIA_TYPE) (\<lambda>_.
         bind_result (check_that (desc_digest actual = desc_digest descriptor) OBJECT_DIGEST_MISMATCH) (\<lambda>_.
         bind_result (throwing (canonicalProtocolObjectBytes ob)) (\<lambda>canonical.
         bind_result (check_that (bytesEqual bytes canonical) NON_CANONICAL_VALUE) (\<lambda>_. Inr ob))))))))))"

section \<open>The in-memory store\<close>

type_synonym memory = "jstring \<rightharpoonup> byte list"

definition memory_put :: "memory \<Rightarrow> protocol_object \<Rightarrow> (object_descriptor \<times> memory) protocol" where
  "memory_put objects ob =
     bind_result (describeProtocolObject ob) (\<lambda>descriptor.
     bind_result (canonicalProtocolObjectBytes ob) (\<lambda>bytes.
       Inr (descriptor, objects(descriptorKey descriptor \<mapsto> bytes))))"

definition memory_get :: "memory \<Rightarrow> resolver" where
  "memory_get objects descriptor = Inr (objects (descriptorKey descriptor))"

text \<open>The constructor puts the objects that it is given, one after the other.\<close>

fun memory_of :: "memory \<Rightarrow> protocol_object list \<Rightarrow> memory protocol" where
  "memory_of objects [] = Inr objects"
| "memory_of objects (ob # obs) = bind_result (memory_put objects ob) (\<lambda>(_, objects'). memory_of objects' obs)"

section \<open>What resolving guarantees\<close>

lemma bytesEqual_iff [simp]: "bytesEqual a b \<longleftrightarrow> a = b"
  by (auto simp: bytesEqual_def list_all_length intro!: nth_equalityI)

lemma digest_plain: "digest_pattern s \<Longrightarrow> well_formed s"
proof (rule well_formed_plain)
  assume d: "digest_pattern s"
  have "\<not> is_high_surrogate c \<and> \<not> is_low_surrogate c" if "is_lower_hex c" for c
    using that by (auto simp: is_lower_hex_def is_digit_def is_high_surrogate_def is_low_surrogate_def)
  then have b: "list_all (\<lambda>c. \<not> is_high_surrogate c \<and> \<not> is_low_surrogate c) (drop 7 s)"
    using d unfolding digest_pattern_def list_all_iff by blast
  have "list_all (\<lambda>c. \<not> is_high_surrogate c \<and> \<not> is_low_surrogate c) (take 7 s)"
    using d unfolding digest_pattern_def by (simp add: u_def list_all_iff)
  then have "list_all (\<lambda>c. \<not> is_high_surrogate c \<and> \<not> is_low_surrogate c) (take 7 s @ drop 7 s)"
    using b by (simp del: append_take_drop_id)
  then show "list_all (\<lambda>c. \<not> is_high_surrogate c \<and> \<not> is_low_surrogate c) s" by simp
qed

lemma parse_descriptor_value:
  "parseObjectDescriptor (descriptor_value d) = Inr e \<longleftrightarrow> e = d \<and> digest_pattern (desc_digest d)"
proof -
  have "well_formed (object_kind_name k)" "well_formed (expectedSchema k)" for k by (cases k; simp add: schema_defs)+
  then show ?thesis using digest_plain [of "desc_digest d"]
    by (auto simp: parseObjectDescriptor_def descriptor_value_def closed_value parse_digest_def)
qed

lemma descriptor_eq:
  "desc_kind a = desc_kind d \<and> desc_digest a = desc_digest d \<and> P \<longleftrightarrow> a = (d :: object_descriptor) \<and> P"
  by (cases a; cases d) auto

lemma resolve_ok:
  "resolveProtocolObject get d = Inr ob \<longleftrightarrow> digest_pattern (desc_digest d) \<and> (\<exists>bytes. get d = Inr (Some bytes)
     \<and> digestCanonicalProtocolBytes (desc_kind d) (expectedSchema (desc_kind d)) bytes = Inr (desc_digest d)
     \<and> parseProtocolBytes (Inr bytes) = Inr ob \<and> describeProtocolObject ob = Inr d
     \<and> canonicalProtocolObjectBytes ob = Inr bytes)"
  unfolding resolveProtocolObject_def bind_result_ok throwing_ok parse_descriptor_value require_ok bytesEqual_iff split_option_ex
  by (simp add: descriptor_eq)

theorem resolve_sound:
  assumes "resolveProtocolObject get d = Inr ob"
  shows "valid_object ob" "describeProtocolObject ob = Inr d" "digest_pattern (desc_digest d)"
    "\<exists>bytes. get d = Inr (Some bytes) \<and> canonicalProtocolObjectBytes ob = Inr bytes"
proof -
  from assms obtain bytes where r: "digest_pattern (desc_digest d)" "get d = Inr (Some bytes)"
    "parseProtocolBytes (Inr bytes) = Inr ob" "describeProtocolObject ob = Inr d" "canonicalProtocolObjectBytes ob = Inr bytes"
    unfolding resolve_ok by blast
  then show "\<exists>bytes. get d = Inr (Some bytes) \<and> canonicalProtocolObjectBytes ob = Inr bytes"
    "digest_pattern (desc_digest d)" "describeProtocolObject ob = Inr d" by simp_all
  from r(3) obtain v where v: "parseProtocolJson (Inr bytes) = Inr v" "parseProtocolObject v = Inr ob"
    by (auto simp: parseProtocolBytes_def)
  show "valid_object ob" by (rule parsed_valid(1) [OF parseProtocolJson_domain [OF v(1)] v(2)])
qed

lemma object_kind_abs: "abs_val (object_value x) = abs_val (object_value y) \<Longrightarrow> object_kind_of x = object_kind_of y" (is "_ \<Longrightarrow> ?k")
proof -
  have m: "\<exists>m. object_value z = YMap m \<and> map_of m (u ''schema'') = Some (YStr (schema_of z))" for z
    by (cases z) (simp_all add: state_value_def effect_value_def statement_value_def commit_value_def)
  assume a: "abs_val (object_value x) = abs_val (object_value y)"
  obtain mx my where xy: "object_value x = YMap mx" "map_of mx (u ''schema'') = Some (YStr (schema_of x))"
    "object_value y = YMap my" "map_of my (u ''schema'') = Some (YStr (schema_of y))" using m [of x] m [of y] by blast
  have "abs_obj mx = abs_obj my" using a by (simp add: xy(1,3))
  then have "map_option abs_val (map_of mx (u ''schema'')) = map_option abs_val (map_of my (u ''schema''))"
    unfolding abs_obj_eq_iff by blast
  then have "kindForSchema (schema_of x) = kindForSchema (schema_of y)" by (simp add: xy(2,4))
  then show ?k by simp
qed

text \<open>An object that is held under its descriptor is resolved, with its keys in canonical order.\<close>

theorem resolve_complete:
  assumes "valid_object ob" "describeProtocolObject ob = Inr d" "canonicalProtocolObjectBytes ob = Inr bytes"
    and "get d = Inr (Some bytes)"
  shows "\<exists>ob'. resolveProtocolObject get d = Inr ob' \<and> abs_val (object_value ob') = abs_val (object_value ob)"
proof -
  let ?v = "object_value ob"
  have v: "protocol_value ?v" "parseProtocolObject ?v = Inr ob" using assms(1) by (simp_all add: valid_object_def)
  have bytes: "canonicalProtocolBytes ?v = Inr bytes" using assms(3) v by (simp add: canonicalProtocolObjectBytes_def)
  have json: "parseProtocolJson (Inr bytes) = Inr (sort_keys ?v)" by (rule bytes_roundtrip [OF v(1) bytes])
  have "same ?v (sort_keys ?v)" using v(1) sort_keys_abs [of ?v] by (simp add: same_def protocol_value_def)
  from agree_object [OF this] obtain ob' where ob': "parseProtocolObject (sort_keys ?v) = Inr ob'"
    unfolding v(2) by (cases "parseProtocolObject (sort_keys ?v)") simp_all
  note valid = parsed_valid [OF parseProtocolJson_domain [OF json] ob']
  have abs: "abs_val (object_value ob') = abs_val ?v"
    using valid(2) sort_keys_abs [of ?v] v(1) by (simp add: protocol_value_def)
  have text': "canonical_text (object_value ob') = canonical_text ?v"
    using valid(1) v(1) abs by (intro canonical_text.cong) (simp_all add: valid_object_def protocol_value_def)
  have kind: "object_kind_of ob' = object_kind_of ob" by (rule object_kind_abs [OF abs])
  have pre: "preimage ob' = preimage ob" by (simp add: preimage_def text' kind)
  have d: "d = descriptor_of ob" using assms(2) valid_describe [OF assms(1)] by simp
  have bs: "bytes = utf8_encode (canonical_text ?v)" using assms(3) valid_bytes [OF assms(1)] by simp
  have "digestCanonicalProtocolBytes (desc_kind d) (expectedSchema (desc_kind d)) bytes = Inr (desc_digest d)"
    unfolding d bs by (simp add: digestCanonicalProtocolBytes_def descriptor_of_def preimage_def PROTOCOL_HASH_ALGORITHM_def
        require_def u_def)
  moreover have "describeProtocolObject ob' = Inr d" using valid_describe [OF valid(1)] by (simp add: d descriptor_of_def pre kind)
  moreover have "canonicalProtocolObjectBytes ob' = Inr bytes" using valid_bytes [OF valid(1)] by (simp add: bs text')
  ultimately have "resolveProtocolObject get d = Inr ob'"
    using descriptor_of_digest [of ob] assms(4) json ob' unfolding resolve_ok d by (simp add: parseProtocolBytes_def)
  with abs show ?thesis by blast
qed

section \<open>Content stores\<close>

text \<open>
  What every store of objects promises: what is put is got under its descriptor, as its canonical bytes,
  and what is held under another descriptor stays.
\<close>

locale content_store =
  fixes get :: "'s \<Rightarrow> resolver"
    and put :: "'s \<Rightarrow> protocol_object \<Rightarrow> (object_descriptor \<times> 's) protocol"
  assumes put_describes: "put s ob = Inr (d, s') \<Longrightarrow> describeProtocolObject ob = Inr d"
    and put_got: "put s ob = Inr (d, s') \<Longrightarrow> \<exists>bytes. canonicalProtocolObjectBytes ob = Inr bytes \<and> get s' d = Inr (Some bytes)"
    and put_stays: "put s ob = Inr (d, s') \<Longrightarrow> d' \<noteq> d \<Longrightarrow> get s' d' = get s d'"
    and put_accepts: "valid_object ob \<Longrightarrow> \<exists>d s'. put s ob = Inr (d, s')"
begin

lemma put_resolve:
  assumes "valid_object ob" "put s ob = Inr (d, s')"
  shows "\<exists>ob'. resolveProtocolObject (get s') d = Inr ob' \<and> abs_val (object_value ob') = abs_val (object_value ob)"
proof -
  obtain bytes where "canonicalProtocolObjectBytes ob = Inr bytes" "get s' d = Inr (Some bytes)"
    using put_got [OF assms(2)] by blast
  then show ?thesis using resolve_complete [OF assms(1) put_describes [OF assms(2)]] by blast
qed

lemma resolve_cong: "g d = g' d \<Longrightarrow> resolveProtocolObject g d = Inr ob \<longleftrightarrow> resolveProtocolObject g' d = Inr ob"
  by (simp add: resolve_ok)

lemma put_keeps:
  assumes "resolveProtocolObject (get s) e = Inr x" "valid_object ob" "put s ob = Inr (d, s')"
  shows "\<exists>y. resolveProtocolObject (get s') e = Inr y \<and> describeProtocolObject y = describeProtocolObject x"
proof (cases "e = d")
  case True
  then obtain y where "resolveProtocolObject (get s') e = Inr y" using put_resolve [OF assms(2,3)] by blast
  then show ?thesis using resolve_sound(2) assms(1) by metis
next
  case False
  then show ?thesis using put_stays [OF assms(3) False] resolve_cong [of "get s'" e "get s"] assms(1) by blast
qed

end

lemma descriptorKey_inj: "descriptorKey a = descriptorKey b \<Longrightarrow> a = b"
proof -
  assume k: "descriptorKey a = descriptorKey b"
  have "object_kind_name i @ 0 # x = object_kind_name j @ 0 # y \<Longrightarrow> i = j" for i j x y
    by (cases i; cases j) (auto simp: u_Cons cu_0)
  then have "desc_kind a = desc_kind b" using k by (auto simp: descriptorKey_def)
  with k show "a = b" by (simp add: descriptorKey_def)
qed

interpretation in_memory: content_store memory_get memory_put
proof
  fix s ob d s'
  assume p: "memory_put s ob = Inr (d, s')"
  show "describeProtocolObject ob = Inr d" using p by (auto simp: memory_put_def)
  show "\<exists>bytes. canonicalProtocolObjectBytes ob = Inr bytes \<and> memory_get s' d = Inr (Some bytes)"
    using p by (auto simp: memory_put_def memory_get_def)
  show "memory_get s' d' = memory_get s d'" if "d' \<noteq> d" for d'
    using p that descriptorKey_inj by (auto simp: memory_put_def memory_get_def)
next
  show "\<exists>d s'. memory_put s ob = Inr (d, s')" if "valid_object ob" for s ob
    by (simp add: memory_put_def valid_describe [OF that] valid_bytes [OF that])
qed

section \<open>Content identity\<close>

text \<open>What two resolvers return for one descriptor is the same object, or a collision of SHA-256.\<close>

theorem resolve_identity:
  assumes "resolveProtocolObject g d = Inr x" "resolveProtocolObject g' d = Inr y"
  shows "abs_val (object_value x) = abs_val (object_value y) \<or>
    preimage x \<noteq> preimage y \<and> sha256_hex (preimage x) = sha256_hex (preimage y)"
proof -
  note v = resolve_sound(1) [OF assms(1)] resolve_sound(1) [OF assms(2)]
  have "describeProtocolObject x = describeProtocolObject y"
    using resolve_sound(2) [OF assms(1)] resolve_sound(2) [OF assms(2)] by simp
  then show ?thesis using valid_same_describe [OF v] preimage_eq [OF v] by blast
qed

end
