(* ===== verification/Replay.thy ===== *)
theory Replay
  imports Resolver "HOL-Library.AList"
begin

text \<open>
  packages/transition/src/ports.ts and replay.ts: the registries of codecs and mutation drivers, and the
  verification of an effect by running it again. Codecs and drivers are given by the host: a driver's
  \<open>execute\<close> is a function that returns a value or throws. The result is not trusted; it is parsed. A
  JavaScript \<open>Map\<close> that is measured or filled is an association list, one that is only read a map.
\<close>

section \<open>Registries\<close>

type_synonym resolved_inputs = "(jstring \<times> protocol_object) list"

text \<open>\<open>'i\<close> is the host's type of decoded values.\<close>

record 'i state_codec =
  sc_ref :: state_codec_ref
  sc_normalize :: "'i \<Rightarrow> thrown + yvalue"
  sc_decode :: "yvalue \<Rightarrow> thrown + 'i"

record mutation_driver =
  md_ref :: mutation_driver_ref
  md_execute :: "state_object \<Rightarrow> effect_definition \<Rightarrow> resolved_inputs \<Rightarrow> thrown + yvalue"

type_synonym driver_registry = "jstring \<rightharpoonup> mutation_driver"

definition stateCodecKey :: "state_codec_ref \<Rightarrow> jstring" where
  "stateCodecKey r = codec_media_type r @ [0] @ codec_version r"

definition mutationDriverKey :: "mutation_driver_ref \<Rightarrow> jstring" where
  "mutationDriverKey r = drv_protocol r @ [0] @ drv_version r @ [0] @ drv_digest r"

definition resolveStateCodec :: "(jstring \<rightharpoonup> 'i state_codec) \<Rightarrow> state_codec_ref \<Rightarrow> 'i state_codec protocol" where
  "resolveStateCodec registry r = (case registry (stateCodecKey r) of
       None \<Rightarrow> Inl UNSUPPORTED_MEDIA_TYPE
     | Some codec \<Rightarrow> if stateCodecKey (sc_ref codec) \<noteq> stateCodecKey r then Inl INTEGRITY_CHAIN_INVALID else Inr codec)"

definition resolveMutationDriver :: "driver_registry \<Rightarrow> mutation_driver_ref \<Rightarrow> mutation_driver protocol" where
  "resolveMutationDriver registry r = (case registry (mutationDriverKey r) of
       None \<Rightarrow> Inl UNSUPPORTED_SEMANTICS
     | Some driver \<Rightarrow> if mutationDriverKey (md_ref driver) \<noteq> mutationDriverKey r then Inl INTEGRITY_CHAIN_INVALID else Inr driver)"

section \<open>Replay\<close>

text \<open>The definition of an effect, as a fresh value without base and result.\<close>

definition definitionOf :: "effect_object \<Rightarrow> yvalue protocol" where
  "definitionOf effect = bind_result (parseEffect (effect_value effect)) (\<lambda>parsed. Inr (definition_value (ef_definition parsed)))"

text \<open>\<open>Object.hasOwn\<close> of a protocol value; it throws on null, and a primitive has none of the fields.\<close>

definition carries_forbidden :: "yvalue \<Rightarrow> bool" where
  "carries_forbidden v = (case v of YMap m \<Rightarrow> list_ex (\<lambda>k. has_own m (u k)) [''schema'', ''base'', ''result''] | _ \<Rightarrow> False)"

fun check_inputs :: "resolved_inputs \<Rightarrow> effect_input list \<Rightarrow> thrown + unit" where
  "check_inputs inputs [] = Inr ()"
| "check_inputs inputs (i # is) =
     (case map_of inputs (in_role i) of
        None \<Rightarrow> Inl (TransitionProtocolError INTEGRITY_CHAIN_INVALID)
      | Some resolved \<Rightarrow>
          bind_result (throwing (describeProtocolObject resolved)) (\<lambda>d.
          bind_result (check_that (d = in_object i) INTEGRITY_CHAIN_INVALID) (\<lambda>_. check_inputs inputs is)))"

definition replay :: "state_object \<Rightarrow> yvalue \<Rightarrow> resolved_inputs \<Rightarrow> driver_registry \<Rightarrow> thrown + state_object" where
  "replay base defn inputs drivers =
     bind_result (require (defn \<noteq> YNull) OtherError) (\<lambda>_.
     bind_result (check_that (\<not> carries_forbidden defn) INTEGRITY_CHAIN_INVALID) (\<lambda>_.
     bind_result (throwing (parseEffectDefinition defn)) (\<lambda>parsed.
     bind_result (check_that (length inputs = length (ed_inputs parsed)) INTEGRITY_CHAIN_INVALID) (\<lambda>_.
     bind_result (check_inputs inputs (ed_inputs parsed)) (\<lambda>_.
     bind_result (throwing (resolveMutationDriver drivers (ed_driver parsed))) (\<lambda>driver.
     bind_result (throwing (parseState (state_value base))) (\<lambda>b.
     bind_result (md_execute driver b parsed inputs) (\<lambda>r. throwing (parseState r)))))))))"

section \<open>Verification of effects\<close>

record verified_effect =
  ve_effect :: effect_object
  ve_result :: state_object
  ve_descriptor :: object_descriptor

definition expectState :: "protocol_object \<Rightarrow> thrown + state_object" where
  "expectState ob =
     bind_result (check_that (schema_of ob = STATE_SCHEMA) INTEGRITY_CHAIN_INVALID) (\<lambda>_.
       throwing (parseState (object_value ob)))"

text \<open>The loop that resolves the inputs into a \<open>Map\<close>.\<close>

fun resolve_inputs :: "resolver \<Rightarrow> resolved_inputs \<Rightarrow> effect_input list \<Rightarrow> thrown + resolved_inputs" where
  "resolve_inputs get inputs [] = Inr inputs"
| "resolve_inputs get inputs (i # is) =
     bind_result (resolveProtocolObject get (in_object i)) (\<lambda>ob. resolve_inputs get (AList.update (in_role i) ob inputs) is)"

definition failed_claim :: "thrown + 'a \<Rightarrow> thrown + 'a" where
  "failed_claim r = (if r = Inl ReplayPreconditionFailedError then Inl (TransitionProtocolError EFFECT_CLAIM_FALSE) else r)"

definition verifyEffect :: "effect_object \<Rightarrow> resolver \<Rightarrow> driver_registry \<Rightarrow> thrown + verified_effect" where
  "verifyEffect effect get drivers =
     bind_result (throwing (parseEffect (effect_value effect))) (\<lambda>parsed.
     bind_result (resolveProtocolObject get (ef_base parsed)) (\<lambda>baseObject.
     bind_result (expectState baseObject) (\<lambda>base.
     bind_result (resolve_inputs get [] (ed_inputs (ef_definition parsed))) (\<lambda>inputs.
     bind_result (failed_claim (bind_result (throwing (definitionOf parsed)) (\<lambda>d. replay base d inputs drivers))) (\<lambda>result.
     bind_result (throwing (describeProtocolObject (PState result))) (\<lambda>rd.
     bind_result (check_that (rd = ef_result parsed) EFFECT_CLAIM_FALSE) (\<lambda>_.
       Inr \<lparr>ve_effect = parsed, ve_result = result, ve_descriptor = rd\<rparr>)))))))"

section \<open>Registries find what was asked for\<close>

lemma identifier_zero: "identifier_pattern s \<Longrightarrow> 0 \<notin> set s"
proof -
  have "\<not> is_letter 0" "\<not> is_digit 0" "0 \<notin> set (u ''._:/-'')" by (simp_all add: is_letter_def is_digit_def u_Cons eq_commute [of 0] cu_0)
  then show "identifier_pattern s \<Longrightarrow> 0 \<notin> set s"
    unfolding identifier_pattern_def list_all_iff by (cases s) auto
qed

lemma digest_zero: "digest_pattern s \<Longrightarrow> 0 \<notin> set s"
proof
  assume d: "digest_pattern s" and "0 \<in> set s"
  then have "0 \<in> set (take 7 s) \<or> 0 \<in> set (drop 7 s)" by (metis append_take_drop_id Un_iff set_append)
  then show False using d unfolding digest_pattern_def list_all_iff
    by (auto simp: u_Cons eq_commute [of 0] cu_0 is_lower_hex_def is_digit_def)
qed

lemma zero_split: "0 \<notin> set a \<Longrightarrow> 0 \<notin> set b \<Longrightarrow> a @ 0 # x = b @ 0 # y \<longleftrightarrow> a = b \<and> x = (y :: jstring)"
proof (induction a arbitrary: b)
  case Nil
  then show ?case by (cases b) auto
next
  case (Cons c a)
  then show ?case by (cases b) auto
qed

lemma count_zeros: "0 \<notin> set s \<longleftrightarrow> count_list s (0 :: code_unit) = 0"
  by (simp add: count_list_0_iff)

lemma mutationDriverKey_inj:
  assumes "mutationDriverKey a = mutationDriverKey b"
    and "0 \<notin> set (drv_protocol b)" "0 \<notin> set (drv_version b)" "0 \<notin> set (drv_digest b)"
  shows "a = b"
proof -
  have "count_list (mutationDriverKey a) 0 = count_list (mutationDriverKey b) 0" by (simp add: assms(1))
  then have "0 \<notin> set (drv_protocol a)" "0 \<notin> set (drv_version a)" "0 \<notin> set (drv_digest a)"
    using assms(2-4) unfolding count_zeros by (simp_all add: mutationDriverKey_def)
  then have "drv_protocol a = drv_protocol b \<and> drv_version a = drv_version b \<and> drv_digest a = drv_digest b"
    using assms by (simp add: mutationDriverKey_def zero_split)
  then show ?thesis by simp
qed

lemma mutationDriverRef_fields:
  "mutationDriverRef v = Inr r \<Longrightarrow> 0 \<notin> set (drv_protocol r) \<and> 0 \<notin> set (drv_version r) \<and> 0 \<notin> set (drv_digest r)"
  by (auto simp: mutationDriverRef_def parse_identifier_def parse_digest_def dest: identifier_zero digest_zero)

lemma resolveMutationDriver_ok:
  "mutationDriverRef v = Inr r \<Longrightarrow> resolveMutationDriver drivers r = Inr driver \<Longrightarrow>
     drivers (mutationDriverKey r) = Some driver \<and> md_ref driver = r"
  using mutationDriverRef_fields mutationDriverKey_inj
  by (auto simp: resolveMutationDriver_def split: option.splits if_splits)

section \<open>What verification guarantees\<close>

lemma check_inputs_ok:
  "check_inputs inputs is = Inr x \<longleftrightarrow>
     (\<forall>i \<in> set is. \<exists>ob. map_of inputs (in_role i) = Some ob \<and> describeProtocolObject ob = Inr (in_object i))"
  by (induction "is") (auto split: option.splits)

lemma expectState_ok:
  assumes "valid_object ob"
  shows "expectState ob = Inr s \<longleftrightarrow> ob = PState s"
proof (cases ob)
  case (PState t)
  have "parseState (state_value t) = Inr t"
    using assms by (auto simp: valid_object_def PState parseProtocolObject_def state_value_def closedRecord_def)
  then show ?thesis by (auto simp: PState expectState_def require_def)
qed (simp_all add: expectState_def require_def schema_defs)

lemma failed_claim_ok [simp]: "failed_claim r = Inr x \<longleftrightarrow> r = Inr x"
  by (simp add: failed_claim_def)

lemma resolve_inputs_ok:
  "resolve_inputs get inputs is = Inr out \<Longrightarrow> distinct (map in_role is) \<Longrightarrow>
     (\<forall>i \<in> set is. \<exists>ob. map_of out (in_role i) = Some ob \<and> resolveProtocolObject get (in_object i) = Inr ob)
     \<and> (\<forall>k. k \<notin> set (map in_role is) \<longrightarrow> map_of out k = map_of inputs k)"
proof (induction "is" arbitrary: inputs)
  case (Cons i "is")
  from Cons.prems(1) obtain ob where ob: "resolveProtocolObject get (in_object i) = Inr ob"
    "resolve_inputs get (AList.update (in_role i) ob inputs) is = Inr out" by auto
  note ih = Cons.IH [OF ob(2)]
  have "map_of out (in_role i) = Some ob" using ih Cons.prems(2) by (simp add: update_conv')
  then show ?case using ih ob(1) Cons.prems(2) by (auto simp: update_conv')
qed simp

lemma units_less_trans: "compareUnits x y < 0 \<Longrightarrow> compareUnits y z < 0 \<Longrightarrow> compareUnits x z < 0"
proof -
  assume a: "compareUnits x y < 0" "compareUnits y z < 0"
  then have "compareUnits x z \<noteq> 0" using unit_order.flip [of x y] by auto
  with a show "compareUnits x z < 0" using unit_order.trans [of x y z] by linarith
qed

lemma parse_inputs_sorted:
  "parse_inputs p vs = Inr is \<Longrightarrow> sorted_wrt (\<lambda>i j. compareUnits (in_role i) (in_role j) < 0) is
     \<and> (case p of None \<Rightarrow> True | Some q \<Rightarrow> \<forall>i \<in> set is. compareUnits q (in_role i) < 0)"
proof (induction vs arbitrary: p "is")
  case (Cons v vs)
  then obtain role ob rest where r: "is = \<lparr>in_role = role, in_object = ob\<rparr> # rest" "parse_inputs (Some role) vs = Inr rest"
    "case p of None \<Rightarrow> True | Some q \<Rightarrow> \<not> compareUnits q role \<ge> 0" by auto
  have "sorted_wrt (\<lambda>i j. compareUnits (in_role i) (in_role j) < 0) rest \<and> (\<forall>i \<in> set rest. compareUnits role (in_role i) < 0)"
    using Cons.IH [OF r(2)] by simp
  then show ?case using r(3) unfolding r(1)
    by (cases p) (auto simp: not_le intro: units_less_trans)
qed (simp split: option.split)

lemma sorted_wrt_distinct: "sorted_wrt (\<lambda>x y. x \<noteq> y) xs \<Longrightarrow> distinct xs"
  by (induction xs) auto

lemma definition_roles: "parseEffectDefinition v = Inr d \<Longrightarrow> distinct (map in_role (ed_inputs d))"
proof (erule definition_ok)
  fix i
  assume "bind_result (arrayValue i) (parse_inputs None) = Inr (ed_inputs d)"
  then have "sorted_wrt (\<lambda>i j. compareUnits (in_role i) (in_role j) < 0) (ed_inputs d)"
    using parse_inputs_sorted by auto
  then have "sorted_wrt (\<lambda>x y. x \<noteq> y) (map in_role (ed_inputs d))"
    unfolding sorted_wrt_map by (rule sorted_wrt_mono_rel [rotated]) (auto simp: unit_order.refl)
  then show ?thesis by (rule sorted_wrt_distinct)
qed

text \<open>An effect parses when its base, its definition and its claimed result do.\<close>

lemma descriptorOfKind_unicode: "descriptorOfKind k v = Inr d \<Longrightarrow> unicode_ok v"
  by (auto simp: descriptorOfKind_def parseObjectDescriptor_def)

lemma effect_value_parses:
  "parseEffect (effect_value e) = Inr x \<longleftrightarrow> descriptorOfKind KState (descriptor_value (ef_base e)) = Inr (ef_base x)
     \<and> parseEffectDefinition (definition_value (ef_definition e)) = Inr (ef_definition x)
     \<and> descriptorOfKind KState (descriptor_value (ef_result e)) = Inr (ef_result x)"
proof
  assume "parseEffect (effect_value e) = Inr x"
  then show "descriptorOfKind KState (descriptor_value (ef_base e)) = Inr (ef_base x)
     \<and> parseEffectDefinition (definition_value (ef_definition e)) = Inr (ef_definition x)
     \<and> descriptorOfKind KState (descriptor_value (ef_result e)) = Inr (ef_result x)"
    by (auto simp: parseEffect_def effect_value_def closed_value definition_value_def)
next
  assume a: "descriptorOfKind KState (descriptor_value (ef_base e)) = Inr (ef_base x)
     \<and> parseEffectDefinition (definition_value (ef_definition e)) = Inr (ef_definition x)
     \<and> descriptorOfKind KState (descriptor_value (ef_result e)) = Inr (ef_result x)"
  then have "unicode_ok (descriptor_value (ef_base e))" "unicode_ok (descriptor_value (ef_result e))"
    using descriptorOfKind_unicode by blast+
  moreover have "unicode_ok (definition_value (ef_definition e))" using a by (auto simp: parseEffectDefinition_def)
  ultimately have "unicode_ok (effect_value e)" by (simp add: effect_value_def definition_value_def schema_defs)
  then show "parseEffect (effect_value e) = Inr x"
    using a by (simp add: parseEffect_def effect_value_def closed_value definition_value_def)
qed

text \<open>The driver that a replay runs, and what it runs on.\<close>

lemma replay_ok:
  "replay base defn inputs drivers = Inr result \<longleftrightarrow> defn \<noteq> YNull \<and> \<not> carries_forbidden defn
     \<and> (\<exists>parsed driver b r. parseEffectDefinition defn = Inr parsed \<and> length inputs = length (ed_inputs parsed)
        \<and> (\<forall>i \<in> set (ed_inputs parsed). \<exists>ob. map_of inputs (in_role i) = Some ob \<and> describeProtocolObject ob = Inr (in_object i))
        \<and> resolveMutationDriver drivers (ed_driver parsed) = Inr driver \<and> parseState (state_value base) = Inr b
        \<and> md_execute driver b parsed inputs = Inr r \<and> parseState r = Inr result)"
  unfolding replay_def bind_result_ok throwing_ok require_ok check_inputs_ok by auto

text \<open>A verified effect: the driver named by the effect turns the base into the claimed result.\<close>

theorem verifyEffect_sound:
  assumes "verifyEffect effect get drivers = Inr ve" "wf_yvalue (effect_value effect)"
  shows "\<exists>base driver inputs r. 
      parseEffect (effect_value effect) = Inr (ve_effect ve)
    \<and> resolveProtocolObject get (ef_base (ve_effect ve)) = Inr (PState base)
    \<and> (\<forall>i \<in> set (ed_inputs (ef_definition (ve_effect ve))). \<exists>ob. map_of inputs (in_role i) = Some ob
          \<and> resolveProtocolObject get (in_object i) = Inr ob)
    \<and> drivers (mutationDriverKey (ed_driver (ef_definition (ve_effect ve)))) = Some driver
    \<and> md_ref driver = ed_driver (ef_definition (ve_effect ve))
    \<and> md_execute driver base (ef_definition (ve_effect ve)) inputs = Inr r \<and> parseState r = Inr (ve_result ve)
    \<and> describeProtocolObject (PState (ve_result ve)) = Inr (ef_result (ve_effect ve))"
proof -
  let ?e = "ve_effect ve" let ?def = "ef_definition (ve_effect ve)"
  from assms(1) obtain bo base inputs d where v: "parseEffect (effect_value effect) = Inr ?e"
    "resolveProtocolObject get (ef_base ?e) = Inr bo" "expectState bo = Inr base"
    "resolve_inputs get [] (ed_inputs ?def) = Inr inputs" "definitionOf ?e = Inr d"
    "replay base d inputs drivers = Inr (ve_result ve)" "describeProtocolObject (PState (ve_result ve)) = Inr (ef_result ?e)"
    unfolding verifyEffect_def bind_result_ok throwing_ok require_ok failed_claim_ok by auto
  have again: "parseEffect (effect_value ?e) = Inr ?e" by (rule effect.again [OF assms(2) v(1)])
  have wf: "wf_yvalue (effect_value ?e)" by (rule effect.denote_wf [OF assms(2) v(1)])
  have d: "d = definition_value ?def" using v(5) again by (simp add: definitionOf_def)
  have base: "bo = PState base" using expectState_ok [OF resolve_sound(1) [OF v(2)]] v(3) by blast
  have b: "parseState (state_value base) = Inr base"
    using expectState_ok [OF resolve_sound(1) [OF v(2)], of base] v(3) by (simp add: expectState_def base)
  have pd: "parseEffectDefinition (definition_value ?def) = Inr ?def"
    using again effect_value_parses by blast
  from v(6) obtain driver r where r: "resolveMutationDriver drivers (ed_driver ?def) = Inr driver"
    "md_execute driver base ?def inputs = Inr r" "parseState r = Inr (ve_result ve)"
    unfolding replay_ok d pd b by auto
  obtain dv where "mutationDriverRef dv = Inr (ed_driver ?def)" using pd by (rule definition_ok) blast
  note driver = resolveMutationDriver_ok [OF this r(1)]
  have "\<forall>i \<in> set (ed_inputs ?def). \<exists>ob. map_of inputs (in_role i) = Some ob \<and> resolveProtocolObject get (in_object i) = Inr ob"
    using resolve_inputs_ok [OF v(4) definition_roles [OF pd]] by blast
  with v(1,2,7) base driver r(2,3) show ?thesis by blast
qed

lemma state_descriptor_parses:
  "descriptorOfKind k (descriptor_value d) = Inr e \<longleftrightarrow> e = d \<and> desc_kind d = k \<and> digest_pattern (desc_digest d)"
  by (auto simp: descriptorOfKind_def parse_descriptor_value)

text \<open>The claimed result has no part in the replay: with any other claim the same effect is false.\<close>

theorem verifyEffect_one_claim:
  assumes "verifyEffect effect get drivers = Inr ve"
    and "desc_kind r = KState" "digest_pattern (desc_digest r)" "r \<noteq> ef_result (ve_effect ve)"
  shows "verifyEffect (effect\<lparr>ef_result := r\<rparr>) get drivers = Inl (TransitionProtocolError EFFECT_CLAIM_FALSE)"
proof -
  let ?e = "ve_effect ve"
  from assms(1) obtain bo base inputs d where v: "parseEffect (effect_value effect) = Inr ?e"
    "resolveProtocolObject get (ef_base ?e) = Inr bo" "expectState bo = Inr base"
    "resolve_inputs get [] (ed_inputs (ef_definition ?e)) = Inr inputs" "definitionOf ?e = Inr d"
    "replay base d inputs drivers = Inr (ve_result ve)" "describeProtocolObject (PState (ve_result ve)) = Inr (ef_result ?e)"
    unfolding verifyEffect_def bind_result_ok throwing_ok require_ok failed_claim_ok by auto
  have other: "parseEffect (effect_value (x\<lparr>ef_result := r\<rparr>)) = Inr (y\<lparr>ef_result := r\<rparr>)"
    if "parseEffect (effect_value x) = Inr y" for x y
    using that assms(2,3) by (simp add: effect_value_parses state_descriptor_parses)
  have "definitionOf (?e\<lparr>ef_result := r\<rparr>) = Inr d"
    using v(5) other [of ?e] by (auto simp: definitionOf_def)
  then show ?thesis
    using v(2-4,6,7) assms(4) other [OF v(1)]
    by (simp add: verifyEffect_def throwing_def failed_claim_def require_def)
qed

text \<open>A precondition that fails in the replay makes the claim false; no driver's signal escapes.\<close>

definition quiet :: "thrown + 'a \<Rightarrow> bool" where
  "quiet r \<longleftrightarrow> r \<noteq> Inl ReplayPreconditionFailedError"

lemma quiet_bind: "quiet r \<Longrightarrow> (\<And>y. quiet (f y)) \<Longrightarrow> quiet (bind_result r f)"
  by (cases r) (simp_all add: quiet_def)

lemma quiet_base: "quiet (Inr x)" "quiet (Inl (TransitionProtocolError e))" "quiet (throwing p)" "quiet (check_that b e)"
    "quiet (failed_claim s)"
  by (simp_all add: quiet_def throwing_error require_error failed_claim_def)

lemma quiet_option: "quiet t \<Longrightarrow> (\<And>y. quiet (g y)) \<Longrightarrow> quiet (case o' of None \<Rightarrow> t | Some y \<Rightarrow> g y)"
  by (cases o') simp_all

lemmas quiet_rules = quiet_bind quiet_base quiet_option

theorem verifyEffect_signal:
  assumes "\<And>d. get d \<noteq> Inl ReplayPreconditionFailedError"
  shows "verifyEffect effect get drivers \<noteq> Inl ReplayPreconditionFailedError"
proof -
  have get: "quiet (get d)" for d using assms by (simp add: quiet_def)
  have resolve: "quiet (resolveProtocolObject get d)" for d
    unfolding resolveProtocolObject_def by (rule quiet_rules get)+
  have inputs: "quiet (resolve_inputs get acc is)" for acc "is"
    by (induction "is" arbitrary: acc) (simp_all add: quiet_rules resolve)
  have "quiet (verifyEffect effect get drivers)"
    unfolding verifyEffect_def expectState_def by (rule quiet_rules resolve inputs)+
  then show ?thesis by (simp add: quiet_def)
qed

section \<open>What the registry of codecs does not check\<close>

text \<open>
  A media type may contain the separator of the keys. Then a codec of another media type and another
  version has the key of the reference, and the check of its semantics accepts it.
\<close>

lemma stateCodecKey_ambiguous:
  "\<exists>r c. stateCodecRef (codec_value r) = Inr r \<and> sc_ref c \<noteq> r
    \<and> resolveStateCodec [stateCodecKey (sc_ref c) \<mapsto> c] r = Inr (c :: 'i state_codec)"
proof -
  let ?r = "\<lparr>codec_media_type = u ''a'' @ [0] @ u ''b'', codec_version = u ''1''\<rparr>"
  let ?c = "\<lparr>sc_ref = \<lparr>codec_media_type = u ''a'', codec_version = u ''b'' @ [0] @ u ''1''\<rparr>,
    sc_normalize = \<lambda>_. Inr YNull, sc_decode = \<lambda>_. Inl OtherError\<rparr> :: 'i state_codec"
  have "stateCodecRef (codec_value ?r) = Inr ?r"
    by (simp add: stateCodecRef_def codec_value_def closed_value parse_identifier_def identifier_pattern_def u_Cons
        plain_small is_digit_cu)
  moreover have "sc_ref ?c \<noteq> ?r" by (simp add: u_Cons)
  moreover have "resolveStateCodec [stateCodecKey (sc_ref ?c) \<mapsto> ?c] ?r = Inr ?c"
    by (simp add: resolveStateCodec_def stateCodecKey_def)
  ultimately show ?thesis by blast
qed

end
