(* ===== verification/Integrity.thy ===== *)
theory Integrity
  imports Replay
begin

text \<open>
  packages/transition/src/integrity.ts: a commit names a decision, the decision a proposal, the proposal
  an effect, and the effect its base, its inputs and its result. \<open>verifyCommitIntegrity\<close> follows the
  chain; \<open>chain\<close> says what it establishes.
\<close>

section \<open>Verification of commits\<close>

record verified_commit =
  vc_commit :: commit_object
  vc_decision :: statement_object
  vc_proposal :: statement_object
  vc_effect :: effect_object
  vc_parents :: "commit_object list"

definition isExplicitEmptyGenesis :: "yvalue \<Rightarrow> bool" where
  "isExplicitEmptyGenesis v \<longleftrightarrow> v = YMap []"

definition resolve_all :: "resolver \<Rightarrow> object_descriptor list \<Rightarrow> thrown + unit" where
  "resolve_all get ds = bind_result (traverse (resolveProtocolObject get) ds) (\<lambda>_. Inr ())"

definition verifyStatementSubjects :: "statement_object \<Rightarrow> resolver \<Rightarrow> thrown + unit" where
  "verifyStatementSubjects statement get =
     bind_result (throwing (parseStatement (statement_value statement))) (\<lambda>parsed. resolve_all get (sm_subjects parsed))"

text \<open>A statement of a core predicate type.\<close>

definition statement_of :: "jstring \<Rightarrow> protocol_object \<Rightarrow> bool" where
  "statement_of t ob = (case ob of PStatement s \<Rightarrow> predicate_type (sm_predicate s) = t | _ \<Rightarrow> False)"

text \<open>Resolving the first subject; \<open>undefined\<close> is outside the protocol domain.\<close>

definition resolve_first :: "resolver \<Rightarrow> object_descriptor list \<Rightarrow> thrown + protocol_object" where
  "resolve_first get ds = (case ds of
       [] \<Rightarrow> Inl (TransitionProtocolError NON_CANONICAL_VALUE) | d # _ \<Rightarrow> resolveProtocolObject get d)"

definition decision_of :: "statement_object \<Rightarrow> thrown + decision_predicate" where
  "decision_of s = (case sm_predicate s of Decision d \<Rightarrow> Inr d | _ \<Rightarrow> Inl OtherError)"

definition verify_considered :: "resolver \<Rightarrow> object_descriptor \<Rightarrow> thrown + unit" where
  "verify_considered get d =
     bind_result (resolveProtocolObject get d) (\<lambda>ob.
     bind_result (throwing (parseStatement (object_value ob))) (\<lambda>s. verifyStatementSubjects s get))"

definition resolve_parent :: "resolver \<Rightarrow> object_descriptor \<Rightarrow> thrown + commit_object" where
  "resolve_parent get d = bind_result (resolveProtocolObject get d) (\<lambda>ob. throwing (parseCommitV2 (object_value ob)))"

text \<open>The checks on the parents: an empty base without them, or each one's result used by the effect.\<close>

definition parents_fit :: "effect_object \<Rightarrow> state_object \<Rightarrow> commit_object list \<Rightarrow> bool" where
  "parents_fit effect base parents = (case parents of
       [] \<Rightarrow> isExplicitEmptyGenesis (st_value base)
     | firstParent # mergeParents \<Rightarrow> cm_result firstParent = ef_base effect
         \<and> list_all (\<lambda>p. list_ex (\<lambda>i. in_object i = cm_result p) (ed_inputs (ef_definition effect))) mergeParents)"

definition verifyCommitIntegrity :: "commit_object \<Rightarrow> resolver \<Rightarrow> thrown + verified_commit" where
  "verifyCommitIntegrity commit get =
     bind_result (throwing (parseCommitV2 (commit_value commit))) (\<lambda>c.
     bind_result (resolveProtocolObject get (cm_decision c)) (\<lambda>decisionObject.
     bind_result (check_that (statement_of DECISION_PREDICATE_TYPE decisionObject) INTEGRITY_CHAIN_INVALID) (\<lambda>_.
     bind_result (throwing (parseDecisionStatement (object_value decisionObject))) (\<lambda>decision.
     bind_result (decision_of decision) (\<lambda>dp.
     bind_result (check_that (dp_outcome dp \<noteq> Rejected) INTEGRITY_CHAIN_INVALID) (\<lambda>_.
     bind_result (resolve_first get (sm_subjects decision)) (\<lambda>proposalObject.
     bind_result (check_that (statement_of PROPOSAL_PREDICATE_TYPE proposalObject) INTEGRITY_CHAIN_INVALID) (\<lambda>_.
     bind_result (throwing (parseProposalStatement (object_value proposalObject))) (\<lambda>proposal.
     bind_result (resolve_first get (sm_subjects proposal)) (\<lambda>effectObject.
     bind_result (check_that (schema_of effectObject = EFFECT_SCHEMA) INTEGRITY_CHAIN_INVALID) (\<lambda>_.
     bind_result (throwing (parseEffect (object_value effectObject))) (\<lambda>effect.
     bind_result (check_that (cm_result c = ef_result effect) INTEGRITY_CHAIN_INVALID) (\<lambda>_.
     bind_result (resolveProtocolObject get (ef_base effect)) (\<lambda>baseObject.
     bind_result (throwing (parseState (object_value baseObject))) (\<lambda>base.
     bind_result (resolveProtocolObject get (cm_result c)) (\<lambda>_.
     bind_result (resolve_all get (map in_object (ed_inputs (ef_definition effect)))) (\<lambda>_.
     bind_result (traverse (verify_considered get) (dp_considered dp)) (\<lambda>_.
     bind_result (traverse (resolve_parent get) (cm_parents c)) (\<lambda>parents.
     bind_result (check_that (parents_fit effect base parents) INTEGRITY_CHAIN_INVALID) (\<lambda>_.
       Inr \<lparr>vc_commit = c, vc_decision = decision, vc_proposal = proposal, vc_effect = effect,
            vc_parents = parents\<rparr>))))))))))))))))))))"

section \<open>Resolved objects parse to themselves\<close>

lemma valid_parses:
  "valid_object (PState s) \<Longrightarrow> parseState (state_value s) = Inr s"
  "valid_object (PEffect e) \<Longrightarrow> parseEffect (effect_value e) = Inr e"
  "valid_object (PStatement t) \<Longrightarrow> parseStatement (statement_value t) = Inr t"
  "valid_object (PCommit c) \<Longrightarrow> parseCommitV2 (commit_value c) = Inr c"
  unfolding valid_object_def parseProtocolObject_def
  by (auto simp: state_value_def effect_value_def statement_value_def commit_value_def closedRecord_ok schema_defs u_Cons)

lemma valid_wf: "valid_object ob \<Longrightarrow> wf_yvalue (object_value ob)"
  by (simp add: valid_object_def protocol_value_def)

text \<open>An object is parsed as its own kind only.\<close>

lemma parse_kind:
  "parseState (object_value ob) = Inr s \<Longrightarrow> object_kind_of ob = KState"
  "parseEffect (object_value ob) = Inr e \<Longrightarrow> object_kind_of ob = KEffect"
  "parseStatement (object_value ob) = Inr t \<Longrightarrow> object_kind_of ob = KStatement"
  "parseCommitV2 (object_value ob) = Inr c \<Longrightarrow> object_kind_of ob = KCommit"
  by (cases ob; auto simp: parseState_def parseEffect_def parseStatement_def parseCommitV2_def closedRecord_ok
      state_value_def effect_value_def statement_value_def commit_value_def schema_defs)+

lemma resolved_parses:
  "resolveProtocolObject get d = Inr ob \<Longrightarrow> parseState (object_value ob) = Inr s \<longleftrightarrow> ob = PState s"
  "resolveProtocolObject get d = Inr ob \<Longrightarrow> parseEffect (object_value ob) = Inr e \<longleftrightarrow> ob = PEffect e"
  "resolveProtocolObject get d = Inr ob \<Longrightarrow> parseStatement (object_value ob) = Inr t \<longleftrightarrow> ob = PStatement t"
  "resolveProtocolObject get d = Inr ob \<Longrightarrow> parseCommitV2 (object_value ob) = Inr c \<longleftrightarrow> ob = PCommit c"
proof -
  assume r: "resolveProtocolObject get d = Inr ob"
  note v = resolve_sound(1) [OF r]
  show "parseState (object_value ob) = Inr s \<longleftrightarrow> ob = PState s"
    using v valid_parses(1) parse_kind(1) [of ob s] by (cases ob) auto
  show "parseEffect (object_value ob) = Inr e \<longleftrightarrow> ob = PEffect e"
    using v valid_parses(2) parse_kind(2) [of ob e] by (cases ob) auto
  show "parseStatement (object_value ob) = Inr t \<longleftrightarrow> ob = PStatement t"
    using v valid_parses(3) parse_kind(3) [of ob t] by (cases ob) auto
  show "parseCommitV2 (object_value ob) = Inr c \<longleftrightarrow> ob = PCommit c"
    using v valid_parses(4) parse_kind(4) [of ob c] by (cases ob) auto
qed

text \<open>What the schema of statements says of the core predicates.\<close>

lemma core_types: "PROPOSAL_PREDICATE_TYPE \<noteq> DECISION_PREDICATE_TYPE"
  by (simp add: predicate_type_defs u_Cons)

lemma parsed_decision:
  assumes "parseStatement v = Inr s" "predicate_type (sm_predicate s) = DECISION_PREDICATE_TYPE"
  shows "\<exists>dp d. sm_predicate s = Decision dp \<and> sm_subjects s = [d] \<and> desc_kind d = KStatement
    \<and> (dp_outcome dp = Overridden \<longrightarrow> is_authored (dp_rationale dp))"
proof (rule statement_ok [OF assms(1)])
  fix t p
  assume p: "parse_predicate t (sm_subjects s) p = Inr (sm_predicate s)"
  have "t = DECISION_PREDICATE_TYPE" using predicate_typeD [OF p] assms(2) by simp
  then have "one_subject KStatement (sm_subjects s)" "decisionPredicate p = Inr (sm_predicate s)"
    using p core_types by (simp_all add: parse_predicate_def)
  then show ?thesis using decision_ok [of p "sm_predicate s"]
    by (auto simp: one_subject_def length_Suc_conv)
qed

lemma parsed_proposal:
  assumes "parseStatement v = Inr s" "predicate_type (sm_predicate s) = PROPOSAL_PREDICATE_TYPE"
  shows "\<exists>i r d. sm_predicate s = Proposal i r \<and> sm_subjects s = [d] \<and> desc_kind d = KEffect"
proof (rule statement_ok [OF assms(1)])
  fix t p
  assume p: "parse_predicate t (sm_subjects s) p = Inr (sm_predicate s)"
  have "t = PROPOSAL_PREDICATE_TYPE" using predicate_typeD [OF p] assms(2) by simp
  then have "one_subject KEffect (sm_subjects s)" "proposalPredicate p = Inr (sm_predicate s)"
    using p by (simp_all add: parse_predicate_def)
  moreover have "proposalPredicate p = Inr x \<Longrightarrow> \<exists>i r. x = Proposal i r" for x by (auto simp: proposalPredicate_def)
  ultimately show ?thesis by (auto simp: one_subject_def length_Suc_conv)
qed

lemma commit_value_parses: "parseCommitV2 (commit_value c) = Inr x \<Longrightarrow> x = c"
proof -
  assume "parseCommitV2 (commit_value c) = Inr x"
  then have "traverse (descriptorOfKind KCommit) (map descriptor_value (cm_parents c)) = Inr (cm_parents x)"
    and "cm_decision x = cm_decision c" "cm_result x = cm_result c"
    by (auto simp: parseCommitV2_def commit_value_def closed_value state_descriptor_parses)
  moreover have "traverse (descriptorOfKind KCommit) (map descriptor_value ds) = Inr es \<Longrightarrow> es = ds" for ds es
    by (induction ds arbitrary: es) (auto simp: state_descriptor_parses)
  ultimately show "x = c" by simp
qed

section \<open>The chain\<close>

definition resolvable :: "resolver \<Rightarrow> object_descriptor \<Rightarrow> bool" where
  "resolvable get d \<longleftrightarrow> (\<exists>ob. resolveProtocolObject get d = Inr ob)"

text \<open>A considered statement and its subjects are all there.\<close>

definition considered_ok :: "resolver \<Rightarrow> object_descriptor \<Rightarrow> bool" where
  "considered_ok get d \<longleftrightarrow> (\<exists>s. resolveProtocolObject get d = Inr (PStatement s) \<and> (\<forall>e \<in> set (sm_subjects s). resolvable get e))"

text \<open>
  The effect starts from the empty document or from the result of the first parent, and reads the result of
  every other parent.
\<close>

definition follows :: "effect_object \<Rightarrow> state_object \<Rightarrow> commit_object list \<Rightarrow> bool" where
  "follows effect base parents \<longleftrightarrow> (parents = [] \<longrightarrow> st_value base = YMap [])
     \<and> (\<forall>p ps. parents = p # ps \<longrightarrow> ef_base effect = cm_result p
          \<and> cm_result ` set ps \<subseteq> in_object ` set (ed_inputs (ef_definition effect)))"

lemma parents_fit_iff: "parents_fit effect base parents \<longleftrightarrow> follows effect base parents"
proof -
  have "list_ex (\<lambda>i. in_object i = r) inputs \<longleftrightarrow> r \<in> in_object ` set inputs" for r and inputs :: "effect_input list"
    by (auto simp: list_ex_iff)
  then show ?thesis
    by (cases parents) (auto simp: parents_fit_def follows_def isExplicitEmptyGenesis_def list_all_iff image_subset_iff)
qed

definition chain :: "resolver \<Rightarrow> verified_commit \<Rightarrow> bool" where
  "chain get vc \<longleftrightarrow> (\<exists>dp i r d e base.
       resolveProtocolObject get (cm_decision (vc_commit vc)) = Inr (PStatement (vc_decision vc))
     \<and> sm_predicate (vc_decision vc) = Decision dp \<and> dp_outcome dp \<noteq> Rejected \<and> sm_subjects (vc_decision vc) = [d]
     \<and> resolveProtocolObject get d = Inr (PStatement (vc_proposal vc))
     \<and> sm_predicate (vc_proposal vc) = Proposal i r \<and> sm_subjects (vc_proposal vc) = [e]
     \<and> resolveProtocolObject get e = Inr (PEffect (vc_effect vc))
     \<and> cm_result (vc_commit vc) = ef_result (vc_effect vc)
     \<and> resolveProtocolObject get (ef_base (vc_effect vc)) = Inr (PState base)
     \<and> resolvable get (cm_result (vc_commit vc))
     \<and> (\<forall>j \<in> set (ed_inputs (ef_definition (vc_effect vc))). resolvable get (in_object j))
     \<and> (\<forall>s \<in> set (dp_considered dp). considered_ok get s)
     \<and> list_all2 (\<lambda>p c. resolveProtocolObject get p = Inr (PCommit c)) (cm_parents (vc_commit vc)) (vc_parents vc)
     \<and> follows (vc_effect vc) base (vc_parents vc))"

lemma traverse_unit: "(\<exists>xs. traverse f ds = Inr xs) \<longleftrightarrow> (\<forall>d \<in> set ds. \<exists>x. f d = Inr x)"
  by (induction ds) auto

lemma resolve_all_ok: "resolve_all get ds = Inr x \<longleftrightarrow> (\<forall>d \<in> set ds. resolvable get d)"
  using traverse_unit [of "resolveProtocolObject get" ds] by (simp add: resolve_all_def resolvable_def)

lemma verify_considered_ok: "(\<exists>x. verify_considered get d = Inr x) \<longleftrightarrow> considered_ok get d"
proof -
  have "(\<exists>x. verify_considered get d = Inr x) \<longleftrightarrow> (\<exists>ob s. resolveProtocolObject get d = Inr ob
      \<and> parseStatement (object_value ob) = Inr s \<and> (\<exists>x. verifyStatementSubjects s get = Inr x))"
    by (auto simp: verify_considered_def)
  also have "\<dots> \<longleftrightarrow> (\<exists>s. resolveProtocolObject get d = Inr (PStatement s) \<and> (\<exists>x. verifyStatementSubjects s get = Inr x))"
    using resolved_parses(3) [of get d] by metis
  also have "\<dots> \<longleftrightarrow> considered_ok get d"
  proof -
    have "(\<exists>x. verifyStatementSubjects s get = Inr x) \<longleftrightarrow> (\<forall>e \<in> set (sm_subjects s). resolvable get e)"
      if "resolveProtocolObject get d = Inr (PStatement s)" for s
      using valid_parses(3) [OF resolve_sound(1) [OF that]] by (simp add: verifyStatementSubjects_def resolve_all_ok)
    then show ?thesis unfolding considered_ok_def by blast
  qed
  finally show ?thesis .
qed

lemma resolve_parents_ok:
  "traverse (resolve_parent get) ds = Inr cs \<longleftrightarrow> list_all2 (\<lambda>p c. resolveProtocolObject get p = Inr (PCommit c)) ds cs"
proof -
  have "resolve_parent get d = Inr c \<longleftrightarrow> resolveProtocolObject get d = Inr (PCommit c)" for d c
    using resolved_parses(4) [of get d] by (auto simp: resolve_parent_def)
  then show ?thesis by (simp add: traverse_ok)
qed

lemma decision_step:
  assumes "resolveProtocolObject get d = Inr ob"
  shows "statement_of DECISION_PREDICATE_TYPE ob \<and> parseDecisionStatement (object_value ob) = Inr s \<and> decision_of s = Inr dp
    \<longleftrightarrow> ob = PStatement s \<and> sm_predicate s = Decision dp"
  using resolved_parses(3) [OF assms]
  by (auto simp: parseDecisionStatement_def statement_of_def decision_of_def split: statement_predicate.split)

lemma proposal_step:
  assumes "resolveProtocolObject get d = Inr ob"
  shows "statement_of PROPOSAL_PREDICATE_TYPE ob \<and> parseProposalStatement (object_value ob) = Inr s
    \<longleftrightarrow> ob = PStatement s \<and> (\<exists>i r. sm_predicate s = Proposal i r)"
proof -
  have "parseStatement (statement_value s) = Inr s" if "ob = PStatement s"
    using valid_parses(3) resolve_sound(1) [OF assms] that by blast
  then show ?thesis
    using resolved_parses(3) [OF assms] parsed_proposal [of "statement_value s" s]
    by (auto simp: parseProposalStatement_def statement_of_def)
qed

lemma effect_step:
  "resolveProtocolObject get d = Inr ob \<Longrightarrow>
     schema_of ob = EFFECT_SCHEMA \<and> parseEffect (object_value ob) = Inr e \<longleftrightarrow> ob = PEffect e"
  using resolved_parses(2) [of get d ob e] by auto

text \<open>The verification succeeds exactly where the chain holds, and returns its members.\<close>

theorem verifyCommitIntegrity_chain:
  "verifyCommitIntegrity c get = Inr vc \<longleftrightarrow> parseCommitV2 (commit_value c) = Inr c \<and> vc_commit vc = c \<and> chain get vc"
proof
  assume "verifyCommitIntegrity c get = Inr vc"
  then obtain x dob s dp pob p eob e bob b where
      c: "parseCommitV2 (commit_value c) = Inr x"
    and d: "resolveProtocolObject get (cm_decision x) = Inr dob"
      "statement_of DECISION_PREDICATE_TYPE dob \<and> parseDecisionStatement (object_value dob) = Inr s \<and> decision_of s = Inr dp"
      "dp_outcome dp \<noteq> Rejected"
    and p: "resolve_first get (sm_subjects s) = Inr pob"
      "statement_of PROPOSAL_PREDICATE_TYPE pob \<and> parseProposalStatement (object_value pob) = Inr p"
    and e: "resolve_first get (sm_subjects p) = Inr eob" "schema_of eob = EFFECT_SCHEMA \<and> parseEffect (object_value eob) = Inr e"
      "cm_result x = ef_result e"
    and b: "resolveProtocolObject get (ef_base e) = Inr bob" "parseState (object_value bob) = Inr b"
    and r: "resolvable get (cm_result x)" "\<forall>j \<in> set (ed_inputs (ef_definition e)). resolvable get (in_object j)"
      "\<forall>q \<in> set (dp_considered dp). considered_ok get q"
      "list_all2 (\<lambda>p c. resolveProtocolObject get p = Inr (PCommit c)) (cm_parents x) (vc_parents vc)"
      "follows e b (vc_parents vc)"
    and vc: "vc_commit vc = x" "vc_decision vc = s" "vc_proposal vc = p" "vc_effect vc = e"
    unfolding verifyCommitIntegrity_def bind_result_ok throwing_ok require_ok resolve_all_ok resolve_parents_ok parents_fit_iff
    using traverse_unit [of "verify_considered get"] verify_considered_ok [of get]
    by (auto simp: resolvable_def)
  note x = commit_value_parses [OF c]
  have s: "dob = PStatement s" "sm_predicate s = Decision dp" using decision_step [OF d(1)] d(2) by blast+
  have vs: "parseStatement (statement_value s) = Inr s" using valid_parses(3) resolve_sound(1) [OF d(1)] s(1) by blast
  from parsed_decision [OF vs] s(2) obtain pd where pd: "sm_subjects s = [pd]" by auto
  have pr: "resolveProtocolObject get pd = Inr pob" using p(1) by (simp add: resolve_first_def pd)
  then obtain i r' where q: "pob = PStatement p" "sm_predicate p = Proposal i r'" using proposal_step p(2) by blast
  have vp: "parseStatement (statement_value p) = Inr p" using valid_parses(3) resolve_sound(1) [OF pr] q(1) by blast
  from parsed_proposal [OF vp] q(2) obtain ed where ed: "sm_subjects p = [ed]" by auto
  have er: "resolveProtocolObject get ed = Inr eob" using e(1) by (simp add: resolve_first_def ed)
  have eo: "eob = PEffect e" using effect_step [OF er] e(2) by blast
  have bo: "bob = PState b" using resolved_parses(1) [OF b(1)] b(2) by blast
  have "chain get vc" unfolding chain_def vc using d s pd pr q ed er eo e(3) b(1) bo r by auto
  then show "parseCommitV2 (commit_value c) = Inr c \<and> vc_commit vc = c \<and> chain get vc"
    using c x vc(1) by simp
next
  assume "parseCommitV2 (commit_value c) = Inr c \<and> vc_commit vc = c \<and> chain get vc"
  then have c: "parseCommitV2 (commit_value c) = Inr c" "vc_commit vc = c" "chain get vc" by simp_all
  let ?s = "vc_decision vc" and ?p = "vc_proposal vc" and ?e = "vc_effect vc"
  from c(3) obtain dp i r d e b where h: "resolveProtocolObject get (cm_decision c) = Inr (PStatement ?s)"
    "sm_predicate ?s = Decision dp" "dp_outcome dp \<noteq> Rejected" "sm_subjects ?s = [d]"
    "resolveProtocolObject get d = Inr (PStatement ?p)" "sm_predicate ?p = Proposal i r" "sm_subjects ?p = [e]"
    "resolveProtocolObject get e = Inr (PEffect ?e)" "cm_result c = ef_result ?e"
    "resolveProtocolObject get (ef_base ?e) = Inr (PState b)" "resolvable get (cm_result c)"
    "\<forall>j \<in> set (ed_inputs (ef_definition ?e)). resolvable get (in_object j)" "\<forall>q \<in> set (dp_considered dp). considered_ok get q"
    "list_all2 (\<lambda>p c. resolveProtocolObject get p = Inr (PCommit c)) (cm_parents c) (vc_parents vc)"
    "follows ?e b (vc_parents vc)"
    unfolding chain_def c(2) by blast
  have steps: "parseDecisionStatement (statement_value ?s) = Inr ?s" "parseProposalStatement (statement_value ?p) = Inr ?p"
    "parseEffect (effect_value ?e) = Inr ?e" "parseState (state_value b) = Inr b"
    using decision_step [OF h(1), of ?s dp] h(2) proposal_step [OF h(5), of ?p] h(6) effect_step [OF h(8), of ?e]
      resolved_parses(1) [OF h(10), of b] by simp_all
  have guards: "statement_of DECISION_PREDICATE_TYPE (PStatement ?s)" "statement_of PROPOSAL_PREDICATE_TYPE (PStatement ?p)"
    "decision_of ?s = Inr dp" "schema_of (PEffect ?e) = EFFECT_SCHEMA" "resolve_first get (sm_subjects ?s) = Inr (PStatement ?p)"
    "resolve_first get (sm_subjects ?p) = Inr (PEffect ?e)"
    using h by (simp_all add: statement_of_def decision_of_def resolve_first_def)
  have all: "resolve_all get (map in_object (ed_inputs (ef_definition ?e))) = Inr ()" using h(12) by (simp add: resolve_all_ok)
  obtain us ob where more: "traverse (verify_considered get) (dp_considered dp) = Inr us" "resolveProtocolObject get (cm_result c) = Inr ob"
    using traverse_unit [of "verify_considered get" "dp_considered dp"] verify_considered_ok [of get] h(11,13)
    unfolding resolvable_def by blast
  have "traverse (resolve_parent get) (cm_parents c) = Inr (vc_parents vc)" using h(14) by (simp add: resolve_parents_ok)
  then show "verifyCommitIntegrity c get = Inr vc"
    using h(1,3,9,10,15) steps guards all more c(1,2) by (simp add: verifyCommitIntegrity_def throwing_def require_def parents_fit_iff)
qed

end
