(* ===== verification/RuntimeValues.thy ===== *)
theory RuntimeValues
  imports JsonRoundtrip
begin

text \<open>
  \<open>canonicalJson\<close> of packages/transition/src/canonical.ts on arbitrary runtime values. A value is
  primitive or a reference into a heap of objects and arrays, so shared and cyclic structures exist;
  an object keeps its prototype and its own properties with their descriptors, in the order of
  \<open>Reflect.ownKeys\<close>. Proxies do not occur. The recursion terminates because the set \<open>ancestors\<close>
  grows within the finite heap. The main fact is that the function succeeds exactly on the values
  that unfold to a finite tree of plain data, and returns the canonical text of the tree.
\<close>

section \<open>Runtime values and heaps\<close>

text \<open>\<open>VOther\<close> is a bigint, a symbol or a function; \<open>VNonFinite\<close> is NaN or an infinity.\<close>

datatype js_value =
    VNull
  | VUndefined
  | VBool bool
  | VNumber jsnum
  | VNonFinite
  | VString jstring
  | VOther
  | VRef nat

datatype property_key = KeyString jstring | KeySymbol nat

text \<open>A property descriptor: enumerable or not, and its value if it is a data property.\<close>

record property =
  enumerable :: bool
  data_value :: "js_value option"

datatype prototype = ObjectPrototype | NullPrototype | OtherPrototype

datatype heap_object =
    ArrayObject nat "(property_key \<times> property) list"
  | PlainObject prototype "(property_key \<times> property) list"

type_synonym heap = "(nat, heap_object) fmap"

section \<open>canonicalJson\<close>

definition data_property :: "property \<Rightarrow> bool" where
  "data_property p \<longleftrightarrow> enumerable p \<and> data_value p \<noteq> None"

definition index_text :: "jstring \<Rightarrow> bool" where
  "index_text k \<longleftrightarrow> k = [digit 0] \<or> (k \<noteq> [] \<and> list_all is_digit k \<and> hd k \<noteq> digit 0)"

text \<open>The check of an array's own keys, and of a plain object's.\<close>

fun array_key_ok :: "property_key \<times> property \<Rightarrow> bool" where
  "array_key_ok (KeyString k, p) \<longleftrightarrow> k = u ''length'' \<or> (index_text k \<and> data_property p)"
| "array_key_ok (KeySymbol n, p) \<longleftrightarrow> False"

fun object_key_ok :: "property_key \<times> property \<Rightarrow> bool" where
  "object_key_ok (KeyString k, p) \<longleftrightarrow> data_property p"
| "object_key_ok (KeySymbol n, p) \<longleftrightarrow> False"

text \<open>\<open>index in value\<close> with the member's value; a hole is \<open>None\<close>.\<close>

definition array_members :: "nat \<Rightarrow> (property_key \<times> property) list \<Rightarrow> js_value option list" where
  "array_members n own = map (\<lambda>i. Option.bind (map_of own (KeyString (dec_digits i))) data_value) [0..<n]"

fun string_entries :: "(property_key \<times> property) list \<Rightarrow> (jstring \<times> js_value) list" where
  "string_entries [] = []"
| "string_entries ((KeyString k, p) # r) =
     (case data_value p of Some v \<Rightarrow> (k, v) # string_entries r | None \<Rightarrow> string_entries r)"
| "string_entries ((KeySymbol n, p) # r) = string_entries r"

text \<open>\<open>Object.keys(record).sort()\<close> with the values of the keys.\<close>

definition sorted_values :: "(property_key \<times> property) list \<Rightarrow> (jstring \<times> js_value) list" where
  "sorted_values own = map (\<lambda>k. (k, the (map_of (string_entries own) k)))
     (js_sort compareUnits (map fst (string_entries own)))"

definition unvisited :: "heap \<Rightarrow> nat list \<Rightarrow> nat" where
  "unvisited h ancestors = card (fset (fmdom h) - set ancestors)"

lemma unvisited_less: "fmlookup h r = Some ob \<Longrightarrow> r \<notin> set ancestors \<Longrightarrow> unvisited h (r # ancestors) < unvisited h ancestors"
  unfolding unvisited_def by (rule psubset_card_mono) (auto intro: fmdomI)

function (sequential) canonicalJson_rt :: "heap \<Rightarrow> nat list \<Rightarrow> js_value \<Rightarrow> jstring protocol"
  and canonical_items :: "heap \<Rightarrow> nat list \<Rightarrow> js_value option list \<Rightarrow> jstring list protocol"
  and canonical_entries :: "heap \<Rightarrow> nat list \<Rightarrow> (jstring \<times> js_value) list \<Rightarrow> jstring list protocol" where
  "canonicalJson_rt h ancestors VNull = Inr (u ''null'')"
| "canonicalJson_rt h ancestors (VBool b) = Inr (if b then u ''true'' else u ''false'')"
| "canonicalJson_rt h ancestors (VNumber n) = Inr (number_to_string n)"
| "canonicalJson_rt h ancestors VNonFinite = Inl NON_CANONICAL_VALUE"
| "canonicalJson_rt h ancestors (VString s) = (if well_formed s then Inr (json_quote s) else Inl NON_CANONICAL_VALUE)"
| "canonicalJson_rt h ancestors (VRef r) =
     (if r \<in> set ancestors then Inl NON_CANONICAL_VALUE
      else case fmlookup h r of
        None \<Rightarrow> Inl NON_CANONICAL_VALUE
      | Some (ArrayObject n own) \<Rightarrow>
          if \<not> list_all array_key_ok own then Inl NON_CANONICAL_VALUE
          else bind_result (canonical_items h (r # ancestors) (array_members n own))
                 (\<lambda>items. Inr (cu CHR ''['' # join (cu CHR '','') items @ [cu CHR '']'']))
      | Some (PlainObject proto own) \<Rightarrow>
          if proto = OtherPrototype \<or> \<not> list_all object_key_ok own then Inl NON_CANONICAL_VALUE
          else bind_result (canonical_entries h (r # ancestors) (sorted_values own))
                 (\<lambda>entries. Inr (cu CHR ''{'' # join (cu CHR '','') entries @ [cu CHR ''}''])))"
| "canonicalJson_rt h ancestors v = Inl NON_CANONICAL_VALUE"
| "canonical_items h ancestors [] = Inr []"
| "canonical_items h ancestors (None # vs) = Inl NON_CANONICAL_VALUE"
| "canonical_items h ancestors (Some v # vs) =
     bind_result (canonicalJson_rt h ancestors v) (\<lambda>t. bind_result (canonical_items h ancestors vs) (\<lambda>ts. Inr (t # ts)))"
| "canonical_entries h ancestors [] = Inr []"
| "canonical_entries h ancestors ((k, v) # es) =
     (if \<not> well_formed k then Inl NON_CANONICAL_VALUE
      else bind_result (canonicalJson_rt h ancestors v) (\<lambda>t.
        bind_result (canonical_entries h ancestors es) (\<lambda>ts. Inr ((json_quote k @ cu CHR '':'' # t) # ts))))"
  by pat_completeness auto

termination
  by (relation "measures [\<lambda>x. case x of Inl (h, a, _) \<Rightarrow> unvisited h a
        | Inr (Inl (h, a, _)) \<Rightarrow> unvisited h a | Inr (Inr (h, a, _)) \<Rightarrow> unvisited h a,
      \<lambda>x. case x of Inl _ \<Rightarrow> 0 | Inr (Inl (_, _, vs)) \<Rightarrow> Suc (length vs) | Inr (Inr (_, _, es)) \<Rightarrow> Suc (length es)]")
    (auto simp: unvisited_less)

section \<open>The tree of a value\<close>

inductive unfolds :: "heap \<Rightarrow> js_value \<Rightarrow> yvalue \<Rightarrow> bool" for h :: heap where
  unfolds_null: "unfolds h VNull YNull"
| unfolds_bool: "unfolds h (VBool b) (YBool b)"
| unfolds_number: "unfolds h (VNumber n) (YNum n)"
| unfolds_string: "unfolds h (VString s) (YStr s)"
| unfolds_array: "fmlookup h r = Some (ArrayObject n own) \<Longrightarrow> list_all array_key_ok own \<Longrightarrow>
    array_members n own = map Some vs \<Longrightarrow> list_all2 (unfolds h) vs xs \<Longrightarrow> unfolds h (VRef r) (YSeq xs)"
| unfolds_object: "fmlookup h r = Some (PlainObject proto own) \<Longrightarrow> proto \<noteq> OtherPrototype \<Longrightarrow>
    list_all object_key_ok own \<Longrightarrow> list_all2 (rel_prod (=) (unfolds h)) (string_entries own) kvs \<Longrightarrow>
    unfolds h (VRef r) (YMap kvs)"
monos list.rel_mono prod.rel_mono

inductive_cases unfolds_refE: "unfolds h (VRef r) t"
inductive_cases unfolds_scalarE: "unfolds h VNull t" "unfolds h (VBool b) t" "unfolds h (VNumber n) t" "unfolds h (VString s) t"

lemma unfolds_unique: "unfolds h v t \<Longrightarrow> unfolds h v t' \<Longrightarrow> t = t'"
proof (induction arbitrary: t' rule: unfolds.induct)
  case (unfolds_array r n own vs xs)
  from unfolds_array.prems unfolds_array.hyps obtain xs' where t': "t' = YSeq xs'" "list_all2 (unfolds h) vs xs'"
    by (auto elim!: unfolds_refE simp: inj_map_eq_map)
  have "list_all2 (\<lambda>v x. \<forall>t'. unfolds h v t' \<longrightarrow> x = t') vs xs"
    using unfolds_array.IH by (rule list.rel_mono_strong) blast
  with t'(2) have "xs = xs'" by (auto simp: list_all2_conv_all_nth intro!: nth_equalityI)
  with t'(1) show ?case by simp
next
  case (unfolds_object r proto own kvs)
  from unfolds_object.prems unfolds_object.hyps obtain kvs' where
    t': "t' = YMap kvs'" "list_all2 (rel_prod (=) (unfolds h)) (string_entries own) kvs'"
    by (auto elim!: unfolds_refE)
  have "list_all2 (\<lambda>e x. fst e = fst x \<and> (\<forall>t'. unfolds h (snd e) t' \<longrightarrow> snd x = t')) (string_entries own) kvs"
    using unfolds_object.IH by (rule list.rel_mono_strong) (auto simp: rel_prod_sel)
  with t'(2) have "kvs = kvs'"
    by (auto simp: list_all2_conv_all_nth rel_prod_sel intro!: nth_equalityI prod_eqI)
  with t'(1) show ?case by simp
qed (auto elim: unfolds_scalarE)

text \<open>Own keys are distinct in every object of the runtime.\<close>

fun own_properties :: "heap_object \<Rightarrow> (property_key \<times> property) list" where
  "own_properties (ArrayObject n own) = own"
| "own_properties (PlainObject proto own) = own"

definition heap_ok :: "heap \<Rightarrow> bool" where
  "heap_ok h \<longleftrightarrow> (\<forall>ob \<in> fset (fmran h). distinct (map fst (own_properties ob)))"

lemma heap_okD: "heap_ok h \<Longrightarrow> fmlookup h r = Some ob \<Longrightarrow> distinct (map fst (own_properties ob))"
  unfolding heap_ok_def by (blast intro: fmranI)

lemma string_entries_own: "k \<in> set (map fst (string_entries own)) \<Longrightarrow> KeyString k \<in> set (map fst own)"
  by (induction own rule: string_entries.induct) (auto split: option.splits)

lemma string_entries_distinct: "distinct (map fst own) \<Longrightarrow> distinct (map fst (string_entries own))"
proof (induction own rule: string_entries.induct)
  case (2 k p r)
  then show ?case using string_entries_own [of k r] by (auto split: option.splits)
qed simp_all

subsection \<open>The text of a value is the text of its tree\<close>

lemma rel_entries:
  assumes d: "distinct (map fst es)"
    and rel: "list_all2 (rel_prod (=) R) (map (\<lambda>k. (k, the (map_of es k))) (js_sort compareUnits (map fst es))) kvs'"
  shows "\<exists>kvs. list_all2 (rel_prod (=) R) es kvs \<and> unit_sorted kvs = kvs' \<and> set kvs \<subseteq> set kvs'"
proof -
  let ?ks = "js_sort compareUnits (map fst es)"
  have keys: "map fst kvs' = ?ks"
    using rel by (auto simp: list_all2_conv_all_nth rel_prod_sel intro!: nth_equalityI)
  have dk: "distinct (map fst kvs')" using d by (simp add: keys)
  define kvs where "kvs = map (\<lambda>e. (fst e, the (map_of kvs' (fst e)))) es"
  have fst: "map fst kvs = map fst es" by (simp add: kvs_def comp_def)
  have mem: "(k, x) \<in> set kvs' \<and> R v x" if "(k, v) \<in> set es" "x = the (map_of kvs' k)" for k v x
  proof -
    have v: "map_of es k = Some v" using that(1) d by simp
    have "k \<in> set ?ks" using that(1) by force
    then obtain i where i: "i < length ?ks" "?ks ! i = k" unfolding in_set_conv_nth by blast
    have "length kvs' = length ?ks" using keys by (metis length_map)
    moreover have "fst (kvs' ! i) = k" using i keys calculation by (metis nth_map)
    ultimately have "R v (snd (kvs' ! i))" "(k, snd (kvs' ! i)) \<in> set kvs'"
      using list_all2_nthD [OF rel, of i] i v by (auto simp: rel_prod_sel)
    moreover from this(2) have "map_of kvs' k = Some (snd (kvs' ! i))" using dk by simp
    ultimately show ?thesis by (simp add: that(2))
  qed
  have "list_all2 (rel_prod (=) R) es kvs"
    using mem by (auto simp: kvs_def list_all2_conv_all_nth rel_prod_sel)
  moreover have "map_of kvs k = map_of kvs' k" if k: "k \<in> set ?ks" for k
  proof -
    obtain v where v: "(k, v) \<in> set es" using k by auto
    then have "(k, the (map_of kvs' k)) \<in> set kvs" by (force simp: kvs_def)
    then have "map_of kvs k = Some (the (map_of kvs' k))" using d fst by (simp add: map_of_eq_Some_iff)
    moreover have "map_of kvs' k = Some (the (map_of kvs' k))" using mem [OF v refl] dk by simp
    ultimately show ?thesis by simp
  qed
  then have "unit_sorted kvs = map (\<lambda>k. (k, the (map_of kvs' k))) (map fst kvs')"
    unfolding unit_sorted_def fst keys by (intro map_cong refl) (simp del: set_map)
  then have "unit_sorted kvs = kvs'"
    using dk by (simp add: comp_def) (rule map_idI, auto)
  moreover have "set kvs \<subseteq> set kvs'" using mem by (auto simp: kvs_def)
  ultimately show ?thesis by blast
qed

lemma texts_of_entries: "list_all2 (rel_prod (=) R) es kvs \<Longrightarrow> length es = length kvs"
  by (rule list_all2_lengthD)

lemma canonicalJson_sound:
  "heap_ok h \<Longrightarrow> canonicalJson_rt h a v = Inr s \<Longrightarrow> \<exists>t. unfolds h v t \<and> unicode_ok t \<and> s = canonical_text t"
  and canonical_items_sound: "heap_ok h \<Longrightarrow> canonical_items h a ms = Inr ts \<Longrightarrow>
    \<exists>vs xs. ms = map Some vs \<and> list_all2 (unfolds h) vs xs \<and> list_all unicode_ok xs \<and> ts = map canonical_text xs"
  and canonical_entries_sound: "heap_ok h \<Longrightarrow> canonical_entries h a es = Inr ts \<Longrightarrow>
    \<exists>kvs. list_all2 (rel_prod (=) (unfolds h)) es kvs \<and> list_all (\<lambda>(k, x). well_formed k \<and> unicode_ok x) kvs
      \<and> ts = map unit_entry kvs"
proof (induction h a v and h a ms and h a es arbitrary: s and ts and ts
    rule: canonicalJson_rt_canonical_items_canonical_entries.induct)
  case (6 h a r)
  from 6(4) obtain ob where ob: "r \<notin> set a" "fmlookup h r = Some ob"
    by (auto split: if_splits option.splits)
  show ?case
  proof (cases ob)
    case (ArrayObject n own)
    with 6(4) ob obtain items where i: "list_all array_key_ok own"
      "canonical_items h (r # a) (array_members n own) = Inr items"
      "s = cu CHR ''['' # join (cu CHR '','') items @ [cu CHR '']'']"
      by (auto split: if_splits)
    with 6(1) [OF ob ArrayObject _ 6(3) i(2)] obtain vs xs where x: "array_members n own = map Some vs"
      "list_all2 (unfolds h) vs xs" "list_all unicode_ok xs" "items = map canonical_text xs" by auto
    have "unfolds h (VRef r) (YSeq xs)" using ob i x by (intro unfolds_array) (simp_all add: ArrayObject)
    then show ?thesis using x i(3) by (intro exI [of _ "YSeq xs"]) simp
  next
    case (PlainObject proto own)
    with 6(4) ob obtain entries where i: "proto \<noteq> OtherPrototype" "list_all object_key_ok own"
      "canonical_entries h (r # a) (sorted_values own) = Inr entries"
      "s = cu CHR ''{'' # join (cu CHR '','') entries @ [cu CHR ''}'']"
      by (auto split: if_splits)
    with 6(2) [OF ob PlainObject _ 6(3) i(3)] obtain kvs' where k: "list_all2 (rel_prod (=) (unfolds h)) (sorted_values own) kvs'"
      "list_all (\<lambda>(k, x). well_formed k \<and> unicode_ok x) kvs'" "entries = map unit_entry kvs'" by auto
    have "distinct (map fst (string_entries own))"
      using heap_okD [OF 6(3) ob(2)] by (simp add: PlainObject string_entries_distinct)
    from rel_entries [OF this k(1) [unfolded sorted_values_def]] obtain kvs where
      kvs: "list_all2 (rel_prod (=) (unfolds h)) (string_entries own) kvs" "unit_sorted kvs = kvs'" "set kvs \<subseteq> set kvs'" by blast
    have "unfolds h (VRef r) (YMap kvs)" using ob i kvs by (intro unfolds_object) (simp_all add: PlainObject)
    moreover have "unicode_ok (YMap kvs)" using k(2) kvs(3) by (fastforce simp: list_all_iff)
    moreover have "s = canonical_text (YMap kvs)" unfolding canonical_text_map kvs(2) i(4) k(3) ..
    ultimately show ?thesis by blast
  qed
next
  case (10 h a v vs)
  then obtain t us xs where "unfolds h v t" "unicode_ok t" "vs = map Some us" "list_all2 (unfolds h) us xs"
    "list_all unicode_ok xs" "ts = map canonical_text (t # xs)" by auto
  then show ?case by (intro exI [of _ "v # us"] exI [of _ "t # xs"]) simp
next
  case (12 h a k v es)
  then obtain t kvs where "well_formed k" "unfolds h v t" "unicode_ok t" "list_all2 (rel_prod (=) (unfolds h)) es kvs"
    "list_all (\<lambda>(k, x). well_formed k \<and> unicode_ok x) kvs" "ts = map unit_entry ((k, t) # kvs)"
    by (fastforce simp: unit_entry_def split: if_splits)
  then show ?case by (intro exI [of _ "(k, t) # kvs"]) simp
qed (auto split: if_splits intro: unfolds.intros)

lemma smaller_item: "x \<in> set xs \<Longrightarrow> size x < size (YSeq xs)"
  by (simp add: less_Suc_eq_le size_list_estimation')

lemma smaller_entry: "(k, x) \<in> set kvs \<Longrightarrow> size x < size (YMap kvs)"
  by (auto simp: less_Suc_eq_le intro!: size_list_estimation' [of "(k, x)"])

text \<open>On a value with a tree no ancestor is met again: the tree of an ancestor is larger.\<close>

definition above :: "heap \<Rightarrow> nat list \<Rightarrow> yvalue \<Rightarrow> bool" where
  "above h a t \<longleftrightarrow> (\<forall>r \<in> set a. \<exists>t'. unfolds h (VRef r) t' \<and> size t < size t')"

lemma above_fresh: "above h a t \<Longrightarrow> unfolds h (VRef r) t \<Longrightarrow> r \<notin> set a"
  unfolding above_def by (metis less_irrefl unfolds_unique)

lemma above_child: "above h a t \<Longrightarrow> unfolds h (VRef r) t \<Longrightarrow> size x < size t \<Longrightarrow> above h (r # a) x"
  unfolding above_def by (auto intro: less_trans)

lemma items_text:
  "list_all2 (\<lambda>v x. canonicalJson_rt h a v = Inr (canonical_text x)) vs xs \<Longrightarrow>
     canonical_items h a (map Some vs) = Inr (map canonical_text xs)"
  by (induction vs xs rule: list_all2_induct) simp_all

lemma entries_text:
  "list_all2 (\<lambda>e x. fst e = fst x \<and> well_formed (fst x) \<and> canonicalJson_rt h a (snd e) = Inr (canonical_text (snd x))) es kvs \<Longrightarrow>
     canonical_entries h a es = Inr (map unit_entry kvs)"
  by (induction es kvs rule: list_all2_induct) (auto simp: unit_entry_def)

lemma rel_lookup:
  "list_all2 (rel_prod (=) R) es kvs \<Longrightarrow> map_of es k = Some v \<Longrightarrow> \<exists>x. map_of kvs k = Some x \<and> R v x"
  by (induction es kvs rule: list_all2_induct) (auto simp: rel_prod_sel split: if_splits)

lemma rel_keys: "list_all2 (rel_prod (=) R) es kvs \<Longrightarrow> map fst es = map fst kvs"
  by (induction es kvs rule: list_all2_induct) (auto simp: rel_prod_sel)

lemma canonicalJson_complete:
  "unfolds h v t \<Longrightarrow> unicode_ok t \<Longrightarrow> above h a t \<Longrightarrow> canonicalJson_rt h a v = Inr (canonical_text t)"
proof (induction arbitrary: a rule: unfolds.induct)
  case (unfolds_array r n own vs xs)
  have tree: "unfolds h (VRef r) (YSeq xs)"
    using unfolds_array.hyps unfolds_array.IH
    by (intro unfolds.unfolds_array) (auto elim: list.rel_mono_strong)
  have "list_all2 (\<lambda>v x. canonicalJson_rt h (r # a) v = Inr (canonical_text x)) vs xs"
    using unfolds_array.IH
  proof (rule list.rel_mono_strong)
    fix v x assume x: "x \<in> set xs"
      and ih: "unfolds h v x \<and> (unicode_ok x \<longrightarrow> (\<forall>b. above h b x \<longrightarrow> canonicalJson_rt h b v = Inr (canonical_text x)))"
    have "above h (r # a) x" by (rule above_child [OF unfolds_array.prems(2) tree smaller_item [OF x]])
    moreover have "unicode_ok x" using unfolds_array.prems(1) x by (simp add: list_all_iff)
    ultimately show "canonicalJson_rt h (r # a) v = Inr (canonical_text x)" using ih by blast
  qed
  from items_text [OF this] show ?case
    using above_fresh [OF unfolds_array.prems(2) tree] unfolds_array.hyps by simp
next
  case (unfolds_object r proto own kvs)
  have rel: "list_all2 (rel_prod (=) (\<lambda>v x. unfolds h v x \<and> (unicode_ok x \<longrightarrow>
      (\<forall>b. above h b x \<longrightarrow> canonicalJson_rt h b v = Inr (canonical_text x))))) (string_entries own) kvs"
    using unfolds_object.IH by (rule list.rel_mono_strong) (auto simp: rel_prod_sel)
  have tree: "unfolds h (VRef r) (YMap kvs)"
    using unfolds_object.hyps rel
    by (intro unfolds.unfolds_object) (auto elim!: list.rel_mono_strong simp: rel_prod_sel)
  have "fst (sorted_values own ! i) = fst (unit_sorted kvs ! i) \<and> well_formed (fst (unit_sorted kvs ! i))
      \<and> canonicalJson_rt h (r # a) (snd (sorted_values own ! i)) = Inr (canonical_text (snd (unit_sorted kvs ! i)))"
    if i: "i < length kvs" for i
  proof -
    let ?k = "js_sort compareUnits (map fst kvs) ! i"
    have "?k \<in> set (js_sort compareUnits (map fst kvs))" using i by (intro nth_mem) simp
    then have "?k \<in> set (map fst (string_entries own))" by (simp add: rel_keys [OF rel] del: set_map)
    then obtain v where v: "map_of (string_entries own) ?k = Some v" unfolding key_lookup_iff by blast
    from rel_lookup [OF rel v] obtain x where x: "map_of kvs ?k = Some x" "unfolds h v x"
      "unicode_ok x \<Longrightarrow> above h (r # a) x \<Longrightarrow> canonicalJson_rt h (r # a) v = Inr (canonical_text x)" by blast
    have mem: "(?k, x) \<in> set kvs" using x(1) by (rule map_of_SomeD)
    then have ok: "well_formed ?k" "unicode_ok x" using unfolds_object.prems(1) by (fastforce simp: list_all_iff)+
    have "above h (r # a) x" by (rule above_child [OF unfolds_object.prems(2) tree smaller_entry [OF mem]])
    then show ?thesis using v x ok i by (simp add: sorted_values_def unit_sorted_def rel_keys [OF rel])
  qed
  then have "list_all2 (\<lambda>e x. fst e = fst x \<and> well_formed (fst x) \<and> canonicalJson_rt h (r # a) (snd e) = Inr (canonical_text (snd x)))
      (sorted_values own) (unit_sorted kvs)"
    using list_all2_lengthD [OF rel] by (simp add: list_all2_conv_all_nth sorted_values_def unit_sorted_def rel_keys [OF rel])
  from entries_text [OF this] show ?case
    using above_fresh [OF unfolds_object.prems(2) tree] unfolds_object.hyps
    by (simp add: canonical_text_map del: canonical_text.simps)
qed simp_all

theorem canonicalJson_iff_tree:
  assumes "heap_ok h"
  shows "canonicalJson_rt h [] v = Inr s \<longleftrightarrow> (\<exists>t. unfolds h v t \<and> unicode_ok t \<and> s = canonical_text t)"
proof
  assume "canonicalJson_rt h [] v = Inr s"
  with canonicalJson_sound [OF assms] show "\<exists>t. unfolds h v t \<and> unicode_ok t \<and> s = canonical_text t" by blast
next
  assume "\<exists>t. unfolds h v t \<and> unicode_ok t \<and> s = canonical_text t"
  then show "canonicalJson_rt h [] v = Inr s" using canonicalJson_complete [of h v _ "[]"] by (auto simp: above_def)
qed

text \<open>An element at a key that is no array index passes the check of the keys and is left out.\<close>

lemma numeric_property_ignored:
  "canonicalJson_rt (fmap_of_list [(0, ArrayObject 0 [(KeyString (u ''4294967295''),
      \<lparr>enumerable = True, data_value = Some VNull\<rparr>)])]) [] (VRef 0) = Inr (u ''[]'')"
  by (simp add: array_members_def index_text_def data_property_def u_Cons is_digit_cu)
    (simp add: u_Cons cu_def digit_def)

end
