(* ===== verification/TransitionSamples.thy ===== *)
theory TransitionSamples
  imports Integrity RuntimeValues
begin

text \<open>
  The concrete objects at which the properties of packages/transition are applied: two states, an effect
  between them, a driver that performs it, and a store that holds the base.
\<close>

section \<open>Values\<close>

text \<open>One document with its keys in two orders.\<close>

definition sample_ab :: yvalue where
  "sample_ab = YMap [(u ''a'', YBool True), (u ''b'', YSeq [YNull, YStr (u ''x'')])]"

definition sample_ba :: yvalue where
  "sample_ba = YMap [(u ''b'', YSeq [YNull, YStr (u ''x'')]), (u ''a'', YBool True)]"

lemma sample_values: "protocol_value sample_ab" "protocol_value sample_ba" "abs_val sample_ab = abs_val sample_ba"
proof -
  have "wf_keys (map u [''a'', ''b''])" "wf_keys (map u [''b'', ''a''])" by (rule wf_fields; simp add: record_keys)+
  then show "protocol_value sample_ab" "protocol_value sample_ba"
    unfolding sample_ab_def sample_ba_def protocol_map by simp_all
  show "abs_val sample_ab = abs_val sample_ba"
    unfolding sample_ab_def sample_ba_def abs_val_map by (simp add: abs_obj_eq_iff u_Cons)
qed

section \<open>Objects\<close>

definition json_codec :: state_codec_ref where
  "json_codec = \<lparr>codec_media_type = u ''application/json'', codec_version = u ''1''\<rparr>"

definition empty_state :: state_object where
  "empty_state = \<lparr>st_codec = json_codec, st_value = YMap []\<rparr>"

definition next_state :: state_object where
  "next_state = \<lparr>st_codec = json_codec, st_value = sample_ab\<rparr>"

lemma json_codec_parses: "stateCodecRef (codec_value json_codec) = Inr json_codec"
  by (simp add: stateCodecRef_def codec_value_def json_codec_def closed_value parse_identifier_def identifier_pattern_def
      u_Cons is_digit_cu)

lemma json_codec_value: "protocol_value (codec_value json_codec)"
proof -
  have "wf_keys (map u [''mediaType'', ''version''])" by (rule wf_fields) (simp_all add: record_keys)
  then show ?thesis unfolding codec_value_def json_codec_def protocol_map by simp
qed

lemma json_state_valid:
  assumes "protocol_value v"
  shows "valid_object (PState \<lparr>st_codec = json_codec, st_value = v\<rparr>)"
proof -
  let ?s = "\<lparr>st_codec = json_codec, st_value = v\<rparr>"
  have "wf_keys (map u [''schema'', ''codec'', ''value''])" by (rule wf_fields) (simp_all add: record_keys)
  then have p: "protocol_value (state_value ?s)"
    using assms json_codec_value unfolding state_value_def protocol_map by (simp add: schema_defs)
  then have k: "unicode_ok (state_value ?s)" "unicode_ok v" using assms by (simp_all add: protocol_value_def)
  then have "parseState (state_value ?s) = Inr ?s"
    using json_codec_parses by (simp add: parseState_def state_value_def closed_value)
  with p k(1) show ?thesis
    by (simp add: valid_object_def parseProtocolObject_def state_value_def schema_defs closedRecord_def has_own_def)
qed

lemma empty_valid: "valid_object (PState empty_state)"
  unfolding empty_state_def by (rule json_state_valid) (simp add: protocol_map wf_keys_def)

lemma next_valid: "valid_object (PState next_state)"
  unfolding next_state_def by (rule json_state_valid [OF sample_values(1)])

definition empty_store :: memory where
  "empty_store = (\<lambda>_. None)"

definition base_store :: memory where
  "base_store = snd (the_elem {p. memory_put empty_store (PState empty_state) = Inr p})"

lemma base_put: "memory_put empty_store (PState empty_state) = Inr (descriptor_of (PState empty_state), base_store)"
proof -
  obtain d m where p: "memory_put empty_store (PState empty_state) = Inr (d, m)" using in_memory.put_accepts [OF empty_valid] by blast
  then have "{p. memory_put empty_store (PState empty_state) = Inr p} = {(d, m)}" by auto
  then have "base_store = m" by (simp add: base_store_def)
  moreover have "d = descriptor_of (PState empty_state)"
    using in_memory.put_describes [OF p] valid_describe [OF empty_valid] by simp
  ultimately show ?thesis using p by simp
qed

lemma base_resolves:
  "\<exists>s. resolveProtocolObject (memory_get base_store) (descriptor_of (PState empty_state)) = Inr (PState s)"
proof -
  obtain ob where ob: "resolveProtocolObject (memory_get base_store) (descriptor_of (PState empty_state)) = Inr ob"
    "abs_val (object_value ob) = abs_val (object_value (PState empty_state))"
    using in_memory.put_resolve [OF empty_valid base_put] by blast
  have "object_kind_of ob = KState" using object_kind_abs [OF ob(2)] by simp
  with ob(1) show ?thesis by (cases ob) auto
qed

section \<open>An effect and its driver\<close>

definition sample_driver_ref :: mutation_driver_ref where
  "sample_driver_ref = \<lparr>drv_protocol = u ''yops'', drv_version = u ''1'',
     drv_digest = u ''sha256:'' @ replicate 64 (cu CHR ''0'')\<rparr>"

definition sample_driver :: mutation_driver where
  "sample_driver = \<lparr>md_ref = sample_driver_ref, md_execute = \<lambda>base defn inputs. Inr (state_value next_state)\<rparr>"

definition sample_drivers :: driver_registry where
  "sample_drivers = [mutationDriverKey sample_driver_ref \<mapsto> sample_driver]"

definition sample_definition :: effect_definition where
  "sample_definition = \<lparr>ed_driver = sample_driver_ref, ed_operations = [], ed_inputs = []\<rparr>"

definition sample_effect :: effect_object where
  "sample_effect = \<lparr>ef_base = descriptor_of (PState empty_state), ef_definition = sample_definition,
     ef_result = descriptor_of (PState next_state)\<rparr>"

lemma zero_digest: "digest_pattern (u ''sha256:'' @ replicate 64 (cu CHR ''0''))"
  by (simp add: digest_pattern_def u_def list_all_iff is_lower_hex_def is_digit_cu)

lemma definition_parses: "parseEffectDefinition (definition_value sample_definition) = Inr sample_definition"
proof -
  have "mutationDriverRef (driver_value sample_driver_ref) = Inr sample_driver_ref"
    using zero_digest by (simp add: mutationDriverRef_def driver_value_def sample_driver_ref_def closed_value
        parse_identifier_def parse_digest_def identifier_pattern_def u_Cons is_digit_cu is_letter_def unat_cu)
  moreover have "unicode_ok (definition_value sample_definition)"
    using digest_plain [OF zero_digest] by (simp add: definition_value_def sample_definition_def driver_value_def sample_driver_ref_def)
  ultimately show ?thesis by (simp add: parseEffectDefinition_def definition_value_def sample_definition_def closed_value)
qed

lemma effect_parses: "parseEffect (effect_value sample_effect) = Inr sample_effect"
  using definition_parses
  by (simp add: effect_value_parses state_descriptor_parses sample_effect_def descriptor_of_digest) (simp add: descriptor_of_def)

lemma effect_wf: "wf_yvalue (effect_value sample_effect)"
  unfolding effect_value_def
  by (rule wf_record [of _ "[''schema'', ''base'', ''driver'', ''operations'', ''inputs'', ''result'']"])
    (simp_all add: record_keys sample_effect_def sample_definition_def descriptor_value_def driver_value_def
      wf_fields [of "[''kind'', ''schema'', ''digest'']", simplified]
      wf_fields [of "[''protocol'', ''protocolVersion'', ''specDigest'']", simplified])

lemma sample_verifies:
  "\<exists>ve. verifyEffect sample_effect (memory_get base_store) sample_drivers = Inr ve \<and> ve_effect ve = sample_effect"
proof -
  obtain s where s: "resolveProtocolObject (memory_get base_store) (descriptor_of (PState empty_state)) = Inr (PState s)"
    using base_resolves by blast
  have ps: "parseState (state_value s) = Inr s" "parseState (state_value next_state) = Inr next_state"
    using valid_parses(1) resolve_sound(1) [OF s] next_valid by blast+
  have e: "expectState (PState s) = Inr s" using ps(1) by (simp add: expectState_def require_def)
  have d: "definitionOf sample_effect = Inr (definition_value sample_definition)"
    by (simp add: definitionOf_def effect_parses) (simp add: sample_effect_def)
  have r: "replay s (definition_value sample_definition) [] sample_drivers = Inr next_state"
    unfolding replay_ok using definition_parses ps
    by (simp add: definition_value_def carries_forbidden_def has_own_def u_Cons resolveMutationDriver_def)
      (simp add: sample_definition_def sample_drivers_def sample_driver_def)
  show ?thesis
    by (simp add: verifyEffect_def effect_parses throwing_def) (simp add: sample_effect_def s e sample_definition_def
        d [unfolded sample_effect_def sample_definition_def] r [unfolded sample_definition_def] failed_claim_def valid_describe [OF next_valid] require_def)
qed

end
