(* ===== verification/NumberGrammar.thy ===== *)
theory NumberGrammar
  imports ProtocolJson "HOL-Library.Sublist"
begin

text \<open>
  What a JSON number means, apart from the parser: the grammar of RFC 8259 with the real number that a
  token spells, and the binary64 nearest to a real number. The number scanner of
  packages/transition/src/json.ts takes the longest token at the head of its input
  (\<open>match_number_iff\<close>), and the number that it reads is the nearest binary64 of what the token spells
  (\<open>js_number_iff\<close>), or an overflow.
\<close>

section \<open>The grammar\<close>

definition is_digits :: "jstring \<Rightarrow> bool" where
  "is_digits s \<longleftrightarrow> s \<noteq> [] \<and> list_all is_digit s"

inductive sign_token :: "jstring \<Rightarrow> int \<Rightarrow> bool" where
  plus: "sign_token [] 1"
| minus: "sign_token [cu CHR ''-''] (-1)"

inductive int_token :: "jstring \<Rightarrow> bool" where
  zero: "int_token [digit 0]"
| nonzero: "is_digits (c # s) \<Longrightarrow> c \<noteq> digit 0 \<Longrightarrow> int_token (c # s)"

text \<open>A fraction with its digits, an exponent with its value.\<close>

inductive fraction_token :: "jstring \<Rightarrow> jstring \<Rightarrow> bool" where
  absent: "fraction_token [] []"
| point: "is_digits s \<Longrightarrow> fraction_token (cu CHR ''.'' # s) s"

inductive exponent_token :: "jstring \<Rightarrow> int \<Rightarrow> bool" where
  absent: "exponent_token [] 0"
| plain: "c = cu CHR ''e'' \<or> c = cu CHR ''E'' \<Longrightarrow> is_digits s \<Longrightarrow> exponent_token (c # s) (int (digits_value s))"
| plus: "c = cu CHR ''e'' \<or> c = cu CHR ''E'' \<Longrightarrow> is_digits s \<Longrightarrow>
    exponent_token (c # cu CHR ''+'' # s) (int (digits_value s))"
| minus: "c = cu CHR ''e'' \<or> c = cu CHR ''E'' \<Longrightarrow> is_digits s \<Longrightarrow>
    exponent_token (c # cu CHR ''-'' # s) (- int (digits_value s))"

inductive number_token :: "jstring \<Rightarrow> real \<Rightarrow> bool" where
  number: "sign_token sg k \<Longrightarrow> int_token ip \<Longrightarrow> fraction_token fr fs \<Longrightarrow> exponent_token ex x \<Longrightarrow>
    number_token (sg @ ip @ fr @ ex)
      (real_of_int k * (real (digits_value ip) + real (digits_value fs) / 10 ^ length fs) * 10 powi x)"

inductive_cases number_tokenE: "number_token t x"

text \<open>The longest token at the head of a text.\<close>

definition longest_token :: "jstring \<Rightarrow> jstring \<Rightarrow> bool" where
  "longest_token t s \<longleftrightarrow> prefix t s \<and> (\<exists>x. number_token t x)
     \<and> (\<forall>t' x. prefix t' s \<longrightarrow> number_token t' x \<longrightarrow> prefix t' t)"

section \<open>The scanner takes the longest token\<close>

lemma prefix_split: "prefix p s \<Longrightarrow> s = p @ drop (length p) s"
  by (auto elim: prefixE)

lemma digits_take: "takeWhile is_digit r \<noteq> [] \<Longrightarrow> is_digits (takeWhile is_digit r)"
  by (auto simp: is_digits_def list_all_iff dest: set_takeWhileD)

lemma digits_Cons: "is_digit c \<Longrightarrow> is_digits [c]" "is_digit c \<Longrightarrow> is_digits (c # takeWhile is_digit r)"
  by (auto simp: is_digits_def list_all_iff dest: set_takeWhileD)

lemma takeWhile_digits [simp]: "list_all is_digit s \<Longrightarrow> takeWhile is_digit (s @ r) = s @ takeWhile is_digit r"
  by (induction s) simp_all

lemma prefix_take: "prefix (takeWhile P s) s"
  by (rule prefixI [of _ _ "dropWhile P s"]) simp

lemma match_fraction_sound: "prefix (match_fraction s) s \<and> (\<exists>fs. fraction_token (match_fraction s) fs)"
  by (cases s) (auto simp: match_fraction_def prefix_take intro: fraction_token.intros digits_take)

lemma match_exponent_sound: "prefix (match_exponent s) s \<and> (\<exists>x. exponent_token (match_exponent s) x)"
  by (cases s) (auto simp: match_exponent_def prefix_take split: list.split
      intro: exponent_token.intros digits_take digits_Cons)

lemma match_integer_sound: "match_integer s = Some ip \<Longrightarrow> prefix ip s \<and> int_token ip"
  by (cases s) (auto simp: match_integer_def prefix_take is_digits_def list_all_iff dest: set_takeWhileD
      intro!: int_token.intros split: if_splits)

lemma match_number_sound:
  assumes "match_number s = Some t"
  shows "prefix t s \<and> (\<exists>x. number_token t x)"
proof -
  define sg where "sg = (case s of c # r \<Rightarrow> if c = cu CHR ''-'' then [c] else [] | [] \<Rightarrow> [])"
  have sg: "prefix sg s \<and> (\<exists>k. sign_token sg k)"
    by (cases s) (auto simp: sg_def intro: sign_token.intros)
  obtain ip where ip: "match_integer (drop (length sg) s) = Some ip"
    using assms by (auto simp: match_number_def sg_def Let_def split: option.splits)
  define s2 where "s2 = drop (length ip) (drop (length sg) s)"
  define s3 where "s3 = drop (length (match_fraction s2)) s2"
  have t: "t = sg @ ip @ match_fraction s2 @ match_exponent s3"
    using assms ip unfolding match_number_def sg_def [symmetric] Let_def s2_def s3_def by simp
  have "s = sg @ ip @ match_fraction s2 @ match_exponent s3 @ drop (length (match_exponent s3)) s3"
    using prefix_split [of sg s] prefix_split [of ip "drop (length sg) s"] prefix_split [of "match_fraction s2" s2]
      prefix_split [of "match_exponent s3" s3] sg match_integer_sound [OF ip] match_fraction_sound [of s2]
      match_exponent_sound [of s3] unfolding s2_def [symmetric] s3_def [symmetric] by metis
  then have "prefix t s" unfolding t prefix_def by (metis append.assoc)
  moreover have "\<exists>x. number_token t x"
    unfolding t using sg match_integer_sound [OF ip] match_fraction_sound [of s2] match_exponent_sound [of s3]
    by (blast intro: number_token.intros)
  ultimately show ?thesis ..
qed

lemma is_digits_stops: "is_digits (c # s) \<Longrightarrow> c \<noteq> cu CHR ''+'' \<and> c \<noteq> cu CHR ''-'' \<and> c \<noteq> cu CHR ''.'' \<and> c \<noteq> cu CHR ''e'' \<and> c \<noteq> cu CHR ''E''"
  by (auto simp: is_digits_def is_digit_cu)

lemma match_integer_token:
  assumes "int_token ip"
  shows "\<exists>w. match_integer (ip @ r) = Some (ip @ w) \<and> (w = [] \<or> takeWhile is_digit r \<noteq> [])"
  using assms
proof cases
  case zero
  then show ?thesis by (auto simp: match_integer_def)
next
  case (nonzero c s)
  then have "match_integer (ip @ r) = Some (ip @ takeWhile is_digit r)"
    by (simp add: match_integer_def is_digits_def)
  then show ?thesis by blast
qed

lemma match_fraction_token: "fraction_token fr fs \<Longrightarrow> fr \<noteq> [] \<Longrightarrow> match_fraction (fr @ r) = fr @ takeWhile is_digit r"
  by (auto elim!: fraction_token.cases simp: match_fraction_def is_digits_def)

lemma match_exponent_token:
  assumes "exponent_token ex x" "ex \<noteq> []"
  shows "match_exponent (ex @ r) = ex @ takeWhile is_digit r"
  using assms(1)
proof cases
  case (plain c s)
  then obtain d s' where "s = d # s'" by (cases s) (auto simp: is_digits_def)
  with plain is_digits_stops [of d s'] show ?thesis by (auto simp: match_exponent_def is_digits_def)
qed (use assms(2) in \<open>auto simp: match_exponent_def is_digits_def\<close>)

lemma exponent_head: "exponent_token ex x \<Longrightarrow> ex \<noteq> [] \<Longrightarrow>
    takeWhile is_digit (ex @ r) = [] \<and> match_fraction (ex @ r) = []"
  by (auto elim!: exponent_token.cases simp: match_fraction_def is_digit_cu)

lemma fraction_head: "fraction_token fr fs \<Longrightarrow> fr \<noteq> [] \<Longrightarrow> takeWhile is_digit (fr @ r) = []"
  by (auto elim!: fraction_token.cases)

lemma match_number_parts:
  assumes "match_integer s = Some ip" "sign_token sg k"
  shows "match_number (sg @ s) = Some (sg @ ip @ match_fraction (drop (length ip) s)
    @ match_exponent (drop (length (match_fraction (drop (length ip) s))) (drop (length ip) s)))"
proof -
  obtain c r where s: "s = c # r" "is_digit c" using assms(1) by (cases s) (auto simp: match_integer_def split: if_splits)
  then have "c \<noteq> cu CHR ''-''" using not_digit(3) by blast
  with assms s(1) show ?thesis by (auto elim!: sign_token.cases simp: match_number_def Let_def)
qed

lemma match_number_longest:
  assumes "number_token t x"
  shows "\<exists>w. match_number (t @ r) = Some (t @ w)"
  using assms
proof cases
  case (number sg k ip fr fs ex y)
  obtain w where w: "match_integer (ip @ fr @ ex @ r) = Some (ip @ w)" "w = [] \<or> takeWhile is_digit (fr @ ex @ r) \<noteq> []"
    using match_integer_token [OF number(4)] by blast
  note parts = match_number_parts [OF w(1) number(3)]
  consider (1) "fr = []" "ex = []" | (2) "fr = []" "ex \<noteq> []" | (3) "fr \<noteq> []" by blast
  then show ?thesis
  proof cases
    case 1
    with parts show ?thesis by (simp add: number(1))
  next
    case 2
    then have "w = []" using w(2) exponent_head [OF number(6)] by simp
    with 2 parts show ?thesis
      using exponent_head [OF number(6)] match_exponent_token [OF number(6)] by (simp add: number(1))
  next
    case 3
    then have "w = []" using w(2) fraction_head [OF number(5)] by simp
    with 3 parts show ?thesis
      using match_fraction_token [OF number(5) 3, of "ex @ r"] exponent_head [OF number(6), of r]
        match_exponent_token [OF number(6), of r] by (cases "ex = []") (simp_all add: number(1))
  qed
qed

text \<open>The scanner and the grammar agree: on what the token is, and on when there is none.\<close>

theorem match_number_iff: "match_number s = Some t \<longleftrightarrow> longest_token t s"
proof
  assume m: "match_number s = Some t"
  have "prefix t' t" if "prefix t' s" "number_token t' x" for t' x
    using match_number_longest [OF that(2)] that(1) m by (metis option.inject prefixE prefixI)
  with match_number_sound [OF m] show "longest_token t s" unfolding longest_token_def by blast
next
  assume l: "longest_token t s"
  then obtain x r where x: "number_token t x" "s = t @ r" by (auto simp: longest_token_def elim!: prefixE)
  obtain w where w: "match_number s = Some (t @ w)" using match_number_longest [OF x(1)] x(2) by blast
  then have "prefix (t @ w) t" using match_number_sound [OF w] l unfolding longest_token_def by blast
  then have "w = []" by (auto simp: prefix_def)
  with w show "match_number s = Some t" by simp
qed

theorem match_number_None_iff: "match_number s = None \<longleftrightarrow> \<not> (\<exists>t x. prefix t s \<and> number_token t x)"
proof
  show "match_number s = None \<Longrightarrow> \<not> (\<exists>t x. prefix t s \<and> number_token t x)"
    by (metis match_number_longest option.distinct(1) prefixE)
  show "\<not> (\<exists>t x. prefix t s \<and> number_token t x) \<Longrightarrow> match_number s = None"
    using match_number_sound by (cases "match_number s") blast+
qed

section \<open>What a token spells\<close>

definition decimal_real :: "int \<times> int \<Rightarrow> real" where
  "decimal_real d = real_of_int (fst d) * 10 powi (snd d)"

lemma normalize_real: "decimal_real (normalize s e) = real_of_int s * 10 powi e"
proof (induction s e rule: normalize.induct)
  case (1 s e)
  show ?case
  proof (cases "s \<noteq> 0 \<and> 10 dvd s")
    case True
    then obtain r where r: "s = 10 * r" by blast
    have "decimal_real (normalize s e) = decimal_real (normalize (s div 10) (e + 1))"
      using True by (subst normalize.simps) simp
    also have "\<dots> = real_of_int (s div 10) * 10 powi (e + 1)" using 1 True by blast
    also have "\<dots> = real_of_int s * 10 powi e" by (simp add: r power_int_add)
    finally show ?thesis .
  next
    case False
    then show ?thesis by (subst normalize.simps) (auto simp: decimal_real_def)
  qed
qed

definition lower_e :: "jstring \<Rightarrow> jstring" where
  "lower_e t = map (\<lambda>c. if c = cu CHR ''E'' then cu CHR ''e'' else c) t"

lemma lower_simps [simp]:
  "lower_e [] = []" "lower_e (c # s) = (if c = cu CHR ''E'' then cu CHR ''e'' else c) # lower_e s"
  "lower_e (s @ t) = lower_e s @ lower_e t"
  by (simp_all add: lower_e_def)

lemma lower_digits [simp]: "list_all is_digit s \<Longrightarrow> lower_e s = s"
  by (induction s) (auto simp: is_digit_cu)

lemma int_token_digits: "int_token ip \<Longrightarrow> list_all is_digit ip \<and> ip \<noteq> []"
  by (auto elim!: int_token.cases simp: is_digits_def)

lemma fraction_lower: "fraction_token fr fs \<Longrightarrow> lower_e fr = fr"
  by (auto elim!: fraction_token.cases simp: is_digits_def)

lemma exponent_lower: "exponent_token ex x \<Longrightarrow> ex = [] \<and> x = 0 \<or> (\<exists>y. lower_e ex = cu CHR ''e'' # y \<and> exponent_value y = x)"
proof (induction rule: exponent_token.induct)
  case (plain c s)
  then obtain d s' where "s = d # s'" by (cases s) (auto simp: is_digits_def)
  with plain is_digits_stops [of d s'] have "lower_e (c # s) = cu CHR ''e'' # s \<and> exponent_value s = int (digits_value s)"
    by (auto simp: is_digits_def exponent_value_def)
  then show ?case by blast
qed (auto simp: is_digits_def exponent_value_def)

lemma fraction_digits: "fraction_token fr fs \<Longrightarrow> list_all is_digit fs \<and> (fr = [] \<and> fs = [] \<or> fr = cu CHR ''.'' # fs)"
  by (auto elim!: fraction_token.cases simp: is_digits_def)

lemma read_token:
  assumes "int_token ip" "fraction_token fr fs" "exponent_token ex x"
  shows "read_unsigned (ip @ fr @ lower_e ex) = (int (digits_value (ip @ fs)), x - int (length fs))"
proof -
  note d = int_token_digits [OF assms(1)] fraction_digits [OF assms(2)]
  have mant: "list_all (\<lambda>c. c \<noteq> cu CHR ''e'') (ip @ fr)" using d by (auto simp: digits_no_e)
  from exponent_lower [OF assms(3)] consider "ex = []" "x = 0" | y where "lower_e ex = cu CHR ''e'' # y" "exponent_value y = x" by blast
  then show ?thesis
  proof cases
    case 1
    then show ?thesis using d read_plain read_fraction by auto
  next
    case 2
    have "takeWhile (\<lambda>c. c \<noteq> cu CHR ''e'') ((ip @ fr) @ cu CHR ''e'' # y) = ip @ fr"
      and "dropWhile (\<lambda>c. c \<noteq> cu CHR ''e'') ((ip @ fr) @ cu CHR ''e'' # y) = cu CHR ''e'' # y"
      using mant by (rule takeWhile_append_stop dropWhile_append_stop; simp)+
    then show ?thesis using d 2 by (auto simp: read_unsigned_def)
  qed
qed

lemma token_value:
  assumes "number_token t x"
  shows "decimal_real (read_number (lower_e t)) = x"
  using assms
proof cases
  case (number sg k ip fr fs ex y)
  let ?m = "int (digits_value (ip @ fs))" let ?e = "y - int (length fs)"
  obtain c r where c: "ip = c # r" "is_digit c" using int_token_digits [OF number(4)] by (cases ip) auto
  then have nc: "c \<noteq> cu CHR ''-''" using not_digit(3) by blast
  have low: "lower_e t = lower_e sg @ ip @ fr @ lower_e ex"
    using int_token_digits [OF number(4)] fraction_lower [OF number(5)] by (simp add: number(1))
  have "read_number (lower_e t) = normalize (k * ?m) ?e"
    using number(3) read_token [OF number(4-6)] nc c(1)
    by cases (simp_all add: low read_number_def)
  then have "decimal_real (read_number (lower_e t)) = real_of_int (k * ?m) * 10 powi ?e" by (simp only: normalize_real)
  also have "10 powi ?e = (10 powi y / 10 ^ length fs :: real)" by (simp add: power_int_diff)
  also have "real_of_int (k * ?m) * (10 powi y / 10 ^ length fs)
      = real_of_int k * (real (digits_value ip) + real (digits_value fs) / 10 ^ length fs) * 10 powi y"
    by (simp add: digits_value_append field_simps)
  finally show ?thesis by (simp add: number(2))
qed

section \<open>The nearest binary64\<close>

definition double_value :: "nat \<times> int \<Rightarrow> real" where
  "double_value d = real (fst d) * 2 powi (snd d)"

text \<open>Round to nearest, ties to even; from half a unit above the largest binary64 on a number overflows.\<close>

definition nearest64 :: "real \<Rightarrow> nat \<times> int \<Rightarrow> bool" where
  "nearest64 x d \<longleftrightarrow> double_ok d \<and> (\<forall>d'. double_ok d' \<longrightarrow> \<bar>x - double_value d\<bar> \<le> \<bar>x - double_value d'\<bar>
     \<and> (\<bar>x - double_value d\<bar> = \<bar>x - double_value d'\<bar> \<longrightarrow> double_value d' = double_value d \<or> even (fst d)))"

definition overflows :: "real \<Rightarrow> bool" where
  "overflows x \<longleftrightarrow> (2 ^ 54 - 1) * 2 ^ 970 \<le> \<bar>x\<bar>"

lemma half_even_error:
  assumes "0 < q"
  shows "\<bar>real p / real q - real (half_even p q)\<bar> \<le> 1 / 2
    \<and> (\<bar>real p / real q - real (half_even p q)\<bar> = 1 / 2 \<longrightarrow> even (half_even p q))"
proof -
  define x where "x = real (p mod q) / real q"
  have "real p = real (p div q) * real q + real (p mod q)" by (simp flip: of_nat_mult of_nat_add)
  then have t: "real p / real q = real (p div q) + x" using assms by (simp add: x_def field_simps)
  have x: "0 \<le> x" "x < 1" using assms by (simp_all add: x_def)
  have "2 * (p mod q) < q \<longleftrightarrow> real (2 * (p mod q)) < real q" by (simp only: of_nat_less_iff)
  then have l: "2 * (p mod q) < q \<longleftrightarrow> x < 1 / 2" using assms by (simp add: x_def field_simps)
  have "2 * (p mod q) = q \<longleftrightarrow> real (2 * (p mod q)) = real q" by (simp only: of_nat_eq_iff)
  then have e: "2 * (p mod q) = q \<longleftrightarrow> x = 1 / 2" using assms by (auto simp: x_def field_simps)
  show ?thesis unfolding t half_even_def Let_def l e using x by auto
qed

lemma half_even_closest:
  assumes "0 < q"
  shows "\<bar>real p / real q - real (half_even p q)\<bar> \<le> \<bar>real p / real q - real k\<bar>
    \<and> (\<bar>real p / real q - real (half_even p q)\<bar> = \<bar>real p / real q - real k\<bar> \<longrightarrow> k = half_even p q \<or> even (half_even p q) \<and> odd k)"
proof -
  define h where "h = half_even p q"
  define t where "t = real p / real q"
  have e: "\<bar>t - real h\<bar> \<le> 1 / 2" "\<bar>t - real h\<bar> = 1 / 2 \<longrightarrow> even h"
    using half_even_error [OF assms, of p] unfolding h_def t_def by blast+
  consider "k = h" | "k + 1 = h" | "k = h + 1" | "k + 2 \<le> h" | "h + 2 \<le> k" by linarith
  then have "\<bar>t - real h\<bar> \<le> \<bar>t - real k\<bar> \<and> (\<bar>t - real h\<bar> = \<bar>t - real k\<bar> \<longrightarrow> k = h \<or> even h \<and> odd k)"
  proof cases
    case 2
    then have "real h = real k + 1" by linarith
    with e have "\<bar>t - real h\<bar> \<le> \<bar>t - real k\<bar> \<and> (\<bar>t - real h\<bar> = \<bar>t - real k\<bar> \<longrightarrow> even h)" by linarith
    with 2 show ?thesis by (metis even_plus_one_iff)
  next
    case 3
    then have "real k = real h + 1" by linarith
    with e have "\<bar>t - real h\<bar> \<le> \<bar>t - real k\<bar> \<and> (\<bar>t - real h\<bar> = \<bar>t - real k\<bar> \<longrightarrow> even h)" by linarith
    with 3 show ?thesis by simp
  next
    case 4
    then have "real k + 2 \<le> real h" by linarith
    with e show ?thesis by linarith
  next
    case 5
    then have "real h + 2 \<le> real k" by linarith
    with e show ?thesis by linarith
  qed simp
  then show ?thesis unfolding h_def t_def .
qed

lemma double_inj:
  assumes "double_ok d" "double_ok d'" "double_value d = double_value d'"
  shows "d = d'"
proof -
  have less: "\<not> snd x < snd y" if "double_ok x" "double_ok y" "double_value x = double_value y" "fst x \<noteq> 0" for x y
  proof
    assume l: "snd x < snd y"
    have "real (fst x) * 2 powi snd x = real (fst y) * 2 powi (snd y - snd x) * 2 powi snd x"
      using that(3) by (simp add: double_value_def power_int_diff)
    then have "real (fst x) = real (fst y) * 2 powi (snd y - snd x)" by simp
    moreover have "2 powi 1 \<le> (2 :: real) powi (snd y - snd x)" using l by (intro power_int_increasing) auto
    then have "real (fst y) * 2 \<le> real (fst y) * 2 powi (snd y - snd x)" by (intro mult_left_mono) simp_all
    ultimately have "fst y * 2 \<le> fst x" by linarith
    then show False using that(1,2) l by (auto simp: double_ok_def)
  qed
  show ?thesis
  proof (cases "fst d = 0")
    case True
    then have "fst d' = 0" using assms(3) by (simp add: double_value_def)
    with True assms(1,2) show ?thesis by (auto simp: double_ok_def prod_eq_iff)
  next
    case False
    then have "fst d' \<noteq> 0" using assms(3) by (cases "fst d' = 0") (auto simp: double_value_def)
    with False less [of d d'] less [of d' d] assms have "snd d = snd d'" by fastforce
    with assms(3) show ?thesis by (simp add: double_value_def prod_eq_iff)
  qed
qed

lemma ratio_quotient: "real a / real b = ratio a b e * 2 powi e"
  by (simp add: ratio_def power_int_minus)

text \<open>Every binary64 lies on the grid of the exponent that rounding chooses, or below its normal range.\<close>

lemma grid_closest:
  assumes "0 < a" "0 < b" "double_ok d'"
  defines "e \<equiv> double_exponent a b"
  defines "h \<equiv> half_even (num_units a e) (den_units b e)"
  shows "\<bar>ratio a b e - real h\<bar> \<le> \<bar>ratio a b e - real (fst d') * 2 powi (snd d' - e)\<bar>
    \<and> (\<bar>ratio a b e - real h\<bar> = \<bar>ratio a b e - real (fst d') * 2 powi (snd d' - e)\<bar> \<longrightarrow>
         real (fst d') * 2 powi (snd d' - e) = real h \<or> even h \<and> odd (fst d'))"
proof -
  let ?t = "ratio a b e" let ?y = "real (fst d') * 2 powi (snd d' - e)"
  have q: "0 < den_units b e" using den_units_pos [OF assms(2)] .
  have t: "real (num_units a e) / real (den_units b e) = ?t" using q num_units_ratio [OF assms(2), of a e] by simp
  note closest = half_even_closest [OF q, of "num_units a e", unfolded t, folded h_def]
  show ?thesis
  proof (cases "e \<le> snd d'")
    case True
    define j where "j = nat (snd d' - e)"
    have y: "?y = real (fst d' * 2 ^ j)" using True by (simp add: power_int_def j_def)
    show ?thesis using closest [of "fst d' * 2 ^ j"] unfolding y of_nat_eq_iff by auto
  next
    case False
    then have f: "e = free_exponent a b" using assms(3) by (auto simp: e_def double_exponent_free double_ok_def max_def split: if_splits)
    then have low: "2 ^ 52 \<le> ?t" using free_exponent_normal [OF assms(1,2)] by simp
    have "2 powi (snd d' - e) \<le> (2 :: real) powi (-1)" using False by (intro power_int_increasing) auto
    then have "?y \<le> real (fst d') * 2 powi (-1)" by (intro mult_left_mono) simp_all
    moreover have "real (fst d') < 2 ^ 53" using assms(3) by (simp add: double_ok_def)
    ultimately have "?y < 2 ^ 52" by (simp add: power_int_minus)
    with low have "\<bar>?t - 2 ^ 52\<bar> < \<bar>?t - ?y\<bar>" by linarith
    moreover have "\<bar>?t - real h\<bar> \<le> \<bar>?t - 2 ^ 52\<bar>" using closest [of "2 ^ 52"] by simp
    ultimately show ?thesis by linarith
  qed
qed

lemma nearest_double_closest:
  assumes "0 < a" "0 < b" "nearest_double a b = Some d" "double_ok d'"
  shows "\<bar>real a / real b - double_value d\<bar> \<le> \<bar>real a / real b - double_value d'\<bar>
    \<and> (\<bar>real a / real b - double_value d\<bar> = \<bar>real a / real b - double_value d'\<bar> \<longrightarrow>
         double_value d' = double_value d \<or> even (fst d) \<and> odd (fst d'))"
proof -
  define e where "e = double_exponent a b"
  define h where "h = half_even (num_units a e) (den_units b e)"
  have d: "d = (if h = 2 ^ 53 then (2 ^ 52, e + 1) else (h, e))"
    using assms(3) by (auto simp: nearest_double_def h_def e_def Let_def split: if_splits)
  have v: "double_value d = real h * 2 powi e" "even h \<longrightarrow> even (fst d)" by (auto simp: d double_value_def power_int_add)
  let ?y = "real (fst d') * 2 powi (snd d' - e)"
  have v': "double_value d' = ?y * 2 powi e" by (simp add: double_value_def power_int_diff)
  have dist: "\<bar>real a / real b - x * 2 powi e\<bar> = \<bar>ratio a b e - x\<bar> * 2 powi e" for x :: real
    unfolding ratio_quotient [of a b e] by (simp add: abs_mult flip: left_diff_distrib)
  show ?thesis
    using grid_closest [OF assms(1,2,4)] v(2) unfolding v(1) v' dist e_def [symmetric] h_def [symmetric] by auto
qed

lemma nearest_double_nearest: "0 < a \<Longrightarrow> 0 < b \<Longrightarrow> nearest_double a b = Some d \<Longrightarrow> nearest64 (real a / real b) d"
  unfolding nearest64_def using nearest_double_ok nearest_double_closest by blast

lemma nearest_double_overflows:
  assumes "0 < a" "0 < b"
  shows "nearest_double a b = None \<longleftrightarrow> overflows (real a / real b)"
proof -
  define e where "e = double_exponent a b"
  define h where "h = half_even (num_units a e) (den_units b e)"
  let ?t = "ratio a b e"
  have q: "0 < den_units b e" using den_units_pos [OF assms(2)] .
  have t: "real (num_units a e) / real (den_units b e) = ?t" using q num_units_ratio [OF assms(2), of a e] by simp
  note err = half_even_error [OF q, of "num_units a e", unfolded t, folded h_def]
  have n: "nearest_double a b = None \<longleftrightarrow> (if h = 2 ^ 53 then 971 < e + 1 else 971 < e)"
    by (auto simp: nearest_double_def e_def h_def Let_def)
  have f: "2 ^ 52 \<le> ratio a b (free_exponent a b)" "ratio a b (free_exponent a b) < 2 ^ 53"
    using free_exponent_normal [OF assms] by auto
  have tm: "?t \<le> ratio a b (free_exponent a b)" unfolding e_def double_exponent_free by (rule ratio_mono) simp
  then have up: "?t < 2 ^ 53" using f(2) by linarith
  have h53: "h \<le> 2 ^ 53"
    using half_even_upper [OF q, of "num_units a e" "2 ^ 53"] num_units_less_iff [OF assms(2), of a e "2 ^ 53"] up by (simp add: h_def)
  have o: "overflows (real a / real b) \<longleftrightarrow> (2 ^ 54 - 1) * 2 ^ 970 \<le> ?t * 2 powi e"
    unfolding overflows_def ratio_quotient [of a b e] by (simp add: ratio_def abs_mult)
  consider (big) "971 < e" | (top) "e = 971" | (small) "e \<le> 970" by linarith
  then show ?thesis
  proof cases
    case big
    then have "e = free_exponent a b" by (auto simp: e_def double_exponent_free max_def split: if_splits)
    then have "2 ^ 52 \<le> ?t" using f(1) by simp
    moreover have "(2 :: real) powi 972 \<le> 2 powi e" using big by (intro power_int_increasing) auto
    ultimately have "2 ^ 52 * 2 powi 972 \<le> ?t * 2 powi e" by (intro mult_mono) simp_all
    moreover have "(2 ^ 54 - 1) * 2 ^ 970 \<le> (2 ^ 52 * 2 powi 972 :: real)" by simp
    ultimately have "overflows (real a / real b)" unfolding o by linarith
    with big n show ?thesis by auto
  next
    case top
    have p: "(2 :: real) powi 971 = 2 * 2 ^ 970" by simp
    have "overflows (real a / real b) \<longleftrightarrow> (2 ^ 54 - 1) * 2 ^ 970 \<le> (?t * 2) * 2 ^ 970" unfolding o top p by simp
    then have "overflows (real a / real b) \<longleftrightarrow> 2 ^ 54 - 1 \<le> ?t * 2" by (simp only: mult_le_cancel_right_pos zero_less_power zero_less_numeral)
    moreover have "h = 2 ^ 53 \<longleftrightarrow> 2 ^ 54 - 1 \<le> ?t * 2"
    proof
      assume "h = 2 ^ 53"
      then have h: "real h = 2 ^ 53" by simp
      have "real h - ?t \<le> 1 / 2" using conjunct1 [OF err] by linarith
      then show "2 ^ 54 - 1 \<le> ?t * 2" unfolding h by simp
    next
      assume l: "2 ^ 54 - 1 \<le> ?t * 2"
      show "h = 2 ^ 53"
      proof (rule ccontr)
        assume "h \<noteq> 2 ^ 53"
        with h53 have "real h + 1 \<le> 2 ^ 53" by (simp add: le_neq_implies_less Suc_le_eq flip: of_nat_Suc)
        with l err have "\<bar>?t - real h\<bar> = 1 / 2" "real h + 1 = 2 ^ 53" by (auto simp: abs_le_iff)
        then have "even h" "real (h + 1) = real (2 ^ 53)" using err by simp_all
        then show False by (metis even_plus_one_iff of_nat_eq_iff even_power even_numeral zero_less_numeral)
      qed
    qed
    ultimately show ?thesis using n top by auto
  next
    case small
    have "?t * 2 powi e < 2 ^ 53 * 2 powi 970"
    proof -
      have "(2 :: real) powi e \<le> 2 powi 970" using small by (intro power_int_increasing) auto
      then have "?t * 2 powi e \<le> ?t * 2 powi 970" by (intro mult_left_mono) (simp_all add: ratio_def)
      also have "\<dots> < 2 ^ 53 * 2 powi 970" using up by simp
      finally show ?thesis .
    qed
    also have "(2 ^ 53 * 2 powi 970 :: real) \<le> (2 ^ 54 - 1) * 2 ^ 970" by simp
    finally show ?thesis using n small o by auto
  qed
qed

section \<open>The number that is read\<close>

definition num_real :: "jsnum \<Rightarrow> real" where
  "num_real n = decimal_real (num_decimal n)"

text \<open>A jsnum is named by its shortest decimal; it is the rounding of \<open>x\<close> when both have the same nearest binary64.\<close>

definition rounds_to :: "real \<Rightarrow> jsnum \<Rightarrow> bool" where
  "rounds_to x n \<longleftrightarrow> is_double n \<and> (\<exists>d. nearest64 \<bar>x\<bar> d \<and> nearest64 \<bar>num_real n\<bar> d) \<and> 0 \<le> x * num_real n"

lemma nearest_unique:
  assumes "0 < a" "0 < b" "\<not> overflows (real a / real b)" "nearest64 (real a / real b) d"
  shows "nearest_double a b = Some d"
proof -
  obtain d0 where d0: "nearest_double a b = Some d0" using assms(3) nearest_double_overflows [OF assms(1,2)] by (cases "nearest_double a b") auto
  note n0 = nearest_double_nearest [OF assms(1,2) d0]
  have ok: "double_ok d" "double_ok d0" using assms(4) n0 by (simp_all add: nearest64_def)
  have "\<bar>real a / real b - double_value d\<bar> = \<bar>real a / real b - double_value d0\<bar>"
    using assms(4) n0 ok unfolding nearest64_def by (intro antisym) blast+
  then have "double_value d = double_value d0"
    using assms(4) nearest_double_closest [OF assms(1,2) d0 ok(1)] ok(2) unfolding nearest64_def by metis
  with double_inj [OF ok] d0 show ?thesis by simp
qed

lemma decimal_quotient: "real (s * 10 ^ nat x) / real (10 ^ nat (- x)) = real s * 10 powi x"
  by (cases "0 \<le> x") (simp_all add: power_int_def field_simps)

lemma decimal_abs: "\<bar>decimal_real c\<bar> = real (nat \<bar>fst c\<bar>) * 10 powi snd c"
  by (simp add: decimal_real_def abs_mult)

lemma read_decimal_iff:
  assumes "fst c \<noteq> 0"
  shows "read_decimal (nat \<bar>fst c\<bar>) (snd c) = Some d \<longleftrightarrow> \<not> overflows (decimal_real c) \<and> nearest64 \<bar>decimal_real c\<bar> d"
    and "read_decimal (nat \<bar>fst c\<bar>) (snd c) = None \<longleftrightarrow> overflows (decimal_real c)"
proof -
  let ?a = "nat \<bar>fst c\<bar> * 10 ^ nat (snd c)" and ?b = "10 ^ nat (- snd c) :: nat"
  have p: "0 < ?a" "0 < ?b" using assms by simp_all
  have q: "real ?a / real ?b = \<bar>decimal_real c\<bar>" unfolding decimal_quotient decimal_abs ..
  have o: "overflows \<bar>decimal_real c\<bar> = overflows (decimal_real c)" by (simp add: overflows_def)
  show n: "read_decimal (nat \<bar>fst c\<bar>) (snd c) = None \<longleftrightarrow> overflows (decimal_real c)"
    using nearest_double_overflows [OF p] unfolding q o read_decimal_def .
  show "read_decimal (nat \<bar>fst c\<bar>) (snd c) = Some d \<longleftrightarrow> \<not> overflows (decimal_real c) \<and> nearest64 \<bar>decimal_real c\<bar> d"
    using nearest_unique [OF p, of d] nearest_double_nearest [OF p, of d] n unfolding q o read_decimal_def [symmetric]
    by (metis option.distinct(1))
qed

lemma nearest_zero [simp]: "nearest64 0 d \<longleftrightarrow> d = (0, -1074)"
proof
  have z: "double_ok (0, -1074)" by (simp add: double_ok_def)
  show "nearest64 0 d \<Longrightarrow> d = (0, -1074)"
  proof -
    assume n: "nearest64 0 d"
    then have "\<bar>double_value d\<bar> \<le> \<bar>double_value (0, -1074)\<bar>" using z unfolding nearest64_def by fastforce
    moreover have "0 < (2 :: real) powi snd d" by (rule zero_less_power_int) simp
    ultimately have "double_value d = double_value (0, -1074)" by (simp add: double_value_def mult_le_0_iff)
    with double_inj [OF _ z] n show ?thesis by (simp add: nearest64_def)
  qed
  show "d = (0, -1074) \<Longrightarrow> nearest64 0 d" using z by (auto simp: nearest64_def double_value_def)
qed

lemma decimal_zero: "decimal_real c = 0 \<longleftrightarrow> fst c = 0"
  by (simp add: decimal_real_def)

lemma sign_decimal: "0 \<le> decimal_real c * decimal_real d \<longleftrightarrow> 0 \<le> fst c * fst d"
proof -
  have p: "0 < (10 :: real) powi snd c * 10 powi snd d" by (intro mult_pos_pos zero_less_power_int) simp_all
  have "decimal_real c * decimal_real d = real_of_int (fst c * fst d) * (10 powi snd c * 10 powi snd d)"
    by (simp add: decimal_real_def ac_simps)
  also have "0 \<le> \<dots> \<longleftrightarrow> 0 \<le> real_of_int (fst c * fst d)" using p by (simp only: zero_le_mult_iff not_less order.strict_iff_not) auto
  finally show ?thesis by (simp only: of_int_0_le_iff)
qed

lemma num_real_zero: "num_real n = 0 \<longleftrightarrow> n = num_int 0"
proof -
  have "fst (num_decimal n) = 0 \<longleftrightarrow> num_decimal n = (0, 0)"
    using num_decimal_normal [of n] by (cases "num_decimal n") auto
  also have "\<dots> \<longleftrightarrow> n = num_int 0" unfolding num_decimal_inject [symmetric] by (simp add: normalize.simps)
  finally show ?thesis by (simp add: num_real_def decimal_zero)
qed

lemma zero_rounds: "rounds_to 0 n \<longleftrightarrow> n = num_int 0"
proof
  assume r: "rounds_to 0 n"
  then have d: "is_double n" "nearest64 \<bar>num_real n\<bar> (0, -1074)" by (auto simp: rounds_to_def)
  show "n = num_int 0"
  proof (rule ccontr)
    assume n: "n \<noteq> num_int 0"
    then have f: "fst (num_decimal n) \<noteq> 0" using num_real_zero [of n] by (simp add: num_real_def decimal_zero)
    have "js_number (num_decimal n) = Some n" using d(1) by (simp add: is_double_def)
    moreover from this have "read_decimal (nat \<bar>fst (num_decimal n)\<bar>) (snd (num_decimal n)) \<noteq> None"
      using f by (auto simp: js_number_def split: option.splits)
    then have "read_decimal (nat \<bar>fst (num_decimal n)\<bar>) (snd (num_decimal n)) = Some (0, -1074)"
      using d(2) read_decimal_iff [OF f] unfolding num_real_def by blast
    ultimately show False using f n by (simp add: js_number_def)
  qed
next
  assume "n = num_int 0"
  then show "rounds_to 0 n" using is_double_0 num_real_zero [of n] by (simp add: rounds_to_def)
qed

lemma js_number_reads_real:
  assumes "js_number c = Some n"
  shows "rounds_to (decimal_real c) n"
proof (cases "fst c = 0")
  case True
  with assms have "n = num_int 0" "decimal_real c = 0" by (auto simp: js_number_def decimal_zero)
  then show ?thesis using zero_rounds by simp
next
  case False
  then obtain m e where r: "read_decimal (nat \<bar>fst c\<bar>) (snd c) = Some (m, e)"
    using assms by (auto simp: js_number_def split: option.splits)
  then have x: "nearest64 \<bar>decimal_real c\<bar> (m, e)" using read_decimal_iff(1) [OF False] by blast
  show ?thesis
  proof (cases "m = 0")
    case True
    then have n: "n = num_int 0" using assms False r by (simp add: js_number_def)
    have "(m, e) = (0, -1074)" using x True by (auto simp: nearest64_def double_ok_def)
    then show ?thesis using x n is_double_0 num_real_zero [of n] by (auto simp: rounds_to_def)
  next
    case m: False
    then have n: "read_decimal (nat \<bar>fst (num_decimal n)\<bar>) (snd (num_decimal n)) = Some (m, e)"
        "sgn (fst (num_decimal n)) = sgn (fst c)" "is_double n"
      using js_number_reads [OF assms False r] by simp_all
    then have f: "fst (num_decimal n) \<noteq> 0" using False by (auto simp: sgn_0_0)
    have "nearest64 \<bar>num_real n\<bar> (m, e)" using read_decimal_iff(1) [OF f] n(1) unfolding num_real_def by blast
    moreover have "0 \<le> fst c * fst (num_decimal n)" using n(2) by (auto simp: sgn_if zero_le_mult_iff split: if_splits)
    then have "0 \<le> decimal_real c * num_real n" by (simp only: num_real_def sign_decimal)
    ultimately show ?thesis using x n(3) by (auto simp: rounds_to_def)
  qed
qed

theorem js_number_overflows: "js_number c = None \<longleftrightarrow> overflows (decimal_real c)"
proof (cases "fst c = 0")
  case True
  then have "decimal_real c = 0" by (simp add: decimal_zero)
  with True show ?thesis by (simp add: js_number_def overflows_def)
next
  case False
  with read_decimal_iff(2) [OF False] show ?thesis by (auto simp: js_number_def split: option.splits prod.splits)
qed

lemma rounds_unique:
  assumes "rounds_to (decimal_real c) n" "\<not> overflows (decimal_real c)"
  shows "js_number c = Some n"
proof (cases "fst c = 0")
  case True
  then have "n = num_int 0" using assms(1) decimal_zero [of c] zero_rounds by simp
  with True show ?thesis by (simp add: js_number_def)
next
  case False
  obtain m e where d: "nearest64 \<bar>decimal_real c\<bar> (m, e)" "nearest64 \<bar>num_real n\<bar> (m, e)" "is_double n" "0 \<le> decimal_real c * num_real n"
    using assms(1) unfolding rounds_to_def by auto
  have r: "read_decimal (nat \<bar>fst c\<bar>) (snd c) = Some (m, e)" using read_decimal_iff(1) [OF False] d(1) assms(2) by blast
  show ?thesis
  proof (cases "m = 0")
    case True
    then have "(m, e) = (0, -1074)" using d(1) by (auto simp: nearest64_def double_ok_def)
    then have "rounds_to 0 n" using d(2,3) by (auto simp: rounds_to_def)
    with True False r zero_rounds show ?thesis by (simp add: js_number_def)
  next
    case m: False
    then have "num_real n \<noteq> 0" using d(2) by auto
    then have f: "fst (num_decimal n) \<noteq> 0" by (simp add: num_real_def decimal_zero)
    have j: "js_number (num_decimal n) = Some n" using d(3) by (simp add: is_double_def)
    then have "\<not> overflows (num_real n)" using js_number_overflows [of "num_decimal n"] by (simp add: num_real_def)
    then have n: "read_decimal (nat \<bar>fst (num_decimal n)\<bar>) (snd (num_decimal n)) = Some (m, e)"
      using read_decimal_iff(1) [OF f] d(2) unfolding num_real_def by blast
    have "0 \<le> fst c * fst (num_decimal n)" using d(4) by (simp only: num_real_def sign_decimal)
    then have "0 < fst c \<longleftrightarrow> 0 < fst (num_decimal n)" using False f by (auto simp: zero_le_mult_iff)
    then have "sgn (fst c) = sgn (fst (num_decimal n))" using False f by (simp add: sgn_if)
    with j r n m False f show ?thesis by (simp add: js_number_def)
  qed
qed

theorem js_number_iff: "js_number c = Some n \<longleftrightarrow> \<not> overflows (decimal_real c) \<and> rounds_to (decimal_real c) n"
  using js_number_reads_real rounds_unique js_number_overflows [of c] by (metis option.distinct(1))

section \<open>parseNumber\<close>

lemma token_number:
  assumes "number_token t x"
  shows "number_of_token t = Some n \<longleftrightarrow> \<not> overflows x \<and> rounds_to x n" "number_of_token t = None \<longleftrightarrow> overflows x"
  using js_number_iff [of "read_number (lower_e t)" n] js_number_overflows [of "read_number (lower_e t)"] token_value [OF assms]
  by (simp_all add: number_of_token_def lower_e_def)

lemma longest_prefix: "longest_token t s \<Longrightarrow> s = t @ r \<longleftrightarrow> r = drop (length t) s"
  by (auto simp: longest_token_def elim: prefixE)

lemma parseNumber_reads: "parseNumber s = Inr (v, r) \<longleftrightarrow>
    (\<exists>t x n. longest_token t s \<and> s = t @ r \<and> number_token t x \<and> \<not> overflows x \<and> rounds_to x n \<and> v = YNum n)"
proof (cases "match_number s")
  case None
  then show ?thesis using match_number_iff [of s] by (auto simp: parseNumber_def)
next
  case (Some t)
  then have l: "longest_token t s" using match_number_iff by blast
  then obtain x where x: "number_token t x" unfolding longest_token_def by blast
  have t: "longest_token t' s \<longleftrightarrow> t' = t" for t' using Some match_number_iff [of s t'] by auto
  have "parseNumber s = Inr (v, r) \<longleftrightarrow> s = t @ r \<and> (\<exists>n. number_of_token t = Some n \<and> v = YNum n)"
    using longest_prefix [OF l, of r] by (auto simp: parseNumber_def Some split: option.split)
  also have "\<dots> \<longleftrightarrow> (\<exists>y n. s = t @ r \<and> number_token t y \<and> \<not> overflows y \<and> rounds_to y n \<and> v = YNum n)"
    using token_number(1) x by blast
  finally show ?thesis unfolding t by blast
qed

lemma parseNumber_refuses: "parseNumber s = Inl e \<longleftrightarrow>
    e = SCHEMA_INVALID \<and> \<not> (\<exists>t x. prefix t s \<and> number_token t x)
    \<or> e = NON_CANONICAL_VALUE \<and> (\<exists>t x. longest_token t s \<and> number_token t x \<and> overflows x)"
proof (cases "match_number s")
  case None
  then show ?thesis using match_number_iff [of s] match_number_None_iff [of s] by (auto simp: parseNumber_def)
next
  case (Some t)
  then have t: "longest_token t' s \<longleftrightarrow> t' = t" for t' using match_number_iff [of s t'] by auto
  then obtain x where x: "number_token t x" unfolding longest_token_def by blast
  have "parseNumber s = Inl e \<longleftrightarrow> e = NON_CANONICAL_VALUE \<and> number_of_token t = None"
    by (auto simp: parseNumber_def Some split: option.split)
  then show ?thesis using token_number(2) x Some match_number_None_iff [of s] unfolding t by (metis option.distinct(1))
qed

end
