(* ===== verification/TransitionProperties.thy ===== *)
theory TransitionProperties
  imports TransitionSamples NumberGrammar
begin

text \<open>
  The properties of packages/transition, each over the definitions of the theories below it and proved
  from their lemmas. A witness applies its property at the objects of TransitionSamples.
\<close>

section \<open>Canonical values\<close>

text \<open>
  C23: canonicalizeProtocolValue and its bytes decide equality of protocol values: they agree exactly
  when the values are the same document up to the order of keys.
\<close>

theorem protocol_bytes_decide_equality:
  assumes "protocol_value v" "protocol_value w"
  shows "(canonicalProtocolBytes v = canonicalProtocolBytes w \<longleftrightarrow> abs_val v = abs_val w)
    \<and> (canonicalizeProtocolValue v = canonicalizeProtocolValue w \<longleftrightarrow> abs_val v = abs_val w)
    \<and> (compareCanonicalValues v w = Inr 0 \<longleftrightarrow> abs_val v = abs_val w)"
proof -
  have ok: "unicode_ok v" "unicode_ok w" using assms by (simp_all add: protocol_value_def)
  have "compareCanonicalValues v w = Inr 0 \<longleftrightarrow> canonicalProtocolBytes v = canonicalProtocolBytes w"
    by (simp add: compareCanonicalValues_def bytes_ok assms compare_bytes_0)
  then show ?thesis
    using bytes_eq_iff [OF assms] canonical_text_eq_iff [OF assms] ok by (simp add: canonicalizeProtocolValue_def)
qed

theorem protocol_bytes_decide_equality_witness:
  "canonicalProtocolBytes sample_ab = canonicalProtocolBytes sample_ba
   \<and> compareCanonicalValues sample_ab sample_ba = Inr 0"
  using protocol_bytes_decide_equality [OF sample_values(1,2)] sample_values(3) by simp

text \<open>
  C25: what canonicalProtocolBytes writes, parseProtocolJson reads back: the value with its keys in
  canonical order, which is the same document and has the same bytes.
\<close>

theorem protocol_bytes_roundtrip:
  assumes "protocol_value v" "canonicalProtocolBytes v = Inr bs"
  shows "\<exists>w. parseProtocolJson (Inr bs) = Inr w \<and> protocol_value w \<and> abs_val w = abs_val v
    \<and> canonicalProtocolBytes w = Inr bs"
proof -
  have json: "parseProtocolJson (Inr bs) = Inr (sort_keys v)" by (rule bytes_roundtrip [OF assms])
  have abs: "abs_val (sort_keys v) = abs_val v" using sort_keys_abs [of v] assms(1) by (simp add: protocol_value_def)
  note dom = parseProtocolJson_domain [OF json]
  from bytes_eq_iff [OF dom assms(1)] abs json dom assms(2) show ?thesis by auto
qed

theorem protocol_bytes_roundtrip_witness:
  "\<exists>bs w. canonicalProtocolBytes sample_ba = Inr bs \<and> parseProtocolJson (Inr bs) = Inr w \<and> abs_val w = abs_val sample_ab"
  using protocol_bytes_roundtrip [OF sample_values(2) bytes_ok [OF sample_values(2)]] bytes_ok [OF sample_values(2)]
    sample_values(3) by auto

text \<open>
  C32: the strict parser returns on every input: its recursion never needs more than twice the length
  of the input in fuel, and what it returns is a protocol value.
\<close>

theorem strict_parser_returns:
  "(\<exists>r. strict_json s = Some r) \<and> (case strict_json s of Some (Inr v) \<Rightarrow> protocol_value v | _ \<Rightarrow> True)"
  using strict_json_total [of s] strict_json_domain [of s] by (cases "strict_json s") (auto split: sum.split)

text \<open>
  C31: on a heap of runtime values, canonicalJson returns a text exactly on the values that unfold to a
  tree of well-formed protocol values, and the text is the canonical text of the tree; in particular it
  rejects every cycle, sparse array, accessor, symbol key and foreign prototype.
\<close>

theorem canonical_json_accepts_trees:
  assumes "heap_ok h"
  shows "canonicalJson_rt h [] v = Inr s \<longleftrightarrow> (\<exists>t. unfolds h v t \<and> unicode_ok t \<and> s = canonical_text t)"
  using assms by (rule canonicalJson_iff_tree)

theorem canonical_json_accepts_trees_witness:
  "canonicalJson_rt (fmap_of_list [(0, PlainObject NullPrototype [])]) [] (VRef 0) = Inr (u ''{}'')"
proof -
  let ?h = "fmap_of_list [(0, PlainObject NullPrototype [])]"
  have "heap_ok ?h" by (auto simp: heap_ok_def elim!: fmranE split: if_splits)
  moreover have "unfolds ?h (VRef 0) (YMap [])"
    by (rule unfolds.unfolds_object [of ?h 0 NullPrototype "[]"]) simp_all
  moreover have "canonical_text (YMap []) = u ''{}''" by (simp add: js_sort_def u_Cons)
  ultimately show ?thesis using canonical_json_accepts_trees [of ?h "VRef 0" "u ''{}''"] by fastforce
qed

text \<open>
  C33: parseNumber takes the longest number of the JSON grammar at the head of its input and leaves the
  rest; what it returns is the binary64 nearest to the real number that this token spells (ties to even).
  It fails with SCHEMA_INVALID exactly when no number of the grammar begins there, and with
  NON_CANONICAL_VALUE exactly when the number overflows.
\<close>

theorem parsed_numbers_are_nearest:
  "(parseNumber s = Inr (v, r) \<longleftrightarrow>
      (\<exists>t x n. longest_token t s \<and> s = t @ r \<and> number_token t x \<and> \<not> overflows x \<and> rounds_to x n \<and> v = YNum n))
   \<and> (parseNumber s = Inl e \<longleftrightarrow>
      e = SCHEMA_INVALID \<and> \<not> (\<exists>t x. prefix t s \<and> number_token t x)
      \<or> e = NON_CANONICAL_VALUE \<and> (\<exists>t x. longest_token t s \<and> number_token t x \<and> overflows x))"
  using parseNumber_reads parseNumber_refuses by blast

text \<open>A leading zero is a number of its own: the scanner stops behind it.\<close>

theorem parsed_numbers_are_nearest_witness:
  "\<exists>x. longest_token (u ''0'') (u ''015'') \<and> number_token (u ''0'') x \<and> rounds_to x (num_int 0)"
proof -
  have "parseNumber (u ''015'') = Inr (YNum (num_int 0), u ''15'')" by code_simp
  then obtain t x where t: "longest_token t (u ''015'')" "u ''015'' = t @ u ''15''" "number_token t x" "rounds_to x (num_int 0)"
    unfolding conjunct1 [OF parsed_numbers_are_nearest] by auto
  have "u ''0'' @ u ''15'' = t @ u ''15''" using t(2) by (simp add: u_Cons)
  then have "t = u ''0''" by (simp only: append_same_eq)
  with t show ?thesis by blast
qed

section \<open>Objects\<close>

text \<open>
  C22: parseProtocolObject is lossless: the typed object denotes the value that was parsed, up to the
  order of keys, and is accepted again unchanged.
\<close>

theorem parse_is_lossless:
  assumes "wf_yvalue v" "parseProtocolObject v = Inr ob"
  shows "abs_val (object_value ob) = abs_val v \<and> wf_yvalue (object_value ob) \<and> parseProtocolObject (object_value ob) = Inr ob"
  using objects.denotes [OF assms] objects.denote_wf [OF assms] objects.again [OF assms] by blast

theorem parse_is_lossless_witness:
  "abs_val (object_value (PState next_state)) = abs_val (state_value next_state)"
proof -
  have "wf_yvalue (state_value next_state) \<and> parseProtocolObject (state_value next_state) = Inr (PState next_state)"
    using next_valid by (simp add: valid_object_def protocol_value_def)
  then show ?thesis using parse_is_lossless by blast
qed

text \<open>
  C14: what resolveProtocolObject returns for a descriptor is a valid object with exactly this
  descriptor, whatever the resolver answers: its stored bytes are its canonical bytes and hash to the
  digest under the prefix of its kind.
\<close>

theorem resolution_is_sound:
  assumes "resolveProtocolObject get d = Inr ob"
  shows "valid_object ob \<and> describeProtocolObject ob = Inr d
    \<and> (\<exists>bytes. get d = Inr (Some bytes) \<and> canonicalProtocolObjectBytes ob = Inr bytes
        \<and> digestCanonicalProtocolBytes (desc_kind d) (expectedSchema (desc_kind d)) bytes = Inr (desc_digest d))"
  using resolve_sound(1,2) [OF assms] assms unfolding resolve_ok by blast

theorem resolution_is_sound_witness:
  "\<exists>s. describeProtocolObject (PState s) = Inr (descriptor_of (PState empty_state))"
  using base_resolves resolution_is_sound by blast

text \<open>
  C15: content identity: two objects that any two resolvers return for one descriptor are the same
  document, or their hashed bytes are a collision of SHA-256.
\<close>

theorem descriptor_identifies_object:
  assumes "resolveProtocolObject g d = Inr x" "resolveProtocolObject g' d = Inr y"
  shows "abs_val (object_value x) = abs_val (object_value y)
    \<or> preimage x \<noteq> preimage y \<and> sha256_hex (preimage x) = sha256_hex (preimage y)"
  using assms by (rule resolve_identity)

theorem descriptor_identifies_object_witness:
  "\<exists>x. resolveProtocolObject (memory_get base_store) (descriptor_of (PState empty_state)) = Inr x
    \<and> (abs_val (object_value x) = abs_val (object_value x)
       \<or> preimage x \<noteq> preimage x \<and> sha256_hex (preimage x) = sha256_hex (preimage x))"
  using base_resolves descriptor_identifies_object by blast

text \<open>
  C21: InMemoryObjectResolver keeps what it is given: a valid object that is put is resolved under the
  descriptor that put returned, as the same document, and every descriptor that was resolvable before
  still resolves.
\<close>

theorem store_put_resolves:
  assumes "valid_object ob"
  shows "\<exists>d m'. memory_put m ob = Inr (d, m') \<and> describeProtocolObject ob = Inr d
    \<and> (\<exists>ob'. resolveProtocolObject (memory_get m') d = Inr ob' \<and> abs_val (object_value ob') = abs_val (object_value ob))
    \<and> (\<forall>e x. resolveProtocolObject (memory_get m) e = Inr x \<longrightarrow>
        (\<exists>y. resolveProtocolObject (memory_get m') e = Inr y \<and> describeProtocolObject y = describeProtocolObject x))"
proof -
  obtain d m' where p: "memory_put m ob = Inr (d, m')" using in_memory.put_accepts [OF assms] by blast
  with in_memory.put_describes [OF p] in_memory.put_resolve [OF assms p] in_memory.put_keeps [OF _ assms p]
  show ?thesis by blast
qed

theorem store_put_resolves_witness:
  "\<exists>d m' ob'. memory_put empty_store (PState next_state) = Inr (d, m')
    \<and> resolveProtocolObject (memory_get m') d = Inr ob' \<and> abs_val (object_value ob') = abs_val (state_value next_state)"
  using store_put_resolves [OF next_valid, of empty_store] by auto

section \<open>Effects\<close>

text \<open>
  C6: a verified effect is true: its base and inputs resolve under the descriptors that it names, the
  registered driver has the protocol, version and specification digest of the effect, and executing it
  on the base, the definition and the inputs gives a state whose descriptor is the claimed result.
\<close>

theorem verified_effect_is_true:
  assumes "verifyEffect effect get drivers = Inr ve" "wf_yvalue (effect_value effect)"
  shows "\<exists>base driver inputs r.
      parseEffect (effect_value effect) = Inr (ve_effect ve)
    \<and> resolveProtocolObject get (ef_base (ve_effect ve)) = Inr (PState base)
    \<and> (\<forall>i \<in> set (ed_inputs (ef_definition (ve_effect ve))). \<exists>ob. map_of inputs (in_role i) = Some ob
          \<and> resolveProtocolObject get (in_object i) = Inr ob)
    \<and> drivers (mutationDriverKey (ed_driver (ef_definition (ve_effect ve)))) = Some driver
    \<and> md_ref driver = ed_driver (ef_definition (ve_effect ve))
    \<and> md_execute driver base (ef_definition (ve_effect ve)) inputs = Inr r \<and> parseState r = Inr (ve_result ve)
    \<and> describeProtocolObject (PState (ve_result ve)) = Inr (ef_result (ve_effect ve))"
  using assms by (rule verifyEffect_sound)

theorem verified_effect_is_true_witness:
  "\<exists>base r. resolveProtocolObject (memory_get base_store) (ef_base sample_effect) = Inr (PState base)
    \<and> parseState r = Inr next_state"
proof -
  obtain ve where "verifyEffect sample_effect (memory_get base_store) sample_drivers = Inr ve" "ve_effect ve = sample_effect"
    using sample_verifies by blast
  from verified_effect_is_true [OF this(1) effect_wf] this(2) valid_parses(1) [OF next_valid] show ?thesis by metis
qed

text \<open>
  C13: the claimed result has no part in the replay: where an effect is verified, the same effect with
  any other claimed state is refused with EFFECT_CLAIM_FALSE.
\<close>

theorem only_one_claim_holds:
  assumes "verifyEffect effect get drivers = Inr ve"
    and "desc_kind r = KState" "digest_pattern (desc_digest r)" "r \<noteq> ef_result (ve_effect ve)"
  shows "verifyEffect (effect\<lparr>ef_result := r\<rparr>) get drivers = Inl (TransitionProtocolError EFFECT_CLAIM_FALSE)"
  using assms by (rule verifyEffect_one_claim)

theorem only_one_claim_holds_witness:
  "\<exists>r. verifyEffect (sample_effect\<lparr>ef_result := r\<rparr>) (memory_get base_store) sample_drivers
     = Inl (TransitionProtocolError EFFECT_CLAIM_FALSE)"
proof -
  obtain ve where ve: "verifyEffect sample_effect (memory_get base_store) sample_drivers = Inr ve"
    using sample_verifies by blast
  let ?r = "\<lambda>c. \<lparr>desc_kind = KState, desc_digest = u ''sha256:'' @ replicate 64 (cu c)\<rparr>"
  have p: "digest_pattern (desc_digest (?r CHR ''0''))" "digest_pattern (desc_digest (?r CHR ''1''))"
    using zero_digest by (simp_all add: digest_pattern_def u_def list_all_iff is_lower_hex_def is_digit_cu)
  have "?r CHR ''0'' \<noteq> ?r CHR ''1''" by simp
  then have "?r CHR ''0'' \<noteq> ef_result (ve_effect ve) \<or> ?r CHR ''1'' \<noteq> ef_result (ve_effect ve)" by metis
  then obtain c where "digest_pattern (desc_digest (?r c))" "?r c \<noteq> ef_result (ve_effect ve)" using p by blast
  then show ?thesis using only_one_claim_holds [OF ve, of "?r c"] by (intro exI [of _ "?r c"]) simp
qed

section \<open>Commits\<close>

text \<open>
  C2: verifyCommitIntegrity succeeds exactly where the chain holds: the commit parses, its decision
  resolves to a decision that is not a rejection, that to a proposal, that to an effect with the
  result of the commit, base, inputs and considered statements are there, the parents resolve to
  commits, and they fit: without parents the base is the empty state, otherwise the first parent's
  result is the base and every other parent's result is an input.
\<close>

theorem commit_verification_is_chain:
  "verifyCommitIntegrity c get = Inr vc \<longleftrightarrow> parseCommitV2 (commit_value c) = Inr c \<and> vc_commit vc = c \<and> chain get vc"
  by (rule verifyCommitIntegrity_chain)

end
