(* ===== verification/YopsAdapter.thy ===== *)
theory YopsAdapter
  imports Integrity RecipeLaws
begin

text \<open>
  packages/core/src/transition-adapters/stateCodec.ts and yopsDriver.ts: YOps documents as states of the
  Transition protocol, the mutation driver that runs the YOps engine, and the construction of effects
  from lists of operations and from a target state. \<open>JSON.parse\<close> occurs on canonical texts only, where
  it is the strict parser. The specification value of yops.yaml, whose digest names the driver, is the
  argument \<open>spec\<close>. Zod is the pair \<open>acc\<close>, \<open>data\<close>: which values a schema accepts, and the typed operation
  that \<open>safeParse\<close> returns for an accepted one.
\<close>

section \<open>stateCodec.ts\<close>

definition YOPS_STATE_MEDIA_TYPE :: jstring where
  "YOPS_STATE_MEDIA_TYPE = u ''application/vnd.t3x.yops-document+json''"

definition YOPS_STATE_CODEC_VERSION :: jstring where
  "YOPS_STATE_CODEC_VERSION = u ''1''"

definition json_parse :: "jstring \<Rightarrow> thrown + yvalue" where
  "json_parse s = (case strict_json s of Some (Inr v) \<Rightarrow> Inr v | _ \<Rightarrow> Inl OtherError)"

definition normalizeProtocolValue :: "yvalue \<Rightarrow> thrown + yvalue" where
  "normalizeProtocolValue input = bind_result (throwing (canonicalizeProtocolValue input)) json_parse"

definition yops_codec_ref :: state_codec_ref where
  "yops_codec_ref = \<lparr>codec_media_type = YOPS_STATE_MEDIA_TYPE, codec_version = YOPS_STATE_CODEC_VERSION\<rparr>"

definition yopsStateCodec :: "yvalue state_codec" where
  "yopsStateCodec = \<lparr>sc_ref = yops_codec_ref, sc_normalize = normalizeProtocolValue, sc_decode = normalizeProtocolValue\<rparr>"

definition createYOpsState :: "yvalue \<Rightarrow> thrown + state_object" where
  "createYOpsState v =
     bind_result (sc_normalize yopsStateCodec v) (\<lambda>w.
       throwing (parseState (state_value \<lparr>st_codec = sc_ref yopsStateCodec, st_value = w\<rparr>)))"

section \<open>The driver\<close>

definition YOPS_DRIVER_PROTOCOL :: jstring where
  "YOPS_DRIVER_PROTOCOL = u ''t3x.dev/yops''"

definition YOPS_DRIVER_PROTOCOL_VERSION :: jstring where
  "YOPS_DRIVER_PROTOCOL_VERSION = u ''1''"

definition YOPS_SPEC_DIGEST_DOMAIN :: jstring where
  "YOPS_SPEC_DIGEST_DOMAIN = u ''t3x-yops-driver-spec-v1''"

definition computeYOpsSpecDigest :: "yvalue \<Rightarrow> thrown + jstring" where
  "computeYOpsSpecDigest spec =
     bind_result (sc_normalize yopsStateCodec spec) (\<lambda>v.
     bind_result (throwing (canonicalizeProtocolValue v)) (\<lambda>canonicalSpec.
       Inr (u ''sha256:'' @ sha256_hex (utf8_encode (YOPS_SPEC_DIGEST_DOMAIN @ [0]) @ utf8_encode canonicalSpec))))"

text \<open>The constants of the module, given the digest that \<open>computeYOpsSpecDigest\<close> returned at load.\<close>

definition YOPS_MUTATION_DRIVER_REF :: "jstring \<Rightarrow> mutation_driver_ref" where
  "YOPS_MUTATION_DRIVER_REF digest = \<lparr>drv_protocol = YOPS_DRIVER_PROTOCOL,
     drv_version = YOPS_DRIVER_PROTOCOL_VERSION, drv_digest = digest\<rparr>"

definition assertYOpsState :: "state_object \<Rightarrow> thrown + unit" where
  "assertYOpsState s = check_that (codec_media_type (st_codec s) = codec_media_type (sc_ref yopsStateCodec)
     \<and> codec_version (st_codec s) = codec_version (sc_ref yopsStateCodec)) UNSUPPORTED_MEDIA_TYPE"

type_synonym zod_accepts = "zschema \<Rightarrow> yvalue \<Rightarrow> bool"
type_synonym zod_data = "yvalue \<Rightarrow> yop"

definition has_source :: "yvalue \<Rightarrow> bool" where
  "has_source v = (case v of YMap m \<Rightarrow> has_own m (u ''source'') | _ \<Rightarrow> False)"

definition parse_operation :: "zod_accepts \<Rightarrow> zod_data \<Rightarrow> yvalue \<Rightarrow> thrown + yop" where
  "parse_operation acc data operation =
     (if has_source operation then Inl (TransitionProtocolError SCHEMA_INVALID)
      else if \<not> acc YOpSchema operation then Inl (TransitionProtocolError SCHEMA_INVALID)
      else Inr (data operation))"

definition parseOperations :: "zod_accepts \<Rightarrow> zod_data \<Rightarrow> yvalue list \<Rightarrow> thrown + yop list" where
  "parseOperations acc data operations = traverse (parse_operation acc data) operations"

text \<open>An operation without source annotation, as the engine receives it.\<close>

abbreviation raw_op :: "yop \<Rightarrow> yvalue" where
  "raw_op op \<equiv> op_value op None"

definition yops_execute :: "zod_accepts \<Rightarrow> zod_data \<Rightarrow> state_object \<Rightarrow> effect_definition \<Rightarrow> resolved_inputs \<Rightarrow> thrown + yvalue" where
  "yops_execute acc data base defn inputs =
     bind_result (assertYOpsState base) (\<lambda>_.
     bind_result (check_that (ed_inputs defn = [] \<and> inputs = []) UNSUPPORTED_SEMANTICS) (\<lambda>_.
     bind_result (parseOperations acc data (ed_operations defn)) (\<lambda>operations.
     bind_result (sc_decode yopsStateCodec (st_value base)) (\<lambda>doc.
     let result = applyYOps yops_registry acc doc (map raw_op operations)
     in if \<not> res_ok result
        then (case res_error result of
            None \<Rightarrow> Inl (TransitionProtocolError INTEGRITY_CHAIN_INVALID)
          | Some e \<Rightarrow> if error_code e = ASSERTION_FAILED then Inl ReplayPreconditionFailedError else Inl OtherError)
        else bind_result (createYOpsState (res_doc result)) (\<lambda>s. Inr (state_value s))))))"

definition yopsMutationDriver :: "zod_accepts \<Rightarrow> zod_data \<Rightarrow> jstring \<Rightarrow> mutation_driver" where
  "yopsMutationDriver acc data digest =
     \<lparr>md_ref = YOPS_MUTATION_DRIVER_REF digest, md_execute = yops_execute acc data\<rparr>"

definition yopsMutationDrivers :: "zod_accepts \<Rightarrow> zod_data \<Rightarrow> jstring \<Rightarrow> driver_registry" where
  "yopsMutationDrivers acc data digest =
     [mutationDriverKey (YOPS_MUTATION_DRIVER_REF digest) \<mapsto> yopsMutationDriver acc data digest]"

section \<open>createYOpsEffect\<close>

text \<open>The arrays that \<open>JSON.parse\<close> gives back for the text of an array.\<close>

definition reparse_operations :: "yvalue list \<Rightarrow> thrown + yvalue list" where
  "reparse_operations vs = bind_result (normalizeProtocolValue (YSeq vs)) (\<lambda>w.
     case w of YSeq ws \<Rightarrow> Inr ws | _ \<Rightarrow> Inl OtherError)"

definition stale_precondition :: "thrown + 'a \<Rightarrow> thrown + 'a" where
  "stale_precondition r = (if r = Inl ReplayPreconditionFailedError then Inl (TransitionProtocolError STALE_BASE) else r)"

definition yops_definition :: "jstring \<Rightarrow> yvalue list \<Rightarrow> effect_definition" where
  "yops_definition digest operations =
     \<lparr>ed_driver = YOPS_MUTATION_DRIVER_REF digest, ed_operations = operations, ed_inputs = []\<rparr>"

definition createYOpsEffect :: "zod_accepts \<Rightarrow> zod_data \<Rightarrow> jstring \<Rightarrow> state_object \<Rightarrow> yvalue list \<Rightarrow>
    object_descriptor option \<Rightarrow> thrown + (effect_object \<times> state_object)" where
  "createYOpsEffect acc data digest base input_operations expectedBase =
     bind_result (throwing (describeProtocolObject (PState base))) (\<lambda>baseDescriptor.
     bind_result (check_that (case expectedBase of None \<Rightarrow> True | Some d \<Rightarrow> baseDescriptor = d) STALE_BASE) (\<lambda>_.
     bind_result (assertYOpsState base) (\<lambda>_.
     bind_result (reparse_operations input_operations) (\<lambda>callerOperations.
     bind_result (parseOperations acc data callerOperations) (\<lambda>parsedOperations.
     bind_result (sc_decode yopsStateCodec (st_value base)) (\<lambda>doc.
     let downshifted = compileYOpsOperationsToPrimitiveProfile acc doc (map (\<lambda>op. (op, None)) parsedOperations)
     in bind_result (reparse_operations (pr_operations downshifted)) (\<lambda>operations.
        let defn = yops_definition digest operations
        in bind_result (stale_precondition (replay base (definition_value defn) [] (yopsMutationDrivers acc data digest))) (\<lambda>result.
           bind_result (throwing (describeProtocolObject (PState result))) (\<lambda>resultDescriptor.
           bind_result (throwing (parseEffect (effect_value
             \<lparr>ef_base = baseDescriptor, ef_definition = defn, ef_result = resultDescriptor\<rparr>))) (\<lambda>effect.
             Inr (effect, result)))))))))))"

section \<open>createYOpsReplacementEffect\<close>

definition isMapping :: "yvalue \<Rightarrow> (jstring \<times> yvalue) list option" where
  "isMapping v = (case v of YMap m \<Rightarrow> Some m | _ \<Rightarrow> None)"

definition sameProtocolValue :: "yvalue \<Rightarrow> yvalue \<Rightarrow> thrown + bool" where
  "sameProtocolValue l r =
     bind_result (throwing (canonicalizeProtocolValue l)) (\<lambda>a.
     bind_result (throwing (canonicalizeProtocolValue r)) (\<lambda>b. Inr (a = b)))"

text \<open>\<open>[...new Set([...baseKeys, ...targetKeys])].sort()\<close>.\<close>

definition replacement_keys :: "(jstring \<times> yvalue) list \<Rightarrow> (jstring \<times> yvalue) list \<Rightarrow> jstring list" where
  "replacement_keys base target =
     js_sort compareUnits (map fst base @ filter (\<lambda>k. k \<notin> set (map fst base)) (map fst target))"

text \<open>The body of the loop: the operations for one root key.\<close>

definition replace_key :: "(jstring \<times> yvalue) list \<Rightarrow> (jstring \<times> yvalue) list \<Rightarrow> jstring \<Rightarrow> thrown + yop list" where
  "replace_key base target key =
     (if key = [] \<or> slash \<in> set key then Inl (TransitionProtocolError UNSUPPORTED_SEMANTICS)
      else
        bind_result (case (map_of base key, map_of target key) of
            (Some before, Some after) \<Rightarrow> sameProtocolValue before after | _ \<Rightarrow> Inr False) (\<lambda>unchanged.
        if unchanged then Inr []
        else Inr
          [case map_of base key of Some before \<Rightarrow> Assert key (Some before) None None
             | None \<Rightarrow> Assert key None (Some False) None,
           case map_of target key of Some after \<Rightarrow> SetOp key after | None \<Rightarrow> Unset key]))"

definition createYOpsReplacementEffect :: "zod_accepts \<Rightarrow> zod_data \<Rightarrow> jstring \<Rightarrow> state_object \<Rightarrow> state_object \<Rightarrow>
    object_descriptor option \<Rightarrow> thrown + (effect_object \<times> state_object)" where
  "createYOpsReplacementEffect acc data digest base target expectedBase =
     bind_result (assertYOpsState base) (\<lambda>_.
     bind_result (assertYOpsState target) (\<lambda>_.
     case (isMapping (st_value base), isMapping (st_value target)) of
       (Some b, Some t) \<Rightarrow>
         bind_result (traverse (replace_key b t) (replacement_keys b t)) (\<lambda>operations.
         bind_result (createYOpsEffect acc data digest base (map raw_op (concat operations)) expectedBase) (\<lambda>created.
         bind_result (throwing (describeProtocolObject (PState (snd created)))) (\<lambda>actual.
         bind_result (throwing (describeProtocolObject (PState target))) (\<lambda>wanted.
         bind_result (check_that (desc_digest actual = desc_digest wanted) INTEGRITY_CHAIN_INVALID) (\<lambda>_. Inr created)))))
     | _ \<Rightarrow> Inl (TransitionProtocolError UNSUPPORTED_SEMANTICS)))"

end
