(* ===== verification/YopsAdapterLaws.thy ===== *)
theory YopsAdapterLaws
  imports YopsAdapter
begin

text \<open>
  The laws of the YOps adapter: the state codec puts a document into its canonical order of keys, so the
  driver does not see the order of the base; an effect that \<open>createYOpsEffect\<close> returns verifies.
\<close>

section \<open>The state codec\<close>

lemma normalize_ok: "protocol_value v \<Longrightarrow> normalizeProtocolValue v = Inr (sort_keys v)"
  using json_roundtrip [of v]
  by (simp add: normalizeProtocolValue_def canonicalizeProtocolValue_def protocol_value_def json_parse_def throwing_def)

lemma json_parse_domain: "json_parse s = Inr v \<Longrightarrow> protocol_value v"
  by (auto simp: json_parse_def strict_json_domain split: option.splits sum.splits)

lemma normalize_domain: "normalizeProtocolValue v = Inr w \<Longrightarrow> protocol_value w"
  by (auto simp: normalizeProtocolValue_def json_parse_domain)

lemma sort_keys_protocol: "protocol_value v \<Longrightarrow> protocol_value (sort_keys v)"
  using normalize_domain normalize_ok by blast

lemma sort_keys_cong: "protocol_value v \<Longrightarrow> protocol_value w \<Longrightarrow> abs_val v = abs_val w \<Longrightarrow> sort_keys v = sort_keys w"
  by (metis Inr_inject canonical_text_eq_iff json_roundtrip option.inject)

lemma sort_keys_again: "protocol_value v \<Longrightarrow> sort_keys (sort_keys v) = sort_keys v"
  using sort_keys_cong [OF sort_keys_protocol [of v], of v] sort_keys_abs [of v] by (simp add: protocol_value_def)

text \<open>Without the unicode check of the argument, the result is the same document.\<close>

lemma normalize_value:
  assumes "normalizeProtocolValue v = Inr w" "wf_yvalue v" "doubles v"
  shows "protocol_value v \<and> w = sort_keys v"
proof -
  have "unicode_ok v"
    using assms(1) by (auto simp: normalizeProtocolValue_def canonicalizeProtocolValue_def split: if_splits)
  with assms show ?thesis using normalize_ok [of v] by (simp add: protocol_value_def)
qed

section \<open>States of the codec\<close>

lemma codec_state_valid:
  assumes "stateCodecRef (codec_value c) = Inr c" "protocol_value (codec_value c)" "protocol_value v"
  shows "valid_object (PState \<lparr>st_codec = c, st_value = v\<rparr>)"
    "parseState (state_value \<lparr>st_codec = c, st_value = v\<rparr>) = Inr \<lparr>st_codec = c, st_value = v\<rparr>"
proof -
  let ?s = "\<lparr>st_codec = c, st_value = v\<rparr>"
  have "wf_keys (map u [''schema'', ''codec'', ''value''])" by (rule wf_fields) (simp_all add: record_keys)
  then have p: "protocol_value (state_value ?s)"
    using assms unfolding state_value_def protocol_map by (simp add: schema_defs)
  then have k: "unicode_ok (state_value ?s)" "unicode_ok v" using assms by (simp_all add: protocol_value_def)
  then show s: "parseState (state_value ?s) = Inr ?s"
    using assms(1) by (simp add: parseState_def state_value_def closed_value)
  with p k(1) show "valid_object (PState ?s)"
    by (simp add: valid_object_def parseProtocolObject_def state_value_def schema_defs closedRecord_def has_own_def)
qed

lemma state_value_parts:
  assumes "valid_object (PState s)"
  shows "protocol_value (st_value s)" "protocol_value (codec_value (st_codec s))" "parseState (state_value s) = Inr s"
proof -
  have "protocol_value (state_value s)" using assms by (simp add: valid_object_def)
  then show "protocol_value (st_value s)" "protocol_value (codec_value (st_codec s))"
    unfolding state_value_def protocol_map by simp_all
  show "parseState (state_value s) = Inr s" by (rule valid_parses(1) [OF assms])
qed

lemma yops_codec: "stateCodecRef (codec_value yops_codec_ref) = Inr yops_codec_ref" "protocol_value (codec_value yops_codec_ref)"
proof -
  show "stateCodecRef (codec_value yops_codec_ref) = Inr yops_codec_ref"
    by (simp add: stateCodecRef_def codec_value_def yops_codec_ref_def closed_value parse_identifier_def
        identifier_pattern_def YOPS_STATE_MEDIA_TYPE_def YOPS_STATE_CODEC_VERSION_def u_Cons is_digit_cu)
  have "wf_keys (map u [''mediaType'', ''version''])" by (rule wf_fields) (simp_all add: record_keys)
  then show "protocol_value (codec_value yops_codec_ref)"
    unfolding codec_value_def yops_codec_ref_def YOPS_STATE_MEDIA_TYPE_def YOPS_STATE_CODEC_VERSION_def protocol_map by simp
qed

lemma createYOpsState_ok:
  "createYOpsState v = Inr s \<longleftrightarrow> (\<exists>w. normalizeProtocolValue v = Inr w \<and> s = \<lparr>st_codec = yops_codec_ref, st_value = w\<rparr>)"
  using codec_state_valid(2) [OF yops_codec] normalize_domain
  by (auto simp: createYOpsState_def yopsStateCodec_def)

lemma createYOpsState_valid: "createYOpsState v = Inr s \<Longrightarrow> valid_object (PState s)"
  using codec_state_valid(1) [OF yops_codec] normalize_domain by (auto simp: createYOpsState_ok)

lemma assertYOpsState_ok: "assertYOpsState s = Inr x \<longleftrightarrow> st_codec s = yops_codec_ref"
  by (auto simp: assertYOpsState_def yopsStateCodec_def yops_codec_ref_def)

text \<open>Two states that are the same document have the same codec and the same canonical value.\<close>

lemma same_states:
  assumes "valid_object (PState s)" "valid_object (PState t)" "abs_val (state_value t) = abs_val (state_value s)"
  shows "st_codec t = st_codec s" "sort_keys (st_value t) = sort_keys (st_value s)"
proof -
  have f: "map_option abs_val (map_of [(u ''schema'', YStr STATE_SCHEMA), (u ''codec'', codec_value (st_codec t)), (u ''value'', st_value t)] k)
      = map_option abs_val (map_of [(u ''schema'', YStr STATE_SCHEMA), (u ''codec'', codec_value (st_codec s)), (u ''value'', st_value s)] k)" for k
    using assms(3) unfolding state_value_def abs_val_map jdoc.inject abs_obj_eq_iff by blast
  have "abs_val (st_value t) = abs_val (st_value s)" using f [of "u ''value''"] by simp
  then show "sort_keys (st_value t) = sort_keys (st_value s)"
    using state_value_parts(1) assms(1,2) by (intro sort_keys_cong) simp_all
  have c: "abs_val (codec_value (st_codec t)) = abs_val (codec_value (st_codec s))" using f [of "u ''codec''"] by simp
  have g: "map_option abs_val (map_of [(u ''mediaType'', YStr (codec_media_type (st_codec t))), (u ''version'', YStr (codec_version (st_codec t)))] k)
      = map_option abs_val (map_of [(u ''mediaType'', YStr (codec_media_type (st_codec s))), (u ''version'', YStr (codec_version (st_codec s)))] k)" for k
    using c unfolding codec_value_def abs_val_map jdoc.inject abs_obj_eq_iff by blast
  show "st_codec t = st_codec s" using g [of "u ''mediaType''"] g [of "u ''version''"] by simp
qed

section \<open>The driver\<close>

lemma decode_state: "protocol_value v \<Longrightarrow> sc_decode yopsStateCodec v = Inr (sort_keys v)"
  by (simp add: yopsStateCodec_def normalize_ok)

text \<open>The driver only sees the codec of its base and the canonical order of its document.\<close>

lemma yops_execute_same:
  assumes "valid_object (PState s)" "valid_object (PState t)" "abs_val (state_value t) = abs_val (state_value s)"
  shows "yops_execute acc data t defn inputs = yops_execute acc data s defn inputs"
  using same_states [OF assms] state_value_parts(1) [OF assms(1)] state_value_parts(1) [OF assms(2)]
  by (simp add: yops_execute_def decode_state assertYOpsState_def)

lemma yops_execute_ok:
  assumes "protocol_value (st_value s)"
  shows "yops_execute acc data s defn inputs = Inr r \<longleftrightarrow> st_codec s = yops_codec_ref \<and> ed_inputs defn = [] \<and> inputs = []
    \<and> (\<exists>ops t. parseOperations acc data (ed_operations defn) = Inr ops
        \<and> res_ok (applyYOps yops_registry acc (sort_keys (st_value s)) (map raw_op ops))
        \<and> createYOpsState (res_doc (applyYOps yops_registry acc (sort_keys (st_value s)) (map raw_op ops))) = Inr t
        \<and> r = state_value t)"
  unfolding yops_execute_def bind_result_ok assertYOpsState_ok require_ok decode_state [OF assms] Let_def
  by (auto split: if_splits option.splits)

lemma yops_driver_found:
  "resolveMutationDriver (yopsMutationDrivers acc data digest) r = Inr driver \<Longrightarrow> driver = yopsMutationDriver acc data digest"
  by (auto simp: resolveMutationDriver_def yopsMutationDrivers_def split: option.splits if_splits)


section \<open>Effects that were built from a replay\<close>

lemma driver_value_same: "mutationDriverRef (driver_value r) = Inr r' \<Longrightarrow> r' = r"
  by (auto simp: mutationDriverRef_def driver_value_def closed_value parse_identifier_def parse_digest_def)

lemma inputs_value_same: "parse_inputs p (map effect_input_value is) = Inr js \<Longrightarrow> js = is"
proof (induction "is" arbitrary: p js)
  case (Cons i "is")
  have c: "closedRecord (effect_input_value i) [''role'', ''object''] [''role'', ''object'']
      = Inr [(u ''role'', YStr (in_role i)), (u ''object'', descriptor_value (in_object i))]"
    unfolding effect_input_value_def by (rule closed_value) simp
  from Cons.prems obtain q where "parse_inputs (Some (in_role i)) (map effect_input_value is) = Inr q" "js = i # q"
    by (auto simp: c parse_identifier_def parse_descriptor_value)
  with Cons.IH show ?case by blast
qed simp

lemma definition_value_same: "parseEffectDefinition (definition_value d) = Inr d' \<Longrightarrow> d' = d"
  using driver_value_same [of "ed_driver d" "ed_driver d'"] inputs_value_same [of None "ed_inputs d" "ed_inputs d'"]
  by (auto simp: parseEffectDefinition_def definition_value_def closed_value)

lemma effect_value_same: "parseEffect (effect_value e) = Inr e' \<Longrightarrow> e' = e"
  using definition_value_same by (auto simp: effect_value_parses state_descriptor_parses)

text \<open>An effect verifies when its replay on what the resolver returns has the claimed result.\<close>

lemma effect_verifies:
  assumes "parseEffect (effect_value e) = Inr e'" "resolveProtocolObject get (ef_base e) = Inr (PState base)"
    and "resolve_inputs get [] (ed_inputs (ef_definition e)) = Inr inputs"
    and "replay base (definition_value (ef_definition e)) inputs drivers = Inr result"
    and "describeProtocolObject (PState result) = Inr (ef_result e)"
  shows "verifyEffect e get drivers = Inr \<lparr>ve_effect = e, ve_result = result, ve_descriptor = ef_result e\<rparr>"
proof -
  have e: "parseEffect (effect_value e) = Inr e" using assms(1) effect_value_same by blast
  have "expectState (PState base) = Inr base"
    using expectState_ok [OF resolve_sound(1) [OF assms(2)]] by simp
  then show ?thesis
    using assms(2-5) e by (simp add: verifyEffect_def throwing_def definitionOf_def failed_claim_def require_def)
qed

section \<open>createYOpsEffect\<close>

lemma stale_precondition_ok [simp]: "stale_precondition r = Inr x \<longleftrightarrow> r = Inr x"
  by (simp add: stale_precondition_def)

lemma reparse_ok: "reparse_operations vs = Inr ws \<longleftrightarrow> normalizeProtocolValue (YSeq vs) = Inr (YSeq ws)"
proof -
  have "(case w of YSeq xs \<Rightarrow> Inr xs | _ \<Rightarrow> Inl OtherError) = Inr ws \<longleftrightarrow> w = YSeq ws" for w by (cases w) simp_all
  then show ?thesis unfolding reparse_operations_def by simp
qed

text \<open>The steps of a successful creation.\<close>

lemma createYOpsEffect_ok:
  assumes "valid_object (PState base)"
  shows "createYOpsEffect acc data digest base input_operations expectedBase = Inr (effect, result) \<longleftrightarrow>
    (case expectedBase of None \<Rightarrow> True | Some d \<Rightarrow> descriptor_of (PState base) = d) \<and> st_codec base = yops_codec_ref
    \<and> (\<exists>callerOperations parsed operations rd. normalizeProtocolValue (YSeq input_operations) = Inr (YSeq callerOperations)
        \<and> parseOperations acc data callerOperations = Inr parsed
        \<and> normalizeProtocolValue (YSeq (pr_operations (compileYOpsOperationsToPrimitiveProfile acc (sort_keys (st_value base))
            (map (\<lambda>op. (op, None)) parsed)))) = Inr (YSeq operations)
        \<and> replay base (definition_value (yops_definition digest operations)) [] (yopsMutationDrivers acc data digest) = Inr result
        \<and> describeProtocolObject (PState result) = Inr rd
        \<and> effect = \<lparr>ef_base = descriptor_of (PState base), ef_definition = yops_definition digest operations, ef_result = rd\<rparr>
        \<and> parseEffect (effect_value effect) = Inr effect)"
proof -
  have p: "parseEffect (effect_value e) = Inr effect \<longleftrightarrow> effect = e \<and> parseEffect (effect_value effect) = Inr effect" for e
    using effect_value_same [of e effect] by auto
  have q: "Inr (x, s) = (Inr (effect, result) :: thrown + (effect_object \<times> state_object)) \<longleftrightarrow> x = effect \<and> s = result" for x s
    by auto
  have r: "(\<exists>x. parseEffect (effect_value e) = Inr x \<and> x = effect \<and> s = result) \<longleftrightarrow>
      effect = e \<and> parseEffect (effect_value effect) = Inr effect \<and> s = result" for e s
    using p [of e] by blast
  show ?thesis
    unfolding createYOpsEffect_def Let_def bind_result_ok throwing_ok require_ok assertYOpsState_ok reparse_ok
      stale_precondition_ok decode_state [OF state_value_parts(1) [OF assms]] valid_describe [OF assms] q r
    by blast
qed

end
