(* ===== verification/ValueAtoms.thy ===== *)
theory ValueAtoms
  imports HandlerLaws TypedOps PathFormat JsonRoundtrip
begin

text \<open>
  Where the numbers and strings of a document come from: an operation only moves those of the document
  and its own. \<open>only N S v\<close> says that all numbers in \<open>v\<close> satisfy \<open>N\<close> and all strings and keys \<open>S\<close>. The
  locale \<open>text_class\<close> is what \<open>S\<close> must promise about paths; with it a run of the engine keeps \<open>only\<close>.
  Its interpretation on well-formed UTF-16 shows that the engine maps protocol values to protocol values.
\<close>

primrec only :: "(jsnum \<Rightarrow> bool) \<Rightarrow> (jstring \<Rightarrow> bool) \<Rightarrow> yvalue \<Rightarrow> bool" where
  "only N S YNull \<longleftrightarrow> True"
| "only N S (YBool b) \<longleftrightarrow> True"
| "only N S (YNum n) \<longleftrightarrow> N n"
| "only N S (YStr s) \<longleftrightarrow> S s"
| "only N S (YSeq xs) \<longleftrightarrow> list_all (only N S) xs"
| "only N S (YMap kvs) \<longleftrightarrow> list_all (pred_prod S (only N S)) kvs"

abbreviation only_entries :: "(jsnum \<Rightarrow> bool) \<Rightarrow> (jstring \<Rightarrow> bool) \<Rightarrow> (jstring \<times> yvalue) list \<Rightarrow> bool" where
  "only_entries N S kvs \<equiv> list_all (pred_prod S (only N S)) kvs"

lemma only_entries_iff: "only_entries N S kvs \<longleftrightarrow> (\<forall>(k, v) \<in> set kvs. S k \<and> only N S v)"
  by (auto simp: list_all_iff pred_prod_beta)

lemma only_lookup: "only_entries N S kvs \<Longrightarrow> map_of kvs k = Some v \<Longrightarrow> only N S v"
  by (auto simp: only_entries_iff dest: map_of_SomeD)

lemma only_nth: "list_all (only N S) xs \<Longrightarrow> i < length xs \<Longrightarrow> only N S (xs ! i)"
  by (simp add: list_all_length)

lemma only_obj_set: "only_entries N S m \<Longrightarrow> S k \<Longrightarrow> only N S v \<Longrightarrow> only_entries N S (obj_set m k v)"
  using entries_obj_set [of m k v] by (fastforce simp: only_entries_iff)

lemma only_obj_delete: "only_entries N S m \<Longrightarrow> only_entries N S (obj_delete m k)"
  by (auto simp: only_entries_iff obj_delete_def)

lemma only_obj_set_all: "only_entries N S m \<Longrightarrow> only_entries N S kvs \<Longrightarrow> only_entries N S (obj_set_all m kvs)"
  unfolding obj_set_all_def
  by (induction kvs arbitrary: m) (auto simp: only_obj_set pred_prod_beta)

lemma only_deepClone: "only N S v \<Longrightarrow> only N S (deepClone v)"
proof (induction v rule: yvalue_induct)
  case (Map kvs)
  then have "only_entries N S (map (map_prod id deepClone) kvs)" by (auto simp: only_entries_iff)
  then show ?case by (simp add: only_obj_set_all)
qed (auto simp: list_all_iff)

section \<open>Operations at a path\<close>

fun segment_in :: "(jstring \<Rightarrow> bool) \<Rightarrow> path_segment \<Rightarrow> bool" where
  "segment_in S (SegKey k) = S k"
| "segment_in S (SegIndex n) = True"
| "segment_in S (SegMatch k v) = (S k \<and> S v)"

lemma only_get_child: "only N S d \<Longrightarrow> get_child d s = Some c \<Longrightarrow> only N S c"
  by (auto simp: step_defs intro: only_lookup only_nth split: yvalue.splits path_segment.splits if_splits option.splits
      dest!: find_index_Some)

lemma only_resolve: "only N S d \<Longrightarrow> resolvePathSegments d p = Some v \<Longrightarrow> only N S v"
  by (induction p arbitrary: d) (auto simp: path_op_simps bind_eq_Some_conv dest: only_get_child)

lemma only_put_child: "only N S d \<Longrightarrow> segment_in S s \<Longrightarrow> only N S c \<Longrightarrow> only N S (put_child d s c)"
  by (cases s) (auto simp: put_child_def intro: only_obj_set list_all_list_update split: yvalue.split option.split)

lemma only_del_child: "only N S d \<Longrightarrow> only N S (del_child d s)"
  by (auto simp: del_child_def intro: only_obj_delete list_all_splice1 split: yvalue.split path_segment.split option.split)

lemma only_descend: "descend d s b = Inr c \<Longrightarrow> only N S d \<Longrightarrow> only N S c"
  using descend_get [of d s b c] only_get_child [of N S d s c] by auto

lemma only_setRecursive:
  "setRecursive d p v = Inr r \<Longrightarrow> only N S d \<Longrightarrow> only N S v \<Longrightarrow> list_all (segment_in S) p \<Longrightarrow> only N S r"
proof (induction p arbitrary: d r)
  case (Cons s p)
  then show ?case by (auto simp: path_op_simps split: sum.splits intro!: only_put_child dest: only_descend)
qed (auto simp: only_deepClone)

lemma only_deleteRecursive:
  "deleteRecursive d p = Some r \<Longrightarrow> only N S d \<Longrightarrow> list_all (segment_in S) p \<Longrightarrow> only N S r"
proof (induction p arbitrary: d r)
  case (Cons s p)
  then show ?case
    by (auto simp: path_op_simps split: if_splits option.splits intro!: only_put_child only_del_child dest: only_get_child)
qed simp

lemma only_mutate:
  "only N S d \<Longrightarrow> list_all (segment_in S) p \<Longrightarrow> (\<And>v. only N S v \<Longrightarrow> only N S (f v)) \<Longrightarrow> only N S (mutate_at d p f)"
proof (induction p arbitrary: d)
  case (Cons s p)
  then show ?case by (auto intro!: only_put_child dest: only_get_child split: option.split)
qed simp

section \<open>Handlers\<close>

text \<open>What the strings of an operation and its values must be.\<close>

fun only_op :: "(jsnum \<Rightarrow> bool) \<Rightarrow> (jstring \<Rightarrow> bool) \<Rightarrow> yop \<Rightarrow> bool" where
  "only_op N S (Define p) = S p"
| "only_op N S (Drop p) = S p"
| "only_op N S (Rename p t) = (S p \<and> S t)"
| "only_op N S (SetOp p v) = (S p \<and> only N S v)"
| "only_op N S (Unset p) = S p"
| "only_op N S (Populate p vs) = (S p \<and> only_entries N S vs)"
| "only_op N S (Append p v) = (S p \<and> only N S v)"
| "only_op N S (Move f t) = (S f \<and> S t)"
| "only_op N S (Clone f t) = (S f \<and> S t)"
| "only_op N S (Nest p ks n) = (S p \<and> list_all S ks \<and> S n)"
| "only_op N S (Split p gs) = (S p \<and> list_all (\<lambda>(g, ks). S g \<and> list_all S ks) gs)"
| "only_op N S (Fold p) = S p"
| "only_op N S (Merge p ks n) = (S p \<and> list_all S ks \<and> S n)"
| "only_op N S (Sort p b r) = (S p \<and> pred_option S b)"
| "only_op N S (Unique p b) = (S p \<and> pred_option S b)"
| "only_op N S (Pick p ks) = (S p \<and> list_all S ks)"
| "only_op N S (Omit p ks) = (S p \<and> list_all S ks)"
| "only_op N S (Assert p e x t) = (S p \<and> pred_option (only N S) e)"

definition only_result :: "(jsnum \<Rightarrow> bool) \<Rightarrow> (jstring \<Rightarrow> bool) \<Rightarrow> op_result \<Rightarrow> bool" where
  "only_result N S r \<longleftrightarrow> (case r of OpResult d e \<Rightarrow> only N S d | Throws \<Rightarrow> True)"

lemma only_result_simps [simp]:
  "only_result N S Throws" "only_result N S (ok d) \<longleftrightarrow> only N S d" "only_result N S (fail d c i) \<longleftrightarrow> only N S d"
  by (simp_all add: only_result_def ok_def fail_def)

lemma only_written: "(\<And>d. r = Inr d \<Longrightarrow> only N S d) \<Longrightarrow> only_result N S (written r)"
  by (cases r) (simp_all add: written_def)

locale text_class =
  fixes N :: "jsnum \<Rightarrow> bool" and S :: "jstring \<Rightarrow> bool"
  assumes segments: "S p \<Longrightarrow> list_all (segment_in S) (parsePath p)"
    and child: "S p \<Longrightarrow> S k \<Longrightarrow> S (key_path p k)"
    and parent: "S p \<Longrightarrow> splitLastKeyPath p = Some (q, k) \<Longrightarrow> S q"
begin

lemma set_path: "setAtPath d p v = Inr r \<Longrightarrow> only N S d \<Longrightarrow> only N S v \<Longrightarrow> S p \<Longrightarrow> only N S r"
  using only_setRecursive [of "deepClone d" "parsePath p" v r N S] segments [of p]
  by (auto simp: setAtPath_def setAtPathSegments_def only_deepClone split: if_splits)

lemma set_segments: "setAtPathSegments d segs v = Inr r \<Longrightarrow> only N S d \<Longrightarrow> only N S v \<Longrightarrow>
    list_all (segment_in S) segs \<Longrightarrow> only N S r"
  using only_setRecursive [of "deepClone d" segs v r N S]
  by (auto simp: setAtPathSegments_def only_deepClone split: if_splits)

lemma delete_segments: "deleteAtPathSegments d segs = Some r \<Longrightarrow> only N S d \<Longrightarrow> list_all (segment_in S) segs \<Longrightarrow> only N S r"
  using only_deleteRecursive [of "deepClone d" segs r N S]
  by (auto simp: deleteAtPathSegments_def only_deepClone split: if_splits option.splits)

lemma delete_path: "deleteAtPath d p = Some r \<Longrightarrow> only N S d \<Longrightarrow> S p \<Longrightarrow> only N S r"
  using delete_segments segments by (simp add: deleteAtPath_def)

lemma resolve_path: "resolvePath d p = Some v \<Longrightarrow> only N S d \<Longrightarrow> only N S v"
  by (auto simp: resolvePath_def intro: only_resolve)

lemma last_key_in: "S p \<Longrightarrow> parsePath p \<noteq> [] \<Longrightarrow> last (parsePath p) = SegKey k \<Longrightarrow> S k"
  using segments [of p] last_in_set [of "parsePath p"] by (auto simp: list_all_iff)

lemma parent_in: "S p \<Longrightarrow> list_all (segment_in S) (butlast (parsePath p))"
  using segments [of p] by (auto simp: list_all_iff dest: in_set_butlastD)

lemma delete_one_only: "only N S d \<Longrightarrow> S p \<Longrightarrow> S k \<Longrightarrow> only N S (delete_if_present p d k)"
  by (auto simp: delete_if_present_def child split: option.split intro: delete_path)

lemma delete_keys_only: "only N S d \<Longrightarrow> S p \<Longrightarrow> list_all S ks \<Longrightarrow> only N S (delete_keys d p ks)"
  unfolding delete_keys_def by (induction ks arbitrary: d) (simp_all add: delete_one_only)

lemma populate_only: "populate_loop d p vs = Inr r \<Longrightarrow> only N S d \<Longrightarrow> S p \<Longrightarrow> only_entries N S vs \<Longrightarrow> only N S r"
proof (induction d p vs rule: populate_loop.induct)
  case (2 d p k v vs)
  then show ?case using set_path [of d "key_path p k" v] child [of p k] by (auto split: sum.splits)
qed simp

lemma groups_only: "create_groups d p gs = Inr r \<Longrightarrow> only N S d \<Longrightarrow> S p \<Longrightarrow> only_entries N S gs \<Longrightarrow> only N S r"
proof (induction d p gs rule: create_groups.induct)
  case (2 d p k v gs)
  then show ?case using set_path [of d "key_path p k" v] child [of p k] by (auto split: sum.splits)
qed simp

lemma present_only: "only_entries N S m \<Longrightarrow> has_own m k \<Longrightarrow> only N S (the (map_of m k))"
  by (auto simp: has_own_def dest: only_lookup)

lemma sub_mapping_only:
  assumes "only_entries N S m" "list_all S ks" "\<not> list_ex (\<lambda>k. \<not> has_own m k) ks"
  shows "only_entries N S (sub_mapping m ks)"
  unfolding sub_mapping_def
  by (rule only_obj_set_all) (use assms present_only [OF assms(1)] in \<open>auto simp: list_all_iff list_ex_iff intro!: only_deepClone\<close>)

lemma merged_only:
  assumes "only_entries N S m" "list_all S ks" "\<not> list_ex (\<lambda>k. \<not> has_own m k) ks"
  shows "only_entries N S (merged_mapping m ks)"
proof -
  have "only_entries N S (entries_of (deepClone (the (map_of m k))))" if "k \<in> set ks" for k
  proof -
    have "only N S (deepClone (the (map_of m k)))"
      using assms that by (intro only_deepClone present_only) (auto simp: list_ex_iff)
    then show ?thesis by (cases "deepClone (the (map_of m k))") (simp_all add: entries_of_def)
  qed
  then show ?thesis
    unfolding merged_mapping_def by (intro only_obj_set_all) (auto simp: list_all_iff)
qed

lemma keep_only: "only_entries N S m \<Longrightarrow> only_entries N S (keep_entries P m)"
  unfolding keep_entries_def by (rule only_obj_set_all) (auto simp: only_entries_iff only_deepClone)

lemma renamed_only: "only_entries N S m \<Longrightarrow> S t \<Longrightarrow> only_entries N S (renamed_entries k t m)"
  unfolding renamed_entries_def by (rule only_obj_set_all) (auto simp: only_entries_iff)

lemma unique_only: "list_all (only N S) xs \<Longrightarrow> list_all (only N S) (unique_loop by seen xs)"
  by (induction "by" seen xs rule: unique_loop.induct) (simp_all add: Let_def only_deepClone)

subsection \<open>Each handler\<close>

lemma define_only: "only N S d \<Longrightarrow> S p \<Longrightarrow> only_result N S (defineHandler d p i)"
  using parent_in [of p] last_key_in [of p]
  by (auto simp: defineHandler_def Let_def split: option.split yvalue.split path_segment.split
      intro!: only_mutate only_deepClone only_obj_set)

lemma rename_only: "only N S d \<Longrightarrow> S p \<Longrightarrow> S t \<Longrightarrow> only_result N S (renameHandler d p t i)"
  using parent_in [of p]
  by (auto simp: renameHandler_def Let_def split: option.split yvalue.split path_segment.split
      intro!: only_mutate only_deepClone renamed_only)

lemma place_only:
  assumes d: "only N S d"
  shows "S p \<Longrightarrow> only_result N S (dropHandler d p i)"
    and "S p \<Longrightarrow> only N S v \<Longrightarrow> only_result N S (setHandler d p v i)"
    and "S p \<Longrightarrow> only_result N S (unsetHandler d p i)"
    and "S p \<Longrightarrow> only_entries N S vs \<Longrightarrow> only_result N S (populateHandler d p vs i)"
    and "S f \<Longrightarrow> S t \<Longrightarrow> only_result N S (moveHandler d f t i)"
    and "S f \<Longrightarrow> S t \<Longrightarrow> only_result N S (cloneHandler d f t i)"
    and "S p \<Longrightarrow> only N S v \<Longrightarrow> only_result N S (appendHandler d p v i)"
proof -
  show "S p \<Longrightarrow> only_result N S (dropHandler d p i)"
    using d by (auto simp: dropHandler_def split: option.split intro: delete_path)
  show "S p \<Longrightarrow> only N S v \<Longrightarrow> only_result N S (setHandler d p v i)"
    using d by (auto simp: setHandler_def split: sum.split intro: set_path)
  show "S p \<Longrightarrow> only_result N S (unsetHandler d p i)"
    using d segments [of p]
    by (auto simp: unsetHandler_def Let_def only_deepClone split: option.split yvalue.split intro: delete_segments)
  show "S p \<Longrightarrow> only_entries N S vs \<Longrightarrow> only_result N S (populateHandler d p vs i)"
    using d by (auto simp: populateHandler_def split: option.split yvalue.split sum.split intro: populate_only)
  show "S f \<Longrightarrow> S t \<Longrightarrow> only_result N S (moveHandler d f t i)"
    using d by (auto simp: moveHandler_def split: option.split sum.split
        dest!: set_path [OF _ only_deepClone resolve_path] intro: delete_path)
  show "S f \<Longrightarrow> S t \<Longrightarrow> only_result N S (cloneHandler d f t i)"
    using d by (auto simp: cloneHandler_def split: option.split intro!: only_written
        dest: set_path [OF _ _ only_deepClone [OF resolve_path]])
  show "only_result N S (appendHandler d p v i)" if v: "S p" "only N S v"
  proof (cases "resolvePath d p")
    case (Some x)
    have "only N S x" by (rule resolve_path [OF Some d])
    then show ?thesis
      using d v by (cases x) (auto simp: appendHandler_def Some only_deepClone intro!: only_written intro: set_path)
  qed (simp add: appendHandler_def d)
qed

lemma fold_only:
  assumes d: "only N S d" and p: "S p"
  shows "only_result N S (foldHandler d p i)"
proof (cases "\<exists>k c. resolvePathSegments d (parsePath p) = Some (YMap [(k, c)])")
  case True
  then obtain k c where r: "resolvePathSegments d (parsePath p) = Some (YMap [(k, c)])" by blast
  have kc: "S k" "only N S c" using only_resolve [OF d r] by simp_all
  show ?thesis
  proof (cases "deleteAtPathSegments (deepClone d) (parsePath p)")
    case (Some e)
    have e: "only N S e" by (rule delete_segments [OF Some only_deepClone [OF d] segments [OF p]])
    have "only N S x" if "setAtPathSegments e (butlast (parsePath p) @ [SegKey k]) (deepClone c) = Inr x" for x
      using set_segments [OF that e only_deepClone [OF kc(2)]] parent_in [OF p] kc(1) by simp
    then show ?thesis by (simp add: foldHandler_def Let_def r Some only_written)
  qed (simp add: foldHandler_def Let_def r d)
next
  case False
  then show ?thesis
    using d by (auto simp: foldHandler_def Let_def split: option.split yvalue.split list.split)
qed

lemma written_only: "only N S d \<Longrightarrow> S p \<Longrightarrow> only N S v \<Longrightarrow> only_result N S (written (setAtPath d p v))"
  by (blast intro: only_written set_path)

lemma mapping_only:
  assumes d: "only N S d" and p: "S p" and m: "resolvePath d p = Some (YMap m)"
  shows "list_all S ks \<Longrightarrow> S n \<Longrightarrow> only_result N S (nestHandler d p ks n i)"
    and "list_all S ks \<Longrightarrow> S n \<Longrightarrow> only_result N S (mergeHandler d p ks n i)"
    and "only_result N S (pickHandler d p ks i)" and "only_result N S (omitHandler d p ks i)"
    and "list_all (\<lambda>(g, ks). S g \<and> list_all S ks) gs \<Longrightarrow> only_result N S (splitHandler d p gs i)"
proof -
  have e: "only_entries N S m" using resolve_path [OF m d] by simp
  note cl = only_deepClone [OF d]
  show "list_all S ks \<Longrightarrow> S n \<Longrightarrow> only_result N S (nestHandler d p ks n i)"
    by (simp add: nestHandler_def m d written_only delete_keys_only cl p child sub_mapping_only e)
  show "list_all S ks \<Longrightarrow> S n \<Longrightarrow> only_result N S (mergeHandler d p ks n i)"
    by (simp add: mergeHandler_def m d written_only delete_keys_only cl p child merged_only e)
  show "only_result N S (pickHandler d p ks i)" "only_result N S (omitHandler d p ks i)"
    by (simp_all add: pickHandler_def omitHandler_def m written_only d p keep_only e)
  show "only_result N S (splitHandler d p gs i)" if gs: "list_all (\<lambda>(g, ks). S g \<and> list_all S ks) gs"
  proof (cases "list_ex (\<lambda>k. \<not> has_own m k) (concat (map snd gs))")
    case False
    have ks: "list_all S (remdups (concat (map snd gs)))" using gs by (auto simp: list_all_iff)
    have "only_entries N S (map (\<lambda>(g, ks). (g, YMap (sub_mapping m ks))) gs)"
      unfolding only_entries_iff
    proof clarsimp
      fix g ks
      assume g: "(g, ks) \<in> set gs"
      then have "\<not> list_ex (\<lambda>k. \<not> has_own m k) ks" using False by (fastforce simp: list_ex_iff)
      with g gs show "S g \<and> only_entries N S (sub_mapping m ks)" by (auto simp: list_all_iff [of _ gs] intro!: sub_mapping_only [OF e])
    qed
    then have "only_entries N S (obj_build (map (\<lambda>(g, ks). (g, YMap (sub_mapping m ks))) gs))"
      by (intro only_obj_set_all) simp_all
    with delete_keys_only [OF cl p ks] p show ?thesis
      by (simp add: splitHandler_def Let_def m d) (blast intro: only_written groups_only)
  qed (simp add: splitHandler_def Let_def m d)
qed

lemma sequence_only:
  assumes d: "only N S d" and p: "S p" and xs: "resolvePath d p = Some (YSeq xs)"
  shows "only_result N S (sortHandler d p by r i)" "only_result N S (uniqueHandler d p by i)"
proof -
  have e: "list_all (only N S) xs" using resolve_path [OF xs d] by simp
  then have "only N S (YSeq (js_sort cmp (map deepClone xs)))" for cmp by (auto simp: list_all_iff only_deepClone)
  then show "only_result N S (sortHandler d p by r i)"
    by (simp add: sortHandler_def Let_def xs d written_only p del: only.simps)
  show "only_result N S (uniqueHandler d p by i)"
    by (simp add: uniqueHandler_def xs d written_only p unique_only e)
qed

lemma no_mapping_only:
  assumes "only N S d" "\<nexists>m. resolvePath d p = Some (YMap m)"
  shows "only_result N S (nestHandler d p ks n i)" "only_result N S (mergeHandler d p ks n i)"
    "only_result N S (pickHandler d p ks i)" "only_result N S (omitHandler d p ks i)" "only_result N S (splitHandler d p gs i)"
  using assms by (auto simp: nestHandler_def mergeHandler_def pickHandler_def omitHandler_def splitHandler_def
      split: option.split yvalue.split)

lemma no_sequence_only:
  assumes "only N S d" "\<nexists>xs. resolvePath d p = Some (YSeq xs)"
  shows "only_result N S (sortHandler d p by r i)" "only_result N S (uniqueHandler d p by i)"
  using assms by (auto simp: sortHandler_def uniqueHandler_def split: option.split yvalue.split)

theorem handle_only:
  assumes d: "only N S d" and op: "only_op N S op"
  shows "only_result N S (handle op d i)"
proof (cases op)
  case (Nest p ks n)
  then show ?thesis using d op mapping_only(1) no_mapping_only(1) by (cases "\<exists>m. resolvePath d p = Some (YMap m)") auto
next
  case (Merge p ks n)
  then show ?thesis using d op mapping_only(2) no_mapping_only(2) by (cases "\<exists>m. resolvePath d p = Some (YMap m)") auto
next
  case (Pick p ks)
  then show ?thesis using d op mapping_only(3) no_mapping_only(3) by (cases "\<exists>m. resolvePath d p = Some (YMap m)") auto
next
  case (Omit p ks)
  then show ?thesis using d op mapping_only(4) no_mapping_only(4) by (cases "\<exists>m. resolvePath d p = Some (YMap m)") auto
next
  case (Split p gs)
  then show ?thesis using d op mapping_only(5) no_mapping_only(5) by (cases "\<exists>m. resolvePath d p = Some (YMap m)") auto
next
  case (Sort p b r)
  then show ?thesis using d op sequence_only(1) no_sequence_only(1) by (cases "\<exists>xs. resolvePath d p = Some (YSeq xs)") auto
next
  case (Unique p b)
  then show ?thesis using d op sequence_only(2) no_sequence_only(2) by (cases "\<exists>xs. resolvePath d p = Some (YSeq xs)") auto
next
  case (Assert p e x t)
  then show ?thesis using d by (simp add: assertHandler_def Let_def)
qed (use d op in \<open>simp_all add: define_only rename_only place_only fold_only\<close>)

end

section \<open>Runs\<close>

text \<open>A successful step on a typed operation is its handler, whatever Zod is.\<close>

lemma raw_step:
  assumes "step_op yops_registry acc (op_value op src) d i = (Inr r, ws)"
  shows "handle op d i = OpResult r None"
proof -
  obtain n h flds where g: "guards yops_registry acc (op_value op src) n flds" "reg_handlers yops_registry n = Some h"
    "h d flds i = OpResult r None"
    using assms yops.step_iff [of acc "op_value op src" d i r] by blast
  have n: "n = u (op_name op)" using g(1) op_resolves [of op src] by (auto simp: guards_def)
  then have "flds = op_fields op" using g(1) by (auto simp: guards_def op_value_def)
  moreover have "h = handler_for n" using g(2) yops_registry_spec by (simp split: if_splits)
  ultimately show ?thesis using g(3) n by (simp add: handler_for_def decode_op_fields)
qed

context text_class begin

lemma runs_only:
  "runs yops_registry acc i d vs r \<Longrightarrow> vs = map sourced ops \<Longrightarrow> (\<And>e. \<exists>src. sourced e = op_value (f e) src) \<Longrightarrow>
     only N S d \<Longrightarrow> list_all (\<lambda>e. only_op N S (f e)) ops \<Longrightarrow> only N S r"
proof (induction arbitrary: ops rule: runs.induct)
  case (runs_Cons op d i d' ws vs r)
  then obtain e es where e: "op = sourced e" "vs = map sourced es" "ops = e # es" by auto
  obtain src where "sourced e = op_value (f e) src" using runs_Cons.prems(2) by blast
  with runs_Cons.hyps(1) e(1) have "handle (f e) d i = OpResult d' None" using raw_step by simp
  then have "only N S d'" using handle_only [of d "f e" i] runs_Cons.prems(3,4) e(3) by (simp add: only_result_def)
  with runs_Cons e show ?case by simp
qed simp

end

section \<open>Paths of well-formed UTF-16\<close>

abbreviation plain_unit :: "code_unit \<Rightarrow> bool" where
  "plain_unit c \<equiv> \<not> is_high_surrogate c \<and> \<not> is_low_surrogate c"

lemma well_formed_split: "plain_unit c \<Longrightarrow> well_formed (a @ c # b) \<longleftrightarrow> well_formed a \<and> well_formed b"
proof (induction a rule: well_formed.induct)
  case 1
  then show ?case by (cases b) simp_all
next
  case (2 d)
  then show ?case by (cases b) auto
qed auto

text \<open>The text up to the next slash, and the text after it.\<close>

abbreviation before_slash :: "jstring \<Rightarrow> jstring" where
  "before_slash s \<equiv> takeWhile (\<lambda>c. c \<noteq> slash) s"

abbreviation after_slash :: "jstring \<Rightarrow> jstring" where
  "after_slash s \<equiv> drop (Suc 0) (dropWhile (\<lambda>c. c \<noteq> slash) s)"

lemma slash_parts: "well_formed s \<Longrightarrow> well_formed (before_slash s) \<and> well_formed (after_slash s)"
proof -
  assume s: "well_formed s"
  have id: "before_slash s @ dropWhile (\<lambda>c. c \<noteq> slash) s = s" by (rule takeWhile_dropWhile_id)
  show ?thesis
  proof (cases "dropWhile (\<lambda>c. c \<noteq> slash) s")
    case Nil
    with id have "before_slash s = s" by (metis append_Nil2)
    with s Nil show ?thesis by (metis drop_Nil well_formed.simps(1))
  next
    case (Cons c r)
    have "s = before_slash s @ slash # r" using id Cons dropWhile_hd [OF Cons] by simp
    moreover have "plain_unit slash" by simp
    ultimately show ?thesis using well_formed_split [of slash "before_slash s" r] s Cons by (metis drop0 drop_Suc_Cons)
  qed
qed

lemma read_quoted_well_formed:
  "read_quoted start i s value = Inr (v, j, r) \<Longrightarrow> well_formed (value @ s) \<Longrightarrow> well_formed v \<and> well_formed r"
proof (induction start i s "value" rule: read_quoted.induct)
  case (2 start i c "value")
  then show ?case using well_formed_split [of c "value" "[]"] by (auto split: if_splits)
next
  case (3 start i c d r "value")
  have q: "plain_unit dquote" "plain_unit bslash" by simp_all
  show ?case
  proof (cases "c = bslash")
    case True
    then have d: "d = dquote \<or> d = bslash" "read_quoted start (i + 2) r (value @ [d]) = Inr (v, j, r)
        \<or> read_quoted start (i + 2) r (value @ [d]) \<noteq> Inr (v, j, r)"
      using 3(3) by (auto split: if_splits)
    have pd: "plain_unit d" using d(1) q by auto
    have "well_formed (value @ d # r)"
      using 3(4) True well_formed_split [of c "value" "d # r"] well_formed_split [OF pd, of "[]" r]
        well_formed_split [OF pd, of "value" r] by simp
    then show ?thesis using 3 True d(1) by (auto split: if_splits)
  next
    case False
    show ?thesis
    proof (cases "c = dquote")
      case True
      then show ?thesis using 3(3,4) False well_formed_split [of c "value" "d # r"] by auto
    next
      case False
      then show ?thesis using 3 \<open>c \<noteq> bslash\<close> by simp
    qed
  qed
qed simp

lemma match_in: "match_regex raw = Some (k, v) \<Longrightarrow> well_formed raw \<Longrightarrow> well_formed k \<and> well_formed v"
  using match_regex_parts [of raw k v] well_formed_split [of lbracket "[]" "k @ equals_sign # v @ [rbracket]"]
    well_formed_split [of equals_sign k "v @ [rbracket]"] well_formed_split [of rbracket v "[]"] by simp

lemma replace_well_formed:
  "plain_unit a \<Longrightarrow> plain_unit b \<Longrightarrow> well_formed s \<Longrightarrow> well_formed (replaceAll a [b, a] s)"
proof (induction s rule: well_formed.induct)
  case (2 c)
  then show ?case by (auto simp: replaceAll_def)
next
  case (3 c d r)
  have r: "replaceAll a [b, a] (x # s) = (if x = a then [b, a] else [x]) @ replaceAll a [b, a] s" for x s
    by (simp add: replaceAll_def)
  show ?case
  proof (cases "is_high_surrogate c")
    case True
    then have "c \<noteq> a" "d \<noteq> a" "is_low_surrogate d" using 3 by auto
    then show ?thesis using 3 True by (simp add: r)
  next
    case False
    then have "well_formed (replaceAll a [b, a] (d # r))" "plain_unit c" using 3 by simp_all
    moreover have "well_formed (x # t) \<longleftrightarrow> well_formed t" if "plain_unit x" for x t
      using well_formed_split [OF that, of "[]" t] by simp
    ultimately show ?thesis using 3(3,4) by (subst r) auto
  qed
qed (simp add: replaceAll_def)

lemma format_well_formed: "segment_in well_formed seg \<Longrightarrow> well_formed (formatPathSegment seg)"
proof (cases seg)
  case (SegIndex n)
  have "well_formed (dec_digits n)"
  proof (rule well_formed_plain)
    have "plain_unit c" if "is_digit c" for c
      using that by (auto simp: is_digit_def is_high_surrogate_def is_low_surrogate_def)
    then show "list_all plain_unit (dec_digits n)" using dec_digits_digits [of n] by (auto simp: list_all_iff)
  qed
  then show ?thesis by (simp add: formatPathSegment_def SegIndex well_formed_cu well_formed_append)
qed (simp_all add: formatPathSegment_def well_formed_cu well_formed_append replace_well_formed)

lemma read_segment_well_formed:
  assumes "read_segment i s = Inr (seg, j, r)" "well_formed s"
  shows "segment_in well_formed seg \<and> well_formed (before_slash r) \<and> well_formed (after_slash r)"
proof (cases "hd s = dquote \<and> s \<noteq> []")
  case True
  then obtain t where t: "s = dquote # t" by (cases s) simp_all
  then obtain v where v: "read_quoted i (i + 1) t [] = Inr (v, j, r)" "seg = SegKey v"
    using assms(1) by (auto simp: read_segment_def split: sum.splits)
  have "well_formed t" using assms(2) well_formed_split [of dquote "[]" t] by (simp add: t)
  then have "well_formed v \<and> well_formed r" using read_quoted_well_formed [OF v(1)] by simp
  then show ?thesis using slash_parts [of r] by (simp add: v(2))
next
  case False
  show ?thesis
  proof (cases "hd s = dquote")
    case True
    then have "s = []" using False by simp
    then show ?thesis using assms(1) True by (auto simp: read_segment_def split: sum.splits)
  next
    case False
    let ?t = "takeWhile (\<lambda>c. c \<noteq> slash) s" and ?r = "dropWhile (\<lambda>c. c \<noteq> slash) s"
    note w = slash_parts [OF assms(2)]
    have r: "classifyStrictRawSegment ?t i = Inr seg" "r = ?r"
      using assms(1) False by (auto simp: read_segment_def Let_def split: sum.splits)
    have "segment_in well_formed seg"
      using r(1) w match_in by (auto simp: classifyStrictRawSegment_def split: if_splits option.splits)
    moreover have "takeWhile (\<lambda>c. c \<noteq> slash) ?r = [] \<and> dropWhile (\<lambda>c. c \<noteq> slash) ?r = ?r"
    proof (cases "?r = []")
      case False
      then obtain c t where "?r = c # t" by (cases ?r) simp_all
      with dropWhile_hd [OF this] show ?thesis by simp
    qed (simp only: takeWhile.simps dropWhile.simps simp_thms)
    ultimately show ?thesis using w by (simp add: r(2))
  qed
qed

lemma parse_loop_well_formed:
  "parse_loop i s segs = Inr out \<Longrightarrow> well_formed s \<Longrightarrow> list_all (segment_in well_formed) segs \<Longrightarrow>
     list_all (segment_in well_formed) out"
proof (induction i s segs arbitrary: out rule: parse_loop.induct)
  case (1 i s segs)
  show ?case
  proof (cases "s = []")
    case False
    then obtain seg j rest where r: "read_segment i s = Inr (seg, j, rest)"
      using 1(2) by (subst (asm) parse_loop.simps) (auto split: sum.splits)
    note w = read_segment_well_formed [OF r 1(3)]
    show ?thesis
    proof (cases "rest = []")
      case True
      then show ?thesis using 1(2,4) False r w by (subst (asm) parse_loop.simps) auto
    next
      case rest: False
      let ?t = "takeWhile (\<lambda>c. c \<noteq> slash) rest" and ?r = "dropWhile (\<lambda>c. c \<noteq> slash) rest"
      let ?seg = "if hd rest \<noteq> slash then (case seg of SegKey v \<Rightarrow> SegKey (v @ ?t) | _ \<Rightarrow> SegKey ?t) else seg"
      have "segment_in well_formed ?seg" using w by (auto intro: well_formed_append split: path_segment.split)
      moreover have "parse_loop (j + length ?t + (if ?r \<noteq> [] then 1 else 0)) (drop 1 ?r) (segs @ [?seg]) = Inr out"
        using 1(2) False r rest by (subst (asm) parse_loop.simps) (auto simp: Let_def)
      ultimately show ?thesis
        using 1(1) [OF False r refl refl rest refl refl refl refl] 1(4) w by simp
    qed
  qed (use 1 in \<open>subst (asm) (2) parse_loop.simps; auto\<close>)
qed

lemma split_slash_well_formed: "well_formed s \<Longrightarrow> list_all well_formed (split_slash s)"
proof (induction "length s" arbitrary: s rule: less_induct)
  case less
  let ?t = "takeWhile (\<lambda>c. c \<noteq> slash) s" and ?r = "dropWhile (\<lambda>c. c \<noteq> slash) s"
  have s: "split_slash s = (if ?r = [] then [?t] else ?t # split_slash (drop (Suc 0) ?r))"
    by (induction s) (auto split: list.splits)
  have l: "length (drop (Suc 0) ?r) < length s" if "?r \<noteq> []"
    using that length_dropWhile_le [of "\<lambda>c. c \<noteq> slash" s] by (cases ?r) simp_all
  show ?case
  proof (cases "?r = []")
    case True
    have "split_slash s = [?t]" by (subst s) (simp only: True if_True simp_thms)
    then show ?thesis using slash_parts [OF less.prems] by simp
  next
    case False
    have "split_slash s = ?t # split_slash (drop (Suc 0) ?r)" by (subst s) (simp only: False if_False)
    then show ?thesis using slash_parts [OF less.prems] less.hyps [OF l [OF False]] by simp
  qed
qed

lemma parsePath_well_formed: "well_formed p \<Longrightarrow> list_all (segment_in well_formed) (parsePath p)"
proof (cases "tryParsePath p")
  case (Inr segs)
  assume "well_formed p"
  then show ?thesis
    using Inr parse_loop_well_formed [of 0 p "[]" segs] by (auto simp: parsePath_def tryParsePath_def split: if_splits)
next
  case (Inl e)
  assume p: "well_formed p"
  have "segment_in well_formed (classifyRawSegment raw)" if "well_formed raw" for raw
    using that match_in by (auto simp: classifyRawSegment_def split: option.split)
  then show ?thesis
    using split_slash_well_formed [OF p] by (auto simp: parsePath_def Inl list_all_iff)
qed

interpretation unicode_text: text_class is_double well_formed
proof
  show "list_all (segment_in well_formed) (parsePath p)" if "well_formed p" for p
    by (rule parsePath_well_formed [OF that])
  show "well_formed (key_path p k)" if "well_formed p" "well_formed k" for p k
    using that by (auto simp: key_path_def intro: well_formed_append well_formed_cu)
  show "well_formed q" if p: "well_formed p" and s: "splitLastKeyPath p = Some (q, k)" for p q k
  proof -
    have "list_all (segment_in well_formed) (butlast (parsePath p))"
      using parsePath_well_formed [OF p] by (auto simp: list_all_iff dest: in_set_butlastD)
    then have "list_all well_formed (map formatPathSegment (butlast (parsePath p)))"
      using format_well_formed by (auto simp: list_all_iff)
    moreover have "q = formatPathSegments (butlast (parsePath p))"
      using s by (auto simp: splitLastKeyPath_def Let_def split: if_splits path_segment.splits)
    ultimately show ?thesis unfolding formatPathSegments_def by (simp add: well_formed_join)
  qed
qed

section \<open>The engine on protocol values\<close>

lemma protocol_only: "protocol_value v \<longleftrightarrow> wf_yvalue v \<and> only is_double well_formed v"
proof -
  have "only is_double well_formed v \<longleftrightarrow> doubles v \<and> unicode_ok v"
  proof (induction v rule: yvalue_induct)
    case (Map kvs)
    then have "only is_double well_formed (snd e) \<longleftrightarrow> doubles (snd e) \<and> unicode_ok (snd e)" if "e \<in> set kvs" for e
      using that by (metis prod.collapse)
    then show ?case by (auto simp: list_all_iff pred_prod_beta split_beta)
  qed (auto simp: list_all_iff)
  then show ?thesis by (simp add: protocol_value_def)
qed

text \<open>An operation whose values and strings belong to the protocol.\<close>

abbreviation protocol_op :: "yop \<Rightarrow> bool" where
  "protocol_op op \<equiv> wf_op op \<and> only_op is_double well_formed op"

lemma field_only:
  assumes "only_entries N S flds" "field cast flds k = Some x"
  shows "\<exists>v. only N S v \<and> cast v = Some x"
  using field_Some [OF assms(2)] only_lookup [OF assms(1)] by blast

lemma decode_only:
  assumes "decode_op n flds = Some op" "only_entries N S flds"
  shows "only_op N S op"
proof -
  note get = field_only [OF assms(2)]
  have str: "S s" if "field as_string flds k = Some s" for k s
    using get [OF that] by (auto elim: as_string.elims)
  have val: "only N S v" if "field Some flds k = Some v" for k v using get [OF that] by auto
  have mapping: "only_entries N S m" if "field as_map flds k = Some m" for k m
    using get [OF that] by (auto elim: as_map.elims)
  have strings: "list_all S ks" if "as_strings v = Some ks" "only N S v" for v ks
    using that by (cases v) (auto simp: as_strings_def all_some_map list_all2_conv_all_nth list_all_length elim!: as_string.elims, force elim: as_string.elims)
  have strs: "list_all S ks" if "field as_strings flds k = Some ks" for k ks using get [OF that] strings by blast
  have groups: "list_all (\<lambda>(g, ks). S g \<and> list_all S ks) gs" if "field as_groups flds k = Some gs" for k gs
  proof -
    obtain v where v: "only N S v" "as_groups v = Some gs"
      using get [OF \<open>field as_groups flds k = Some gs\<close>] by blast
    then obtain m where m: "v = YMap m" by (cases v) (simp_all add: as_groups_def)
    have "list_all2 (\<lambda>e y. map_option (Pair (fst e)) (as_strings (snd e)) = Some y) m gs"
      using v(2) unfolding m as_groups_def by (simp add: all_some_map split_beta)
    then show ?thesis using v(1) strings
      unfolding m by (induction m gs rule: list_all2_induct) (auto simp: pred_prod_beta)
  qed
  have opt: "pred_option (only N S) e" if "opt_field Some flds k = Some e" for k e
    using that only_lookup [OF assms(2), of "u k"] by (cases "map_of flds (u k)") (auto simp: opt_field_def)
  have opt_str: "pred_option S s" if "opt_field as_string flds k = Some s" for k s
    using that only_lookup [OF assms(2), of "u k"] by (auto simp: opt_field_def split: option.splits elim!: as_string.elims)
  have "list_all (\<lambda>(n, d). \<forall>op. d flds = Some op \<longrightarrow> only_op N S op) decoders"
    unfolding decoders_def list.pred_inject prod.case
    by (intro conjI; (simp add: lift_defs bind_eq_Some_conv)?; auto dest: str val mapping strs groups opt opt_str)
  moreover obtain n' d where "(n', d) \<in> set decoders" "d flds = Some op"
    using assms(1) by (auto simp: decode_op_def split: option.splits dest!: map_of_SomeD)
  ultimately show ?thesis by (auto simp: list_all_iff)
qed

lemma only_op_value:
  assumes "only_op N S op" "\<And>s. S (u s)"
  shows "only N S (op_value op None)"
proof -
  have "only_entries N S (op_fields op)"
    using assms by (cases op) (auto simp: opt_entry_def str_seq_def list_all_iff split: option.splits prod.splits)
  then show ?thesis using assms(2) by (simp add: op_value_def opt_entry_def)
qed

text \<open>The protocol values among the operations are those whose parts are.\<close>

lemma protocol_op_value: "protocol_op op \<Longrightarrow> protocol_value (op_value op None)"
  using op_value_wf only_op_value [of is_double well_formed op] by (simp add: protocol_only)

lemma protocol_op_decode: "decode_op n flds = Some op \<Longrightarrow> protocol_value (YMap flds) \<Longrightarrow> protocol_op op"
  using decode_wf [of n flds op] decode_only [of n flds op, where N = is_double and S = well_formed] unfolding protocol_only by simp

text \<open>A run of protocol operations on a protocol document ends in a protocol document.\<close>

theorem protocol_run:
  assumes "protocol_value d" "list_all protocol_op ops" "runs yops_registry acc i d (map (\<lambda>op. op_value op None) ops) r"
  shows "protocol_value r"
proof -
  have wf: "list_all wf_yvalue (map (\<lambda>op. op_value op None) ops)"
    using assms(2) by (auto simp: list_all_iff op_value_wf)
  have "only is_double well_formed r"
    using assms(1,2) unicode_text.runs_only [OF assms(3), of "\<lambda>op. op_value op None" ops "\<lambda>op. op"]
    by (auto simp: protocol_only list_all_iff)
  then show ?thesis using yops.runs_wf [OF assms(3) wf] assms(1) by (simp add: protocol_only)
qed

end
