(* ===== verification/ProfileAtoms.thy ===== *)
theory ProfileAtoms
  imports ValueAtoms RecipeLaws
begin

text \<open>
  The numbers and strings of compiled recipes are those of their inputs, so the operations that
  \<open>compileYOpsOperationsToPrimitiveProfile\<close> emits for protocol values are protocol values.
\<close>

fun only_path_value :: "(jsnum \<Rightarrow> bool) \<Rightarrow> (jstring \<Rightarrow> bool) \<Rightarrow> path_value \<Rightarrow> bool" where
  "only_path_value N S (Present v) = only N S v"
| "only_path_value N S Absent = True"

fun only_input :: "(jsnum \<Rightarrow> bool) \<Rightarrow> (jstring \<Rightarrow> bool) \<Rightarrow> recipe_input \<Rightarrow> bool" where
  "only_input N S (ReplacePath p b t) = (S p \<and> only_path_value N S b \<and> only_path_value N S t)"
| "only_input N S (ClonePath f t v d) = (S f \<and> S t \<and> only N S v)"
| "only_input N S (MovePath f t v d) = (S f \<and> S t \<and> only N S v)"
| "only_input N S (RenameKey p b f t) = (S p \<and> S t \<and> only N S b)"
| "only_input N S (AppendItem p b v) = (S p \<and> only N S b \<and> only N S v)"
| "only_input N S (PickKeys p b ks) = (S p \<and> only N S b \<and> list_all S ks)"
| "only_input N S (OmitKeys p b ks) = (S p \<and> only N S b)"
| "only_input N S (PopulateMapping p b vs) = (S p \<and> only N S b \<and> only_entries N S vs)"
| "only_input N S (NestKeys p b ks n) = (S p \<and> only N S b \<and> list_all S ks \<and> S n)"
| "only_input N S (SplitGroups p b gs) = (S p \<and> only N S b \<and> list_all (\<lambda>(g, ks). S g \<and> list_all S ks) gs)"
| "only_input N S (FoldChild p q b) = (S q \<and> only N S b)"
| "only_input N S (MergeKeys p b ks n) = (S p \<and> only N S b \<and> S n)"
| "only_input N S (SortSequence p b k r) = (S p \<and> only N S b)"
| "only_input N S (UniqueSequence p b k) = (S p \<and> only N S b)"

section \<open>Values of the compilers\<close>

lemma only_clone: "only N S v \<Longrightarrow> only N S (cloneYValue v)"
  by (simp add: cloneYValue_def only_deepClone)

lemma only_obj_assign: "only_entries N S m \<Longrightarrow> S k \<Longrightarrow> only N S v \<Longrightarrow> only_entries N S (obj_assign m k v)"
  by (simp add: obj_assign_def only_obj_set)

lemma only_assign_all: "only_entries N S m \<Longrightarrow> only_entries N S kvs \<Longrightarrow> only_entries N S (assign_all m kvs)"
  unfolding assign_all_def by (induction kvs arbitrary: m) (auto simp: only_obj_assign pred_prod_beta)

lemma only_rest_entries: "only_entries N S m \<Longrightarrow> only_entries N S (rest_entries ks m)"
  unfolding rest_entries_def by (rule only_assign_all) (auto simp: only_entries_iff only_clone)

lemma only_key_entries:
  assumes "only_entries N S m" "list_all S ks" "\<And>k. k \<in> set ks \<Longrightarrow> has_own m k"
  shows "only_entries N S (key_entries ks m)"
  unfolding key_entries_def
proof (rule only_assign_all)
  have "only N S (the (map_of m k))" if "k \<in> set ks" for k
    using assms(3) [OF that] only_lookup [OF assms(1)] by (auto simp: has_own_def)
  then show "only_entries N S (map (\<lambda>k. (k, cloneYValue (the (map_of m k)))) ks)"
    using assms(2) by (auto simp: only_entries_iff list_all_iff only_clone)
qed simp

lemma key_list_ok: "assertMappingKeyList out ks m = Inr out' \<Longrightarrow> out' = out @ ks \<and> (\<forall>k \<in> set ks. has_own m k)"
proof (induction ks arbitrary: out)
  case (Cons k ks)
  then have "assertMappingKeyList (out @ [k]) ks m = Inr out'" "has_own m k" by (auto split: if_splits)
  with Cons.IH [of "out @ [k]"] show ?case by simp
qed simp

lemma split_sources_ok: "split_sources seen ks m = Inr seen' \<Longrightarrow> \<forall>k \<in> set ks. has_own m k"
  by (induction ks arbitrary: seen) (auto split: if_splits)

lemma merge_sources_only:
  "merge_sources merged ks m = Inr r \<Longrightarrow> only_entries N S merged \<Longrightarrow> only_entries N S m \<Longrightarrow>
     (\<And>k. k \<in> set ks \<Longrightarrow> has_own m k) \<Longrightarrow> only_entries N S r"
proof (induction ks arbitrary: merged)
  case (Cons k ks)
  from Cons.prems(1) obtain v where v: "the (map_of m k) = YMap v"
    "merge_sources (assign_all merged (map (\<lambda>(k, w). (k, cloneYValue w)) v)) ks m = Inr r"
    by (auto simp: assertMappingValue_def split: yvalue.splits)
  have "only N S (the (map_of m k))"
    using Cons.prems(4) [of k] only_lookup [OF Cons.prems(3)] by (auto simp: has_own_def)
  then have "only_entries N S (assign_all merged (map (\<lambda>(k, w). (k, cloneYValue w)) v))"
    using Cons.prems(2) unfolding v(1) by (intro only_assign_all) (auto simp: only_entries_iff only_clone)
  then show ?case using Cons.IH [OF v(2)] Cons.prems(3,4) by simp
qed simp

lemma only_unique_items: "list_all (only N S) xs \<Longrightarrow> list_all (only N S) (unique_items by seen xs)"
  by (induction "by" seen xs rule: unique_items.induct) (simp_all add: Let_def only_clone)

lemma only_replacement:
  "S p \<Longrightarrow> only N S b \<Longrightarrow> only N S t \<Longrightarrow> list_all (only_op N S) (mappingPathReplacement p b t)"
  by (simp add: mappingPathReplacement_def only_clone)

lemma only_assert_set: "S p \<Longrightarrow> only N S b \<Longrightarrow> only N S t \<Longrightarrow> list_all (only_op N S) (assert_set p b t)"
  by (simp add: assert_set_def only_clone)

lemma mapping_value_ok: "assertMappingValue v = Inr m \<longleftrightarrow> v = YMap m"
  by (cases v) (simp_all add: assertMappingValue_def)

lemma sequence_value_ok: "assertSequenceValue v = Inr xs \<longleftrightarrow> v = YSeq xs"
  by (cases v) (simp_all add: assertSequenceValue_def)

lemmas compile_oks = mapping_value_ok sequence_value_ok bind_sum_Inr

lemma only_renamed: "only_entries N S m \<Longrightarrow> S t \<Longrightarrow> only_entries N S (map (\<lambda>(k, v). (if k = f then t else k, cloneYValue v)) m)"
  by (auto simp: only_entries_iff only_clone)

lemma only_populated:
  assumes "cloneYValue (YMap m) = YMap m'" "only_entries N S m" "only_entries N S vs"
  shows "only_entries N S (assign_all m' (map (\<lambda>(k, v). (k, cloneYValue v)) vs))"
proof (rule only_assign_all)
  show "only_entries N S m'" using only_clone [of N S "YMap m"] assms(1,2) by simp
qed (use assms(3) in \<open>auto simp: only_entries_iff only_clone\<close>)

lemma split_only:
  assumes "compileYOpsMappingSplit p b gs = Inr ops" "S p" "only N S b" "list_all (\<lambda>(g, ks). S g \<and> list_all S ks) gs"
  shows "list_all (only_op N S) ops"
proof -
  from assms(1) obtain m seen where m: "b = YMap m" "split_sources [] (concat (map snd gs)) m = Inr seen"
    "ops = mappingPathReplacement p b (YMap (assign_all (rest_entries seen m) (map (\<lambda>(g, ks). (g, YMap (key_entries ks m))) gs)))"
    by (auto simp: compileYOpsMappingSplit_def compile_oks)
  have e: "only_entries N S m" using assms(3) by (simp add: m(1))
  have "only_entries N S (map (\<lambda>(g, ks). (g, YMap (key_entries ks m))) gs)"
    unfolding only_entries_iff
  proof clarsimp
    fix g ks
    assume g: "(g, ks) \<in> set gs"
    then have "has_own m k" if "k \<in> set ks" for k using split_sources_ok [OF m(2)] that by fastforce
    then show "S g \<and> only_entries N S (key_entries ks m)"
      using g assms(4) only_key_entries [OF e, of ks] by (auto simp: list_all_iff [of _ gs])
  qed
  then show ?thesis
    unfolding m(3) using assms(2,3) e by (intro only_replacement) (simp_all add: only_assign_all only_rest_entries)
qed

lemma fold_compile_only:
  assumes "compileYOpsMappingFold p q b = Inr ops" "S q" "only N S b"
  shows "list_all (only_op N S) ops"
proof -
  from assms(1) obtain m fk folded where f: "b = YMap m" "has_own m fk" "the (map_of m fk) = YMap folded"
    "(case folded of [(ck, child)] \<Rightarrow> Inr (mappingPathReplacement q b
        (YMap (obj_assign (rest_entries [fk] m) ck (cloneYValue child)))) | _ \<Rightarrow> Inl NotOneChild) = Inr ops"
    by (auto simp: compileYOpsMappingFold_def compile_oks Let_def split: if_splits path_segment.splits)
  then obtain ck child where m: "b = YMap m" "has_own m fk" "the (map_of m fk) = YMap [(ck, child)]"
    "ops = mappingPathReplacement q b (YMap (obj_assign (rest_entries [fk] m) ck (cloneYValue child)))"
    by (cases folded; cases "tl folded") (auto split: prod.splits)
  have e: "only_entries N S m" using assms(3) by (simp add: m(1))
  then have "only N S (YMap [(ck, child)])" using m(2,3) only_lookup by (fastforce simp: has_own_def)
  then show ?thesis
    unfolding m(4) using assms(2,3) e by (intro only_replacement) (simp_all add: only_obj_assign only_rest_entries only_clone)
qed

lemma merge_compile_only:
  assumes "compileYOpsMappingMerge p b ks n = Inr ops" "S p" "only N S b" "S n"
  shows "list_all (only_op N S) ops"
proof -
  from assms(1) obtain m keys merged where m: "b = YMap m" "assertMappingKeyList [] ks m = Inr keys" "merge_sources [] ks m = Inr merged"
    "ops = mappingPathReplacement p b (YMap (obj_assign (rest_entries keys m) n (YMap merged)))"
    by (auto simp: compileYOpsMappingMerge_def compile_oks)
  have e: "only_entries N S m" using assms(3) by (simp add: m(1))
  have "only_entries N S merged"
    by (rule merge_sources_only [OF m(3) _ e]) (use key_list_ok [OF m(2)] in simp_all)
  then show ?thesis
    unfolding m(4) using assms(2-4) e by (intro only_replacement) (simp_all add: only_obj_assign only_rest_entries)
qed

lemma compile_only:
  assumes "compileYOpsRecipe input = Inr ops" "only_input N S input"
  shows "list_all (only_op N S) ops"
proof (cases input)
  case (ReplacePath p b t)
  then show ?thesis using assms
    by (auto simp: compileYOpsPathReplacement_def only_clone split: if_splits path_value.splits)
next
  case (ClonePath f t v d)
  then show ?thesis using assms by (auto simp: compileYOpsPathClone_def only_clone split: if_splits)
next
  case (MovePath f t v d)
  then show ?thesis using assms by (auto simp: compileYOpsPathMove_def compileYOpsPathClone_def only_clone split: if_splits)
next
  case (RenameKey p b f t)
  then show ?thesis using assms
    by (auto simp: compileYOpsMappingKeyRename_def compile_oks split: if_splits
        intro!: only_assert_set only_assign_all only_renamed)
next
  case (AppendItem p b v)
  then show ?thesis using assms
    by (auto simp: compileYOpsSequenceAppend_def compile_oks only_clone list_all_iff [of "only N S"] intro!: only_assert_set)
next
  case (PickKeys p b ks)
  then show ?thesis using assms
    by (auto simp: compileYOpsMappingKeyPick_def compile_oks Let_def split: if_splits dest!: key_list_ok
        intro!: only_assert_set only_key_entries)
next
  case (OmitKeys p b ks)
  then show ?thesis using assms
    by (auto simp: compileYOpsMappingKeyOmit_def compile_oks split: if_splits intro!: only_assert_set only_rest_entries)
next
  case (PopulateMapping p b vs)
  then show ?thesis using assms
    by (auto simp: compileYOpsMappingPopulate_def compile_oks intro!: only_replacement only_populated)
next
  case (NestKeys p b ks n)
  then show ?thesis using assms
    by (auto simp: compileYOpsMappingNest_def compile_oks split: if_splits dest!: key_list_ok
        intro!: only_replacement only_obj_assign only_rest_entries only_key_entries)
next
  case (SplitGroups p b gs)
  then show ?thesis using assms split_only by simp
next
  case (FoldChild p q b)
  then show ?thesis using assms fold_compile_only by simp
next
  case (MergeKeys p b ks n)
  then show ?thesis using assms merge_compile_only by simp
next
  case (SortSequence p b k r)
  then show ?thesis using assms
    by (auto simp: compileYOpsSequenceSort_def compile_oks Let_def only_clone list_all_iff [of "only N S"] intro!: only_replacement)
next
  case (UniqueSequence p b k)
  then show ?thesis using assms
    by (auto simp: compileYOpsSequenceUnique_def compile_oks only_unique_items intro!: only_replacement)
qed

section \<open>The primitive profile\<close>

lemma entries_obj_set_all: "set (obj_set_all m kvs) \<subseteq> set m \<union> set kvs"
  unfolding obj_set_all_def
proof (induction kvs arbitrary: m)
  case (Cons e kvs)
  obtain k v where e: "e = (k, v)" by fastforce
  show ?case using Cons.IH [of "obj_set m k v"] entries_obj_set [of m k v] by (auto simp: e)
qed simp

context text_class begin

lemma path_value_only: "only N S d \<Longrightarrow> presentPathValueAt d p = Some v \<Longrightarrow> only N S v"
  by (auto simp: presentPathValueAt_def pathValueAt_def only_clone split: option.splits dest: resolve_path)

lemma clone_entries_only: "only_entries N S m \<Longrightarrow> only_entries N S (clone_entries m)"
  using only_clone [of N S "YMap m"] by (auto simp: clone_entries_def split: yvalue.split)

lemma groups_build: "list_all P gs \<Longrightarrow> list_all P (obj_build gs)"
  using entries_obj_set_all [of "[]" gs] by (auto simp: list_all_iff)

lemma native_only: "native_recipe d op = Some input \<Longrightarrow> only N S d \<Longrightarrow> only_op N S op \<Longrightarrow> only_input N S input"
  by (cases op) (auto simp: at_path_def at_nonroot_def at_parent_def from_absent_def path_value_only clone_entries_only
      groups_build       split: if_splits option.splits prod.splits dest: parent)

end

text \<open>
  What the profile emits: the encoding of a protocol operation without source that is one of the primitive
  operations or has a property \<open>Q\<close> of the operations that it was given.
\<close>

definition primitive_op :: "yop \<Rightarrow> bool" where
  "primitive_op op \<longleftrightarrow> op_name op \<in> {''assert'', ''set'', ''unset''}"

definition emitted :: "(yop \<Rightarrow> bool) \<Rightarrow> yvalue \<Rightarrow> bool" where
  "emitted Q v \<longleftrightarrow> (\<exists>op. protocol_op op \<and> (primitive_op op \<or> Q op) \<and> v = op_value op None)"

lemma compile_protocol:
  assumes "compileYOpsRecipeInvocation ri = Inr c" "only_input is_double well_formed (inv_input ri)"
  shows "list_all (emitted Q) (ci_operations c)"
proof -
  from assms(1) obtain ops where ops: "compileYOpsRecipe (inv_input ri) = Inr ops"
    "ci_operations c = map (\<lambda>op. cloneYOp (op_value op None)) ops"
    by (auto simp: compileYOpsRecipeInvocation_def Let_def map_error_def split: sum.splits)
  have "set (output_operation_names i) \<subseteq> {''assert'', ''set'', ''unset''}" for i by (cases i) auto
  then have "primitive_op op" if "op \<in> set ops" for op
    using compile_profile [OF ops(1)] that unfolding list_all_iff primitive_op_def by blast
  moreover have "protocol_op op" if "op \<in> set ops" for op
    using compile_wf [OF ops(1)] compile_only [OF ops(1) assms(2)] that by (auto simp: list_all_iff)
  ultimately show ?thesis unfolding ops(2) emitted_def by (auto simp: list_all_iff cloneYOp_id op_value_wf)
qed

lemma only_cloneRecipeInput: "only_input N S input \<Longrightarrow> only_input N S (cloneRecipeInput input)"
proof -
  have "only_path_value N S b \<Longrightarrow> only_path_value N S (clone_path_value b)" for b
    by (cases b) (simp_all add: only_clone)
  moreover have "only_entries N S m \<Longrightarrow> only_entries N S (clone_entries m)" for m
    using only_clone [of N S "YMap m"] by (auto simp: clone_entries_def split: yvalue.split)
  moreover have "list_all P gs \<Longrightarrow> list_all P (obj_build gs)" for P and gs :: "(jstring \<times> jstring list) list"
    using entries_obj_set_all [of "[]" gs] by (auto simp: list_all_iff)
  moreover assume "only_input N S input"
  ultimately show ?thesis by (cases input) (simp_all add: only_clone)
qed

lemma native_expansion_protocol:
  assumes "native_expansion d op = Some c" "protocol_value d" "protocol_op op"
  shows "list_all (emitted Q) (ci_operations c)"
proof -
  from assms(1) obtain ri where ri: "createYOpsRecipeInvocationForNativeOperation d op = Inr (Some ri)"
    "compileYOpsRecipeInvocation ri = Inr c"
    by (auto simp: native_expansion_def split: sum.splits option.splits)
  from ri(1) obtain input where i: "native_recipe d op = Some input" "createYOpsRecipeInvocation (recipe_id input) input None = Inr ri"
    by (auto simp: createYOpsRecipeInvocationForNativeOperation_def split: option.splits)
  have "inv_input ri = cloneRecipeInput input" using i(2) by (auto simp: createYOpsRecipeInvocation_def split: if_splits)
  then have "only_input is_double well_formed (inv_input ri)"
    using only_cloneRecipeInput [OF unicode_text.native_only [OF i(1)]] assms(2,3) by (simp add: protocol_only)
  then show ?thesis by (rule compile_protocol [OF ri(2)])
qed

text \<open>From protocol operations on a protocol document the profile only emits protocol operations.\<close>

lemma profile_loop_protocol:
  assumes "protocol_value d" "list_all (\<lambda>e. protocol_op (fst e) \<and> Q (fst e) \<and> snd e = None) es" "list_all (emitted Q) (pr_operations r)"
  shows "list_all (emitted Q) (pr_operations (profile_loop acc d es r))"
  using assms
proof (induction es arbitrary: d r)
  case (Cons e es)
  let ?n = "applyRecipeReplay acc d [sourced_value e]"
  have raw: "emitted Q (sourced_value x) \<and> cloneYOp (sourced_value x) = sourced_value x" if "x \<in> set (e # es)" for x
    using Cons.prems(2) that by (auto simp: emitted_def sourced_value_def list_all_iff cloneYOp_id op_value_wf)
  show ?case
  proof (cases "res_ok ?n")
    case False
    then show ?thesis using Cons.prems(3) raw by (auto simp: Let_def list_all_iff)
  next
    case True
    have "runs yops_registry acc 0 d [sourced_value e] (res_doc ?n)"
      using replay_runs [of d acc "[sourced_value e]" "res_doc ?n"] True Cons.prems(1) raw [of e] by (simp add: protocol_value_def)
    then have "runs yops_registry acc 0 d (map (\<lambda>op. op_value op None) [fst e]) (res_doc ?n)"
      using Cons.prems(2) by (simp add: sourced_value_def)
    then have d': "protocol_value (res_doc ?n)"
      by (rule protocol_run [OF Cons.prems(1), rotated]) (use Cons.prems(2) in simp)
    show ?thesis
    proof (cases "usable_expansion acc d (fst e) (res_doc ?n)")
      case None
      then show ?thesis
        using True Cons.IH [OF d'] Cons.prems raw [of e] by (simp add: Let_def)
    next
      case (Some x)
      then have "native_expansion d (fst e) = Some x"
        by (auto simp: usable_expansion_def Let_def split: option.splits if_splits)
      then have x: "list_all (emitted Q) (ci_operations x)"
        by (rule native_expansion_protocol) (use Cons.prems in simp_all)
      then have "map cloneYOp (ci_operations x) = ci_operations x"
        by (intro map_idI) (auto simp: list_all_iff emitted_def cloneYOp_id op_value_wf)
      then show ?thesis using True Some Cons.IH [OF d'] Cons.prems x by (simp add: Let_def)
    qed
  qed
qed simp

theorem profile_protocol:
  assumes "protocol_value d" "list_all (\<lambda>op. protocol_op op \<and> Q op) ops"
  shows "list_all (emitted Q) (pr_operations (compileYOpsOperationsToPrimitiveProfile acc d (map (\<lambda>op. (op, None)) ops)))"
  unfolding compileYOpsOperationsToPrimitiveProfile_def
  by (rule profile_loop_protocol) (use assms in \<open>simp_all add: cloneYValue_def deepClone_id protocol_value_def list_all_iff\<close>)

end
