(* ===== verification/YopsAdapterOutcome.thy ===== *)
theory YopsAdapterOutcome
  imports YopsAdapterLaws ProfileAtoms OperationData
begin

text \<open>
  Effects of packages/core/src/transition-adapters/yopsDriver.ts against the engine: \<open>createYOpsEffect\<close>
  returns an effect exactly when the engine applies the caller's operations, and the result is the engine's
  document. What this needs of Zod is \<open>zod_spec\<close> and \<open>zod_copies\<close>: \<open>safeParse\<close> returns a copy of what
  it accepts.
\<close>

section \<open>Key order below an operation\<close>

lemma sort_keys_entries:
  assumes "wf_object kvs"
  shows "\<exists>m. sort_keys (YMap kvs) = YMap m \<and> (\<forall>k. map_of m k = map_option sort_keys (map_of kvs k))"
proof -
  let ?es = "map (map_prod id sort_keys) (unit_sorted kvs)"
  have "distinct (map fst ?es)" using wf_keys_distinct [OF assms] by (simp add: comp_def unit_sorted_keys)
  then have "map_of (rev ?es) = map_of ?es" by (intro map_of_permute) (simp_all add: comp_def flip: rev_map)
  then have "map_of (obj_build ?es) k = map_option sort_keys (map_of kvs k)" for k
    using map_of_obj_set_all [of "[]" ?es k] by (cases "map_of kvs k") (simp_all add: map_of_map_prod)
  then show ?thesis unfolding sort_keys_map by blast
qed

lemma sorted_lookup: "sort_keys (YMap m) = YMap m \<Longrightarrow> wf_object m \<Longrightarrow> map_of m k = Some v \<Longrightarrow> sort_keys v = v"
proof -
  assume s: "sort_keys (YMap m) = YMap m" "wf_object m" "map_of m k = Some v"
  then obtain m' where m: "sort_keys (YMap m) = YMap m'" "\<forall>k. map_of m' k = map_option sort_keys (map_of m k)"
    using sort_keys_entries by blast
  have "m' = m" using m(1) s(1) by simp
  with m(2) s(3) show "sort_keys v = v" by (metis option.inject option.simps(9))
qed

lemma sort_keys_same: "wf_yvalue v \<Longrightarrow> same v (sort_keys v)"
  using sort_keys_abs [of v] by (simp add: same_def)

text \<open>An operation whose values are in canonical order of keys.\<close>

definition settled :: "yop \<Rightarrow> bool" where
  "settled op \<longleftrightarrow> (\<forall>k v. map_of (op_fields op) k = Some v \<longrightarrow> sort_keys v = v)"

lemma strings_settled [simp]: "sort_keys (str_seq ks) = str_seq ks"
  by (simp add: str_seq_def)

lemma decoded_settled:
  assumes d: "decode_op n flds = Some op" and s: "\<And>k v. map_of flds k = Some v \<Longrightarrow> sort_keys v = v"
  shows "settled op"
proof -
  have val: "sort_keys v = v" if "field Some flds k = Some v" for k v using field_Some [OF that] s by auto
  have mapping: "sort_keys (YMap m) = YMap m" if "field as_map flds k = Some m" for k m
    using field_Some [OF that] s by (auto elim!: as_map.elims simp del: sort_keys.simps)
  have groups: "sort_keys (YMap (map (map_prod id str_seq) gs)) = YMap (map (map_prod id str_seq) gs)"
    if "field as_groups flds k = Some gs" for k gs
    using field_Some [OF that] s as_groups_value by (metis option.inject)
  have opt: "sort_keys v = v" if "opt_field Some flds k = Some (Some v)" for k v
    using that s by (auto simp: opt_field_def split: option.splits)
  have "list_all (\<lambda>(n, d). \<forall>op. d flds = Some op \<longrightarrow> settled op) decoders"
    unfolding decoders_def list.pred_inject prod.case
    by (intro conjI; simp add: lift_defs bind_eq_Some_conv settled_def; auto simp: opt_entry_def simp del: sort_keys.simps(6)
        split: if_splits option.splits dest: val mapping groups opt)
  moreover obtain n' e where "(n', e) \<in> set decoders" "e flds = Some op"
    using d by (auto simp: decode_op_def split: option.splits dest!: map_of_SomeD)
  ultimately show ?thesis by (auto simp: list_all_iff)
qed

section \<open>An emitted operation in canonical order of keys\<close>

fun canonical_op :: "yop \<Rightarrow> yop" where
  "canonical_op (SetOp p v) = SetOp p (sort_keys v)"
| "canonical_op (Assert p e x t) = Assert p (map_option sort_keys e) x t"
| "canonical_op op = op"

lemma canonical_settled: "settled op \<Longrightarrow> canonical_op op = op"
  by (cases op) (auto simp: settled_def opt_entry_def simp del: sort_keys.simps split: if_splits option.splits)

lemma canonical_name [simp]: "op_name (canonical_op op) = op_name op"
  by (cases op) simp_all

lemma canonical_admissible [simp]: "admissible (canonical_op op) = admissible op"
  by (cases op) (auto simp: admissible_def)

lemma canonical_fields:
  assumes "primitive_op op \<or> settled op"
  shows "map_option sort_keys (map_of (op_fields op) k) = map_of (op_fields (canonical_op op)) k"
  using assms
proof
  assume "settled op"
  then show ?thesis by (cases "map_of (op_fields op) k") (auto simp: canonical_settled settled_def)
next
  assume "primitive_op op"
  then show ?thesis
    by (cases op) (simp_all add: primitive_op_def opt_entry_def split: option.split)
qed

lemma sort_keys_single: "sort_keys (YMap [(k, v)]) = YMap [(k, sort_keys v)]"
  by (simp add: obj_set_all_def obj_set_def has_own_def Let_def split: option.split)

lemma canonical_encodes:
  assumes "wf_op op" "primitive_op op \<or> settled op"
  shows "encodes (sort_keys (raw_op op)) (canonical_op op)"
proof -
  have "wf_yvalue (raw_op op)" using assms(1) by (rule op_value_wf)
  then have wf: "wf_object (op_fields op)" by (simp add: op_value_def opt_entry_def)
  obtain m where m: "sort_keys (YMap (op_fields op)) = YMap m"
    "\<forall>k. map_of m k = map_option sort_keys (map_of (op_fields op) k)" using sort_keys_entries [OF wf] by blast
  have "map_of m = map_of (op_fields (canonical_op op))" using m(2) canonical_fields [OF assms(2)] by (intro ext) simp
  moreover have "sort_keys (raw_op op) = YMap [(u (op_name op), YMap m)]"
    using m(1) by (simp add: op_value_def opt_entry_def sort_keys_single del: sort_keys.simps)
  ultimately show ?thesis by (simp add: encodes_def)
qed

lemma canonical_handle:
  assumes "wf_op op" "wf_yvalue d"
  shows "same_result (handle op d i) (handle (canonical_op op) d i)"
proof (cases op)
  case (SetOp p v)
  then show ?thesis using assms by (simp add: set_handler_same sort_keys_same)
next
  case (Assert p e x t)
  have "handle op d i = handle (canonical_op op) d i"
  proof (cases e)
    case (Some v)
    then have "canonicalKey v = canonicalKey (sort_keys v)"
      using assms(1) by (intro same_canonicalKey sort_keys_same) (simp add: Assert wf_op_Assert)
    then show ?thesis by (simp add: Assert Some assertHandler_def Let_def split: option.split)
  qed (simp add: Assert)
  then show ?thesis using handler.respects [OF assms(1), of d d i] assms(2) by simp
qed (use handler.respects [OF assms(1), of d d i] assms(2) in simp_all)


text \<open>Operations in canonical order of keys run as the operations themselves.\<close>

definition like_op :: "yop \<Rightarrow> yop \<Rightarrow> bool" where
  "like_op x y \<longleftrightarrow> wf_op y \<and> admissible x = admissible y \<and> (\<forall>d i. wf_yvalue d \<longrightarrow> same_result (handle x d i) (handle y d i))"

lemma like_runs:
  assumes z: "zod_spec acc"
  shows "list_all2 like_op xs ys \<Longrightarrow> same d d' \<Longrightarrow> runs yops_registry acc i d (map raw_op xs) r \<Longrightarrow>
    \<exists>r'. runs yops_registry acc i d' (map raw_op ys) r' \<and> same r r'"
proof (induction xs ys arbitrary: d d' i rule: list_all2_induct)
  case Nil
  then show ?case by (auto elim: runs.cases intro: runs_Nil)
next
  case (Cons x xs y ys)
  obtain e where e: "admissible x" "handle x d i = OpResult e None" "runs yops_registry acc (i + 1) e (map raw_op xs) r"
    using Cons.prems(2) by (auto simp: typed_runs [OF z])
  have wf: "wf_yvalue d" using Cons.prems(1) by (rule same_wf)
  then have "same_result (OpResult e None) (handle y d i)" using Cons.hyps(1) e(2) unfolding like_op_def by metis
  then obtain f where f: "handle y d i = OpResult f None" "same e f" by (cases "handle y d i") (auto simp: same_result_def)
  obtain g where g: "handle y d' i = OpResult g None" "same f g"
    using handler.same_outcome [OF _ Cons.prems(1) f(1)] Cons.hyps(1) by (auto simp: like_op_def)
  obtain r' where "runs yops_registry acc (i + 1) g (map raw_op ys) r'" "same r r'"
    using Cons.IH [OF same_trans [OF f(2) g(2)] e(3)] by blast
  then show ?case using e(1) g(1) Cons.hyps(1) by (auto simp: typed_runs [OF z] like_op_def)
qed

lemma canonical_wf [simp]: "wf_op op \<Longrightarrow> wf_op (canonical_op op)"
  by (cases op) (auto simp: wf_op_Assert same_wf [OF sort_keys_same] split: option.splits)

lemma same_result_sym: "same_result r r' \<Longrightarrow> same_result r' r"
  by (auto simp: same_result_def same_sym split: op_result.splits)

lemma canonical_like: "wf_op op \<Longrightarrow> like_op op (canonical_op op) \<and> like_op (canonical_op op) op"
  using canonical_handle [of op] same_result_sym by (simp add: like_op_def)

lemma canonical_runs:
  assumes "zod_spec acc" "list_all wf_op ops" "wf_yvalue d"
  shows "runs yops_registry acc i d (map raw_op ops) r \<Longrightarrow>
      \<exists>r'. runs yops_registry acc i d (map raw_op (map canonical_op ops)) r' \<and> same r r'"
    and "runs yops_registry acc i d (map raw_op (map canonical_op ops)) r \<Longrightarrow>
      \<exists>r'. runs yops_registry acc i d (map raw_op ops) r' \<and> same r r'"
proof -
  have l: "list_all2 like_op ops (map canonical_op ops)" "list_all2 like_op (map canonical_op ops) ops"
    using assms(2) canonical_like by (auto simp: list_all2_conv_all_nth list_all_length)
  have d: "same d d" using assms(3) by simp
  show "\<exists>r'. runs yops_registry acc i d (map raw_op (map canonical_op ops)) r' \<and> same r r'"
    if "runs yops_registry acc i d (map raw_op ops) r"
    using like_runs [OF assms(1) l(1) d that] .
  show "\<exists>r'. runs yops_registry acc i d (map raw_op ops) r' \<and> same r r'"
    if "runs yops_registry acc i d (map raw_op (map canonical_op ops)) r"
    using like_runs [OF assms(1) l(2) d that] .
qed


lemma canonical_protocol: "protocol_op op \<Longrightarrow> protocol_op (canonical_op op)"
proof -
  have v: "protocol_value (sort_keys v)" if "wf_yvalue v" "only is_double well_formed v" for v
    using that by (intro sort_keys_protocol) (simp add: protocol_only)
  assume "protocol_op op"
  then show ?thesis
    using v by (cases op) (auto simp: wf_op_Assert protocol_only split: option.splits)
qed

section \<open>Reading operations\<close>

text \<open>\<open>safeParse\<close> returns a deep copy of the operation that it accepts.\<close>

definition zod_copies :: "zod_accepts \<Rightarrow> zod_data \<Rightarrow> bool" where
  "zod_copies acc data \<longleftrightarrow> (\<forall>v op. acc YOpSchema v \<longrightarrow> encodes v op \<longrightarrow> data v = op)"

definition plain_operation :: "zod_accepts \<Rightarrow> yvalue \<Rightarrow> bool" where
  "plain_operation acc v \<longleftrightarrow> \<not> has_source v \<and> acc YOpSchema v"

lemma parse_operation_ok: "parse_operation acc data v = Inr op \<longleftrightarrow> plain_operation acc v \<and> data v = op"
  by (auto simp: parse_operation_def plain_operation_def)

lemma parseOperations_ok: "parseOperations acc data vs = Inr ops \<longleftrightarrow> list_all (plain_operation acc) vs \<and> ops = map data vs"
  unfolding parseOperations_def traverse_ok parse_operation_ok
  by (induction vs arbitrary: ops) (auto simp: list_all2_Cons1)

lemma plain_encodes:
  assumes "zod_spec acc" "zod_copies acc data" "plain_operation acc v" "wf_yvalue v"
  shows "encodes v (data v)"
proof -
  have "\<exists>op. encodes v op"
    by (rule accepted_encodes [OF assms(1)]) (use assms(3,4) in \<open>simp_all add: plain_operation_def has_source_def\<close>)
  with assms(2,3) show ?thesis by (auto simp: zod_copies_def plain_operation_def)
qed

lemma encodes_plain: "zod_spec acc \<Longrightarrow> encodes v op \<Longrightarrow> plain_operation acc v \<longleftrightarrow> acc YOpSchema (raw_op op)"
  using encodes_accepted [of acc v op] op_name_not_source [of op]
  by (auto simp: plain_operation_def has_source_def encodes_def has_own_def)

text \<open>An operation in canonical order of keys is read as a settled one.\<close>

lemma plain_settled:
  assumes "encodes v op" "protocol_value v" "sort_keys v = v"
  shows "protocol_op op \<and> settled op"
proof -
  obtain flds where v: "v = YMap [(u (op_name op), YMap flds)]" "map_of flds = map_of (op_fields op)"
    using assms(1) by (auto simp: encodes_def)
  have p: "protocol_value (YMap flds)" using assms(2) protocol_map [of "[(u (op_name op), YMap flds)]"] by (simp add: v(1))
  then have wf: "wf_object flds" unfolding protocol_map by simp
  have s: "sort_keys (YMap flds) = YMap flds" using assms(3) unfolding v(1) sort_keys_single by simp
  have d: "decode_op (u (op_name op)) flds = Some op" using encodes_decode assms(1) v(1) by simp
  have "settled op" by (rule decoded_settled [OF d]) (rule sorted_lookup [OF s wf])
  then show ?thesis using protocol_op_decode [OF d p] by blast
qed


lemma plain_read:
  assumes z: "zod_spec acc" and zc: "zod_copies acc data" and v: "protocol_value v" "plain_operation acc (sort_keys v)"
  shows "encodes (sort_keys v) (data (sort_keys v))" "protocol_op (data (sort_keys v))" "settled (data (sort_keys v))"
proof -
  note s = sort_keys_protocol [OF v(1)]
  then show e: "encodes (sort_keys v) (data (sort_keys v))" using plain_encodes [OF z zc v(2)] by (simp add: protocol_value_def)
  show "protocol_op (data (sort_keys v))" "settled (data (sort_keys v))"
    using plain_settled [OF e s sort_keys_again [OF v(1)]] by blast+
qed

section \<open>The outcome\<close>

lemma normalize_seq:
  assumes "list_all protocol_value vs"
  shows "normalizeProtocolValue (YSeq vs) = Inr (YSeq (map sort_keys vs))"
proof -
  have "protocol_value (YSeq vs)" using assms by (auto simp: protocol_value_def list_all_iff)
  from normalize_ok [OF this] show ?thesis by simp
qed

lemma yops_driver_ref_parses: "digest_pattern digest \<Longrightarrow> mutationDriverRef (driver_value (YOPS_MUTATION_DRIVER_REF digest)) = Inr (YOPS_MUTATION_DRIVER_REF digest)"
  by (simp add: mutationDriverRef_def driver_value_def YOPS_MUTATION_DRIVER_REF_def YOPS_DRIVER_PROTOCOL_def
      YOPS_DRIVER_PROTOCOL_VERSION_def closed_value parse_identifier_def parse_digest_def identifier_pattern_def u_Cons
      is_digit_cu is_letter_def unat_cu)

lemma yops_definition_parses:
  assumes "digest_pattern digest" "list_all protocol_value vs"
  shows "parseEffectDefinition (definition_value (yops_definition digest vs)) = Inr (yops_definition digest vs)"
proof -
  have ops: "list_all unicode_ok vs" using assms(2) by (auto simp: list_all_iff protocol_value_def)
  then have "traverse assertProtocolDomain vs = Inr (map (\<lambda>_. ()) vs)"
    by (induction vs) simp_all
  moreover have "unicode_ok (definition_value (yops_definition digest vs))"
    using digest_plain [OF assms(1)] ops
    by (simp add: definition_value_def yops_definition_def driver_value_def YOPS_MUTATION_DRIVER_REF_def
        YOPS_DRIVER_PROTOCOL_def YOPS_DRIVER_PROTOCOL_VERSION_def)
  ultimately show ?thesis
    using yops_driver_ref_parses [OF assms(1)]
    by (simp add: parseEffectDefinition_def definition_value_def yops_definition_def closed_value)
qed

lemma yops_replay:
  assumes "valid_object (PState base)" "digest_pattern digest" "list_all protocol_value vs"
  shows "replay base (definition_value (yops_definition digest vs)) [] (yopsMutationDrivers acc data digest) = Inr result
    \<longleftrightarrow> (\<exists>r. yops_execute acc data base (yops_definition digest vs) [] = Inr r \<and> parseState r = Inr result)"
proof -
  have "resolveMutationDriver (yopsMutationDrivers acc data digest) (YOPS_MUTATION_DRIVER_REF digest) = Inr (yopsMutationDriver acc data digest)"
    by (simp add: resolveMutationDriver_def yopsMutationDrivers_def yopsMutationDriver_def)
  moreover have "ed_driver (yops_definition digest vs) = YOPS_MUTATION_DRIVER_REF digest" "ed_inputs (yops_definition digest vs) = []"
    by (simp_all add: yops_definition_def)
  moreover have "definition_value (yops_definition digest vs) \<noteq> YNull" "\<not> carries_forbidden (definition_value (yops_definition digest vs))"
    by (simp_all add: definition_value_def carries_forbidden_def has_own_def u_Cons)
  ultimately show ?thesis
    unfolding replay_ok yops_definition_parses [OF assms(2,3)] state_value_parts(3) [OF assms(1)]
    by (simp add: yopsMutationDriver_def)
qed


lemma runs_accepted:
  assumes z: "zod_spec acc"
  shows "runs yops_registry acc i d (map raw_op ops) r \<Longrightarrow> list_all (\<lambda>op. acc YOpSchema (raw_op op)) ops"
proof (induction ops arbitrary: i d)
  case (Cons op ops)
  then obtain e where "admissible op" "runs yops_registry acc (i + 1) e (map raw_op ops) r" by (auto simp: typed_runs [OF z])
  moreover from this(1) have "acc YOpSchema (raw_op op)"
    using yop_schema_iff [OF z payload_schema_in, of op None] payload_accepts [OF z, of op] by (simp add: admissible_def)
  ultimately show ?case using Cons.IH by simp
qed simp

lemma run_outcome:
  assumes "wf_yvalue d"
  shows "(\<exists>r. runs yops_registry acc 0 d vs r \<and> P r) \<longleftrightarrow>
    res_ok (applyYOps yops_registry acc d vs) \<and> P (res_doc (applyYOps yops_registry acc d vs))"
  unfolding yops.apply_runs [OF assms, symmetric] by auto

text \<open>The driver on what the profile emitted runs the emitted operations in canonical order of keys.\<close>

lemma emitted_execute:
  assumes z: "zod_spec acc" and zc: "zod_copies acc data" and base: "valid_object (PState base)" "st_codec base = yops_codec_ref"
    and ops: "list_all (\<lambda>op. protocol_op op \<and> (primitive_op op \<or> settled op)) ops"
  shows "yops_execute acc data base (yops_definition digest (map (\<lambda>op. sort_keys (raw_op op)) ops)) [] = Inr x \<longleftrightarrow>
    (\<exists>r. runs yops_registry acc 0 (sort_keys (st_value base)) (map raw_op (map canonical_op ops)) r
      \<and> x = state_value \<lparr>st_codec = yops_codec_ref, st_value = sort_keys r\<rparr>)"
proof -
  let ?b = "sort_keys (st_value base)" and ?vs = "map (\<lambda>op. sort_keys (raw_op op)) ops" and ?cs = "map canonical_op ops"
  note v = state_value_parts(1) [OF base(1)]
  have b: "protocol_value ?b" "wf_yvalue ?b" using sort_keys_protocol [OF v] by (simp_all add: protocol_value_def)
  have enc: "encodes (sort_keys (raw_op op)) (canonical_op op)" if "op \<in> set ops" for op
    using ops that canonical_encodes by (auto simp: list_all_iff)
  have parse: "parseOperations acc data ?vs = Inr ps \<longleftrightarrow> list_all (\<lambda>op. acc YOpSchema (raw_op op)) ?cs \<and> ps = ?cs" for ps
  proof -
    have "list_all (plain_operation acc) ?vs = list_all (\<lambda>op. acc YOpSchema (raw_op op)) ?cs"
      using enc encodes_plain [OF z] by (auto simp: list_all_iff)
    moreover have "map data ?vs = ?cs" if "list_all (plain_operation acc) ?vs"
      using that enc zc by (auto simp: list_all_iff zod_copies_def plain_operation_def)
    ultimately show ?thesis unfolding parseOperations_ok by auto
  qed
  have cs: "list_all protocol_op ?cs" using ops canonical_protocol by (auto simp: list_all_iff)
  have state: "createYOpsState r = Inr t \<longleftrightarrow> t = \<lparr>st_codec = yops_codec_ref, st_value = sort_keys r\<rparr>"
    if "runs yops_registry acc 0 ?b (map raw_op ?cs) r" for r t
    using protocol_run [OF b(1) cs that] by (auto simp: createYOpsState_ok normalize_ok)
  let ?res = "applyYOps yops_registry acc ?b (map raw_op ?cs)"
  have run: "(\<exists>r. runs yops_registry acc 0 ?b (map raw_op ?cs) r \<and> P r) \<longleftrightarrow> res_ok ?res \<and> P (res_doc ?res)" for P
    by (rule run_outcome [OF b(2)])
  have ok: "runs yops_registry acc 0 ?b (map raw_op ?cs) (res_doc ?res)" if "res_ok ?res"
    using run [of "\<lambda>r. r = res_doc ?res"] that by blast
  have "yops_execute acc data base (yops_definition digest ?vs) [] = Inr x \<longleftrightarrow>
      list_all (\<lambda>op. acc YOpSchema (raw_op op)) ?cs \<and> res_ok ?res \<and> (\<exists>t. createYOpsState (res_doc ?res) = Inr t \<and> x = state_value t)"
    unfolding yops_execute_ok [OF v] by (simp add: yops_definition_def base(2) parse [unfolded yops_definition_def])
  also have "\<dots> \<longleftrightarrow> res_ok ?res \<and> x = state_value \<lparr>st_codec = yops_codec_ref, st_value = sort_keys (res_doc ?res)\<rparr>"
  proof (cases "res_ok ?res")
    case True
    show ?thesis using runs_accepted [OF z ok [OF True]] state [OF ok [OF True]] True by simp
  qed simp
  finally show ?thesis unfolding run .
qed


lemma yops_effect_parses:
  assumes "valid_object (PState base)" "valid_object (PState result)" "digest_pattern digest" "list_all protocol_value vs"
  shows "parseEffect (effect_value \<lparr>ef_base = descriptor_of (PState base), ef_definition = yops_definition digest vs,
      ef_result = descriptor_of (PState result)\<rparr>)
    = Inr \<lparr>ef_base = descriptor_of (PState base), ef_definition = yops_definition digest vs, ef_result = descriptor_of (PState result)\<rparr>"
  using yops_definition_parses [OF assms(3,4)]
  by (simp add: effect_value_parses state_descriptor_parses descriptor_of_digest) (simp add: descriptor_of_def)

lemma emitted_operations:
  assumes "list_all (emitted Q) vs"
  shows "\<exists>ops. vs = map raw_op ops \<and> list_all (\<lambda>op. protocol_op op \<and> (primitive_op op \<or> Q op)) ops"
  using assms
proof (induction vs)
  case (Cons v vs)
  then obtain ops op where "vs = map raw_op ops" "list_all (\<lambda>op. protocol_op op \<and> (primitive_op op \<or> Q op)) ops"
    "v = raw_op op" "protocol_op op" "primitive_op op \<or> Q op" by (auto simp: emitted_def)
  then show ?case by (intro exI [of _ "op # ops"]) simp
qed simp

lemma profile_runs:
  assumes d: "wf_yvalue d" and wf: "list_all wf_op ps"
    and em: "em = pr_operations (compileYOpsOperationsToPrimitiveProfile acc d (map (\<lambda>op. (op, None)) ps))"
  shows "runs yops_registry acc 0 d (map raw_op ps) r \<Longrightarrow> \<exists>r'. runs yops_registry acc 0 d em r' \<and> same r r'"
    and "runs yops_registry acc 0 d em r' \<Longrightarrow> \<exists>r. runs yops_registry acc 0 d (map raw_op ps) r \<and> same r r'"
proof -
  have s: "map sourced_value (map (\<lambda>op. (op, None)) ps) = map raw_op ps" by (simp add: sourced_value_def)
  have "list_all (\<lambda>e. wf_yvalue (sourced_value e)) (map (\<lambda>op. (op, None)) ps)"
    using wf by (auto simp: list_all_iff sourced_value_def op_value_wf)
  note e = profile_equivalent [OF d this em, unfolded s]
  note a = yops.apply_runs [OF d]
  show "\<exists>r'. runs yops_registry acc 0 d em r' \<and> same r r'" if "runs yops_registry acc 0 d (map raw_op ps) r"
    using e that unfolding a [symmetric] by auto
  show "\<exists>r. runs yops_registry acc 0 d (map raw_op ps) r \<and> same r r'" if "runs yops_registry acc 0 d em r'"
    using e that unfolding a [symmetric] by auto
qed

text \<open>
  The effect is created exactly when the engine runs the operations, and its result is the engine's document.
\<close>

lemma created_parsed:
  assumes z: "zod_spec acc" and zc: "zod_copies acc data" and digest: "digest_pattern digest"
    and base: "valid_object (PState base)" "st_codec base = yops_codec_ref"
    and vs: "list_all protocol_value vs" "list_all (plain_operation acc) (map sort_keys vs)"
    and ps: "ps = map data (map sort_keys vs)"
  shows "(\<exists>effect. createYOpsEffect acc data digest base vs None = Inr (effect, result)) \<longleftrightarrow>
    (\<exists>r. runs yops_registry acc 0 (sort_keys (st_value base)) (map raw_op ps) r
      \<and> result = \<lparr>st_codec = yops_codec_ref, st_value = sort_keys r\<rparr>)"
proof -
  define b where "b = sort_keys (st_value base)"
  have b: "protocol_value b" "wf_yvalue b"
    using sort_keys_protocol [OF state_value_parts(1) [OF base(1)]] by (simp_all add: protocol_value_def b_def)
  have ps_ok: "list_all (\<lambda>op. protocol_op op \<and> settled op) ps"
    using vs plain_read [OF z zc] by (auto simp: ps list_all_iff)
  then have wf: "list_all wf_op ps" "list_all protocol_op ps" by (auto simp: list_all_iff)
  define em where "em = pr_operations (compileYOpsOperationsToPrimitiveProfile acc b (map (\<lambda>op. (op, None)) ps))"
  obtain ops where ops: "em = map raw_op ops" "list_all (\<lambda>op. protocol_op op \<and> (primitive_op op \<or> settled op)) ops"
    using emitted_operations [OF profile_protocol [OF b(1) ps_ok, of acc, folded em_def]] by blast
  let ?cs = "map canonical_op ops" and ?S = "\<lambda>r. \<lparr>st_codec = yops_codec_ref, st_value = sort_keys r\<rparr>"
  have ops_wf: "list_all wf_op ops" "list_all protocol_op ?cs" using ops(2) canonical_protocol by (auto simp: list_all_iff)
  have em_ok: "list_all protocol_value em"
    unfolding ops(1) using ops(2) protocol_op_value by (auto simp: list_all_iff)
  have both: "(\<exists>r. runs yops_registry acc 0 b (map raw_op ps) r \<and> P (?S r)) \<longleftrightarrow> (\<exists>r. runs yops_registry acc 0 b (map raw_op ?cs) r \<and> P (?S r))" for P
  proof -
    have S: "?S r = ?S r'" if "runs yops_registry acc 0 b (map raw_op ps) r" "runs yops_registry acc 0 b (map raw_op ?cs) r'" "same r r'" for r r'
      using sort_keys_cong [OF protocol_run [OF b(1) wf(2) that(1)] protocol_run [OF b(1) ops_wf(2) that(2)]] that(3)
      by (simp add: same_def)
    note p = profile_runs [OF b(2) wf(1) em_def, unfolded ops(1)]
    note c = canonical_runs [OF z ops_wf(1) b(2)]
    have "\<exists>r'. runs yops_registry acc 0 b (map raw_op ?cs) r' \<and> same r r'" if "runs yops_registry acc 0 b (map raw_op ps) r" for r
      using p(1) [OF that] c(1) same_trans by blast
    moreover have "\<exists>r'. runs yops_registry acc 0 b (map raw_op ps) r' \<and> same r' r" if "runs yops_registry acc 0 b (map raw_op ?cs) r" for r
      using c(2) [OF that] p(2) same_trans same_sym by blast
    ultimately show ?thesis using S by metis
  qed
  let ?os = "map (\<lambda>op. sort_keys (raw_op op)) ops"
  have os: "map sort_keys em = ?os" "list_all protocol_value ?os"
    using em_ok sort_keys_protocol by (auto simp: ops(1) list_all_iff)
  have state: "protocol_value (sort_keys r)" "valid_object (PState (?S r))"
    "parseState (state_value (?S r)) = Inr x \<longleftrightarrow> x = ?S r" if "runs yops_registry acc 0 b (map raw_op ?cs) r" for r x
  proof -
    show p: "protocol_value (sort_keys r)" using protocol_run [OF b(1) ops_wf(2) that] by (rule sort_keys_protocol)
    show "valid_object (PState (?S r))" "parseState (state_value (?S r)) = Inr x \<longleftrightarrow> x = ?S r"
      using codec_state_valid [OF yops_codec p] by auto
  qed
  have replay: "replay base (definition_value (yops_definition digest ?os)) [] (yopsMutationDrivers acc data digest) = Inr x
      \<longleftrightarrow> (\<exists>r. runs yops_registry acc 0 b (map raw_op ?cs) r \<and> x = ?S r)" for x
    unfolding yops_replay [OF base(1) digest os(2)] emitted_execute [OF z zc base ops(2)] b_def [symmetric]
    using state(3) by blast
  have parse: "parseOperations acc data (map sort_keys vs) = Inr ps"
    unfolding parseOperations_ok using vs(2) ps by simp
  have "createYOpsEffect acc data digest base vs None = Inr (effect, result) \<longleftrightarrow>
      (\<exists>rd. replay base (definition_value (yops_definition digest ?os)) [] (yopsMutationDrivers acc data digest) = Inr result
        \<and> describeProtocolObject (PState result) = Inr rd
        \<and> effect = \<lparr>ef_base = descriptor_of (PState base), ef_definition = yops_definition digest ?os, ef_result = rd\<rparr>
        \<and> parseEffect (effect_value effect) = Inr effect)" for effect
    unfolding createYOpsEffect_ok [OF base(1)] normalize_seq [OF vs(1)]
    by (simp add: parse base(2) normalize_seq [OF em_ok] os(1) flip: b_def em_def)
  then have "(\<exists>effect. createYOpsEffect acc data digest base vs None = Inr (effect, result)) \<longleftrightarrow>
      (\<exists>r. runs yops_registry acc 0 b (map raw_op ?cs) r \<and> result = ?S r)"
    unfolding replay using state(2) valid_describe yops_effect_parses [OF base(1) _ digest os(2)] by blast
  also have "\<dots> \<longleftrightarrow> (\<exists>r. runs yops_registry acc 0 b (map raw_op ps) r \<and> result = ?S r)"
    using both [of "\<lambda>s. result = s"] by simp
  finally show ?thesis unfolding b_def .
qed


lemma runs_schema: "runs yops_registry acc i d vs r \<Longrightarrow> list_all (acc YOpSchema) vs"
proof (induction rule: runs.induct)
  case (runs_Cons op d i d' ws ops r)
  then have "\<exists>ws. step_op yops_registry acc op d i = (Inr d', ws)" by blast
  with runs_Cons.IH show ?case unfolding yops.step_iff by (auto simp: guards_def)
qed simp

text \<open>The same over the operations as they are given and the document as it is stored.\<close>

lemma created_runs:
  assumes z: "zod_spec acc" and zc: "zod_copies acc data" and digest: "digest_pattern digest"
    and base: "valid_object (PState base)" "st_codec base = yops_codec_ref" and vs: "list_all protocol_value vs"
  shows "(\<exists>effect. createYOpsEffect acc data digest base vs None = Inr (effect, result)) \<longleftrightarrow>
    list_all (\<lambda>v. \<not> has_source v) vs \<and> (\<exists>r. runs yops_registry acc 0 (st_value base) (map sort_keys vs) r
      \<and> result = \<lparr>st_codec = yops_codec_ref, st_value = sort_keys r\<rparr>)"
proof -
  let ?ws = "map sort_keys vs" and ?d = "st_value base" and ?ps = "map data (map sort_keys vs)"
  note d = state_value_parts(1) [OF base(1)]
  have wf: "wf_yvalue ?d" "list_all wf_yvalue ?ws" "same ?d (sort_keys ?d)"
    using d vs sort_keys_same same_wf(2) [OF sort_keys_same] by (auto simp: protocol_value_def list_all_iff)
  have src: "has_source (sort_keys v) = has_source v" if "v \<in> set vs" for v
    using vs that sort_keys_entries by (cases v) (force simp: has_source_def has_own_def protocol_value_def list_all_iff)+
  have src_all: "list_all (\<lambda>v. \<not> has_source v) ?ws = list_all (\<lambda>v. \<not> has_source v) vs"
    using src by (auto simp: list_all_iff)
  show ?thesis
  proof (cases "list_all (plain_operation acc) ?ws")
    case True
    have enc: "list_all2 encodes ?ws ?ps" and pr: "list_all protocol_op ?ps"
      using True vs plain_read [OF z zc] by (auto simp: list_all2_conv_all_nth list_all_length)
    have iff: "runs yops_registry acc i e (map raw_op ?ps) r \<longleftrightarrow> runs yops_registry acc i e ?ws r" for i e r
      using encodes_runs [OF z enc] by simp
    have p: "protocol_value r" if "runs yops_registry acc 0 e ?ws r" "protocol_value e" for e r
      using protocol_run [OF that(2) pr] that(1) iff by blast
    note fwd = yops.runs_same [OF _ wf(2,3), of acc 0]
    note bwd = yops.runs_same [OF _ wf(2) same_sym [OF wf(3)], of acc 0]
    have S: "sort_keys r = sort_keys r'" if "runs yops_registry acc 0 ?d ?ws r" "runs yops_registry acc 0 (sort_keys ?d) ?ws r'" "same r r'" for r r'
      using sort_keys_cong [OF p [OF that(1) d] p [OF that(2) sort_keys_protocol [OF d]]] that(3) by (simp add: same_def)
    have "(\<exists>r. runs yops_registry acc 0 (sort_keys ?d) ?ws r \<and> result = \<lparr>st_codec = yops_codec_ref, st_value = sort_keys r\<rparr>) \<longleftrightarrow>
        (\<exists>r. runs yops_registry acc 0 ?d ?ws r \<and> result = \<lparr>st_codec = yops_codec_ref, st_value = sort_keys r\<rparr>)"
      using fwd bwd S same_sym by metis
    moreover have "list_all (\<lambda>v. \<not> has_source v) vs" using True src_all by (auto simp: list_all_iff plain_operation_def)
    ultimately show ?thesis unfolding created_parsed [OF z zc digest base vs True refl] iff by simp
  next
    case False
    have "list_all (plain_operation acc) ?ws" if "list_all (\<lambda>v. \<not> has_source v) vs" "runs yops_registry acc 0 ?d ?ws r" for r
      using runs_schema [OF that(2)] that(1) src_all by (auto simp: list_all_iff plain_operation_def)
    moreover have "list_all (plain_operation acc) ?ws" if "createYOpsEffect acc data digest base vs None = Inr (effect, result)" for effect
      using that unfolding createYOpsEffect_ok [OF base(1)] normalize_seq [OF vs] parseOperations_ok by auto
    ultimately show ?thesis using False by blast
  qed
qed

end
