(* ===== verification/YopsReplacement.thy ===== *)
theory YopsReplacement
  imports YopsAdapterOutcome
begin

text \<open>
  \<open>createYOpsReplacementEffect\<close> of packages/core/src/transition-adapters/yopsDriver.ts: the operations that
  it derives from a base and a target mapping lead from the one to the other, root key by root key.
\<close>

section \<open>One root key\<close>

text \<open>A key that names a place of the root mapping: the path language reads it as itself.\<close>

definition root_key :: "jstring \<Rightarrow> bool" where
  "root_key k \<longleftrightarrow> k \<noteq> [] \<and> slash \<notin> set k \<and> tryParsePath k = Inr [SegKey k]"

lemma root_key_path: "root_key k \<Longrightarrow> parsePath k = [SegKey k]" "root_key k \<Longrightarrow> path_ok k"
  by (simp_all add: root_key_def parsePath_def path_ok_def)

lemma root_assert:
  assumes "root_key k"
  shows "handle (case map_of m k of Some v \<Rightarrow> Assert k (Some v) None None | None \<Rightarrow> Assert k None (Some False) None) (YMap m) i
    = OpResult (YMap m) None"
  by (cases "map_of m k")
    (simp_all add: assertHandler_def resolvePath_def root_key_path [OF assms] ok_def)

lemma root_write:
  assumes "root_key k" "wf_yvalue (YMap m)" "\<And>v. w = Some v \<Longrightarrow> wf_yvalue v" "w \<noteq> None \<or> map_of m k \<noteq> None"
  shows "handle (case w of Some v \<Rightarrow> SetOp k v | None \<Rightarrow> Unset k) (YMap m) i
    = OpResult (YMap (case w of Some v \<Rightarrow> obj_set m k v | None \<Rightarrow> obj_delete m k)) None"
proof (cases w)
  case (Some v)
  have "deepClone (YMap m) = YMap m" "deepClone v = v" using assms(2,3) Some by (auto simp: deepClone_id simp del: deepClone.simps)
  then show ?thesis
    by (simp add: Some setHandler_def setAtPath_def setAtPathSegments_def root_key_path [OF assms(1)] ok_def del: deepClone.simps)
next
  case None
  then obtain v where v: "map_of m k = Some v" using assms(4) by auto
  have "deepClone (YMap m) = YMap m" using assms(2) by (auto simp: deepClone_id simp del: deepClone.simps)
  then show ?thesis
    by (simp add: None v unsetHandler_def deleteAtPathSegments_def root_key_path [OF assms(1)] ok_def del: deepClone.simps)
qed

lemma sameProtocolValue_ok:
  "protocol_value v \<Longrightarrow> protocol_value w \<Longrightarrow> sameProtocolValue v w = Inr (abs_val v = abs_val w)"
  using canonical_text_eq_iff [of v w]
  by (simp add: sameProtocolValue_def canonicalizeProtocolValue_def protocol_value_def throwing_def)

text \<open>The operations for one key.\<close>

definition unchanged :: "(jstring \<times> yvalue) list \<Rightarrow> (jstring \<times> yvalue) list \<Rightarrow> jstring \<Rightarrow> bool" where
  "unchanged b t k \<longleftrightarrow> map_of b k \<noteq> None \<and> map_option abs_val (map_of b k) = map_option abs_val (map_of t k)"

definition key_operations :: "(jstring \<times> yvalue) list \<Rightarrow> (jstring \<times> yvalue) list \<Rightarrow> jstring \<Rightarrow> yop list" where
  "key_operations b t k = (if unchanged b t k then [] else
     [case map_of b k of Some v \<Rightarrow> Assert k (Some v) None None | None \<Rightarrow> Assert k None (Some False) None,
      case map_of t k of Some v \<Rightarrow> SetOp k v | None \<Rightarrow> Unset k])"

lemma replace_key_ok:
  assumes "protocol_value (YMap b)" "protocol_value (YMap t)"
  shows "replace_key b t k = Inr ops \<longleftrightarrow> k \<noteq> [] \<and> slash \<notin> set k \<and> ops = key_operations b t k"
proof -
  have "protocol_value v" if "map_of b k = Some v \<or> map_of t k = Some v" for v
    using assms that by (auto simp: protocol_map list_all_iff dest: map_of_SomeD)
  then show ?thesis
    by (cases "map_of b k"; cases "map_of t k")
      (auto simp: replace_key_def key_operations_def unchanged_def sameProtocolValue_ok)
qed

lemma replacement_operations:
  assumes "protocol_value (YMap b)" "protocol_value (YMap t)"
  shows "traverse (replace_key b t) ks = Inr opss \<longleftrightarrow>
    list_all (\<lambda>k. k \<noteq> [] \<and> slash \<notin> set k) ks \<and> opss = map (key_operations b t) ks"
  unfolding traverse_ok replace_key_ok [OF assms]
  by (induction ks arbitrary: opss) (auto simp: list_all2_Cons1)

lemma key_operations_protocol:
  assumes "protocol_value (YMap b)" "protocol_value (YMap t)" "k \<in> set (map fst b) \<union> set (map fst t)"
  shows "list_all protocol_op (key_operations b t k)"
proof -
  have "protocol_value v" if "map_of b k = Some v \<or> map_of t k = Some v" for v
    using assms that by (auto simp: protocol_map list_all_iff dest: map_of_SomeD)
  moreover have "well_formed k" using assms by (auto simp: protocol_map list_all_iff)
  ultimately show ?thesis
    by (auto simp: key_operations_def wf_op_Assert protocol_only split: option.split)
qed

section \<open>The run\<close>

lemma replacement_run:
  assumes z: "zod_spec acc" and t: "wf_yvalue (YMap t)"
  shows "distinct ks \<Longrightarrow> list_all root_key ks \<Longrightarrow> wf_yvalue (YMap m) \<Longrightarrow> \<forall>k \<in> set ks. map_of m k = map_of b k \<Longrightarrow>
    set ks \<subseteq> set (map fst b) \<union> set (map fst t) \<Longrightarrow>
    \<exists>m'. runs yops_registry acc i (YMap m) (map raw_op (concat (map (key_operations b t) ks))) (YMap m') \<and> wf_yvalue (YMap m')
      \<and> (\<forall>k. map_option abs_val (map_of m' k) = map_option abs_val (if k \<in> set ks then map_of t k else map_of m k))"
proof (induction ks arbitrary: m i)
  case Nil
  then show ?case by (auto intro: runs_Nil)
next
  case (Cons k ks)
  note k = root_key_path
  show ?case
  proof (cases "unchanged b t k")
    case True
    obtain m' where m: "runs yops_registry acc i (YMap m) (map raw_op (concat (map (key_operations b t) ks))) (YMap m')" "wf_yvalue (YMap m')"
      "\<And>k. map_option abs_val (map_of m' k) = map_option abs_val (if k \<in> set ks then map_of t k else map_of m k)"
      using Cons.IH [of m i] Cons.prems by auto
    have "map_option abs_val (map_of m' k') = map_option abs_val (if k' \<in> set (k # ks) then map_of t k' else map_of m k')" for k'
      using m(3) [of k'] True Cons.prems(1,4) by (auto simp: unchanged_def)
    then show ?thesis using m(1,2) True by (auto simp: key_operations_def [of b t k])
  next
    case False
    let ?a = "case map_of b k of Some v \<Rightarrow> Assert k (Some v) None None | None \<Rightarrow> Assert k None (Some False) None"
    let ?w = "case map_of t k of Some v \<Rightarrow> SetOp k v | None \<Rightarrow> Unset k"
    define n where "n = (case map_of t k of Some v \<Rightarrow> obj_set m k v | None \<Rightarrow> obj_delete m k)"
    have rk: "root_key k" and present: "map_of t k \<noteq> None \<or> map_of m k \<noteq> None"
      using Cons.prems(2,4,5) by (auto simp: map_of_eq_None_iff)
    have wf: "wf_yvalue v" if "map_of t k = Some v" for v using t that by (rule wf_map_lookup)
    have a: "handle ?a (YMap m) i = OpResult (YMap m) None" using root_assert [OF rk, of m] Cons.prems(4) by simp
    have w: "handle ?w (YMap m) (i + 1) = OpResult (YMap n) None"
      using root_write [OF rk Cons.prems(3) wf present] by (simp add: n_def)
    have adm: "admissible ?a" "admissible ?w"
      using rk k(2) [OF rk] by (auto simp: admissible_def root_key_def split: option.split)
    have n: "wf_yvalue (YMap n)" "map_of n = (map_of m)(k := map_of t k)"
      using handler.result_wf [OF _ Cons.prems(3) w] wf by (auto simp: n_def fun_eq_iff split: option.split)
    have "\<forall>k' \<in> set ks. map_of n k' = map_of b k'" using Cons.prems(1,4) by (auto simp: n(2))
    then obtain m' where m: "runs yops_registry acc (i + 1 + 1) (YMap n) (map raw_op (concat (map (key_operations b t) ks))) (YMap m')"
      "wf_yvalue (YMap m')"
      "\<And>k. map_option abs_val (map_of m' k) = map_option abs_val (if k \<in> set ks then map_of t k else map_of n k)"
      using Cons.IH [of n "i + 1 + 1"] Cons.prems n(1) by auto
    have "runs yops_registry acc i (YMap m) (map raw_op (?a # ?w # concat (map (key_operations b t) ks))) (YMap m')"
      unfolding list.map(2) typed_runs [OF z] using a w adm m(1) by blast
    moreover have "map_option abs_val (map_of m' k') = map_option abs_val (if k' \<in> set (k # ks) then map_of t k' else map_of m k')" for k'
      using m(3) [of k'] Cons.prems(1) by (auto simp: n(2))
    ultimately show ?thesis using m(2) False by (auto simp: key_operations_def [of b t k])
  qed
qed


section \<open>The effect\<close>

lemma replacement_keys_set:
  "set (replacement_keys b t) = set (map fst b) \<union> set (map fst t)"
  by (auto simp: replacement_keys_def)

lemma replacement_keys_distinct: "distinct (map fst b) \<Longrightarrow> distinct (map fst t) \<Longrightarrow> distinct (replacement_keys b t)"
  by (auto simp: replacement_keys_def)

lemma raw_no_source: "\<not> has_source (raw_op op)"
  by (cases op) (simp_all add: has_source_def op_value_def opt_entry_def has_own_def u_Cons)

lemma same_descriptor:
  "valid_object (PState s) \<Longrightarrow> valid_object (PState t) \<Longrightarrow> abs_val (state_value s) = abs_val (state_value t) \<Longrightarrow>
    descriptor_of (PState s) = descriptor_of (PState t)"
  using canonical_text_eq_iff [of "state_value s" "state_value t"]
  by (simp add: descriptor_of_def preimage_def valid_object_def)

text \<open>With an expected base that is the base, and with none, the creation is the same.\<close>

lemma expected_base:
  "valid_object (PState base) \<Longrightarrow> expected \<in> {None, Some (descriptor_of (PState base))} \<Longrightarrow>
    createYOpsEffect acc data digest base vs expected = createYOpsEffect acc data digest base vs None"
  by (auto simp: createYOpsEffect_def valid_describe throwing_def require_def)

lemma replacement_created:
  assumes z: "zod_spec acc" and zc: "zod_copies acc data" and digest: "digest_pattern digest"
    and base: "valid_object (PState base)" "st_codec base = yops_codec_ref" "st_value base = YMap b"
    and target: "valid_object (PState target)" "st_codec target = yops_codec_ref" "st_value target = YMap t"
    and keys: "list_all root_key (map fst b @ map fst t)" and expected: "expected \<in> {None, Some (descriptor_of (PState base))}"
  shows "\<exists>effect. createYOpsReplacementEffect acc data digest base target expected
    = Inr (effect, \<lparr>st_codec = yops_codec_ref, st_value = sort_keys (st_value target)\<rparr>)"
proof -
  let ?ks = "replacement_keys b t" and ?S = "\<lparr>st_codec = yops_codec_ref, st_value = sort_keys (YMap t)\<rparr>"
  have p: "protocol_value (YMap b)" "protocol_value (YMap t)"
    using state_value_parts(1) [OF base(1)] state_value_parts(1) [OF target(1)] base(3) target(3) by simp_all
  have wf: "wf_yvalue (YMap b)" "wf_yvalue (YMap t)" using p by (simp_all only: protocol_value_def)
  have ks: "set ?ks = set (map fst b) \<union> set (map fst t)" "distinct ?ks" "list_all root_key ?ks"
    using keys wf wf_keys_distinct by (auto simp: replacement_keys_set list_all_iff intro!: replacement_keys_distinct)
  define ops where "ops = concat (map (key_operations b t) ?ks)"
  have ops: "list_all protocol_op ops"
    using key_operations_protocol [OF p] ks(1) by (auto simp: ops_def list_all_iff)
  have traverse: "traverse (replace_key b t) ?ks = Inr (map (key_operations b t) ?ks)"
    unfolding replacement_operations [OF p] using ks(3) by (auto simp: list_all_iff root_key_def)
  obtain m where m: "runs yops_registry acc 0 (YMap b) (map raw_op ops) (YMap m)" "wf_yvalue (YMap m)"
    "\<And>k. map_option abs_val (map_of m k) = map_option abs_val (if k \<in> set ?ks then map_of t k else map_of b k)"
    using replacement_run [OF z wf(2) ks(2,3) wf(1), of b 0] ks(1) unfolding ops_def by auto
  have "map_option abs_val (map_of m k) = map_option abs_val (map_of t k)" for k
  proof (cases "k \<in> set ?ks")
    case False
    then have "map_of b k = None" "map_of t k = None" unfolding ks(1) map_of_None_iff by blast+
    then show ?thesis using m(3) [of k] False by simp
  qed (use m(3) [of k] in simp)
  then have same: "same (YMap m) (YMap t)" unfolding same_Map_iff using m(2) wf(2) by blast
  let ?vs = "map raw_op ops" and ?cs = "map canonical_op ops"
  have prim: "list_all primitive_op ops"
    by (auto simp: ops_def list_all_iff key_operations_def primitive_op_def split: option.splits)
  have wf_ops: "list_all wf_op ops" and cs: "list_all protocol_op ?cs" using ops canonical_protocol by (auto simp: list_all_iff)
  have vs: "list_all protocol_value ?vs" using ops protocol_op_value by (auto simp: list_all_iff)
  have enc: "list_all2 encodes (map sort_keys ?vs) ?cs"
    using prim wf_ops canonical_encodes by (auto simp: list_all2_conv_all_nth list_all_length)
  obtain r where r: "runs yops_registry acc 0 (YMap b) (map raw_op ?cs) r" "same (YMap m) r"
    using canonical_runs(1) [OF z wf_ops wf(1) m(1)] by blast
  have "sort_keys r = sort_keys (YMap t)"
    using sort_keys_cong [OF protocol_run [OF p(1) cs r(1)] p(2)] r(2) same by (simp add: same_def)
  moreover have "list_all (\<lambda>v. \<not> has_source v) ?vs"
    by (auto simp: list_all_iff raw_no_source)
  ultimately obtain effect where e: "createYOpsEffect acc data digest base ?vs None = Inr (effect, ?S)"
    using created_runs [OF z zc digest base(1,2) vs, of ?S] r(1) unfolding encodes_runs [OF z enc] base(3) by auto
  have S: "valid_object (PState ?S)" using codec_state_valid(1) [OF yops_codec sort_keys_protocol [OF p(2)]] .
  have "abs_val (state_value ?S) = abs_val (state_value target)"
    using sort_keys_abs [of "YMap t"] wf(2) unfolding state_value_def abs_val_map by (simp add: abs_obj_eq_iff target del: sort_keys.simps)
  then have "descriptor_of (PState ?S) = descriptor_of (PState target)" by (rule same_descriptor [OF S target(1)])
  then show ?thesis
    using e expected_base [OF base(1) expected] S target(1)
    by (simp add: createYOpsReplacementEffect_def assertYOpsState_ok base target isMapping_def traverse valid_describe
       throwing_def require_def flip: ops_def)
qed

end
