(* ===== verification/StateImport.thy ===== *)
theory StateImport
  imports YopsAdapterLaws
begin

text \<open>
  packages/core/src/transition-adapters/stateImportDriver.ts: the driver that binds a state that exists
  already into the graph of effects, and the construction of its effects.
\<close>

section \<open>The driver\<close>

definition STATE_IMPORT_DRIVER_PROTOCOL :: jstring where
  "STATE_IMPORT_DRIVER_PROTOCOL = u ''t3x.dev/state-import''"

definition STATE_IMPORT_DRIVER_PROTOCOL_VERSION :: jstring where
  "STATE_IMPORT_DRIVER_PROTOCOL_VERSION = u ''1''"

definition STATE_IMPORT_DRIVER_SPEC_DIGEST_DOMAIN :: jstring where
  "STATE_IMPORT_DRIVER_SPEC_DIGEST_DOMAIN = u ''t3x-state-import-driver-spec-v1''"

definition STATE_IMPORT_ROLE :: jstring where
  "STATE_IMPORT_ROLE = u ''state''"

definition stateImportDriverSpec :: yvalue where
  "stateImportDriverSpec = YMap
     [(u ''protocol'', YStr STATE_IMPORT_DRIVER_PROTOCOL),
      (u ''protocolVersion'', YStr STATE_IMPORT_DRIVER_PROTOCOL_VERSION),
      (u ''base'', YStr (u ''state_with_explicit_empty_mapping_value'')),
      (u ''operations'', YStr (u ''none'')),
      (u ''inputs'', YSeq [YMap [(u ''role'', YStr STATE_IMPORT_ROLE), (u ''kind'', YStr (u ''state'')),
         (u ''cardinality'', YStr (u ''exactly_one''))]]),
      (u ''result'', YStr (u ''resolved_state_input_unchanged''))]"

definition computeStateImportDriverSpecDigest :: "jstring protocol" where
  "computeStateImportDriverSpecDigest =
     bind_result (canonicalizeProtocolValue stateImportDriverSpec) (\<lambda>canonicalSpec.
       Inr (u ''sha256:'' @ sha256_hex (utf8_encode (STATE_IMPORT_DRIVER_SPEC_DIGEST_DOMAIN @ [0]) @ utf8_encode canonicalSpec)))"

text \<open>The value of the module's constant; the module does not load when the computation throws.\<close>

definition STATE_IMPORT_DRIVER_SPEC_DIGEST :: jstring where
  "STATE_IMPORT_DRIVER_SPEC_DIGEST = (case computeStateImportDriverSpecDigest of Inr d \<Rightarrow> d | Inl _ \<Rightarrow> [])"

definition STATE_IMPORT_MUTATION_DRIVER_REF :: mutation_driver_ref where
  "STATE_IMPORT_MUTATION_DRIVER_REF = \<lparr>drv_protocol = STATE_IMPORT_DRIVER_PROTOCOL,
     drv_version = STATE_IMPORT_DRIVER_PROTOCOL_VERSION, drv_digest = STATE_IMPORT_DRIVER_SPEC_DIGEST\<rparr>"

definition isExplicitEmptyMapping :: "yvalue \<Rightarrow> bool" where
  "isExplicitEmptyMapping v = (case v of YMap m \<Rightarrow> map fst m = [] | _ \<Rightarrow> False)"

definition assertImportDefinition :: "effect_definition \<Rightarrow> resolved_inputs \<Rightarrow> thrown + unit" where
  "assertImportDefinition defn inputs =
     bind_result (check_that (ed_operations defn = []) UNSUPPORTED_SEMANTICS) (\<lambda>_.
     bind_result (check_that (case ed_inputs defn of
         [declaredInput] \<Rightarrow> in_role declaredInput = STATE_IMPORT_ROLE \<and> desc_kind (in_object declaredInput) = KState
       | _ \<Rightarrow> False) UNSUPPORTED_SEMANTICS) (\<lambda>_.
       check_that (length inputs = 1 \<and> map_of inputs STATE_IMPORT_ROLE \<noteq> None) INTEGRITY_CHAIN_INVALID))"

definition state_import_execute :: "state_object \<Rightarrow> effect_definition \<Rightarrow> resolved_inputs \<Rightarrow> thrown + yvalue" where
  "state_import_execute base defn inputs =
     bind_result (check_that (isExplicitEmptyMapping (st_value base)) UNSUPPORTED_SEMANTICS) (\<lambda>_.
     bind_result (assertImportDefinition defn inputs) (\<lambda>_.
     case map_of inputs STATE_IMPORT_ROLE of
       None \<Rightarrow> Inl (TransitionProtocolError INTEGRITY_CHAIN_INVALID)
     | Some imported \<Rightarrow>
         if schema_of imported \<noteq> STATE_SCHEMA then Inl (TransitionProtocolError INTEGRITY_CHAIN_INVALID)
         else bind_result (throwing (parseState (object_value imported))) (\<lambda>s. Inr (state_value s))))"

definition stateImportMutationDriver :: mutation_driver where
  "stateImportMutationDriver = \<lparr>md_ref = STATE_IMPORT_MUTATION_DRIVER_REF, md_execute = state_import_execute\<rparr>"

definition stateImportMutationDrivers :: driver_registry where
  "stateImportMutationDrivers = [mutationDriverKey STATE_IMPORT_MUTATION_DRIVER_REF \<mapsto> stateImportMutationDriver]"

section \<open>createStateImportEffect\<close>

definition import_definition :: "object_descriptor \<Rightarrow> effect_definition" where
  "import_definition d = \<lparr>ed_driver = STATE_IMPORT_MUTATION_DRIVER_REF, ed_operations = [],
     ed_inputs = [\<lparr>in_role = STATE_IMPORT_ROLE, in_object = d\<rparr>]\<rparr>"

definition createStateImportEffect :: "state_object \<Rightarrow> state_object \<Rightarrow> object_descriptor option \<Rightarrow>
    thrown + (effect_object \<times> state_object)" where
  "createStateImportEffect input_base input_imported expectedBase =
     bind_result (throwing (parseState (state_value input_base))) (\<lambda>base.
     bind_result (throwing (parseState (state_value input_imported))) (\<lambda>imported.
     bind_result (throwing (describeProtocolObject (PState base))) (\<lambda>baseDescriptor.
     bind_result (check_that (case expectedBase of None \<Rightarrow> True | Some d \<Rightarrow> baseDescriptor = d) STALE_BASE) (\<lambda>_.
     bind_result (throwing (describeProtocolObject (PState imported))) (\<lambda>importedDescriptor.
     let defn = import_definition importedDescriptor
     in bind_result (replay base (definition_value defn) [(STATE_IMPORT_ROLE, PState imported)] stateImportMutationDrivers) (\<lambda>result.
        bind_result (throwing (describeProtocolObject (PState result))) (\<lambda>resultDescriptor.
        bind_result (throwing (parseEffect (effect_value
          \<lparr>ef_base = baseDescriptor, ef_definition = defn, ef_result = resultDescriptor\<rparr>))) (\<lambda>effect.
          Inr (effect, result)))))))))"

section \<open>What the driver does\<close>

lemma import_digest: "digest_pattern STATE_IMPORT_DRIVER_SPEC_DIGEST"
proof -
  have "unicode_ok stateImportDriverSpec"
    by (simp add: stateImportDriverSpec_def STATE_IMPORT_DRIVER_PROTOCOL_def STATE_IMPORT_DRIVER_PROTOCOL_VERSION_def STATE_IMPORT_ROLE_def)
  then obtain t where t: "computeStateImportDriverSpecDigest = Inr (u ''sha256:'' @ sha256_hex t)"
    by (auto simp: computeStateImportDriverSpecDigest_def canonicalizeProtocolValue_def)
  have "list_all is_lower_hex (sha256_hex t)"
    using sha256_hex_digits(2) [of _ t] by (auto simp: list_all_iff is_lower_hex_def is_digit_def)
  then show ?thesis
    unfolding STATE_IMPORT_DRIVER_SPEC_DIGEST_def t sum.case by (simp add: digest_pattern_def sha256_hex_digits(1) u_def)
qed

lemma import_ref_parses: "mutationDriverRef (driver_value STATE_IMPORT_MUTATION_DRIVER_REF) = Inr STATE_IMPORT_MUTATION_DRIVER_REF"
  using import_digest
  by (simp add: mutationDriverRef_def driver_value_def STATE_IMPORT_MUTATION_DRIVER_REF_def STATE_IMPORT_DRIVER_PROTOCOL_def
      STATE_IMPORT_DRIVER_PROTOCOL_VERSION_def closed_value parse_identifier_def parse_digest_def identifier_pattern_def u_Cons
      is_digit_cu is_letter_def unat_cu)

lemma import_definition_parses:
  assumes "digest_pattern (desc_digest d)"
  shows "parseEffectDefinition (definition_value (import_definition d)) = Inr (import_definition d)"
proof -
  have "well_formed (object_kind_name k)" "well_formed (expectedSchema k)" for k by (cases k; simp add: schema_defs)+
  then have "unicode_ok (definition_value (import_definition d))"
    using digest_plain [OF import_digest] digest_plain [OF assms]
    by (simp add: definition_value_def import_definition_def driver_value_def STATE_IMPORT_MUTATION_DRIVER_REF_def
        STATE_IMPORT_DRIVER_PROTOCOL_def STATE_IMPORT_DRIVER_PROTOCOL_VERSION_def effect_input_value_def STATE_IMPORT_ROLE_def descriptor_value_def)
  moreover have "parse_inputs None [effect_input_value \<lparr>in_role = STATE_IMPORT_ROLE, in_object = d\<rparr>] = Inr [\<lparr>in_role = STATE_IMPORT_ROLE, in_object = d\<rparr>]"
    using assms by (simp add: effect_input_value_def closed_value parse_identifier_def parse_descriptor_value STATE_IMPORT_ROLE_def
        identifier_pattern_def u_Cons is_digit_cu is_letter_def unat_cu)
  ultimately show ?thesis
    using import_ref_parses
    by (simp add: parseEffectDefinition_def definition_value_def import_definition_def closed_value)
qed

lemma import_execute:
  assumes "valid_object (PState imported)"
  shows "state_import_execute base (import_definition d) [(STATE_IMPORT_ROLE, PState imported)] = Inr r
    \<longleftrightarrow> st_value base = YMap [] \<and> desc_kind d = KState \<and> r = state_value imported"
proof -
  have "isExplicitEmptyMapping v \<longleftrightarrow> v = YMap []" for v by (cases v) (simp_all add: isExplicitEmptyMapping_def)
  then show ?thesis
    using state_value_parts(3) [OF assms]
    by (auto simp: state_import_execute_def assertImportDefinition_def import_definition_def throwing_def)
qed

lemma import_replay:
  assumes "valid_object (PState base)" "valid_object (PState imported)" "describeProtocolObject (PState imported) = Inr d"
  shows "replay base (definition_value (import_definition d)) [(STATE_IMPORT_ROLE, PState imported)] stateImportMutationDrivers = Inr result
    \<longleftrightarrow> st_value base = YMap [] \<and> result = imported"
proof -
  have d: "digest_pattern (desc_digest d)" "desc_kind d = KState"
    using assms(3) valid_describe [OF assms(2)] descriptor_of_digest by (auto simp: descriptor_of_def)
  have "resolveMutationDriver stateImportMutationDrivers STATE_IMPORT_MUTATION_DRIVER_REF = Inr stateImportMutationDriver"
    by (simp add: resolveMutationDriver_def stateImportMutationDrivers_def stateImportMutationDriver_def)
  moreover have "definition_value (import_definition d) \<noteq> YNull" "\<not> carries_forbidden (definition_value (import_definition d))"
    by (simp_all add: definition_value_def carries_forbidden_def has_own_def u_Cons)
  moreover have "ed_driver (import_definition d) = STATE_IMPORT_MUTATION_DRIVER_REF"
    "ed_inputs (import_definition d) = [\<lparr>in_role = STATE_IMPORT_ROLE, in_object = d\<rparr>]"
    by (simp_all add: import_definition_def)
  ultimately show ?thesis
    unfolding replay_ok import_definition_parses [OF d(1)] state_value_parts(3) [OF assms(1)]
    using assms(3) state_value_parts(3) [OF assms(2)] import_execute [OF assms(2), of base d] d(2)
    by (auto simp: stateImportMutationDriver_def)
qed

section \<open>The effect\<close>

definition import_effect :: "state_object \<Rightarrow> state_object \<Rightarrow> effect_object" where
  "import_effect base imported = \<lparr>ef_base = descriptor_of (PState base),
     ef_definition = import_definition (descriptor_of (PState imported)), ef_result = descriptor_of (PState imported)\<rparr>"

lemma import_effect_parses: "parseEffect (effect_value (import_effect base imported)) = Inr (import_effect base imported)"
  using import_definition_parses [OF descriptor_of_digest, of "PState imported"]
  by (simp add: import_effect_def effect_value_parses state_descriptor_parses descriptor_of_digest) (simp add: descriptor_of_def)

lemma import_created:
  assumes "valid_object (PState base)" "valid_object (PState imported)"
  shows "createStateImportEffect base imported expectedBase = Inr (effect, result) \<longleftrightarrow>
    (case expectedBase of None \<Rightarrow> True | Some d \<Rightarrow> descriptor_of (PState base) = d) \<and> st_value base = YMap []
    \<and> effect = import_effect base imported \<and> result = imported"
proof -
  note d = valid_describe [OF assms(1)] valid_describe [OF assms(2)]
  show ?thesis
    unfolding createStateImportEffect_def Let_def bind_result_ok throwing_ok require_ok
      state_value_parts(3) [OF assms(1)] state_value_parts(3) [OF assms(2)] d
    using import_replay [OF assms d(2)] import_effect_parses [of base imported] d
    by (auto simp: import_effect_def)
qed

lemma import_verifies:
  assumes base: "valid_object (PState base)" "st_value base = YMap []" and imported: "valid_object (PState imported)"
    and b: "resolveProtocolObject get (descriptor_of (PState base)) = Inr (PState b)" "abs_val (state_value b) = abs_val (state_value base)"
    and i: "resolveProtocolObject get (descriptor_of (PState imported)) = Inr (PState i)"
  shows "verifyEffect (import_effect base imported) get stateImportMutationDrivers
    = Inr \<lparr>ve_effect = import_effect base imported, ve_result = i, ve_descriptor = descriptor_of (PState imported)\<rparr>"
proof -
  let ?e = "import_effect base imported" and ?d = "descriptor_of (PState imported)"
  note vb = resolve_sound(1) [OF b(1)] and vi = resolve_sound(1,2) [OF i]
  have "sort_keys (st_value b) = YMap []" using same_states(2) [OF base(1) vb b(2)] base(2) by (simp add: obj_set_all_def)
  moreover have "abs_val (sort_keys (st_value b)) = abs_val (st_value b)"
    using sort_keys_abs [of "st_value b"] state_value_parts(1) [OF vb] by (simp add: protocol_value_def)
  ultimately have "st_value b = YMap []" by (intro abs_empty) simp
  then have "replay b (definition_value (import_definition ?d)) [(STATE_IMPORT_ROLE, PState i)] stateImportMutationDrivers = Inr i"
    using import_replay [OF vb vi] by simp
  moreover have "resolve_inputs get [] (ed_inputs (ef_definition ?e)) = Inr [(STATE_IMPORT_ROLE, PState i)]"
    by (simp add: import_effect_def import_definition_def i)
  ultimately show ?thesis
    using effect_verifies [OF import_effect_parses [of base imported], of get b "[(STATE_IMPORT_ROLE, PState i)]" stateImportMutationDrivers i] b(1) vi(2)
    by (simp add: import_effect_def)
qed

end
