(* ===== verification/TransitionCommits.thy ===== *)
theory TransitionCommits
  imports Integrity
begin

text \<open>
  packages/core/src/transition-commits/commit.ts and projection.ts: the texts in which objects are stored,
  a resolver that is overlaid with objects that are not stored yet, the graph of a decision, and the creation
  of commits. \<open>new TextEncoder().encode\<close> is \<open>utf8_encode\<close>; \<open>decode\<close> of a fatal decoder is \<open>utf8_decode\<close> and
  throws a TypeError, here \<open>OtherError\<close>. Awaiting is left out, as for every resolver.
\<close>

section \<open>Stored texts\<close>

record serialized_object =
  so_descriptor :: object_descriptor
  so_json :: jstring

definition decode_text :: "byte list \<Rightarrow> thrown + jstring" where
  "decode_text bs = (case utf8_decode bs of Some s \<Rightarrow> Inr s | None \<Rightarrow> Inl OtherError)"

definition serializeTransitionObject :: "protocol_object \<Rightarrow> thrown + serialized_object" where
  "serializeTransitionObject ob =
     bind_result (throwing (describeProtocolObject ob)) (\<lambda>d.
     bind_result (throwing (canonicalProtocolObjectBytes ob)) (\<lambda>bytes.
     bind_result (decode_text bytes) (\<lambda>s. Inr \<lparr>so_descriptor = d, so_json = s\<rparr>)))"

definition parseSerializedTransitionObject :: "jstring \<Rightarrow> protocol_object protocol" where
  "parseSerializedTransitionObject s = parseProtocolBytes (Inr (utf8_encode s))"

section \<open>Overlays\<close>

type_synonym overlay = "jstring \<rightharpoonup> byte list"

definition overlay_get :: "overlay \<Rightarrow> resolver \<Rightarrow> resolver" where
  "overlay_get over fallback descriptor = (case over (desc_digest descriptor) of
     None \<Rightarrow> fallback descriptor | Some bytes \<Rightarrow> Inr (Some bytes))"

definition overlay_add :: "overlay \<Rightarrow> protocol_object \<Rightarrow> thrown + overlay" where
  "overlay_add over ob =
     bind_result (serializeTransitionObject ob) (\<lambda>serialized.
     let digest = desc_digest (so_descriptor serialized)
     in bind_result (case over digest of
            None \<Rightarrow> Inr ()
          | Some existing \<Rightarrow> bind_result (decode_text existing) (\<lambda>s. require (s = so_json serialized) OtherError)) (\<lambda>_.
        Inr (over(digest \<mapsto> utf8_encode (so_json serialized)))))"

fun overlay_objects :: "overlay \<Rightarrow> protocol_object list \<Rightarrow> thrown + overlay" where
  "overlay_objects over [] = Inr over"
| "overlay_objects over (ob # obs) = bind_result (overlay_add over ob) (\<lambda>over'. overlay_objects over' obs)"

definition overlayTransitionObjects :: "resolver \<Rightarrow> protocol_object list \<Rightarrow> thrown + resolver" where
  "overlayTransitionObjects fallback objects =
     bind_result (overlay_objects Map.empty objects) (\<lambda>over. Inr (overlay_get over fallback))"

section \<open>Decisions and commits\<close>

record decision_graph =
  dg_decision :: statement_object
  dg_proposal :: statement_object
  dg_effect :: effect_object

definition verifyDecisionGraph :: "statement_object \<Rightarrow> resolver \<Rightarrow> thrown + decision_graph" where
  "verifyDecisionGraph decision resolver =
     bind_result (throwing (parseDecisionStatement (statement_value decision))) (\<lambda>parsedDecision.
     bind_result (overlayTransitionObjects resolver [PStatement parsedDecision]) (\<lambda>decisionResolver.
     bind_result (resolve_first decisionResolver (sm_subjects parsedDecision)) (\<lambda>proposalObject.
     bind_result (throwing (parseProposalStatement (object_value proposalObject))) (\<lambda>proposal.
     bind_result (resolve_first decisionResolver (sm_subjects proposal)) (\<lambda>effectObject.
     bind_result (throwing (parseEffect (object_value effectObject))) (\<lambda>effect.
       Inr \<lparr>dg_decision = parsedDecision, dg_proposal = proposal, dg_effect = effect\<rparr>))))))"

definition createCommitV2 :: "object_descriptor list \<Rightarrow> statement_object \<Rightarrow> resolver \<Rightarrow> thrown + commit_object" where
  "createCommitV2 parents decision input_resolver =
     bind_result (throwing (describeProtocolObject (PStatement decision))) (\<lambda>decisionDescriptor.
     bind_result (overlayTransitionObjects input_resolver [PStatement decision]) (\<lambda>resolver.
     bind_result (verifyDecisionGraph decision resolver) (\<lambda>graph.
     bind_result (throwing (parseCommitV2 (commit_value
       \<lparr>cm_parents = parents, cm_decision = decisionDescriptor, cm_result = ef_result (dg_effect graph)\<rparr>))) (\<lambda>commit.
     bind_result (verifyCommitIntegrity commit resolver) (\<lambda>_. Inr commit)))))"

definition describeCommitV2 :: "commit_object \<Rightarrow> object_descriptor protocol" where
  "describeCommitV2 commit = bind_result (parseCommitV2 (commit_value commit)) (\<lambda>c. describeProtocolObject (PCommit c))"

definition verifyCommitV2 :: "commit_object \<Rightarrow> resolver \<Rightarrow> thrown + verified_commit" where
  "verifyCommitV2 commit get = bind_result (throwing (parseCommitV2 (commit_value commit))) (\<lambda>c. verifyCommitIntegrity c get)"

section \<open>projection.ts\<close>

record commit_projection =
  cp_format :: jstring
  cp_id :: jstring
  cp_schema :: jstring
  cp_parents :: "jstring list"
  cp_recorded_at :: jstring
  cp_result_mode :: jstring
  cp_result :: object_descriptor
  cp_assurance_mode :: jstring
  cp_decision :: object_descriptor

definition projectCommitV2 :: "commit_object \<Rightarrow> jstring \<Rightarrow> commit_projection protocol" where
  "projectCommitV2 commit recordedAt = bind_result (describeCommitV2 commit) (\<lambda>d.
     Inr \<lparr>cp_format = u ''transition_v2'', cp_id = desc_digest d, cp_schema = COMMIT_V2_SCHEMA,
       cp_parents = map desc_digest (cm_parents commit), cp_recorded_at = recordedAt,
       cp_result_mode = u ''state_descriptor'', cp_result = cm_result commit,
       cp_assurance_mode = u ''decision_bound'', cp_decision = cm_decision commit\<rparr>)"

section \<open>Laws of stored texts\<close>

lemma canonical_decodes:
  assumes "protocol_value v"
  shows "utf8_decode (utf8_encode (canonical_text v)) = Some (canonical_text v)"
proof -
  have ok: "unicode_ok v" using assms by (simp add: protocol_value_def)
  have "\<exists>c s. canonical_text v = c # s \<and> unat c < 128"
  proof (cases v)
    case (YNum n)
    then show ?thesis using number_to_string_hd [of n] by (auto simp: is_digit_def unat_cu)
  qed (auto simp: u_Cons unat_cu json_quote_def)
  then show ?thesis using utf8_roundtrip canonical_text_well_formed [OF ok] by auto
qed

lemma valid_protocol: "valid_object ob \<Longrightarrow> protocol_value (object_value ob)"
  by (simp add: valid_object_def)

lemma serialize_ok:
  assumes "valid_object ob"
  shows "serializeTransitionObject ob = Inr \<lparr>so_descriptor = descriptor_of ob, so_json = canonical_text (object_value ob)\<rparr>"
  using canonical_decodes [OF valid_protocol [OF assms]]
  by (simp add: serializeTransitionObject_def valid_describe [OF assms] valid_bytes [OF assms] throwing_def decode_text_def)

text \<open>What is stored is read back as the same object, under the same descriptor.\<close>

lemma serialized_parses:
  assumes "valid_object ob" "serializeTransitionObject ob = Inr s"
  shows "\<exists>ob'. parseSerializedTransitionObject (so_json s) = Inr ob' \<and> abs_val (object_value ob') = abs_val (object_value ob)
    \<and> describeProtocolObject ob' = Inr (so_descriptor s)"
proof -
  have s: "so_descriptor s = descriptor_of ob" "so_json s = canonical_text (object_value ob)"
    using assms(2) unfolding serialize_ok [OF assms(1)] by auto
  let ?get = "\<lambda>_. Inr (Some (utf8_encode (canonical_text (object_value ob))))"
  obtain ob' where r: "resolveProtocolObject ?get (descriptor_of ob) = Inr ob'" "abs_val (object_value ob') = abs_val (object_value ob)"
    using resolve_complete [OF assms(1) valid_describe [OF assms(1)] valid_bytes [OF assms(1)], of ?get] by auto
  then have "parseProtocolBytes (Inr (utf8_encode (canonical_text (object_value ob)))) = Inr ob'" "describeProtocolObject ob' = Inr (descriptor_of ob)"
    unfolding resolve_ok by auto
  with r(2) show ?thesis by (auto simp: parseSerializedTransitionObject_def s)
qed

section \<open>Laws of overlays\<close>

text \<open>A resolver extends another when it resolves at least what the other one does, to the same objects.\<close>

definition extends :: "resolver \<Rightarrow> resolver \<Rightarrow> bool" where
  "extends g f \<longleftrightarrow> (\<forall>d ob. resolveProtocolObject f d = Inr ob \<longrightarrow> resolveProtocolObject g d = Inr ob)"

lemma overlay_one:
  assumes "valid_object ob"
  shows "overlayTransitionObjects f [ob] = Inr g \<longleftrightarrow>
    g = overlay_get [desc_digest (descriptor_of ob) \<mapsto> utf8_encode (canonical_text (object_value ob))] f"
  by (auto simp: overlayTransitionObjects_def overlay_add_def serialize_ok [OF assms])

lemma extends_chain:
  assumes e: "extends g f" and c: "chain f vc"
  shows "chain g vc"
proof -
  have r: "resolveProtocolObject f d = Inr ob \<Longrightarrow> resolveProtocolObject g d = Inr ob" for d ob using e by (simp add: extends_def)
  have n: "resolvable f d \<Longrightarrow> resolvable g d" for d using r by (auto simp: resolvable_def)
  have k: "considered_ok f d \<Longrightarrow> considered_ok g d" for d using r n by (fastforce simp: considered_ok_def)
  obtain dp i q d e base where h:
      "resolveProtocolObject f (cm_decision (vc_commit vc)) = Inr (PStatement (vc_decision vc))"
      "sm_predicate (vc_decision vc) = Decision dp" "dp_outcome dp \<noteq> Rejected" "sm_subjects (vc_decision vc) = [d]"
      "resolveProtocolObject f d = Inr (PStatement (vc_proposal vc))"
      "sm_predicate (vc_proposal vc) = Proposal i q" "sm_subjects (vc_proposal vc) = [e]"
      "resolveProtocolObject f e = Inr (PEffect (vc_effect vc))" "cm_result (vc_commit vc) = ef_result (vc_effect vc)"
      "resolveProtocolObject f (ef_base (vc_effect vc)) = Inr (PState base)" "resolvable f (cm_result (vc_commit vc))"
      "\<forall>j \<in> set (ed_inputs (ef_definition (vc_effect vc))). resolvable f (in_object j)"
      "\<forall>s \<in> set (dp_considered dp). considered_ok f s"
      "list_all2 (\<lambda>p c. resolveProtocolObject f p = Inr (PCommit c)) (cm_parents (vc_commit vc)) (vc_parents vc)"
      "follows (vc_effect vc) base (vc_parents vc)"
    using c unfolding chain_def by blast
  have p: "list_all2 (\<lambda>p c. resolveProtocolObject g p = Inr (PCommit c)) (cm_parents (vc_commit vc)) (vc_parents vc)"
    using h(14) by (rule list_all2_mono) (rule r)
  have "\<forall>j \<in> set (ed_inputs (ef_definition (vc_effect vc))). resolvable g (in_object j)"
    "\<forall>s \<in> set (dp_considered dp). considered_ok g s" using h(12,13) n k by blast+
  then show ?thesis
    unfolding chain_def using h(2-4,6,7,9,15) r [OF h(1)] r [OF h(5)] r [OF h(8)] r [OF h(10)] n [OF h(11)] p by blast
qed

text \<open>Overlaying a store with a valid object resolves no more than storing the object.\<close>

lemma stored_extends_overlay:
  assumes v: "valid_object ob" and p: "memory_put m ob = Inr (d, m')"
    and o: "overlayTransitionObjects (memory_get m) [ob] = Inr g"
  shows "extends (memory_get m') g"
  unfolding extends_def
proof (intro allI impI)
  fix e x
  assume r: "resolveProtocolObject g e = Inr x"
  let ?bs = "utf8_encode (canonical_text (object_value ob))"
  have g: "g = overlay_get [desc_digest (descriptor_of ob) \<mapsto> ?bs] (memory_get m)" using o unfolding overlay_one [OF v] .
  have d: "d = descriptor_of ob" and got: "memory_get m' d = Inr (Some ?bs)"
    using p by (auto simp: memory_put_def memory_get_def valid_describe [OF v] valid_bytes [OF v])
  show "resolveProtocolObject (memory_get m') e = Inr x"
  proof (cases "desc_digest e = desc_digest d")
    case True
    then have ge: "g e = Inr (Some ?bs)" by (simp add: g overlay_get_def d)
    then have x: "canonicalProtocolObjectBytes x = Inr ?bs" "valid_object x" "describeProtocolObject x = Inr e" "parseProtocolBytes (Inr ?bs) = Inr x"
      using r resolve_sound(1,2) [OF r] unfolding resolve_ok by auto
    have "abs_val (object_value x) = abs_val (object_value ob)"
      using x(1) valid_bytes [OF v] bytes_eq_iff [OF valid_protocol [OF x(2)] valid_protocol [OF v]]
      by (simp add: valid_bytes [OF x(2)] bytes_ok valid_protocol [OF v] valid_protocol [OF x(2)])
    then have "desc_kind e = desc_kind d"
      using object_kind_abs [of x ob] x(3) valid_describe [OF x(2)] by (auto simp: d descriptor_of_def)
    with True have "e = d" by simp
    with ge got r show ?thesis using in_memory.resolve_cong [of g e "memory_get m'" x] by simp
  next
    case False
    then have "g e = memory_get m e" "e \<noteq> d" by (auto simp: g overlay_get_def d)
    then have "memory_get m' e = g e" using in_memory.put_stays [OF p] by simp
    then show ?thesis using in_memory.resolve_cong [of "memory_get m'" e g x] r by simp
  qed
qed

section \<open>Laws of commits\<close>

lemma verifyCommitV2_eq: "verifyCommitV2 c get = Inr vc \<longleftrightarrow> verifyCommitIntegrity c get = Inr vc"
  using commit_value_parses [of c] unfolding verifyCommitV2_def bind_result_ok throwing_ok verifyCommitIntegrity_chain by blast

lemma createCommitV2_ok:
  assumes "valid_object (PStatement decision)"
  shows "createCommitV2 parents decision f = Inr c \<longleftrightarrow> (\<exists>g graph vc. overlayTransitionObjects f [PStatement decision] = Inr g
    \<and> verifyDecisionGraph decision g = Inr graph
    \<and> c = \<lparr>cm_parents = parents, cm_decision = descriptor_of (PStatement decision), cm_result = ef_result (dg_effect graph)\<rparr>
    \<and> verifyCommitIntegrity c g = Inr vc)"
proof -
  have p: "parseCommitV2 (commit_value y) = Inr c \<and> (\<exists>vc. verifyCommitIntegrity c g = Inr vc) \<longleftrightarrow> c = y \<and> (\<exists>vc. verifyCommitIntegrity c g = Inr vc)" for y g
    using commit_value_parses [of y c] unfolding verifyCommitIntegrity_chain by blast
  have "createCommitV2 parents decision f = Inr c \<longleftrightarrow> (\<exists>g graph. overlayTransitionObjects f [PStatement decision] = Inr g
    \<and> verifyDecisionGraph decision g = Inr graph
    \<and> parseCommitV2 (commit_value \<lparr>cm_parents = parents, cm_decision = descriptor_of (PStatement decision), cm_result = ef_result (dg_effect graph)\<rparr>) = Inr c
    \<and> (\<exists>vc. verifyCommitIntegrity c g = Inr vc))"
    unfolding createCommitV2_def bind_result_ok throwing_ok valid_describe [OF assms] by auto
  then show ?thesis unfolding p by blast
qed

text \<open>What a statement says in its subjects and in the type of its predicate does not depend on the order of keys.\<close>

lemma field_abs: "abs_val (YMap m) = abs_val (YMap n) \<Longrightarrow> map_option abs_val (map_of m k) = map_option abs_val (map_of n k)"
  unfolding abs_val_map jdoc.inject abs_obj_eq_iff by blast

lemma descriptor_value_abs: "abs_val (descriptor_value d) = abs_val (descriptor_value e) \<Longrightarrow> d = e"
proof -
  assume a: "abs_val (descriptor_value d) = abs_val (descriptor_value e)"
  have "object_kind_name (desc_kind d) = object_kind_name (desc_kind e)" "desc_digest d = desc_digest e"
    using field_abs [OF a [unfolded descriptor_value_def], of "u ''kind''"] field_abs [OF a [unfolded descriptor_value_def], of "u ''digest''"]
    by simp_all
  moreover have "object_kind_name x = object_kind_name y \<Longrightarrow> x = y" for x y by (cases x; cases y) (simp_all add: u_Cons)
  ultimately show "d = e" by simp
qed

lemma descriptor_values_abs:
  "abs_val (YSeq (map descriptor_value ds)) = abs_val (YSeq (map descriptor_value es)) \<Longrightarrow> ds = es"
  using inj_map_eq_map [of "\<lambda>d. abs_val (descriptor_value d)" ds es]
  by (simp add: comp_def inj_def descriptor_value_abs)

lemma statement_abs:
  assumes "abs_val (statement_value s) = abs_val (statement_value t)"
  shows "sm_subjects s = sm_subjects t" "predicate_type (sm_predicate s) = predicate_type (sm_predicate t)"
    "abs_val (predicate_value (sm_predicate s)) = abs_val (predicate_value (sm_predicate t))"
proof -
  note f = field_abs [OF assms [unfolded statement_value_def]]
  show "sm_subjects s = sm_subjects t" by (rule descriptor_values_abs) (use f [of "u ''subjects''"] in simp)
  show "predicate_type (sm_predicate s) = predicate_type (sm_predicate t)" using f [of "u ''predicateType''"] by simp
  show "abs_val (predicate_value (sm_predicate s)) = abs_val (predicate_value (sm_predicate t))" using f [of "u ''predicate''"] by simp
qed

text \<open>The overlaid decision resolves, and a second overlay with it changes nothing.\<close>

lemma overlay_twice:
  "valid_object ob \<Longrightarrow> overlayTransitionObjects f [ob] = Inr g \<Longrightarrow> overlayTransitionObjects g [ob] = Inr g"
  unfolding overlay_one by (auto simp: overlay_get_def fun_eq_iff split: option.split)

lemma overlay_resolves:
  assumes "valid_object ob" "overlayTransitionObjects f [ob] = Inr g"
  shows "\<exists>ob'. resolveProtocolObject g (descriptor_of ob) = Inr ob' \<and> abs_val (object_value ob') = abs_val (object_value ob)"
  using assms(2) unfolding overlay_one [OF assms(1)]
  by (intro resolve_complete [OF assms(1) valid_describe [OF assms(1)] valid_bytes [OF assms(1)]]) (simp add: overlay_get_def)

lemma decision_graph_chain:
  assumes d: "valid_object (PStatement decision)" and g: "overlayTransitionObjects f [PStatement decision] = Inr g"
    and c: "chain g vc" "cm_decision (vc_commit vc) = descriptor_of (PStatement decision)"
  shows "verifyDecisionGraph decision g = Inr \<lparr>dg_decision = decision, dg_proposal = vc_proposal vc, dg_effect = vc_effect vc\<rparr>"
proof -
  obtain dp i q s e where h:
      "resolveProtocolObject g (descriptor_of (PStatement decision)) = Inr (PStatement (vc_decision vc))"
      "sm_predicate (vc_decision vc) = Decision dp" "sm_subjects (vc_decision vc) = [s]"
      "resolveProtocolObject g s = Inr (PStatement (vc_proposal vc))"
      "sm_predicate (vc_proposal vc) = Proposal i q" "sm_subjects (vc_proposal vc) = [e]"
      "resolveProtocolObject g e = Inr (PEffect (vc_effect vc))"
    using c unfolding chain_def by auto
  have "abs_val (statement_value (vc_decision vc)) = abs_val (statement_value decision)"
    using overlay_resolves [OF d g] h(1) by auto
  note a = statement_abs [OF this]
  have "parseDecisionStatement (statement_value decision) = Inr decision"
    using valid_parses(3) [OF d] a(2) by (simp add: parseDecisionStatement_def h(2))
  moreover have "parseProposalStatement (statement_value (vc_proposal vc)) = Inr (vc_proposal vc)"
    using valid_parses(3) [OF resolve_sound(1) [OF h(4)]] by (simp add: parseProposalStatement_def h(5))
  moreover have "parseEffect (effect_value (vc_effect vc)) = Inr (vc_effect vc)"
    using valid_parses(2) [OF resolve_sound(1) [OF h(7)]] .
  moreover have "sm_subjects decision = [s]" using a(1) h(3) by simp
  ultimately show ?thesis
    using overlay_twice [OF d g] h(4,6,7) by (simp add: verifyDecisionGraph_def throwing_def resolve_first_def)
qed

text \<open>A commit is created exactly when the chain of the decision holds with the decision at hand.\<close>

lemma created_commit_chain:
  assumes d: "valid_object (PStatement decision)"
  shows "createCommitV2 parents decision f = Inr c \<longleftrightarrow> (\<exists>g vc. overlayTransitionObjects f [PStatement decision] = Inr g
    \<and> chain g vc \<and> vc_commit vc = c \<and> cm_parents c = parents \<and> cm_decision c = descriptor_of (PStatement decision)
    \<and> parseCommitV2 (commit_value c) = Inr c)"
proof
  assume "createCommitV2 parents decision f = Inr c"
  then show "\<exists>g vc. overlayTransitionObjects f [PStatement decision] = Inr g
    \<and> chain g vc \<and> vc_commit vc = c \<and> cm_parents c = parents \<and> cm_decision c = descriptor_of (PStatement decision)
    \<and> parseCommitV2 (commit_value c) = Inr c"
    unfolding createCommitV2_ok [OF d] verifyCommitIntegrity_chain by auto
next
  assume "\<exists>g vc. overlayTransitionObjects f [PStatement decision] = Inr g
    \<and> chain g vc \<and> vc_commit vc = c \<and> cm_parents c = parents \<and> cm_decision c = descriptor_of (PStatement decision)
    \<and> parseCommitV2 (commit_value c) = Inr c"
  then obtain g vc where h: "overlayTransitionObjects f [PStatement decision] = Inr g" "chain g vc" "vc_commit vc = c"
    "cm_parents c = parents" "cm_decision c = descriptor_of (PStatement decision)" "parseCommitV2 (commit_value c) = Inr c" by blast
  have "verifyDecisionGraph decision g = Inr \<lparr>dg_decision = decision, dg_proposal = vc_proposal vc, dg_effect = vc_effect vc\<rparr>"
    using decision_graph_chain [OF d h(1,2)] h(3,5) by simp
  moreover have "cm_result c = ef_result (vc_effect vc)" using h(2,3) unfolding chain_def by auto
  then have "c = \<lparr>cm_parents = parents, cm_decision = descriptor_of (PStatement decision), cm_result = ef_result (vc_effect vc)\<rparr>"
    using h(4,5) by simp
  moreover have "verifyCommitIntegrity c g = Inr vc" using h(2,3,6) by (simp add: verifyCommitIntegrity_chain)
  ultimately show "createCommitV2 parents decision f = Inr c" unfolding createCommitV2_ok [OF d] using h(1) by fastforce
qed

text \<open>Once its decision is stored, the commit verifies from the store alone.\<close>

lemma stored_commit_verifies:
  assumes "valid_object (PStatement decision)" "createCommitV2 parents decision (memory_get m) = Inr c"
    and "memory_put m (PStatement decision) = Inr (d, m')"
  shows "\<exists>vc. verifyCommitV2 c (memory_get m') = Inr vc \<and> vc_commit vc = c"
proof -
  obtain g vc where g: "overlayTransitionObjects (memory_get m) [PStatement decision] = Inr g" "chain g vc" "vc_commit vc = c"
    "parseCommitV2 (commit_value c) = Inr c" using assms(2) unfolding created_commit_chain [OF assms(1)] by blast
  have "chain (memory_get m') vc" by (rule extends_chain [OF stored_extends_overlay [OF assms(1,3) g(1)] g(2)])
  then show ?thesis unfolding verifyCommitV2_eq verifyCommitIntegrity_chain using g(3,4) by blast
qed

end
