(* ===== verification/CommitSamples.thy ===== *)
theory CommitSamples
  imports TransitionCommits TransitionSamples
begin

text \<open>
  The graph of a first commit: a store with the two states and the effect of TransitionSamples and a
  proposal of the effect, and an accepting decision over it. The chain of that decision holds
  (\<open>sample_chain\<close>), unless the decision shares a SHA-256 digest with one of the stored objects.
\<close>

lemma descriptor_protocol: "digest_pattern (desc_digest d) \<Longrightarrow> protocol_value (descriptor_value d)"
proof -
  assume "digest_pattern (desc_digest d)"
  then have "well_formed (desc_digest d)" by (rule digest_plain)
  moreover have "well_formed (object_kind_name k)" "well_formed (expectedSchema k)" for k by (cases k; simp add: schema_defs)+
  moreover have "wf_keys (map u [''kind'', ''schema'', ''digest''])" by (rule wf_fields) (simp_all add: record_keys)
  ultimately show ?thesis unfolding descriptor_value_def protocol_map by simp
qed

lemma statement_valid:
  assumes d: "sm_subjects s = [d]" "digest_pattern (desc_digest d)"
    and a: "actorRef (actor_value (sm_actor s)) = Inr (sm_actor s)" "protocol_value (actor_value (sm_actor s))"
    and t: "parse_identifier (YStr (predicate_type (sm_predicate s))) = Inr (predicate_type (sm_predicate s))"
    and p: "parse_predicate (predicate_type (sm_predicate s)) [d] (predicate_value (sm_predicate s)) = Inr (sm_predicate s)"
      "protocol_value (predicate_value (sm_predicate s))" "well_formed (predicate_type (sm_predicate s))"
  shows "valid_object (PStatement s)"
proof -
  note dv = descriptor_protocol [OF d(2)]
  have "wf_keys (map u [''schema'', ''subjects'', ''actor'', ''predicateType'', ''predicate''])" by (rule wf_fields) (simp_all add: record_keys)
  then have v: "protocol_value (statement_value s)"
    using dv a(2) p(2,3) unfolding statement_value_def protocol_map by (simp add: d(1) schema_defs protocol_value_def)
  then have "unicode_ok (statement_value s)" by (simp add: protocol_value_def)
  moreover have "parseObjectDescriptor (descriptor_value d) = Inr d" using d(2) by (simp add: parse_descriptor_value)
  ultimately have "parseStatement (statement_value s) = Inr s"
    using a(1) t p(1) by (simp add: parseStatement_def statement_value_def closed_value d(1))
  with v show ?thesis
    by (simp add: valid_object_def parseProtocolObject_def statement_value_def schema_defs closedRecord_def has_own_def protocol_value_def)
qed

definition sample_actor :: actor_ref where
  "sample_actor = \<lparr>actor_kind = Human, actor_id = u ''reviewer''\<rparr>"

definition sample_proposal :: statement_object where
  "sample_proposal = \<lparr>sm_subjects = [descriptor_of (PEffect sample_effect)], sm_actor = sample_actor,
     sm_predicate = Proposal Unspecified Unspecified\<rparr>"

definition sample_verdict :: decision_predicate where
  "sample_verdict = \<lparr>dp_policy = NotEvaluated, dp_considered = [], dp_outcome = Accepted, dp_rationale = Unspecified,
     dp_decided_at = u ''2026-01-01T00:00:00.000Z''\<rparr>"

definition sample_decision :: statement_object where
  "sample_decision = \<lparr>sm_subjects = [descriptor_of (PStatement sample_proposal)], sm_actor = sample_actor,
     sm_predicate = Decision sample_verdict\<rparr>"

lemma sample_actor_parses: "actorRef (actor_value sample_actor) = Inr sample_actor" "protocol_value (actor_value sample_actor)"
proof -
  have "wf_keys (map u [''kind'', ''id''])" by (rule wf_fields) (simp_all add: record_keys)
  then show "protocol_value (actor_value sample_actor)" unfolding actor_value_def sample_actor_def protocol_map by simp
  show "actorRef (actor_value sample_actor) = Inr sample_actor"
    by (simp add: actorRef_def actor_value_def sample_actor_def closed_value u_Cons)
qed

lemma unspecified: "stringClaim (claim_value Unspecified) = Inr Unspecified" "protocol_value (claim_value Unspecified)"
proof -
  have "wf_keys (map u [''mode''])" by (rule wf_fields) (simp_all add: record_keys)
  then show "protocol_value (claim_value Unspecified)" unfolding claim_value.simps protocol_map by simp
  show "stringClaim (claim_value Unspecified) = Inr Unspecified" by (simp add: stringClaim_def closed_value closedRecord_def has_own_def)
qed

lemma sample_verdict_parses: "decisionPredicate (predicate_value (Decision sample_verdict)) = Inr (Decision sample_verdict)"
  "protocol_value (predicate_value (Decision sample_verdict))"
proof -
  have "wf_keys (map u [''policy'', ''considered'', ''outcome'', ''rationale'', ''decidedAt''])" by (rule wf_fields) (simp_all add: record_keys)
  moreover have "wf_keys (map u [''mode''])" by (rule wf_fields) (simp_all add: record_keys)
  then have m: "protocol_value (policy_value NotEvaluated)" unfolding policy_value.simps protocol_map by simp
  ultimately show "protocol_value (predicate_value (Decision sample_verdict))"
    using unspecified(2) unfolding sample_verdict_def predicate_value.simps decision_predicate.simps protocol_map
    by (simp del: claim_value.simps policy_value.simps add: protocol_value_def)
  have t: "timestamp_pattern (u ''2026-01-01T00:00:00.000Z'')" by code_simp
  have p: "decisionPolicy (policy_value NotEvaluated) = Inr NotEvaluated"
    by (simp add: decisionPolicy_def closedRecord_def has_own_def)
  show "decisionPredicate (predicate_value (Decision sample_verdict)) = Inr (Decision sample_verdict)"
    using unspecified(1) t p by (simp add: sample_verdict_def decisionPredicate_def closed_value decision_outcome_of_def del: claim_value.simps policy_value.simps)
qed

lemma decision_valid: "valid_object (PStatement sample_decision)"
proof (rule statement_valid [of _ "descriptor_of (PStatement sample_proposal)"])
  show "parse_predicate (predicate_type (sm_predicate sample_decision)) [descriptor_of (PStatement sample_proposal)]
      (predicate_value (sm_predicate sample_decision)) = Inr (sm_predicate sample_decision)"
    using sample_verdict_parses(1) core_types
    by (simp add: sample_decision_def parse_predicate_def one_subject_def descriptor_of_def del: predicate_value.simps)
qed (use sample_verdict_parses(2) in \<open>simp_all add: sample_decision_def sample_actor_parses descriptor_of_digest predicate_type_defs
    parse_identifier_def identifier_pattern_def u_Cons is_digit_cu is_letter_def unat_cu del: predicate_value.simps\<close>)

lemma proposal_valid: "valid_object (PStatement sample_proposal)"
proof (rule statement_valid [of _ "descriptor_of (PEffect sample_effect)"])
  have "wf_keys (map u [''intent'', ''rationale''])" by (rule wf_fields) (simp_all add: record_keys)
  then show "protocol_value (predicate_value (sm_predicate sample_proposal))"
    using unspecified(2) unfolding sample_proposal_def statement_object.simps predicate_value.simps protocol_map
    by (simp del: claim_value.simps)
  show "parse_predicate (predicate_type (sm_predicate sample_proposal)) [descriptor_of (PEffect sample_effect)]
      (predicate_value (sm_predicate sample_proposal)) = Inr (sm_predicate sample_proposal)"
    using unspecified(1) by (simp add: sample_proposal_def parse_predicate_def one_subject_def descriptor_of_def
      proposalPredicate_def closed_value del: claim_value.simps)
qed (simp_all add: sample_proposal_def sample_actor_parses descriptor_of_digest predicate_type_defs
    parse_identifier_def identifier_pattern_def u_Cons is_digit_cu is_letter_def unat_cu)

lemma effect_valid: "valid_object (PEffect sample_effect)"
proof -
  note dv = descriptor_protocol [OF descriptor_of_digest]
  have "protocol_value (driver_value sample_driver_ref)"
  proof -
    have "wf_keys (map u [''protocol'', ''protocolVersion'', ''specDigest''])" by (rule wf_fields) (simp_all add: record_keys)
    then show ?thesis
      using digest_plain [OF zero_digest] unfolding driver_value_def sample_driver_ref_def protocol_map by simp
  qed
  moreover have "wf_keys (map u [''schema'', ''base'', ''driver'', ''operations'', ''inputs'', ''result''])"
    by (rule wf_fields) (simp_all add: record_keys)
  ultimately have p: "protocol_value (effect_value sample_effect)"
    using dv unfolding effect_value_def sample_effect_def protocol_map
    by (simp add: schema_defs sample_definition_def protocol_value_def)
  then have "unicode_ok (effect_value sample_effect)" by (simp add: protocol_value_def)
  then have "parseProtocolObject (effect_value sample_effect) = Inr (PEffect sample_effect)"
    using effect_parses by (simp add: parseProtocolObject_def effect_value_def schema_defs closedRecord_def has_own_def u_Cons)
  with p show ?thesis by (simp add: valid_object_def)
qed

section \<open>The graph of a first commit\<close>

text \<open>A store that holds the four objects below the decision.\<close>

definition stored_bytes :: "protocol_object \<Rightarrow> byte list" where
  "stored_bytes ob = utf8_encode (canonical_text (object_value ob))"

definition sample_graph :: resolver where
  "sample_graph d = Inr (map_of (map (\<lambda>ob. (descriptor_of ob, stored_bytes ob))
     [PState empty_state, PEffect sample_effect, PStatement sample_proposal, PState next_state]) d)"

text \<open>The decision has a digest of its own; SHA-256 is not evaluated on these texts, so this is a case of the witness.\<close>

definition decision_collides :: bool where
  "decision_collides \<longleftrightarrow> (\<exists>ob \<in> {PState empty_state, PEffect sample_effect, PStatement sample_proposal, PState next_state}.
     desc_digest (descriptor_of (PStatement sample_decision)) = desc_digest (descriptor_of ob))"

definition sample_commit :: commit_object where
  "sample_commit = \<lparr>cm_parents = [], cm_decision = descriptor_of (PStatement sample_decision),
     cm_result = descriptor_of (PState next_state)\<rparr>"

lemma sample_kinds [simp]:
  "desc_kind (descriptor_of (PState s)) = KState" "desc_kind (descriptor_of (PEffect e)) = KEffect"
  "desc_kind (descriptor_of (PStatement t)) = KStatement"
  by (simp_all add: descriptor_of_def)

lemma kinds_differ: "desc_kind (descriptor_of x) \<noteq> desc_kind (descriptor_of y) \<Longrightarrow> descriptor_of x \<noteq> descriptor_of y"
  by metis

lemma sample_graph_holds:
  "sample_graph (descriptor_of (PState empty_state)) = Inr (Some (stored_bytes (PState empty_state)))"
  "sample_graph (descriptor_of (PEffect sample_effect)) = Inr (Some (stored_bytes (PEffect sample_effect)))"
  "sample_graph (descriptor_of (PStatement sample_proposal)) = Inr (Some (stored_bytes (PStatement sample_proposal)))"
  "descriptor_of (PState next_state) \<noteq> descriptor_of (PState empty_state) \<Longrightarrow>
     sample_graph (descriptor_of (PState next_state)) = Inr (Some (stored_bytes (PState next_state)))"
  by (simp_all add: sample_graph_def kinds_differ)

lemma graph_resolves:
  assumes "\<not> decision_collides" "overlayTransitionObjects sample_graph [PStatement sample_decision] = Inr g"
    and "valid_object ob" "sample_graph (descriptor_of ob) = Inr (Some (stored_bytes ob))"
    and "ob \<in> {PState empty_state, PEffect sample_effect, PStatement sample_proposal, PState next_state}"
  shows "\<exists>ob'. resolveProtocolObject g (descriptor_of ob) = Inr ob' \<and> abs_val (object_value ob') = abs_val (object_value ob)"
proof -
  have "desc_digest (descriptor_of (PStatement sample_decision)) \<noteq> desc_digest (descriptor_of ob)"
    using assms(1,5) unfolding decision_collides_def by blast
  then have "g (descriptor_of ob) = Inr (Some (stored_bytes ob))"
    using assms(2,4) unfolding overlay_one [OF decision_valid] by (simp add: overlay_get_def)
  then show ?thesis
    using resolve_complete [OF assms(3) valid_describe [OF assms(3)] valid_bytes [OF assms(3)]] by (simp add: stored_bytes_def)
qed

lemma same_decision:
  assumes "resolveProtocolObject g d = Inr ob" "abs_val (object_value ob) = abs_val (object_value (PStatement sample_decision))"
  shows "\<exists>s dp. ob = PStatement s \<and> sm_subjects s = [descriptor_of (PStatement sample_proposal)] \<and> sm_predicate s = Decision dp
    \<and> dp_outcome dp = Accepted \<and> dp_considered dp = []"
proof -
  obtain s where s: "ob = PStatement s" using object_kind_abs [OF assms(2)] by (cases ob) auto
  have p: "parseStatement (statement_value s) = Inr s" using valid_parses(3) resolve_sound(1) [OF assms(1)] s by blast
  note a = statement_abs [OF assms(2) [unfolded s object_value.simps]]
  have t: "predicate_type (sm_predicate s) = DECISION_PREDICATE_TYPE" using a(2) by (simp add: sample_decision_def)
  then obtain dp where dp: "sm_predicate s = Decision dp" using parsed_decision [OF p] by blast
  note f = field_abs [OF a(3) [unfolded dp sample_decision_def statement_object.simps predicate_value.simps]]
  have "outcome_name (dp_outcome dp) = u ''accepted''" using f [of "u ''outcome''"] by (simp add: sample_verdict_def)
  then have "dp_outcome dp = Accepted" by (cases "dp_outcome dp") (simp_all add: u_Cons)
  moreover have "dp_considered dp = []" using f [of "u ''considered''"] by (simp add: sample_verdict_def)
  moreover have "sm_subjects s = [descriptor_of (PStatement sample_proposal)]" using a(1) by (simp add: sample_decision_def)
  ultimately show ?thesis using s dp by blast
qed

lemma same_proposal:
  assumes "resolveProtocolObject g d = Inr ob" "abs_val (object_value ob) = abs_val (object_value (PStatement sample_proposal))"
  shows "\<exists>s i r. ob = PStatement s \<and> sm_subjects s = [descriptor_of (PEffect sample_effect)] \<and> sm_predicate s = Proposal i r"
proof -
  obtain s where s: "ob = PStatement s" using object_kind_abs [OF assms(2)] by (cases ob) auto
  have p: "parseStatement (statement_value s) = Inr s" using valid_parses(3) resolve_sound(1) [OF assms(1)] s by blast
  note a = statement_abs [OF assms(2) [unfolded s object_value.simps]]
  have "predicate_type (sm_predicate s) = PROPOSAL_PREDICATE_TYPE" using a(2) by (simp add: sample_proposal_def)
  then show ?thesis using parsed_proposal [OF p] a(1) s by (auto simp: sample_proposal_def)
qed

lemma same_effect:
  assumes "resolveProtocolObject g d = Inr ob" "abs_val (object_value ob) = abs_val (object_value (PEffect sample_effect))"
  shows "\<exists>e. ob = PEffect e \<and> ef_base e = descriptor_of (PState empty_state) \<and> ef_result e = descriptor_of (PState next_state)
    \<and> ed_inputs (ef_definition e) = []"
proof -
  obtain e where e: "ob = PEffect e" using object_kind_abs [OF assms(2)] by (cases ob) auto
  note f = field_abs [OF assms(2) [unfolded e object_value.simps effect_value_def]]
  have "ef_base e = descriptor_of (PState empty_state)" "ef_result e = descriptor_of (PState next_state)"
    using f [of "u ''base''"] f [of "u ''result''"] by (simp_all add: sample_effect_def descriptor_value_abs)
  moreover have "ed_inputs (ef_definition e) = []" using f [of "u ''inputs''"] by (simp add: sample_effect_def sample_definition_def)
  ultimately show ?thesis using e by blast
qed

lemma same_empty:
  assumes "abs_val (object_value ob) = abs_val (object_value (PState empty_state))"
  shows "\<exists>s. ob = PState s \<and> st_value s = YMap []"
proof -
  obtain s where s: "ob = PState s" using object_kind_abs [OF assms] by (cases ob) auto
  note f = field_abs [OF assms [unfolded s object_value.simps state_value_def], of "u ''value''"]
  then have "st_value s = YMap []" by (intro abs_empty) (simp add: empty_state_def)
  with s show ?thesis by blast
qed

text \<open>The decision laid over the store completes the chain.\<close>

lemma sample_chain:
  assumes n: "\<not> decision_collides" and g: "overlayTransitionObjects sample_graph [PStatement sample_decision] = Inr g"
  shows "\<exists>vc. chain g vc \<and> vc_commit vc = sample_commit"
proof -
  note r = graph_resolves [OF n g]
  obtain dob where dob: "resolveProtocolObject g (descriptor_of (PStatement sample_decision)) = Inr dob"
      "abs_val (object_value dob) = abs_val (object_value (PStatement sample_decision))"
    using overlay_resolves [OF decision_valid g] by blast
  obtain s dp where s: "dob = PStatement s" "sm_subjects s = [descriptor_of (PStatement sample_proposal)]" "sm_predicate s = Decision dp"
      "dp_outcome dp = Accepted" "dp_considered dp = []" using same_decision [OF dob] by blast
  obtain pob where pob: "resolveProtocolObject g (descriptor_of (PStatement sample_proposal)) = Inr pob"
      "abs_val (object_value pob) = abs_val (object_value (PStatement sample_proposal))"
    using r [OF proposal_valid sample_graph_holds(3)] by blast
  obtain p i q where p: "pob = PStatement p" "sm_subjects p = [descriptor_of (PEffect sample_effect)]" "sm_predicate p = Proposal i q"
    using same_proposal [OF pob] by blast
  obtain eob where eob: "resolveProtocolObject g (descriptor_of (PEffect sample_effect)) = Inr eob"
      "abs_val (object_value eob) = abs_val (object_value (PEffect sample_effect))"
    using r [OF effect_valid sample_graph_holds(2)] by blast
  obtain e where e: "eob = PEffect e" "ef_base e = descriptor_of (PState empty_state)" "ef_result e = descriptor_of (PState next_state)"
      "ed_inputs (ef_definition e) = []" using same_effect [OF eob] by blast
  obtain bob where bob: "resolveProtocolObject g (descriptor_of (PState empty_state)) = Inr bob"
      "abs_val (object_value bob) = abs_val (object_value (PState empty_state))"
    using r [OF empty_valid sample_graph_holds(1)] by blast
  obtain b where b: "bob = PState b" "st_value b = YMap []" using same_empty [OF bob(2)] by blast
  have res: "resolvable g (descriptor_of (PState next_state))"
  proof (cases "descriptor_of (PState next_state) = descriptor_of (PState empty_state)")
    case True
    then show ?thesis using bob(1) by (simp add: resolvable_def)
  next
    case False
    then show ?thesis using r [OF next_valid sample_graph_holds(4)] unfolding resolvable_def by blast
  qed
  let ?vc = "\<lparr>vc_commit = sample_commit, vc_decision = s, vc_proposal = p, vc_effect = e, vc_parents = []\<rparr>"
  have "chain g ?vc"
    unfolding chain_def using dob(1) s pob(1) p eob(1) e bob(1) b res
    by (auto simp: sample_commit_def follows_def)
  then show ?thesis by (intro exI [of _ ?vc]) simp
qed

lemma sample_commit_parses: "parseCommitV2 (commit_value sample_commit) = Inr sample_commit"
proof -
  have "unicode_ok (commit_value sample_commit)"
    using descriptor_protocol [OF descriptor_of_digest] by (simp add: commit_value_def sample_commit_def protocol_value_def schema_defs)
  then show ?thesis
    by (simp add: parseCommitV2_def commit_value_def closed_value sample_commit_def state_descriptor_parses descriptor_of_digest)
qed

end
