(* ===== verification/AdapterProperties.thy ===== *)
theory AdapterProperties
  imports YopsReplacement StateImport CommitSamples Samples
begin

text \<open>
  The properties of packages/core/src/transition-adapters and transition-commits, proved from the lemmas of
  the theories below.
  The witnesses run on a state of two keys, with \<open>zod_eval\<close> and \<open>zod_read\<close> for Zod.
\<close>

section \<open>The objects of the witnesses\<close>

definition zod_read :: zod_data where
  "zod_read v = (case v of YMap [(n, YMap flds)] \<Rightarrow> (case decode_op n flds of Some op \<Rightarrow> op | None \<Rightarrow> Define []) | _ \<Rightarrow> Define [])"

lemma zod_read_encodes: "encodes v op \<Longrightarrow> zod_read v = op"
proof -
  assume e: "encodes v op"
  then obtain flds where v: "v = YMap [(u (op_name op), YMap flds)]" by (auto simp: encodes_def)
  then show ?thesis using encodes_decode e by (simp add: zod_read_def)
qed

lemma zod_read_copies: "zod_copies zod_eval zod_read"
  by (simp add: zod_copies_def zod_read_encodes)

abbreviation zero_digest_text :: jstring where
  "zero_digest_text \<equiv> u ''sha256:'' @ replicate 64 (cu CHR ''0'')"

definition yops_state :: "yvalue \<Rightarrow> state_object" where
  "yops_state v = \<lparr>st_codec = yops_codec_ref, st_value = v\<rparr>"

lemma yops_state_valid: "protocol_value v \<Longrightarrow> valid_object (PState (yops_state v))"
  unfolding yops_state_def by (rule codec_state_valid(1) [OF yops_codec])

lemma yops_state_parts [simp]: "st_codec (yops_state v) = yops_codec_ref" "st_value (yops_state v) = v"
  by (simp_all add: yops_state_def)

definition sample_b :: yvalue where
  "sample_b = YMap [(u ''b'', YNull)]"

lemma sample_b_value: "protocol_value sample_b" "sort_keys sample_b = sample_b"
proof -
  have "wf_keys (map u [''b''])" by (rule wf_fields) (simp_all add: record_keys)
  then show "protocol_value sample_b" unfolding sample_b_def protocol_map by simp
  show "sort_keys sample_b = sample_b" by (simp add: sample_b_def sort_keys_single del: sort_keys.simps(6))
qed

lemma bare_root_key: "bare_key k \<Longrightarrow> root_key k"
  using parse_format [of "[SegKey k]"]
  by (auto simp: root_key_def formatPathSegments_def formatPathSegment_def bare_key_def reserved_char_def list_ex_iff)

lemma sample_root_keys: "root_key (u ''a'')" "root_key (u ''b'')"
  by (rule bare_root_key; simp add: bare_u)+

text \<open>The run of one removal.\<close>

definition sample_removal :: yvalue where
  "sample_removal = raw_op (Unset (u ''a''))"

lemma removal_value: "protocol_value sample_removal" "sort_keys sample_removal = sample_removal" "\<not> has_source sample_removal"
proof -
  show "protocol_value sample_removal"
    unfolding sample_removal_def by (rule protocol_op_value) simp
  show "sort_keys sample_removal = sample_removal"
    by (simp add: sample_removal_def op_value_def opt_entry_def sort_keys_single del: sort_keys.simps(6))
  show "\<not> has_source sample_removal" unfolding sample_removal_def by (rule raw_no_source)
qed

lemma removal_runs:
  "res_ok (applyYOps yops_registry zod_eval sample_ab [sample_removal])
   \<and> res_doc (applyYOps yops_registry zod_eval sample_ab [sample_removal]) = YMap [(u ''b'', YSeq [YNull, YStr (u ''x'')])]"
proof -
  have wf: "wf_yvalue sample_ab" using sample_values(1) by (simp add: protocol_value_def)
  have "handle (Unset (u ''a'')) sample_ab 0 = OpResult (YMap [(u ''b'', YSeq [YNull, YStr (u ''x'')])]) None"
    using root_write [OF sample_root_keys(1) wf [unfolded sample_ab_def], of None]
    by (simp add: sample_ab_def obj_delete_def u_Cons)
  moreover have "admissible (Unset (u ''a''))"
    using root_key_path(2) [OF sample_root_keys(1)] by (simp add: admissible_def)
  ultimately show ?thesis
    unfolding yops.apply_runs [OF wf] sample_removal_def using typed_runs [OF zod_eval_spec, of 0 sample_ab "Unset (u ''a'')" "[]"]
    by (simp add: runs_Nil)
qed

lemma sample_created:
  "\<exists>effect. createYOpsEffect zod_eval zod_read zero_digest_text (yops_state sample_ab) [sample_removal] None
    = Inr (effect, yops_state (YMap [(u ''b'', YSeq [YNull, YStr (u ''x'')])]))"
proof -
  have wf: "wf_yvalue sample_ab" using sample_values(1) by (simp add: protocol_value_def)
  have "runs yops_registry zod_eval 0 sample_ab [sample_removal] (YMap [(u ''b'', YSeq [YNull, YStr (u ''x'')])])"
    using removal_runs unfolding yops.apply_runs [OF wf] .
  then have "\<exists>r. runs yops_registry zod_eval 0 sample_ab (map sort_keys [sample_removal]) r
      \<and> yops_state (YMap [(u ''b'', YSeq [YNull, YStr (u ''x'')])]) = \<lparr>st_codec = yops_codec_ref, st_value = sort_keys r\<rparr>"
    using removal_value(2) by (intro exI conjI) (simp, simp add: yops_state_def sort_keys_single del: sort_keys.simps(6))
  then show ?thesis
    using created_runs [OF zod_eval_spec zod_read_copies zero_digest yops_state_valid [OF sample_values(1)], of "[sample_removal]"]
      removal_value by simp
qed

section \<open>The properties\<close>

text \<open>
  C4: createYOpsEffect returns an effect exactly when no operation carries a source and the engine applies
  the operations to the document of the base, and the state it returns holds the engine's document, although
  the effect records the operations of the primitive profile.
\<close>

theorem creation_is_the_run:
  assumes "zod_spec acc" "zod_copies acc data" "digest_pattern digest"
    and "valid_object (PState base)" "st_codec base = yops_codec_ref" "list_all protocol_value operations"
  shows "(\<exists>effect. createYOpsEffect acc data digest base operations None = Inr (effect, result)) \<longleftrightarrow>
    list_all (\<lambda>v. \<not> has_source v) operations
    \<and> res_ok (applyYOps yops_registry acc (st_value base) (map sort_keys operations))
    \<and> result = \<lparr>st_codec = yops_codec_ref,
        st_value = sort_keys (res_doc (applyYOps yops_registry acc (st_value base) (map sort_keys operations)))\<rparr>"
proof -
  have wf: "wf_yvalue (st_value base)" using state_value_parts(1) [OF assms(4)] by (simp add: protocol_value_def)
  show ?thesis unfolding created_runs [OF assms] run_outcome [OF wf] by blast
qed

theorem creation_is_the_run_witness:
  "\<exists>effect. createYOpsEffect zod_eval zod_read zero_digest_text (yops_state sample_ab) [sample_removal] None
    = Inr (effect, yops_state (YMap [(u ''b'', YSeq [YNull, YStr (u ''x'')])]))"
  using creation_is_the_run [OF zod_eval_spec zod_read_copies zero_digest yops_state_valid [OF sample_values(1)], of "[sample_removal]"]
    removal_value removal_runs sort_keys_single [of "u ''b''"] by (simp add: yops_state_def del: sort_keys.simps(6))

text \<open>
  C8: an effect that createYOpsEffect returns verifies, with the state that was returned beside it, wherever
  the descriptor of its base resolves to the document of the base.
\<close>

theorem created_effect_verifies:
  assumes "valid_object (PState base)"
    and "createYOpsEffect acc data digest base input_operations expectedBase = Inr (effect, result)"
    and "resolveProtocolObject get (descriptor_of (PState base)) = Inr (PState held)"
    and "abs_val (state_value held) = abs_val (state_value base)"
  shows "verifyEffect effect get (yopsMutationDrivers acc data digest)
    = Inr \<lparr>ve_effect = effect, ve_result = result, ve_descriptor = ef_result effect\<rparr>"
proof -
  from assms(2) obtain operations rd where c: "replay base (definition_value (yops_definition digest operations)) []
      (yopsMutationDrivers acc data digest) = Inr result"
    "describeProtocolObject (PState result) = Inr rd"
    "effect = \<lparr>ef_base = descriptor_of (PState base), ef_definition = yops_definition digest operations, ef_result = rd\<rparr>"
    "parseEffect (effect_value effect) = Inr effect"
    unfolding createYOpsEffect_ok [OF assms(1)] by blast
  have e: "ef_base effect = descriptor_of (PState base)" "ef_definition effect = yops_definition digest operations" "ef_result effect = rd"
    unfolding c(3) by simp_all
  note held = resolve_sound(1) [OF assms(3)]
  have b: "parseState (state_value base) = Inr base" "parseState (state_value held) = Inr held"
    using state_value_parts(3) assms(1) held by blast+
  from c(1) have "replay held (definition_value (yops_definition digest operations)) []
      (yopsMutationDrivers acc data digest) = Inr result"
    using yops_driver_found [of acc data digest] yops_execute_same [OF assms(1) held assms(4), of acc data]
    unfolding replay_ok b by (force simp: yopsMutationDriver_def)
  moreover have "resolve_inputs get [] (ed_inputs (ef_definition effect)) = Inr []" by (simp add: e yops_definition_def)
  ultimately show ?thesis
    using effect_verifies [OF c(4), of get held "[]" "yopsMutationDrivers acc data digest" result] assms(3) c(2) by (simp add: e)
qed

theorem created_effect_verifies_witness:
  "\<exists>effect result get. createYOpsEffect zod_eval zod_read zero_digest_text (yops_state sample_ab) [sample_removal] None = Inr (effect, result)
    \<and> verifyEffect effect get (yopsMutationDrivers zod_eval zod_read zero_digest_text)
      = Inr \<lparr>ve_effect = effect, ve_result = result, ve_descriptor = ef_result effect\<rparr>"
proof -
  let ?base = "yops_state sample_ab"
  note v = yops_state_valid [OF sample_values(1)]
  obtain effect result where e: "createYOpsEffect zod_eval zod_read zero_digest_text ?base [sample_removal] None = Inr (effect, result)"
    using sample_created by blast
  obtain d m where put: "memory_put empty_store (PState ?base) = Inr (d, m)" using in_memory.put_accepts [OF v] by blast
  have d: "d = descriptor_of (PState ?base)" using in_memory.put_describes [OF put] valid_describe [OF v] by simp
  obtain ob where ob: "resolveProtocolObject (memory_get m) d = Inr ob" "abs_val (object_value ob) = abs_val (object_value (PState ?base))"
    using in_memory.put_resolve [OF v put] by blast
  then obtain held where "ob = PState held" using object_kind_abs [OF ob(2)] by (cases ob) auto
  with created_effect_verifies [OF v e] ob d e show ?thesis by auto
qed

text \<open>
  C9: between two mappings whose root keys are plain path segments, createYOpsReplacementEffect succeeds and
  returns the target: every key that differs is asserted in the base and then written or removed.
\<close>

theorem replacement_reaches_target:
  assumes "zod_spec acc" "zod_copies acc data" "digest_pattern digest"
    and "valid_object (PState base)" "st_codec base = yops_codec_ref" "st_value base = YMap b"
    and "valid_object (PState target)" "st_codec target = yops_codec_ref" "st_value target = YMap t"
    and "list_all root_key (map fst b @ map fst t)" "expected \<in> {None, Some (descriptor_of (PState base))}"
  shows "\<exists>effect. createYOpsReplacementEffect acc data digest base target expected
    = Inr (effect, \<lparr>st_codec = yops_codec_ref, st_value = sort_keys (st_value target)\<rparr>)"
  using assms by (rule replacement_created)

theorem replacement_reaches_target_witness:
  "\<exists>effect. createYOpsReplacementEffect zod_eval zod_read zero_digest_text (yops_state sample_ab) (yops_state sample_b) None
    = Inr (effect, yops_state sample_b)"
  using replacement_reaches_target [OF zod_eval_spec zod_read_copies zero_digest yops_state_valid [OF sample_values(1)] _ _
      yops_state_valid [OF sample_b_value(1)], of "[(u ''a'', YBool True), (u ''b'', YSeq [YNull, YStr (u ''x'')])]" "[(u ''b'', YNull)]" None]
    sample_root_keys sample_b_value(2) by (simp add: sample_ab_def sample_b_def yops_state_def del: sort_keys.simps(6))

text \<open>
  C29: the engine keeps protocol values: operations whose values JSON can carry, on a document that JSON can
  carry, never make a number or a text that the Transition encoding refuses.
\<close>

theorem run_keeps_protocol_values:
  assumes "protocol_value d" "list_all protocol_op ops" "res_ok (applyYOps yops_registry acc d (map raw_op ops))"
  shows "protocol_value (res_doc (applyYOps yops_registry acc d (map raw_op ops)))"
proof -
  have "wf_yvalue d" using assms(1) by (simp add: protocol_value_def)
  then have "runs yops_registry acc 0 d (map raw_op ops) (res_doc (applyYOps yops_registry acc d (map raw_op ops)))"
    using assms(3) yops.apply_runs by blast
  then show ?thesis by (rule protocol_run [OF assms(1,2)])
qed

theorem run_keeps_protocol_values_witness:
  "protocol_value (YMap [(u ''b'', YSeq [YNull, YStr (u ''x'')])])"
  using run_keeps_protocol_values [OF sample_values(1), of "[Unset (u ''a'')]" zod_eval] removal_runs
  by (simp add: sample_removal_def)

text \<open>
  C16: createCommitV2 returns a commit exactly when the chain from the decision to the base and the parents
  holds with the decision laid over the resolver, and then it is the commit of these parents, this decision
  and the result of the decision's effect.
\<close>

theorem commit_creation_is_chain:
  assumes "valid_object (PStatement decision)"
  shows "createCommitV2 parents decision f = Inr c \<longleftrightarrow> (\<exists>g vc. overlayTransitionObjects f [PStatement decision] = Inr g
    \<and> chain g vc \<and> vc_commit vc = c \<and> cm_parents c = parents \<and> cm_decision c = descriptor_of (PStatement decision)
    \<and> parseCommitV2 (commit_value c) = Inr c)"
  using assms by (rule created_commit_chain)

text \<open>
  The first commit of the sample graph is created: its decision is the accepting one and its result the state of
  the effect. The first case, that SHA-256 gives the decision the digest of another object, is not evaluated.
\<close>

theorem commit_creation_is_chain_witness:
  "decision_collides \<or> createCommitV2 [] sample_decision sample_graph = Inr sample_commit"
proof (cases decision_collides)
  case False
  obtain g where g: "overlayTransitionObjects sample_graph [PStatement sample_decision] = Inr g"
    using overlay_one [OF decision_valid] by blast
  obtain vc where "chain g vc" "vc_commit vc = sample_commit" using sample_chain [OF False g] by blast
  then have "createCommitV2 [] sample_decision sample_graph = Inr sample_commit"
    unfolding commit_creation_is_chain [OF decision_valid] using g sample_commit_parses by (auto simp: sample_commit_def)
  then show ?thesis ..
qed simp

text \<open>
  C30: createStateImportEffect succeeds exactly on a base that is the explicit empty mapping (and the expected
  one): its effect names the imported state as its only input and as its result, and the result is that state
  unchanged.
\<close>

theorem import_binds_the_state:
  assumes "valid_object (PState base)" "valid_object (PState imported)"
  shows "createStateImportEffect base imported expectedBase = Inr (effect, result) \<longleftrightarrow>
    (case expectedBase of None \<Rightarrow> True | Some d \<Rightarrow> descriptor_of (PState base) = d) \<and> st_value base = YMap []
    \<and> effect = \<lparr>ef_base = descriptor_of (PState base), ef_definition = \<lparr>ed_driver = STATE_IMPORT_MUTATION_DRIVER_REF,
         ed_operations = [], ed_inputs = [\<lparr>in_role = STATE_IMPORT_ROLE, in_object = descriptor_of (PState imported)\<rparr>]\<rparr>,
         ef_result = descriptor_of (PState imported)\<rparr>
    \<and> result = imported"
  using import_created [OF assms] by (simp add: import_effect_def import_definition_def)

theorem import_binds_the_state_witness:
  "\<exists>effect. createStateImportEffect empty_state next_state None = Inr (effect, next_state)"
  using import_binds_the_state [OF empty_valid next_valid] by (simp add: empty_state_def)

section \<open>A key that is not a path\<close>

text \<open>
  The guard of createYOpsReplacementEffect looks for slashes only: the root key \<open>[0]\<close> passes it, is then read
  as an index, and the replacement fails in the engine.
\<close>

lemma parse_index_key: "tryParsePath (u ''[0]'') = Inr [SegIndex 0]"
  using parse_format [of "[SegIndex 0]"] by (simp add: formatPathSegments_def formatPathSegment_def u_Cons dec_digits.simps [of 0] digit_def cu_def)

lemma index_key_run: "\<not> runs yops_registry zod_eval i (YMap []) (map raw_op (key_operations [] [(u ''[0]'', YNull)] (u ''[0]''))) r"
proof -
  have "handle (SetOp (u ''[0]'') YNull) (YMap []) j \<noteq> OpResult d None" for j d
    by (simp add: setHandler_def setAtPath_def setAtPathSegments_def parsePath_def parse_index_key fail_def deepClone.simps)
  then show ?thesis
    by (auto simp: key_operations_def unchanged_def typed_runs [OF zod_eval_spec] assertHandler_def resolvePath_def parsePath_def
        parse_index_key ok_def)
qed

lemma index_key_not_replaced:
  "createYOpsReplacementEffect zod_eval zod_read zero_digest_text (yops_state (YMap [])) (yops_state (YMap [(u ''[0]'', YNull)])) None \<noteq> Inr x"
proof
  let ?t = "[(u ''[0]'', YNull)]" and ?k = "u ''[0]''"
  assume a: "createYOpsReplacementEffect zod_eval zod_read zero_digest_text (yops_state (YMap [])) (yops_state (YMap ?t)) None = Inr x"
  have p: "protocol_value (YMap [])" "protocol_value (YMap ?t)"
    unfolding protocol_map by (simp_all add: wf_keys_def key_before_def array_index_def u_Cons)
  have keys: "replacement_keys [] ?t = [?k]" by (simp add: replacement_keys_def)
  let ?ops = "key_operations [] ?t ?k"
  have ops: "list_all protocol_op ?ops" "list_all (\<lambda>op. primitive_op op) ?ops"
    using key_operations_protocol [OF p, of ?k] by (simp_all add: key_operations_def unchanged_def primitive_op_def)
  have "traverse (replace_key [] ?t) [?k] = Inr opss \<Longrightarrow> opss = [?ops]" for opss
    using replacement_operations [OF p, of "[?k]" opss] by simp
  then obtain effect result where "createYOpsEffect zod_eval zod_read zero_digest_text (yops_state (YMap [])) (map raw_op ?ops) None = Inr (effect, result)"
    using a keys by (auto simp: createYOpsReplacementEffect_def isMapping_def)
  moreover have "list_all protocol_value (map raw_op ?ops)"
    using ops(1) protocol_op_value by (simp add: list_all_iff)
  ultimately obtain r where r: "runs yops_registry zod_eval 0 (YMap []) (map sort_keys (map raw_op ?ops)) r"
    using created_runs [OF zod_eval_spec zod_read_copies zero_digest yops_state_valid [OF p(1)], of "map raw_op ?ops" result] by auto
  have enc: "list_all2 encodes (map sort_keys (map raw_op ?ops)) (map canonical_op ?ops)"
    using ops canonical_encodes by (auto simp: list_all2_conv_all_nth list_all_length)
  have "runs yops_registry zod_eval 0 (YMap []) (map raw_op (map canonical_op ?ops)) r"
    using r unfolding encodes_runs [OF zod_eval_spec enc] .
  then show False
    using canonical_runs(2) [OF zod_eval_spec _ _ , of ?ops "YMap []"] ops(1) index_key_run by (auto simp: list_all_iff)
qed

end
