(* ===== verification/SemanticTypes.thy ===== *)
theory SemanticTypes
  imports Registry "HOL-Library.AList"
begin

text \<open>
  packages/core/src/semantic/types.ts and utils.ts: semantic trees, relations and flat nodes, and the
  bounded deep equality of slot values. A member of an object is read with the names that every object
  inherits from \<open>Object.prototype\<close>: such a read finds a function (\<open>Builtin\<close>), or for
  \<open>__proto__\<close> the prototype itself, which has no enumerable members. Two values that come from different
  places share no object, so \<open>===\<close> holds of primitive values only.
\<close>

section \<open>Trees, relations and flat nodes\<close>

datatype tree_node = TreeNode (tn_key: jstring) (tn_slots: "(jstring \<times> yvalue) list") (tn_children: "tree_node list")

text \<open>The other members of a relation, \<open>from_project\<close> and \<open>to_project\<close> among them, are only passed on.\<close>

record relation =
  rel_from :: jstring
  rel_to :: jstring
  rel_type :: jstring
  rel_more :: "yvalue jobject"

record semantic_content =
  trees :: "tree_node list"
  relations :: "relation list"

record flat_node =
  fn_id :: jstring
  fn_type :: jstring
  fn_slots :: "yvalue jobject"

section \<open>Members of an object\<close>

datatype js_ref = Undefined | Builtin jstring | Val yvalue

definition js_get :: "yvalue jobject \<Rightarrow> jstring \<Rightarrow> js_ref" where
  "js_get m k = (case map_of m k of
       Some v \<Rightarrow> Val v
     | None \<Rightarrow> if k = u ''__proto__'' then Val (YMap [])
               else if k \<in> set PROTOTYPE_NAMES then Builtin k else Undefined)"

definition js_in :: "jstring \<Rightarrow> 'v jobject \<Rightarrow> bool" where
  "js_in k m \<longleftrightarrow> has_own m k \<or> k \<in> set PROTOTYPE_NAMES"

text \<open>The keys of a \<open>Set\<close> in order of insertion.\<close>

definition js_set :: "'a list \<Rightarrow> 'a list" where
  "js_set xs = rev (remdups (rev xs))"

lemma set_js_set [simp]: "set (js_set xs) = set xs"
  and distinct_js_set [simp]: "distinct (js_set xs)"
  by (simp_all add: js_set_def)

lemma js_set_distinct: "distinct xs \<Longrightarrow> js_set xs = xs"
  by (simp add: js_set_def distinct_remdups_id)

section \<open>utils.ts\<close>

definition MAX_DEPTH :: nat where
  "MAX_DEPTH = 10"

function deepEqual :: "js_ref \<Rightarrow> js_ref \<Rightarrow> nat \<Rightarrow> bool" where
  "deepEqual a b depth =
     (if MAX_DEPTH < depth then False
      else (case (a, b) of
          (Val (YSeq xs), Val (YSeq ys)) \<Rightarrow>
            length xs = length ys \<and> list_all (\<lambda>(v, w). deepEqual (Val v) (Val w) (depth + 1)) (zip xs ys)
        | (Val (YMap m), Val (YMap n)) \<Rightarrow>
            length m = length n
            \<and> list_all (\<lambda>k. js_in k n \<and> deepEqual (js_get m k) (js_get n k) (depth + 1)) (map fst m)
        | _ \<Rightarrow> a = b))"
  by pat_completeness auto
termination
  by (relation "measure (\<lambda>(a, b, depth). 11 - depth)") (auto simp: MAX_DEPTH_def)

declare deepEqual.simps [simp del]

definition relKey :: "relation \<Rightarrow> jstring" where
  "relKey r = rel_from r @ u ''|'' @ rel_to r @ u ''|'' @ rel_type r"

section \<open>deepEqual decides sameness of shallow values\<close>

text \<open>The values on which the depth bound and the inherited names make no difference.\<close>

primrec fits :: "yvalue \<Rightarrow> nat \<Rightarrow> bool" where
  "fits YNull d = (d \<le> MAX_DEPTH)"
| "fits (YBool b) d = (d \<le> MAX_DEPTH)"
| "fits (YNum n) d = (d \<le> MAX_DEPTH)"
| "fits (YStr s) d = (d \<le> MAX_DEPTH)"
| "fits (YSeq xs) d = (d \<le> MAX_DEPTH \<and> list_all (\<lambda>x. fits x (d + 1)) xs)"
| "fits (YMap kvs) d = (d \<le> MAX_DEPTH
     \<and> list_all (\<lambda>(k, p). k \<noteq> u ''__proto__'' \<and> p (d + 1)) (map (map_prod id fits) kvs))"

lemma fits_Map: "fits (YMap kvs) d \<longleftrightarrow> d \<le> MAX_DEPTH
    \<and> (\<forall>(k, v) \<in> set kvs. k \<noteq> u ''__proto__'' \<and> fits v (d + 1))"
  by (auto simp: list_all_iff)

declare fits.simps(6) [simp del]

lemma fits_depth: "fits v d \<Longrightarrow> d \<le> MAX_DEPTH"
  by (cases v) (simp_all add: fits_Map)

lemma js_get_own: "map_of m k = Some v \<Longrightarrow> js_get m k = Val v"
  by (simp add: js_get_def)

lemma js_get_Val: "k \<noteq> u ''__proto__'' \<Longrightarrow> js_get m k = Val v \<longleftrightarrow> map_of m k = Some v"
  by (simp add: js_get_def split: option.splits)

lemma js_get_absent: "map_of m k = None \<Longrightarrow> map_of n k = None \<Longrightarrow> js_get m k = js_get n k"
  by (simp add: js_get_def)

lemma deepEqual_Builtin: "deepEqual (Val v) (Builtin k) d = False" "deepEqual (Val v) Undefined d = False"
  by (subst deepEqual.simps; auto split: yvalue.splits)+

lemma deepEqual_other:
  "\<not> (\<exists>xs ys. a = Val (YSeq xs) \<and> b = Val (YSeq ys)) \<Longrightarrow> \<not> (\<exists>m n. a = Val (YMap m) \<and> b = Val (YMap n)) \<Longrightarrow>
     deepEqual a b d \<longleftrightarrow> d \<le> MAX_DEPTH \<and> a = b"
proof (cases a)
  case (Val v)
  assume "\<not> (\<exists>xs ys. a = Val (YSeq xs) \<and> b = Val (YSeq ys))" "\<not> (\<exists>m n. a = Val (YMap m) \<and> b = Val (YMap n))"
  then show ?thesis by (subst deepEqual.simps, cases b) (cases v; auto simp: Val split: yvalue.split)+
qed (subst deepEqual.simps; simp; linarith)+

lemma deepEqual_Seq: "deepEqual (Val (YSeq xs)) (Val (YSeq ys)) d \<longleftrightarrow> d \<le> MAX_DEPTH
    \<and> list_all2 (\<lambda>v w. deepEqual (Val v) (Val w) (d + 1)) xs ys"
  by (subst deepEqual.simps) (auto simp: list_all2_iff list_all_iff)

lemma deepEqual_Map: "deepEqual (Val (YMap m)) (Val (YMap n)) d \<longleftrightarrow> d \<le> MAX_DEPTH \<and> length m = length n
    \<and> (\<forall>k \<in> fst ` set m. js_in k n \<and> deepEqual (js_get m k) (js_get n k) (d + 1))"
  by (subst deepEqual.simps) (auto simp: list_all_iff)

lemma same_scalar: "\<not> is_object_or_array v \<Longrightarrow> wf_yvalue v \<Longrightarrow> wf_yvalue w \<Longrightarrow> same v w \<longleftrightarrow> v = w"
  by (auto elim: same_cases)

text \<open>Objects of equal size, one of whose keys are keys of the other, have the same keys.\<close>

lemma wf_key_subset:
  assumes "wf_object m" and "wf_object n" and "length m = length n" and "fst ` set m \<subseteq> fst ` set n"
  shows "fst ` set m = fst ` set n"
proof -
  have "card (fst ` set m) = card (fst ` set n)"
    using assms(1-3) by (metis distinct_card image_set length_map wf_keys_distinct)
  then show ?thesis using assms(4) by (simp add: card_subset_eq)
qed

theorem deepEqual_same:
  "fits v d \<Longrightarrow> wf_yvalue v \<Longrightarrow> wf_yvalue w \<Longrightarrow> deepEqual (Val v) (Val w) d \<longleftrightarrow> same v w"
proof (induction v arbitrary: d w rule: yvalue_induct)
  case (Seq xs)
  show ?case
  proof (cases "\<exists>ys. w = YSeq ys")
    case True
    then obtain ys where w: "w = YSeq ys" by blast
    have "deepEqual (Val x) (Val y) (d + 1) \<longleftrightarrow> same x y" if "x \<in> set xs" "y \<in> set ys" for x y
      using Seq.IH [OF that(1), of "d + 1" y] Seq.prems that by (auto simp: w list_all_iff)
    then have "list_all2 (\<lambda>v w. deepEqual (Val v) (Val w) (d + 1)) xs ys \<longleftrightarrow> list_all2 same xs ys"
      by (intro list.rel_cong) auto
    then show ?thesis using fits_depth [OF Seq.prems(1)] by (simp add: w deepEqual_Seq)
  next
    case False
    then show ?thesis using same_cases [of "YSeq xs" w] by (auto simp: deepEqual_other)
  qed
next
  case (Map m)
  show ?case
  proof (cases "\<exists>n. w = YMap n")
    case True
    then obtain n where w: "w = YMap n" by blast
    have wf: "wf_object m" "wf_object n" using Map.prems by (auto simp: w)
    have key: "js_in k n \<and> deepEqual (js_get m k) (js_get n k) (d + 1)
        \<longleftrightarrow> (\<exists>x y. map_of m k = Some x \<and> map_of n k = Some y \<and> same x y)" if k: "k \<in> fst ` set m" for k
    proof -
      obtain x where x: "map_of m k = Some x" using k by (metis image_set key_lookup_iff)
      have mem: "(k, x) \<in> set m" using x by (rule map_of_SomeD)
      have fx: "k \<noteq> u ''__proto__''" "fits x (d + 1)" using Map.prems(1) mem by (auto simp: fits_Map)
      have wx: "wf_yvalue x" using Map.prems(2) x by (rule wf_map_lookup)
      show ?thesis
      proof (cases "map_of n k")
        case None
        then have "js_get n k \<in> {Builtin k, Undefined}" using fx(1) by (simp add: js_get_def)
        then have "\<not> deepEqual (js_get m k) (js_get n k) (d + 1)"
          by (auto simp: js_get_own [OF x] deepEqual_Builtin)
        then show ?thesis by (simp add: None)
      next
        case (Some y)
        then have "wf_yvalue y" using Map.prems(3) w by (blast intro: wf_map_lookup)
        then show ?thesis
          using Map.IH [OF mem fx(2) wx] by (simp add: js_get_own [OF x] js_get_own [OF Some] js_in_def has_own_def x Some)
      qed
    qed
    have "deepEqual (Val (YMap m)) (Val (YMap n)) d \<longleftrightarrow> length m = length n
        \<and> (\<forall>k \<in> fst ` set m. \<exists>x y. map_of m k = Some x \<and> map_of n k = Some y \<and> same x y)"
      using fits_depth [OF Map.prems(1)] key by (auto simp: deepEqual_Map)
    also have "\<dots> \<longleftrightarrow> same (YMap m) (YMap n)"
    proof
      assume l: "length m = length n
        \<and> (\<forall>k \<in> fst ` set m. \<exists>x y. map_of m k = Some x \<and> map_of n k = Some y \<and> same x y)"
      then have sub: "fst ` set m \<subseteq> fst ` set n" by (force dest: map_of_SomeD)
      have keys: "fst ` set m = fst ` set n" using wf l sub by (intro wf_key_subset) simp_all
      have "map_option abs_val (map_of m k) = map_option abs_val (map_of n k)" for k
      proof (cases "k \<in> fst ` set m")
        case True
        then show ?thesis using l by (auto simp: same_def)
      next
        case False
        then have "map_of m k = None" "map_of n k = None" using keys by (simp_all add: map_of_eq_None_iff)
        then show ?thesis by simp
      qed
      then show "same (YMap m) (YMap n)" using Map.prems(2,3) by (simp only: same_Map_iff w) simp
    next
      assume s: "same (YMap m) (YMap n)"
      have "\<exists>x y. map_of m k = Some x \<and> map_of n k = Some y \<and> same x y" if k: "k \<in> fst ` set m" for k
      proof -
        obtain x where "map_of m k = Some x" using k by (metis image_set key_lookup_iff)
        then show ?thesis using same_Map_lookup [OF s, of k] by (cases "map_of n k") auto
      qed
      then show "length m = length n
        \<and> (\<forall>k \<in> fst ` set m. \<exists>x y. map_of m k = Some x \<and> map_of n k = Some y \<and> same x y)"
        using same_length [OF s] by blast
    qed
    finally show ?thesis by (simp only: w)
  next
    case False
    then show ?thesis using same_cases [of "YMap m" w] by (auto simp: deepEqual_other)
  qed
qed (auto simp: deepEqual_other same_scalar)

end
