(* ===== verification/SemanticTree.thy ===== *)
theory SemanticTree
  imports SemanticTypes
begin

text \<open>
  packages/core/src/semantic/tree.ts: trees flattened to lists of nodes named by their paths, and trees
  rebuilt from such lists. \<open>unflattenToTree\<close> creates its nodes in a store and appends a node to the
  children of another one through a map from paths to nodes, as the code does; a node is named by its
  index in the store.
\<close>

section \<open>split and join\<close>

fun split_on :: "code_unit \<Rightarrow> jstring \<Rightarrow> jstring list" where
  "split_on c [] = [[]]"
| "split_on c (x # xs) =
     (if x = c then [] # split_on c xs
      else (case split_on c xs of [] \<Rightarrow> [[x]] | s # ss \<Rightarrow> (x # s) # ss))"

abbreviation slash :: code_unit where
  "slash \<equiv> cu CHR ''/''"

abbreviation segments :: "jstring \<Rightarrow> jstring list" where
  "segments path \<equiv> split_on slash path"

section \<open>Flattening\<close>

fun flattenNode :: "tree_node \<Rightarrow> jstring \<Rightarrow> flat_node list" where
  "flattenNode (TreeNode key slots children) parentPath =
     (let path = (if parentPath \<noteq> [] then parentPath @ slash # key else key)
      in \<lparr>fn_id = path, fn_type = key, fn_slots = slots\<rparr>
         # concat (map (\<lambda>child. flattenNode child path) children))"

definition flattenTree :: "tree_node \<Rightarrow> flat_node list" where
  "flattenTree tree = flattenNode tree []"

definition flattenTrees :: "tree_node list \<Rightarrow> flat_node list" where
  "flattenTrees ts = concat (map (\<lambda>tree. flattenNode tree []) ts)"

section \<open>Rebuilding one tree\<close>

record heap_node =
  hn_key :: jstring
  hn_slots :: "yvalue jobject"
  hn_children :: "nat list"

record builder =
  heap :: "heap_node list"
  nodeMap :: "(jstring \<times> nat) list"

definition compare_depth :: "flat_node \<Rightarrow> flat_node \<Rightarrow> int" where
  "compare_depth a b = int (length (segments (fn_id a))) - int (length (segments (fn_id b)))"

definition new_node :: "flat_node \<Rightarrow> heap_node" where
  "new_node f = \<lparr>hn_key = fn_type f, hn_slots = fn_slots f, hn_children = []\<rparr>"

definition parent_path :: "flat_node \<Rightarrow> jstring" where
  "parent_path f = join slash (butlast (segments (fn_id f)))"

definition add_child :: "nat \<Rightarrow> heap_node \<Rightarrow> heap_node" where
  "add_child i n = n\<lparr>hn_children := hn_children n @ [i]\<rparr>"

definition build_step :: "builder \<Rightarrow> flat_node \<Rightarrow> builder" where
  "build_step b f =
     (let i = length (heap b);
          h = heap b @ [new_node f];
          h' = (case map_of (nodeMap b) (parent_path f) of
                  Some p \<Rightarrow> h[p := add_child i (h ! p)] | None \<Rightarrow> h)
      in \<lparr>heap = h', nodeMap = AList.update (fn_id f) i (nodeMap b)\<rparr>)"

text \<open>
  The tree that a node of the store stands for. A child is created after its parent, so its index is
  larger.
\<close>

function tree_at :: "heap_node list \<Rightarrow> nat \<Rightarrow> tree_node" where
  "tree_at h i = TreeNode (hn_key (h ! i)) (hn_slots (h ! i))
     (map (tree_at h) (filter (\<lambda>j. i < j \<and> j < length h) (hn_children (h ! i))))"
  by pat_completeness auto
termination
  by (relation "measure (\<lambda>(h, i). length h - i)") auto

declare tree_at.simps [simp del]

datatype tree_error = EmptyFlatNodes

definition unflattenToTree :: "flat_node list \<Rightarrow> tree_error + tree_node" where
  "unflattenToTree flatNodes =
     (case js_sort compare_depth flatNodes of
        [] \<Rightarrow> Inl EmptyFlatNodes
      | root # rest \<Rightarrow>
          Inr (tree_at (heap (foldl build_step \<lparr>heap = [new_node root], nodeMap = [(fn_id root, 0)]\<rparr> rest)) 0))"

section \<open>Rebuilding the trees\<close>

definition root_segment :: "flat_node \<Rightarrow> jstring" where
  "root_segment f = hd (segments (fn_id f))"

definition group_step :: "(jstring \<times> flat_node list) list \<Rightarrow> flat_node \<Rightarrow> (jstring \<times> flat_node list) list" where
  "group_step groups f =
     (let rootKey = root_segment f;
          grp = (case map_of groups rootKey of None \<Rightarrow> [] | Some g \<Rightarrow> g)
      in AList.update rootKey (grp @ [f]) groups)"

definition unflattenToTrees :: "flat_node list \<Rightarrow> tree_error + tree_node list" where
  "unflattenToTrees flatNodes = traverse (unflattenToTree \<circ> snd) (foldl group_step [] flatNodes)"

section \<open>Depth, blobs and YAML values\<close>

text \<open>\<open>Some (d, m, k)\<close> stands for the message that the depth \<open>d\<close> of the node \<open>k\<close> exceeds \<open>m\<close>.\<close>

fun checkDepth :: "tree_node \<Rightarrow> nat \<Rightarrow> nat \<Rightarrow> (nat \<times> nat \<times> jstring) option" where
  "checkDepth (TreeNode key slots children) currentDepth maxDepth =
     (if maxDepth < currentDepth then Some (currentDepth, maxDepth, key)
      else (case filter (\<lambda>err. err \<noteq> None) (map (\<lambda>child. checkDepth child (currentDepth + 1) maxDepth) children) of
              [] \<Rightarrow> None | err # _ \<Rightarrow> err))"

definition validateTreeDepth :: "tree_node \<Rightarrow> nat \<Rightarrow> (nat \<times> nat \<times> jstring) option" where
  "validateTreeDepth tree maxDepth = checkDepth tree 1 maxDepth"

definition BLOB_TYPES :: "jstring list" where
  "BLOB_TYPES = map u [''code'', ''plot'', ''table'', ''image'', ''video'']"

definition isBlob :: "yvalue \<Rightarrow> bool" where
  "isBlob v = (case v of
     YMap obj \<Rightarrow> (case map_of obj (u ''_type'') of Some (YStr t) \<Rightarrow> t \<in> set BLOB_TYPES | _ \<Rightarrow> False)
   | _ \<Rightarrow> False)"

definition is_mapping :: "yvalue \<Rightarrow> bool" where
  "is_mapping v = (case v of YMap _ \<Rightarrow> True | _ \<Rightarrow> False)"

fun yamlToTree :: "jstring \<Rightarrow> yvalue \<Rightarrow> tree_node" where
  "yamlToTree key (YMap obj) = TreeNode key
     (foldl (\<lambda>slots (k, v). obj_assign slots k v) [] (filter (\<lambda>(k, v). \<not> is_mapping v \<or> isBlob v) obj))
     (map (\<lambda>(k, v). yamlToTree k v) (filter (\<lambda>(k, v). is_mapping v \<and> \<not> isBlob v) obj))"
| "yamlToTree key v = TreeNode key [(key, v)] []"

end
