(* ===== verification/SemanticBuild.thy ===== *)
theory SemanticBuild
  imports SemanticTreeLaws
begin

text \<open>
  \<open>unflattenToTree\<close> and \<open>unflattenToTrees\<close> build the represented trees: the store after each step, the
  tree it stands for, and the groups by root segment.
\<close>

section \<open>The store\<close>

definition built_node :: "flat_node list \<Rightarrow> nat \<Rightarrow> heap_node" where
  "built_node P i = \<lparr>hn_key = fn_type (P ! i), hn_slots = fn_slots (P ! i),
     hn_children = filter (\<lambda>j. i < j \<and> parent_path (P ! j) = fn_id (P ! i)) [0..<length P]\<rparr>"

definition build_inv :: "flat_node list \<Rightarrow> builder \<Rightarrow> bool" where
  "build_inv P b \<longleftrightarrow> heap b = map (built_node P) [0..<length P]
     \<and> (\<forall>p i. map_of (nodeMap b) p = Some i \<longleftrightarrow> i < length P \<and> fn_id (P ! i) = p)"

lemma built_node_snoc:
  "i < length P \<Longrightarrow> built_node (P @ [f]) i =
     (if parent_path f = fn_id (P ! i) then add_child (length P) (built_node P i) else built_node P i)"
proof -
  assume i: "i < length P"
  have "filter (\<lambda>j. i < j \<and> parent_path ((P @ [f]) ! j) = fn_id ((P @ [f]) ! i)) [0..<length P]
      = filter (\<lambda>j. i < j \<and> parent_path (P ! j) = fn_id (P ! i)) [0..<length P]"
    using i by (intro filter_cong) (auto simp: nth_append)
  then show ?thesis using i by (simp add: built_node_def add_child_def nth_append)
qed

lemma built_node_last: "built_node (P @ [f]) (length P) = new_node f"
  by (auto simp: built_node_def new_node_def filter_empty_conv)

lemma update_lookup: "map_of (AList.update k v m) k' = (if k' = k then Some v else map_of m k')"
  by (simp add: update_conv')

lemma build_step_inv:
  assumes inv: "build_inv P b" and d: "distinct (map fn_id (P @ [f]))"
  shows "build_inv (P @ [f]) (build_step b f)"
proof -
  let ?n = "length P"
  have h: "heap b = map (built_node P) [0..<?n]" and len: "length (heap b) = ?n"
    and look: "\<And>p i. map_of (nodeMap b) p = Some i \<longleftrightarrow> i < ?n \<and> fn_id (P ! i) = p"
    using inv by (auto simp: build_inv_def)
  have uniq: "i = j" if "i < ?n" "j < ?n" "fn_id (P ! i) = fn_id (P ! j)" for i j
    using d that nth_eq_iff_index_eq [of "map fn_id P" i j] by simp
  have fresh: "fn_id (P ! i) \<noteq> fn_id f" if "i < ?n" for i
    using d imageI [OF nth_mem [OF that], of fn_id] by auto
  have heap: "heap (build_step b f) = map (built_node (P @ [f])) [0..<length (P @ [f])]"
  proof (cases "map_of (nodeMap b) (parent_path f)")
    case None
    then have "parent_path f \<noteq> fn_id (P ! i)" if "i < ?n" for i
      using look [of "parent_path f" i] that by auto
    then have "built_node (P @ [f]) i = built_node P i" if "i < ?n" for i using that by (simp add: built_node_snoc)
    then show ?thesis using None by (simp add: build_step_def h built_node_last)
  next
    case (Some p)
    then have p: "p < ?n" "fn_id (P ! p) = parent_path f" using look by auto
    have "(map (built_node P) [0..<?n] @ [new_node f])[p := add_child ?n (built_node P p)]
        = map (built_node (P @ [f])) [0..<Suc ?n]"
    proof (rule nth_equalityI)
      fix i assume "i < length ((map (built_node P) [0..<?n] @ [new_node f])[p := add_child ?n (built_node P p)])"
      then have i: "i < Suc ?n" by simp
      have par: "parent_path f = fn_id (P ! i) \<longleftrightarrow> i = p" if "i < ?n" using p uniq [of i p] that by auto
      show "(map (built_node P) [0..<?n] @ [new_node f])[p := add_child ?n (built_node P p)] ! i
          = map (built_node (P @ [f])) [0..<Suc ?n] ! i"
        using i p(1) par by (cases "i = ?n") (auto simp: nth_append nth_list_update built_node_snoc built_node_last
            less_Suc_eq simp del: upt_Suc)
    qed simp
    then show ?thesis using Some p(1) by (simp add: build_step_def h nth_append Let_def)
  qed
  have "map_of (nodeMap (build_step b f)) p = Some i \<longleftrightarrow> i < length (P @ [f]) \<and> fn_id ((P @ [f]) ! i) = p" for p i
    using look fresh by (auto simp: build_step_def update_lookup len nth_append Let_def less_Suc_eq split: if_splits)
  with heap show ?thesis by (simp add: build_inv_def)
qed

lemma build_all_inv:
  "distinct (map fn_id (root # rest)) \<Longrightarrow>
     build_inv (root # rest) (foldl build_step \<lparr>heap = [new_node root], nodeMap = [(fn_id root, 0)]\<rparr> rest)"
proof (induction rest rule: rev_induct)
  case Nil
  show ?case by (auto simp: build_inv_def built_node_def new_node_def)
next
  case (snoc f rest)
  then have "build_inv ((root # rest) @ [f]) (build_step
      (foldl build_step \<lparr>heap = [new_node root], nodeMap = [(fn_id root, 0)]\<rparr> rest) f)"
    by (intro build_step_inv) auto
  then show ?case by simp
qed

section \<open>The tree of the store\<close>

lemma filter_nth: "filter Q P = map ((!) P) (filter (\<lambda>j. Q (P ! j)) [0..<length P])"
proof -
  have "filter Q (map ((!) P) [0..<length P]) = map ((!) P) (filter (Q \<circ> (!) P) [0..<length P])"
    by (rule filter_map)
  then show ?thesis by (simp add: map_nth comp_def)
qed

text \<open>Sorted by depth, the children of a node come after it.\<close>

lemma built_children:
  assumes "i < length P" and "\<forall>f \<in> set P. named f" and "sorted_wrt (\<lambda>a b. compare_depth a b \<le> 0) P"
  shows "filter (child_of (P ! i)) P = map ((!) P) (hn_children (built_node P i))"
proof -
  have "child_of (P ! i) (P ! j) \<longleftrightarrow> i < j \<and> parent_path (P ! j) = fn_id (P ! i)" if "j < length P" for j
  proof -
    have "i < j" if c: "child_of (P ! i) (P ! j)"
    proof (rule ccontr)
      assume "\<not> i < j"
      then have "j = i \<or> j < i" by linarith
      then have "compare_depth (P ! j) (P ! i) \<le> 0"
        using assms(1,3) by (auto simp: sorted_wrt_iff_nth_less depth_order.refl)
      then show False using child_of_depth [OF c] by (simp add: compare_depth_def)
    qed
    moreover have "named (P ! i)" using assms(1,2) by auto
    ultimately show ?thesis using parent_path_child by blast
  qed
  then have "filter (\<lambda>j. child_of (P ! i) (P ! j)) [0..<length P] = hn_children (built_node P i)"
    unfolding built_node_def heap_node.simps by (intro filter_cong) auto
  then show ?thesis using filter_nth [of "child_of (P ! i)" P] by simp
qed

lemma tree_at_represents:
  assumes "\<forall>f \<in> set P. named f" and "sorted_wrt (\<lambda>a b. compare_depth a b \<le> 0) P"
  shows "i < length P \<Longrightarrow> represents P (P ! i) (tree_at (map (built_node P) [0..<length P]) i)"
proof (induction "length P - i" arbitrary: i rule: less_induct)
  case less
  let ?h = "map (built_node P) [0..<length P]" and ?cs = "hn_children (built_node P i)"
  have cs: "\<forall>j \<in> set ?cs. i < j \<and> j < length P" by (auto simp: built_node_def)
  then have f: "filter (\<lambda>j. i < j \<and> j < length ?h) ?cs = ?cs" by (auto simp: filter_id_conv)
  have t: "tree_at ?h i = TreeNode (fn_type (P ! i)) (fn_slots (P ! i)) (map (tree_at ?h) ?cs)"
    using less.prems f by (subst tree_at.simps) (simp add: built_node_def)
  have "list_all2 (represents P) (map ((!) P) ?cs) (map (tree_at ?h) ?cs)"
    using cs less.prems by (auto simp: list_all2_conv_all_nth intro!: less.hyps diff_less_mono2)
  then show ?case
    unfolding t using built_children [OF less.prems assms] by (intro represents.node) simp
qed

lemma unflattenToTree_represents:
  assumes "distinct (map fn_id F)" and "\<forall>f \<in> set F. named f" and "F \<noteq> []"
  shows "\<exists>t. unflattenToTree F = Inr t \<and> represents F (hd (js_sort compare_depth F)) t"
proof -
  let ?P = "js_sort compare_depth F"
  obtain root rest where P: "?P = root # rest" using assms(3) by (cases ?P) (auto dest: arg_cong [of _ _ length])
  have d: "distinct (map fn_id ?P)"
    using assms(1) by (metis mset_js_sort mset_map mset_eq_imp_distinct_iff)
  let ?b = "foldl build_step \<lparr>heap = [new_node root], nodeMap = [(fn_id root, 0)]\<rparr> rest"
  have "heap ?b = map (built_node ?P) [0..<length ?P]"
    using build_all_inv d unfolding P build_inv_def by blast
  then have t: "unflattenToTree F = Inr (tree_at (map (built_node ?P) [0..<length ?P]) 0)"
    by (simp add: unflattenToTree_def P)
  have rep: "represents ?P (?P ! 0) (tree_at (map (built_node ?P) [0..<length ?P]) 0)"
    using assms(2) by (intro tree_at_represents depth_order.sorted_sort) (simp, simp add: P)
  have order: "filter (child_of g) F = filter (child_of g) ?P" for g
  proof -
    show ?thesis
    proof (cases "\<exists>x. child_of g x")
      case True
      then obtain x where x: "child_of g x" by blast
      have f: "filter (child_of g) (filter (\<lambda>h. compare_depth x h = 0) M) = filter (child_of g) M" for M
        unfolding filter_filter using x by (intro filter_cong) (auto simp: child_of_def compare_depth_def)
      have "filter (child_of g) F = filter (child_of g) (filter (\<lambda>h. compare_depth x h = 0) F)" by (rule f [symmetric])
      also have "\<dots> = filter (child_of g) (filter (\<lambda>h. compare_depth x h = 0) ?P)"
        by (rule arg_cong [OF depth_order.stable_sort [symmetric]])
      also have "\<dots> = filter (child_of g) ?P" by (rule f)
      finally show ?thesis .
    next
      case False
      then have "child_of g = (\<lambda>h. False)" by blast
      then show ?thesis by simp
    qed
  qed
  have "represents F (?P ! 0) (tree_at (map (built_node ?P) [0..<length ?P]) 0)"
    by (rule represents_cong [where P = "\<lambda>_. True", OF rep TrueI order TrueI])
  then show ?thesis using t by (simp add: P hd_conv_nth)
qed

end
