(* ===== verification/SemanticForest.thy ===== *)
theory SemanticForest
  imports SemanticBuild
begin

text \<open>
  \<open>flattenTrees\<close> and \<open>unflattenToTrees\<close> on whole forests: rebuilding undoes flattening, and of any list of
  named nodes with distinct paths, rebuilding keeps those whose ancestors are all there.
\<close>

section \<open>Groups\<close>

lemma js_set_snoc: "js_set (xs @ [x]) = (if x \<in> set xs then js_set xs else js_set xs @ [x])"
  by (simp add: js_set_def)

lemma update_map_pairs:
  "distinct rs \<Longrightarrow> AList.update r g (map (\<lambda>r. (r, G r)) rs) =
     (if r \<in> set rs then map (\<lambda>r'. (r', if r' = r then g else G r')) rs else map (\<lambda>r. (r, G r)) rs @ [(r, g)])"
  by (induction rs) auto

lemma map_of_map_pairs: "map_of (map (\<lambda>r. (r, G r)) rs) r = (if r \<in> set rs then Some (G r) else None)"
  by (induction rs) auto

lemma groups:
  "foldl group_step [] F = map (\<lambda>r. (r, filter (\<lambda>f. root_segment f = r) F)) (js_set (map root_segment F))"
proof (induction F rule: rev_induct)
  case Nil
  show ?case by (simp add: js_set_def)
next
  case (snoc f F)
  let ?G = "\<lambda>r. filter (\<lambda>f. root_segment f = r) F"
  have e: "filter (\<lambda>f. root_segment f = r) F = []" if "r \<notin> root_segment ` set F" for r
    using that by (auto simp: filter_empty_conv)
  have "foldl group_step [] (F @ [f]) = group_step (map (\<lambda>r. (r, ?G r)) (js_set (map root_segment F))) f"
    by (simp add: snoc)
  also have "\<dots> = map (\<lambda>r. (r, filter (\<lambda>f. root_segment f = r) (F @ [f]))) (js_set (map root_segment (F @ [f])))"
    using e by (auto simp: group_step_def Let_def map_of_map_pairs update_map_pairs js_set_snoc)
  finally show ?case .
qed

definition root_of :: "flat_node list \<Rightarrow> jstring \<Rightarrow> flat_node" where
  "root_of F r = hd (js_sort compare_depth (filter (\<lambda>f. root_segment f = r) F))"

lemma exists_list_all2: "\<forall>x \<in> set xs. \<exists>y. P x y \<Longrightarrow> \<exists>ys. list_all2 P xs ys"
  by (induction xs) (auto simp: list_all2_Cons1)

lemma unflattenToTrees_represents:
  assumes "distinct (map fn_id F)" and "\<forall>f \<in> set F. named f"
  obtains ts where "unflattenToTrees F = Inr ts"
    and "list_all2 (represents F) (map (root_of F) (js_set (map root_segment F))) ts"
proof -
  let ?G = "\<lambda>r. filter (\<lambda>f. root_segment f = r) F"
  have one: "\<exists>t. unflattenToTree (?G r) = Inr t \<and> represents F (root_of F r) t"
    if r: "r \<in> set (js_set (map root_segment F))" for r
  proof -
    have ne: "?G r \<noteq> []" using r by (auto simp: filter_empty_conv)
    have d: "distinct (map fn_id (?G r))" using assms(1) by (rule distinct_map_filter)
    obtain t where t: "unflattenToTree (?G r) = Inr t" and rep: "represents (?G r) (root_of F r) t"
      using unflattenToTree_represents [OF d _ ne] assms(2) unfolding root_of_def by auto
    have "root_of F r \<in> set (js_sort compare_depth (?G r))"
      unfolding root_of_def using ne by (intro hd_in_set) (metis length_0_conv length_js_sort)
    then have top: "root_segment (root_of F r) = r" by simp
    have order: "filter (child_of g) F = filter (child_of g) (?G r)" if "root_segment g = r" for g
      unfolding filter_filter using child_of_root [of g] that by (intro filter_cong) auto
    have down: "root_segment h = r" if "root_segment g = r" "child_of g h" for g h
      using child_of_root [OF that(2)] that(1) by simp
    have "represents F (root_of F r) t"
      by (rule represents_cong [where P = "\<lambda>f. root_segment f = r", OF rep top order down])
    then have "unflattenToTree (?G r) = Inr t \<and> represents F (root_of F r) t" by (rule conjI [OF t])
    then show ?thesis by (rule exI)
  qed
  obtain ts where ts: "list_all2 (\<lambda>r t. unflattenToTree (?G r) = Inr t \<and> represents F (root_of F r) t)
      (js_set (map root_segment F)) ts"
    using exists_list_all2 [OF ballI [OF one]] by (rule exE)
  have "list_all2 (\<lambda>r t. unflattenToTree (?G r) = Inr t) (js_set (map root_segment F)) ts"
    using ts by (rule list_all2_mono) (rule conjunct1)
  then have "unflattenToTrees F = Inr ts" by (simp add: unflattenToTrees_def groups traverse_ok list_all2_map1)
  moreover have "list_all2 (\<lambda>r t. represents F (root_of F r) t) (js_set (map root_segment F)) ts"
    using ts by (rule list_all2_mono) (rule conjunct2)
  ultimately show thesis by (intro that) (simp_all add: list_all2_map1)
qed

section \<open>Well-formed forests\<close>

fun wf_tree :: "tree_node \<Rightarrow> bool" where
  "wf_tree (TreeNode key slots children) \<longleftrightarrow>
     key \<noteq> [] \<and> slash \<notin> set key \<and> distinct (map tn_key children) \<and> list_all wf_tree children"

definition wf_forest :: "tree_node list \<Rightarrow> bool" where
  "wf_forest ts \<longleftrightarrow> distinct (map tn_key ts) \<and> list_all wf_tree ts"

abbreviation good_path :: "jstring list \<Rightarrow> bool" where
  "good_path ps \<equiv> list_all (\<lambda>s. s \<noteq> [] \<and> slash \<notin> set s) ps"

lemma join_slash_snoc: "join c (ps @ [k]) = (if ps = [] then k else join c ps @ c # k)"
  by (induction c ps rule: join.induct) auto

lemma good_path_join: "good_path ps \<Longrightarrow> ps \<noteq> [] \<Longrightarrow> join slash ps \<noteq> []"
  by (cases ps rule: rev_cases) (auto simp: join_slash_snoc)

lemma segments_join: "good_path ps \<Longrightarrow> ps \<noteq> [] \<Longrightarrow> segments (join slash ps) = ps"
  by (rule split_join) (auto simp: list_all_iff)

lemma wf_tree_key: "wf_tree t \<Longrightarrow> good_path [tn_key t]"
  by (cases t) simp

lemma flattenNode_segs:
  "good_path ps \<Longrightarrow> flattenNode (TreeNode key slots children) (join slash ps) =
     \<lparr>fn_id = join slash (ps @ [key]), fn_type = key, fn_slots = slots\<rparr>
     # concat (map (\<lambda>child. flattenNode child (join slash (ps @ [key]))) children)"
  using good_path_join [of ps] by (cases "ps = []") (simp_all add: join_slash_snoc Let_def)

declare flattenNode.simps [simp del]

lemma flatten_segs:
  "wf_tree t \<Longrightarrow> good_path ps \<Longrightarrow> f \<in> set (flattenNode t (join slash ps)) \<Longrightarrow>
     named f \<and> (\<exists>qs. segs f = ps @ tn_key t # qs)"
proof (induction t arbitrary: ps f rule: wf_tree.induct)
  case (1 key slots children)
  let ?ps = "ps @ [key]"
  have good: "good_path ?ps" using "1.prems" by simp
  show ?case
  proof (cases "f = \<lparr>fn_id = join slash ?ps, fn_type = key, fn_slots = slots\<rparr>")
    case True
    then show ?thesis using segments_join [OF good] good by (auto simp: named_def list_all_iff)
  next
    case False
    then obtain c where c: "c \<in> set children" "f \<in> set (flattenNode c (join slash ?ps))"
      using "1.prems"(2,3) by (auto simp: flattenNode_segs)
    have "wf_tree c" using "1.prems"(1) c(1) by (auto simp: list_all_iff)
    then have "named f \<and> (\<exists>qs. segs f = ?ps @ tn_key c # qs)" using "1.IH" [OF c(1) _ good c(2)] by blast
    then show ?thesis by auto
  qed
qed

lemma flatten_prefix:
  assumes "wf_tree c" and "good_path ps" and "f \<in> set (flattenNode c (join slash ps))"
  shows "\<exists>qs. segs f = ps @ tn_key c # qs"
  using flatten_segs [OF assms] by blast

lemma flatten_apart:
  assumes "wf_tree c" "wf_tree c'" "tn_key c \<noteq> tn_key c'" "good_path ps"
    and "f \<in> set (flattenNode c (join slash ps))" "g \<in> set (flattenNode c' (join slash ps))"
  shows "\<not> prefix (segs f) (segs g)" "segs f \<noteq> segs g"
  using flatten_prefix [OF assms(1,4,5)] flatten_prefix [OF assms(2,4,6)] assms(3) by auto

lemma distinct_concat_map:
  "distinct xs \<Longrightarrow> (\<And>x. x \<in> set xs \<Longrightarrow> distinct (F x)) \<Longrightarrow>
     (\<And>x y. x \<in> set xs \<Longrightarrow> y \<in> set xs \<Longrightarrow> x \<noteq> y \<Longrightarrow> set (F x) \<inter> set (F y) = {}) \<Longrightarrow>
     distinct (concat (map F xs))"
  by (induction xs) (auto simp: disjoint_iff)

lemma flatten_children_distinct:
  assumes "distinct (map tn_key cs)" and "list_all wf_tree cs" and "good_path ps"
    and "\<And>c. c \<in> set cs \<Longrightarrow> distinct (map fn_id (flattenNode c (join slash ps)))"
  shows "distinct (map fn_id (concat (map (\<lambda>c. flattenNode c (join slash ps)) cs)))"
proof -
  have "distinct (concat (map (\<lambda>c. map fn_id (flattenNode c (join slash ps))) cs))"
  proof (rule distinct_concat_map)
    show "distinct cs" using assms(1) by (simp add: distinct_map)
    fix c c' assume c: "c \<in> set cs" "c' \<in> set cs" "c \<noteq> c'"
    then have "tn_key c \<noteq> tn_key c'" using assms(1) by (auto simp: distinct_map inj_on_def)
    then have "segs f \<noteq> segs g" if "f \<in> set (flattenNode c (join slash ps))" "g \<in> set (flattenNode c' (join slash ps))" for f g
      using flatten_apart(2) [OF _ _ _ assms(3) that] assms(2) c by (auto simp: list_all_iff)
    then show "set (map fn_id (flattenNode c (join slash ps))) \<inter> set (map fn_id (flattenNode c' (join slash ps))) = {}"
      by (fastforce simp: disjoint_iff)
  qed (rule assms(4))
  then show ?thesis by (simp add: map_concat comp_def)
qed

lemma flatten_distinct:
  "wf_tree t \<Longrightarrow> good_path ps \<Longrightarrow> distinct (map fn_id (flattenNode t (join slash ps)))"
proof (induction t arbitrary: ps rule: wf_tree.induct)
  case (1 key slots children)
  let ?ps = "ps @ [key]"
  have good: "good_path ?ps" and wf: "list_all wf_tree children" and d: "distinct (map tn_key children)"
    using "1.prems" by simp_all
  have "distinct (map fn_id (concat (map (\<lambda>c. flattenNode c (join slash ?ps)) children)))"
    using "1.IH" wf good by (intro flatten_children_distinct [OF d wf good]) (auto simp: list_all_iff)
  moreover have top: "fn_id f \<noteq> join slash ?ps" if m: "c \<in> set children" "f \<in> set (flattenNode c (join slash ?ps))" for c f
  proof -
    have "wf_tree c" using wf m(1) by (simp add: list_all_iff)
    then obtain qs where "segs f = ?ps @ tn_key c # qs" using flatten_prefix [OF _ good m(2)] by blast
    then show ?thesis using segments_join [OF good] by auto
  qed
  then have "join slash ?ps \<notin> set (map fn_id (concat (map (\<lambda>c. flattenNode c (join slash ?ps)) children)))"
    by fastforce
  ultimately show ?case using "1.prems"(2) by (simp add: flattenNode_segs)
qed

section \<open>Rebuilding undoes flattening\<close>

definition top_node :: "jstring list \<Rightarrow> tree_node \<Rightarrow> flat_node" where
  "top_node ps t = \<lparr>fn_id = join slash (ps @ [tn_key t]), fn_type = tn_key t, fn_slots = tn_slots t\<rparr>"

lemma flattenNode_top:
  "good_path ps \<Longrightarrow> flattenNode t (join slash ps)
     = top_node ps t # concat (map (\<lambda>c. flattenNode c (join slash (ps @ [tn_key t]))) (tn_children t))"
  by (cases t) (simp add: flattenNode_segs top_node_def)

lemma segs_top: "wf_tree t \<Longrightarrow> good_path ps \<Longrightarrow> segs (top_node ps t) = ps @ [tn_key t]"
  using wf_tree_key [of t] segments_join [of "ps @ [tn_key t]"] by (simp add: top_node_def)

lemma filter_concat_one:
  assumes "distinct cs" and "c \<in> set cs" and "\<And>c'. c' \<in> set cs \<Longrightarrow> c' \<noteq> c \<Longrightarrow> filter Q (F c') = []"
  shows "filter Q (concat (map F cs)) = filter Q (F c)"
  using assms
proof (induction cs)
  case (Cons a cs)
  show ?case
  proof (cases "a = c")
    case True
    then have "\<forall>c' \<in> set cs. filter Q (F c') = []" using Cons.prems by auto
    then have "filter Q (concat (map F cs)) = []" by (auto simp: filter_concat)
    then show ?thesis by (simp add: True)
  next
    case False
    then show ?thesis using Cons by simp
  qed
qed simp

text \<open>The children of a node of one tree of a forest are in that tree.\<close>

lemma children_in_tree:
  assumes "distinct (map tn_key cs)" and "list_all wf_tree cs" and "good_path ps" and "c \<in> set cs"
    and "g \<in> set (flattenNode c (join slash ps))"
  shows "filter (child_of g) (concat (map (\<lambda>c. flattenNode c (join slash ps)) cs))
    = filter (child_of g) (flattenNode c (join slash ps))"
proof (rule filter_concat_one)
  show "distinct cs" using assms(1) by (simp add: distinct_map)
  fix c' assume c': "c' \<in> set cs" "c' \<noteq> c"
  then have "tn_key c \<noteq> tn_key c'" using assms(1,4) by (auto simp: distinct_map inj_on_def)
  then have "\<not> child_of g h" if "h \<in> set (flattenNode c' (join slash ps))" for h
    using flatten_apart(1) [OF _ _ _ assms(3,5) that] assms(2,4) c' by (auto simp: list_all_iff child_of_iff)
  then show "filter (child_of g) (flattenNode c' (join slash ps)) = []" by (simp add: filter_empty_conv)
qed (rule assms(4))

lemma top_children:
  assumes "list_all wf_tree cs" and "good_path ps" and "segs f = ps"
  shows "filter (child_of f) (concat (map (\<lambda>c. flattenNode c (join slash ps)) cs)) = map (top_node ps) cs"
  using assms(1)
proof (induction cs)
  case (Cons c cs)
  then have wf: "wf_tree c" by simp
  have "\<not> child_of f h" if m: "c' \<in> set (tn_children c)" "h \<in> set (flattenNode c' (join slash (ps @ [tn_key c])))" for c' h
  proof -
    have "wf_tree c'" using wf m(1) by (cases c) (auto simp: list_all_iff)
    then obtain qs where "segs h = (ps @ [tn_key c]) @ tn_key c' # qs"
      using flatten_prefix [OF _ _ m(2)] assms(2) wf_tree_key [OF wf] by auto
    then show ?thesis using assms(3) by (simp add: child_of_iff)
  qed
  then have "filter (child_of f) (concat (map (\<lambda>c'. flattenNode c' (join slash (ps @ [tn_key c]))) (tn_children c))) = []"
    by (auto simp: filter_empty_conv)
  moreover have "child_of f (top_node ps c)" using segs_top [OF wf assms(2)] assms(3) by (simp add: child_of_iff)
  ultimately show ?case using Cons by (simp add: flattenNode_top [OF assms(2)])
qed simp

lemma flatten_represents:
  assumes "wf_tree t" and "good_path ps"
    and "\<And>g. g \<in> set (flattenNode t (join slash ps)) \<Longrightarrow>
           filter (child_of g) L = filter (child_of g) (flattenNode t (join slash ps))"
  shows "represents L (top_node ps t) t"
  using assms
proof (induction t arbitrary: ps rule: wf_tree.induct)
  case (1 key slots children)
  let ?t = "TreeNode key slots children" and ?ps = "ps @ [key]"
  let ?C = "concat (map (\<lambda>c. flattenNode c (join slash ?ps)) children)"
  have good: "good_path ?ps" and wf: "list_all wf_tree children" and d: "distinct (map tn_key children)"
    using "1.prems"(1,2) by simp_all
  have flat: "flattenNode ?t (join slash ps) = top_node ps ?t # ?C" using flattenNode_top [OF "1.prems"(2), of ?t] by simp
  have top: "segs (top_node ps ?t) = ?ps" using segs_top [OF "1.prems"(1,2)] by simp
  have no_top: "\<not> child_of g (top_node ps ?t)" if "g \<in> insert (top_node ps ?t) (set ?C)" for g
  proof -
    have "\<exists>qs. segs g = ps @ key # qs"
      using flatten_prefix [OF "1.prems"(1,2), of g] that by (auto simp: flat)
    then show ?thesis by (auto simp: child_of_iff top)
  qed
  have "filter (child_of (top_node ps ?t)) L = map (top_node ?ps) children"
    using "1.prems"(3) [of "top_node ps ?t"] no_top [of "top_node ps ?t"] top_children [OF wf good top]
    by (simp add: flat)
  moreover have "represents L (top_node ?ps c) c" if c: "c \<in> set children" for c
  proof (rule "1.IH" [OF c _ good])
    show "wf_tree c" using wf c by (simp add: list_all_iff)
    fix g assume g: "g \<in> set (flattenNode c (join slash ?ps))"
    then have "g \<in> set ?C" using c by auto
    then show "filter (child_of g) L = filter (child_of g) (flattenNode c (join slash ?ps))"
      using "1.prems"(3) [of g] no_top [of g] children_in_tree [OF d wf good c g] by (simp add: flat)
  qed
  ultimately have "list_all2 (represents L) (filter (child_of (top_node ps ?t)) L) children"
    by (auto simp: list_all2_conv_all_nth)
  then have "represents L (top_node ps ?t) (TreeNode (fn_type (top_node ps ?t)) (fn_slots (top_node ps ?t)) children)"
    by (rule represents.node)
  then show ?case by (simp add: top_node_def)
qed

lemma js_set_append_const:
  "\<forall>y \<in> set ys. y = k \<Longrightarrow> ys \<noteq> [] \<Longrightarrow> k \<notin> set xs \<Longrightarrow> js_set (xs @ ys) = js_set xs @ [k]"
proof (induction ys rule: rev_induct)
  case (snoc y ys)
  have y: "y = k" using snoc.prems(1) by simp
  show ?case
  proof (cases "ys = []")
    case True
    then show ?thesis using snoc.prems(3) by (simp add: js_set_snoc y)
  next
    case False
    then have "js_set (xs @ ys) = js_set xs @ [k]" using snoc by simp
    moreover have "k \<in> set (xs @ ys)" using False snoc.prems(1) by (cases ys) auto
    ultimately show ?thesis using js_set_snoc [of "xs @ ys" k] by (simp add: y)
  qed
qed simp

lemma hd_sort_min:
  assumes "x \<in> set xs" and "\<And>y. y \<in> set xs \<Longrightarrow> y \<noteq> x \<Longrightarrow> compare_depth x y < 0"
  shows "hd (js_sort compare_depth xs) = x"
proof -
  let ?s = "js_sort compare_depth xs"
  obtain z zs where z: "?s = z # zs" using assms(1) by (cases ?s) (auto dest: arg_cong [of _ _ length])
  have "insert z (set zs) = set xs" using arg_cong [OF z, of set] by simp
  then have mem: "z \<in> set xs" "x \<in> insert z (set zs)" using assms(1) by blast+
  have "x = z"
  proof (rule ccontr)
    assume ne: "x \<noteq> z"
    then have "compare_depth z x \<le> 0"
      using depth_order.sorted_sort [of xs] mem(2) unfolding z by auto
    then show False using assms(2) [OF mem(1)] ne by (auto simp: compare_depth_def)
  qed
  then show ?thesis by (simp add: z)
qed

abbreviation flat_forest :: "tree_node list \<Rightarrow> flat_node list" where
  "flat_forest ts \<equiv> concat (map (\<lambda>t. flattenNode t (join slash [])) ts)"

lemma flattenTrees_flat: "flattenTrees ts = flat_forest ts"
  by (simp add: flattenTrees_def)

lemma flat_forest_named: "list_all wf_tree ts \<Longrightarrow> f \<in> set (flat_forest ts) \<Longrightarrow> named f"
proof -
  assume wf: "list_all wf_tree ts" and "f \<in> set (flat_forest ts)"
  then obtain t where "t \<in> set ts" "f \<in> set (flattenNode t (join slash []))" by auto
  then show "named f" using flatten_segs [of t "[]" f] wf by (simp add: list_all_iff)
qed

lemma flat_forest_distinct: "wf_forest ts \<Longrightarrow> distinct (map fn_id (flat_forest ts))"
proof (rule flatten_children_distinct)
  fix t assume "wf_forest ts" "t \<in> set ts"
  then show "distinct (map fn_id (flattenNode t (join slash [])))"
    by (intro flatten_distinct) (simp_all add: wf_forest_def list_all_iff)
qed (simp_all add: wf_forest_def)

lemma tree_root_segment:
  assumes "wf_tree t" and "f \<in> set (flattenNode t (join slash []))"
  shows "root_segment f = tn_key t"
  using flatten_prefix [OF assms(1) _ assms(2)] by (auto simp: root_segment_def)

lemma forest_roots:
  "list_all wf_tree ts \<Longrightarrow> distinct (map tn_key ts) \<Longrightarrow>
     js_set (map root_segment (flat_forest ts)) = map tn_key ts"
proof (induction ts rule: rev_induct)
  case Nil
  show ?case by (simp add: js_set_def)
next
  case (snoc t ts)
  have wf: "wf_tree t" and wfs: "list_all wf_tree ts" using snoc.prems(1) by simp_all
  have "tn_key t \<notin> set (map root_segment (flat_forest ts))"
  proof
    assume "tn_key t \<in> set (map root_segment (flat_forest ts))"
    then obtain t' f where t': "t' \<in> set ts" "f \<in> set (flattenNode t' (join slash []))" "root_segment f = tn_key t"
      by auto
    then have "tn_key t' = tn_key t" using tree_root_segment [OF _ t'(2)] wfs by (simp add: list_all_iff)
    then have "tn_key t \<in> tn_key ` set ts" using t'(1) by (metis imageI)
    then show False using snoc.prems(2) by simp
  qed
  moreover have "\<forall>r \<in> set (map root_segment (flattenNode t (join slash []))). r = tn_key t"
    using tree_root_segment [OF wf] by auto
  moreover have "flattenNode t (join slash []) \<noteq> []" using flattenNode_top [of "[]" t] by simp
  ultimately have "js_set (map root_segment (flat_forest ts) @ map root_segment (flattenNode t (join slash [])))
      = js_set (map root_segment (flat_forest ts)) @ [tn_key t]"
    by (intro js_set_append_const) auto
  then show ?case using snoc by simp
qed

lemma forest_tree:
  assumes "wf_forest ts" and "t \<in> set ts"
  shows "filter (\<lambda>f. root_segment f = tn_key t) (flat_forest ts) = flattenNode t (join slash [])"
proof -
  have wf: "wf_tree s" if "s \<in> set ts" for s using assms(1) that by (simp add: wf_forest_def list_all_iff)
  have "filter (\<lambda>f. root_segment f = tn_key t) (flat_forest ts)
      = filter (\<lambda>f. root_segment f = tn_key t) (flattenNode t (join slash []))"
  proof (rule filter_concat_one)
    show "distinct ts" using assms(1) by (auto simp: wf_forest_def distinct_map)
    fix s assume s: "s \<in> set ts" "s \<noteq> t"
    then have "tn_key s \<noteq> tn_key t" using assms by (auto simp: wf_forest_def distinct_map inj_on_def)
    then show "filter (\<lambda>f. root_segment f = tn_key t) (flattenNode s (join slash [])) = []"
      using tree_root_segment [OF wf [OF s(1)]] by (auto simp: filter_empty_conv)
  qed (rule assms(2))
  also have "\<dots> = flattenNode t (join slash [])"
    using tree_root_segment [OF wf [OF assms(2)]] by (simp add: filter_id_conv)
  finally show ?thesis .
qed

lemma forest_root_of:
  assumes "wf_forest ts" and "t \<in> set ts"
  shows "root_of (flat_forest ts) (tn_key t) = top_node [] t"
  unfolding root_of_def forest_tree [OF assms]
proof (rule hd_sort_min)
  have wf: "wf_tree t" using assms by (simp add: wf_forest_def list_all_iff)
  have flat: "flattenNode t (join slash []) = top_node [] t #
      concat (map (\<lambda>c. flattenNode c (join slash [tn_key t])) (tn_children t))"
    using flattenNode_top [of "[]" t] by simp
  then show "top_node [] t \<in> set (flattenNode t (join slash []))" by simp
  fix f assume f: "f \<in> set (flattenNode t (join slash []))" "f \<noteq> top_node [] t"
  then obtain c where c: "c \<in> set (tn_children t)" "f \<in> set (flattenNode c (join slash [tn_key t]))"
    using flat by auto
  have "wf_tree c" using wf c(1) by (cases t) (auto simp: list_all_iff)
  then have "\<exists>qs. segs f = [tn_key t] @ tn_key c # qs" using wf_tree_key [OF wf] c(2) by (rule flatten_prefix)
  then show "compare_depth (top_node [] t) f < 0"
    using segs_top [OF wf, of "[]"] by (auto simp: compare_depth_def)
qed

lemma forest_represents:
  assumes "wf_forest ts" and "t \<in> set ts"
  shows "represents (flat_forest ts) (top_node [] t) t"
proof (rule flatten_represents)
  show "wf_tree t" using assms by (simp add: wf_forest_def list_all_iff)
  fix g assume "g \<in> set (flattenNode t (join slash []))"
  then show "filter (child_of g) (flat_forest ts) = filter (child_of g) (flattenNode t (join slash []))"
    using assms by (intro children_in_tree) (simp_all add: wf_forest_def)
qed simp

theorem unflatten_flatten:
  assumes "wf_forest ts"
  shows "unflattenToTrees (flattenTrees ts) = Inr ts"
proof -
  let ?F = "flat_forest ts"
  have wf: "list_all wf_tree ts" and d: "distinct (map tn_key ts)" using assms by (simp_all add: wf_forest_def)
  obtain ts' where ts': "unflattenToTrees ?F = Inr ts'"
    and rep: "list_all2 (represents ?F) (map (root_of ?F) (js_set (map root_segment ?F))) ts'"
    using unflattenToTrees_represents [OF flat_forest_distinct [OF assms]] flat_forest_named [OF wf] by blast
  have "map (root_of ?F) (map tn_key ts) = map (top_node []) ts" using forest_root_of [OF assms] by simp
  then have "list_all2 (represents ?F) (map (top_node []) ts) ts'" using rep by (simp only: forest_roots [OF wf d])
  then have "list_all2 (\<lambda>t t'. represents ?F (top_node [] t) t') ts ts'" by (simp only: list_all2_map1)
  then have "list_all2 (=) ts ts'"
    by (rule list.rel_mono_strong) (rule represents_unique [OF forest_represents [OF assms]])
  then have "ts = ts'" by (simp only: list.rel_eq)
  then show ?thesis using ts' by (simp only: flattenTrees_flat)
qed

end
