(* ===== verification/SemanticRebuild.thy ===== *)
theory SemanticRebuild
  imports SemanticForest
begin

text \<open>
  What rebuilding makes of any list of named nodes with distinct paths: a well-formed forest whose nodes
  are those of the list all of whose ancestors are in the list, provided the roots are there.
\<close>

section \<open>Nodes below a node\<close>

definition has_segs :: "flat_node list \<Rightarrow> jstring list \<Rightarrow> bool" where
  "has_segs F ps \<longleftrightarrow> (\<exists>h \<in> set F. segs h = ps)"

definition below :: "flat_node list \<Rightarrow> flat_node \<Rightarrow> flat_node \<Rightarrow> bool" where
  "below F f g \<longleftrightarrow> g \<in> set F \<and> (\<exists>qs. qs \<noteq> [] \<and> segs g = segs f @ qs \<and> (\<forall>i. 0 < i \<and> i \<le> length qs \<longrightarrow> has_segs F (segs f @ take i qs)))"

definition grounded :: "flat_node list \<Rightarrow> flat_node \<Rightarrow> bool" where
  "grounded F g \<longleftrightarrow> (\<forall>i. 0 < i \<and> i \<le> length (segs g) \<longrightarrow> has_segs F (take i (segs g)))"

lemma same_segs: "distinct (map fn_id F) \<Longrightarrow> f \<in> set F \<Longrightarrow> g \<in> set F \<Longrightarrow> segs f = segs g \<Longrightarrow> f = g"
  by (auto simp: distinct_map inj_on_def)

lemma below_step:
  assumes "distinct (map fn_id F)"
  shows "below F f g \<longleftrightarrow> (\<exists>h \<in> set F. child_of f h \<and> (g = h \<or> below F h g))"
proof
  assume "below F f g"
  then obtain k qs where g: "g \<in> set F" "segs g = segs f @ k # qs"
    and all: "\<And>i. 0 < i \<Longrightarrow> i \<le> Suc (length qs) \<Longrightarrow> has_segs F (segs f @ take i (k # qs))"
    by (auto simp: below_def neq_Nil_conv)
  obtain h where h: "h \<in> set F" "segs h = segs f @ [k]" using all [of 1] by (auto simp: has_segs_def)
  have "g = h \<or> below F h g"
  proof (cases "qs = []")
    case True
    then show ?thesis using same_segs [OF assms g(1) h(1)] g(2) h(2) by simp
  next
    case False
    have "has_segs F (segs h @ take i qs)" if "0 < i" "i \<le> length qs" for i
      using all [of "Suc i"] that by (simp add: h(2))
    then show ?thesis using False g h(2) by (auto simp: below_def)
  qed
  then show "\<exists>h \<in> set F. child_of f h \<and> (g = h \<or> below F h g)" using h by (auto simp: child_of_iff)
next
  assume "\<exists>h \<in> set F. child_of f h \<and> (g = h \<or> below F h g)"
  then obtain h k where h: "h \<in> set F" "segs h = segs f @ [k]" "g = h \<or> below F h g" by (auto simp: child_of_iff)
  then obtain qs where g: "g \<in> set F" "segs g = segs h @ qs"
    and all: "\<And>i. 0 < i \<Longrightarrow> i \<le> length qs \<Longrightarrow> has_segs F (segs h @ take i qs)"
    by (auto simp: below_def)
  have "has_segs F (segs f @ take i (k # qs))" if "0 < i" "i \<le> length (k # qs)" for i
  proof (cases i)
    case (Suc j)
    then show ?thesis
      using all [of j] h(1,2) that by (cases j) (auto simp: has_segs_def)
  qed (use that in simp)
  then show "below F f g" using g by (auto simp: below_def h(2))
qed

lemma grounded_iff:
  assumes "distinct (map fn_id F)" and "r \<in> set F" and "segs r = [root_segment g]" and "g \<in> set F"
  shows "grounded F g \<longleftrightarrow> g = r \<or> below F r g"
proof -
  obtain k qs where g: "segs g = k # qs" by (cases "segs g") auto
  have k: "segs r = [k]" using assms(3) g by (simp add: root_segment_def)
  show ?thesis
  proof (cases "qs = []")
    case True
    then have "g = r" using same_segs [OF assms(1,4,2)] g k by simp
    moreover have "grounded F g"
      using True assms(4) g by (auto simp: grounded_def has_segs_def le_Suc_eq)
    ultimately show ?thesis by simp
  next
    case False
    have "grounded F g \<longleftrightarrow> (\<forall>i. 0 < i \<and> i \<le> length qs \<longrightarrow> has_segs F (k # take i qs))" (is "?l = ?r")
    proof
      assume ?l
      then show ?r unfolding grounded_def g by (metis Suc_le_mono length_Cons take_Suc_Cons zero_less_Suc)
    next
      assume r: ?r
      have "has_segs F (take i (k # qs))" if "0 < i" "i \<le> Suc (length qs)" for i
        using that r assms(2) k by (cases i; cases "i - 1") (auto simp: has_segs_def)
      then show ?l by (simp add: grounded_def g)
    qed
    also have "\<dots> \<longleftrightarrow> below F r g" using False assms(4) g k by (auto simp: below_def)
    finally show ?thesis using False g k by auto
  qed
qed

section \<open>The nodes of a represented tree\<close>

lemma named_good: "named f \<Longrightarrow> good_path (segs f)"
  using split_on_parts by (fastforce simp: named_def list_all_iff)

lemma set_concat_rel:
  "list_all2 P xs ys \<Longrightarrow> (\<And>x y. x \<in> set xs \<Longrightarrow> P x y \<Longrightarrow> set (G y) = S x) \<Longrightarrow>
     set (concat (map G ys)) = (\<Union>x \<in> set xs. S x)"
proof (induction xs ys rule: list_all2_induct)
  case (Cons x xs y ys)
  have "set (concat (map G ys)) = (\<Union>x \<in> set xs. S x)" using Cons by simp
  moreover have "set (G y) = S x" using Cons.prems Cons.hyps(1) by simp
  ultimately show ?case by simp
qed simp

lemma represented_nodes:
  assumes "represents F f t" and "named f" and "\<forall>g \<in> set F. named g" and "distinct (map fn_id F)"
  shows "set (flattenNode t (join slash (butlast (segs f)))) = insert f {g. below F f g}"
  using assms(1,2)
proof (induction rule: represents.induct)
  case (node f cs)
  let ?t = "TreeNode (fn_type f) (fn_slots f) cs" and ?ps = "butlast (segs f)"
  have good: "good_path ?ps" using named_good [OF node.prems] by (auto simp: list_all_iff dest: in_set_butlastD)
  have last: "?ps @ [fn_type f] = segs f" using node.prems by (simp add: named_def)
  have flat: "flattenNode ?t (join slash ?ps) = f # concat (map (\<lambda>c. flattenNode c (join slash (segs f))) cs)"
    using flattenNode_segs [OF good, of "fn_type f" "fn_slots f" cs] by (simp add: last)
  have "set (concat (map (\<lambda>c. flattenNode c (join slash (segs f))) cs))
      = (\<Union>h \<in> set (filter (child_of f) F). insert h {g. below F h g})"
  proof (rule set_concat_rel [OF node.IH])
    fix h c assume h: "h \<in> set (filter (child_of f) F)"
      and ih: "represents F h c \<and> (named h \<longrightarrow> set (flattenNode c (join slash (butlast (segs h)))) = insert h {g. below F h g})"
    have "butlast (segs h) = segs f" using h by (simp add: child_of_def)
    then show "set (flattenNode c (join slash (segs f))) = insert h {g. below F h g}" using ih h assms(3) by auto
  qed
  also have "\<dots> = {g. below F f g}" using below_step [OF assms(4), of f] by auto
  finally show ?case by (simp add: flat)
qed

lemma represented_wf:
  assumes "represents F f t" and "named f" and "\<forall>g \<in> set F. named g" and "distinct (map fn_id F)"
  shows "wf_tree t \<and> tn_key t = last (segs f)"
  using assms(1,2)
proof (induction rule: represents.induct)
  case (node f cs)
  let ?hs = "filter (child_of f) F"
  have rel: "list_all2 (\<lambda>h c. wf_tree c \<and> tn_key c = last (segs h)) ?hs cs"
    using node.IH by (rule list.rel_mono_strong) (use assms(3) in auto)
  then have "list_all2 (\<lambda>h c. last (segs h) = tn_key c) ?hs cs" by (rule list_all2_mono) simp
  then have keys: "map tn_key cs = map (\<lambda>h. last (segs h)) ?hs" by (simp add: map_eq_map_iff list_all2_conv_all_nth)
  have inj: "g = h" if "g \<in> set ?hs" "h \<in> set ?hs" "last (segs g) = last (segs h)" for g h
  proof (rule same_segs [OF assms(4)])
    show "segs g = segs h" using that by (auto simp only: child_of_iff set_filter mem_Collect_eq last_snoc)
  qed (use that in simp_all)
  have "distinct ?hs" using assms(4) by (simp add: distinct_map)
  then have "distinct (map (\<lambda>h. last (segs h)) ?hs)" using inj by (auto simp: distinct_map inj_on_def)
  then have "distinct (map tn_key cs)" by (simp only: keys)
  moreover have "list_all wf_tree cs" using rel by (auto simp: list_all_length list_all2_conv_all_nth)
  moreover have "fn_type f = last (segs f)" "good_path [fn_type f]"
    using node.prems named_good [OF node.prems] by (auto simp: named_def list_all_iff)
  ultimately show ?case by simp
qed

section \<open>Rebuilding any list of nodes\<close>

definition rooted :: "flat_node list \<Rightarrow> bool" where
  "rooted F \<longleftrightarrow> (\<forall>f \<in> set F. has_segs F [root_segment f])"

lemma rooted_root_of:
  assumes "rooted F" and "distinct (map fn_id F)" and "f \<in> set F"
  shows "root_of F (root_segment f) \<in> set F" and "segs (root_of F (root_segment f)) = [root_segment f]"
proof -
  obtain r where r: "r \<in> set F" "segs r = [root_segment f]"
    using assms(1,3) by (auto simp: rooted_def has_segs_def)
  have "root_of F (root_segment f) = r"
    unfolding root_of_def
  proof (rule hd_sort_min)
    show "r \<in> set (filter (\<lambda>g. root_segment g = root_segment f) F)" using r by (simp add: root_segment_def)
    fix g assume g: "g \<in> set (filter (\<lambda>g. root_segment g = root_segment f) F)" "g \<noteq> r"
    then obtain qs where qs: "segs g = root_segment f # qs" by (cases "segs g") (auto simp: root_segment_def)
    then have "qs \<noteq> []" using same_segs [OF assms(2), of g r] g r by auto
    then show "compare_depth r g < 0" using qs r(2) by (simp add: compare_depth_def)
  qed
  then show "root_of F (root_segment f) \<in> set F" and "segs (root_of F (root_segment f)) = [root_segment f]"
    using r by simp_all
qed

theorem rebuild_grounded:
  assumes "distinct (map fn_id F)" and "\<forall>f \<in> set F. named f" and "rooted F"
  obtains ts where "unflattenToTrees F = Inr ts" and "wf_forest ts"
    and "set (flattenTrees ts) = {f \<in> set F. grounded F f}"
proof -
  let ?rs = "js_set (map root_segment F)"
  obtain ts where ts: "unflattenToTrees F = Inr ts"
    and rep: "list_all2 (represents F) (map (root_of F) ?rs) ts"
    using unflattenToTrees_represents [OF assms(1,2)] by blast
  have root: "root_of F r \<in> set F \<and> segs (root_of F r) = [r]" if "r \<in> set ?rs" for r
    using that rooted_root_of [OF assms(3,1)] by auto
  have wf: "list_all2 (\<lambda>r t. wf_tree t \<and> tn_key t = r) ?rs ts"
    using rep unfolding list_all2_map1
    by (rule list.rel_mono_strong) (use represented_wf assms(1,2) root in fastforce)
  then have "list_all2 (\<lambda>r t. r = tn_key t) ?rs ts" by (rule list_all2_mono) simp
  then have "map tn_key ts = ?rs" by (auto simp: list_all2_conv_all_nth intro: nth_equalityI)
  then have "wf_forest ts"
    using wf by (auto simp: wf_forest_def list_all_length list_all2_conv_all_nth)
  moreover have "set (concat (map (\<lambda>t. flattenNode t (join slash [])) ts))
      = (\<Union>r \<in> set ?rs. insert (root_of F r) {g. below F (root_of F r) g})"
  proof (rule set_concat_rel [OF rep [unfolded list_all2_map1]])
    fix r t assume r: "r \<in> set ?rs" and t: "represents F (root_of F r) t"
    then show "set (flattenNode t (join slash [])) = insert (root_of F r) {g. below F (root_of F r) g}"
      using represented_nodes [OF t _ assms(2,1)] root [OF r] assms(2) by simp
  qed
  moreover have "\<dots> = {f \<in> set F. grounded F f}"
  proof -
    have sub: "root_segment g = r" if "r \<in> set ?rs" "g = root_of F r \<or> below F (root_of F r) g" for r g
      using root [OF that(1)] that(2) by (auto simp: below_def root_segment_def)
    have "g \<in> insert (root_of F r) {g. below F (root_of F r) g} \<longleftrightarrow> g \<in> set F \<and> grounded F g \<and> root_segment g = r"
      if r: "r \<in> set ?rs" for r g
    proof (cases "g \<in> set F \<and> root_segment g = r")
      case True
      then show ?thesis using grounded_iff [OF assms(1), of "root_of F r" g] root [OF r] by auto
    next
      case False
      then show ?thesis using sub [OF r, of g] root [OF r] by (auto simp: below_def)
    qed
    then show ?thesis by auto
  qed
  ultimately show thesis using ts by (intro that) (simp_all add: flattenTrees_flat)
qed

end
