(* ===== verification/SemanticMerge.thy ===== *)
theory SemanticMerge
  imports SemanticRebuild
begin

text \<open>
  packages/core/src/semantic/merge.ts: the preparation of a three-way merge of semantic contents and its
  execution under the decisions of a user. A \<open>Map\<close> is an association list in order of insertion, a
  \<open>Set\<close> of paths a list. The function throws when the key of an edited node does not fit its path; the
  merge of the slots of one node is \<open>Inl InheritedSlot\<close> where the code would store a function that it
  read from \<open>Object.prototype\<close>, which is no slot value.
\<close>

section \<open>Types\<close>

record slot_conflict =
  sl_key :: jstring
  baseValue :: js_ref
  sourceValue :: js_ref
  targetValue :: js_ref

record merge_conflict =
  cf_path :: jstring
  slotConflicts :: "slot_conflict list"

record merge_result =
  autoKept :: "jstring list"
  conflicts :: "merge_conflict list"
  onlyInSource :: "jstring list"
  onlyInTarget :: "jstring list"
  relationsOnlyInSource :: "relation list"
  relationsOnlyInTarget :: "relation list"
  relationsInBoth :: "relation list"

datatype merge_resolution = UseSource | UseTarget | UseBoth | UseEdit tree_node

record merge_decision =
  conflictResolutions :: "merge_resolution jobject"
  keepFromSource :: "jstring list"
  keepFromTarget :: "jstring list"
  keepRelationsFromSource :: bool
  keepRelationsFromTarget :: bool

datatype merge_error = EditKeyMismatch | InheritedSlot | RebuildError tree_error

section \<open>Frames\<close>

definition frame_map :: "flat_node list \<Rightarrow> (jstring \<times> flat_node) list" where
  "frame_map frames = foldl (\<lambda>m f. AList.update (fn_id f) f m) [] frames"

definition framesEqual :: "flat_node \<Rightarrow> flat_node \<Rightarrow> bool" where
  "framesEqual a b \<longleftrightarrow> fn_type a = fn_type b \<and> length (fn_slots a) = length (fn_slots b)
     \<and> list_all (\<lambda>k. js_in k (fn_slots b) \<and> deepEqual (js_get (fn_slots a) k) (js_get (fn_slots b) k) 0)
         (map fst (fn_slots a))"

definition frame_slots :: "flat_node option \<Rightarrow> yvalue jobject" where
  "frame_slots f = (case f of None \<Rightarrow> [] | Some n \<Rightarrow> fn_slots n)"

definition frame_slot :: "flat_node option \<Rightarrow> jstring \<Rightarrow> js_ref" where
  "frame_slot f k = (case f of None \<Rightarrow> Undefined | Some n \<Rightarrow> js_get (fn_slots n) k)"

definition slot_conflict_at :: "flat_node option \<Rightarrow> flat_node option \<Rightarrow> flat_node option \<Rightarrow> jstring \<Rightarrow> slot_conflict list" where
  "slot_conflict_at base src tgt key =
     (let baseVal = frame_slot base key; srcVal = frame_slot src key; tgtVal = frame_slot tgt key in
      if deepEqual srcVal tgtVal 0 then []
      else if base \<noteq> None \<and> deepEqual srcVal baseVal 0 then []
      else if base \<noteq> None \<and> deepEqual tgtVal baseVal 0 then []
      else [\<lparr>sl_key = key, baseValue = baseVal, sourceValue = srcVal, targetValue = tgtVal\<rparr>])"

definition findSlotConflicts :: "flat_node option \<Rightarrow> flat_node option \<Rightarrow> flat_node option \<Rightarrow> slot_conflict list" where
  "findSlotConflicts base src tgt = concat (map (slot_conflict_at base src tgt)
     (js_set (map fst (frame_slots base) @ map fst (frame_slots src) @ map fst (frame_slots tgt))))"

text \<open>One slot of \<open>mergeNonConflicting\<close>.\<close>

definition put_slot :: "yvalue jobject \<Rightarrow> jstring \<Rightarrow> js_ref \<Rightarrow> merge_error + yvalue jobject" where
  "put_slot slots key r = (case r of
       Undefined \<Rightarrow> Inr (obj_delete slots key)
     | Val v \<Rightarrow> Inr (obj_assign slots key v)
     | Builtin _ \<Rightarrow> Inl InheritedSlot)"

fun merge_slots :: "flat_node \<Rightarrow> flat_node \<Rightarrow> flat_node \<Rightarrow> jstring list \<Rightarrow> yvalue jobject \<Rightarrow> merge_error + yvalue jobject" where
  "merge_slots base src tgt [] slots = Inr slots"
| "merge_slots base src tgt (key # keys) slots =
     (let baseVal = js_get (fn_slots base) key; srcVal = js_get (fn_slots src) key; tgtVal = js_get (fn_slots tgt) key in
      bind_result
        (if \<not> deepEqual srcVal baseVal 0 then put_slot slots key srcVal
         else if \<not> deepEqual tgtVal baseVal 0 then put_slot slots key tgtVal
         else Inr slots)
        (merge_slots base src tgt keys))"

definition mergeNonConflicting :: "flat_node \<Rightarrow> flat_node \<Rightarrow> flat_node \<Rightarrow> merge_error + flat_node" where
  "mergeNonConflicting base src tgt =
     bind_result (merge_slots base src tgt
         (js_set (map fst (fn_slots src) @ map fst (fn_slots tgt) @ map fst (fn_slots base))) (fn_slots base))
       (\<lambda>slots. Inr (src\<lparr>fn_type := if fn_type tgt \<noteq> fn_type base \<and> fn_type src = fn_type base
                              then fn_type tgt else fn_type src, fn_slots := slots\<rparr>))"

section \<open>prepareMerge\<close>

datatype node_class = Kept | Conflict "slot_conflict list" | SourceOnly | TargetOnly | Skipped

text \<open>The body of the loop over all paths; \<open>Skipped\<close> is a \<open>continue\<close> without an entry.\<close>

definition classify_node :: "flat_node option \<Rightarrow> flat_node option \<Rightarrow> flat_node option \<Rightarrow> node_class" where
  "classify_node baseFrame srcFrame tgtFrame =
     (case (srcFrame, tgtFrame) of
        (Some s, None) \<Rightarrow>
          (case baseFrame of
             None \<Rightarrow> SourceOnly
           | Some b \<Rightarrow> if \<not> framesEqual s b then Conflict (findSlotConflicts (Some b) (Some s) None) else Skipped)
      | (None, Some t) \<Rightarrow>
          (case baseFrame of
             None \<Rightarrow> TargetOnly
           | Some b \<Rightarrow> if \<not> framesEqual t b then Conflict (findSlotConflicts (Some b) None (Some t)) else Skipped)
      | (None, None) \<Rightarrow> Skipped
      | (Some s, Some t) \<Rightarrow>
          if framesEqual s t then Kept
          else (case baseFrame of
              None \<Rightarrow> Conflict (findSlotConflicts None (Some s) (Some t))
            | Some b \<Rightarrow>
                (let srcChanged = \<not> framesEqual b s; tgtChanged = \<not> framesEqual b t in
                 if \<not> srcChanged \<and> \<not> tgtChanged then Kept
                 else if srcChanged \<and> \<not> tgtChanged then Kept
                 else if \<not> srcChanged \<and> tgtChanged then Kept
                 else (let slot_conflicts = findSlotConflicts (Some b) (Some s) (Some t);
                           typeConflict = fn_type s \<noteq> fn_type t \<and> fn_type s \<noteq> fn_type b \<and> fn_type t \<noteq> fn_type b
                       in if slot_conflicts = [] \<and> \<not> typeConflict then Kept else Conflict slot_conflicts))))"

definition prepare_step :: "(jstring \<times> flat_node) list \<Rightarrow> (jstring \<times> flat_node) list \<Rightarrow> (jstring \<times> flat_node) list \<Rightarrow>
    merge_result \<Rightarrow> jstring \<Rightarrow> merge_result" where
  "prepare_step baseMap srcMap tgtMap r path =
     (case classify_node (map_of baseMap path) (map_of srcMap path) (map_of tgtMap path) of
        Kept \<Rightarrow> r\<lparr>autoKept := autoKept r @ [path]\<rparr>
      | Conflict cs \<Rightarrow> r\<lparr>conflicts := conflicts r @ [\<lparr>cf_path = path, slotConflicts = cs\<rparr>]\<rparr>
      | SourceOnly \<Rightarrow> r\<lparr>onlyInSource := onlyInSource r @ [path]\<rparr>
      | TargetOnly \<Rightarrow> r\<lparr>onlyInTarget := onlyInTarget r @ [path]\<rparr>
      | Skipped \<Rightarrow> r)"

definition prepareMerge :: "semantic_content \<Rightarrow> semantic_content \<Rightarrow> semantic_content \<Rightarrow> merge_result" where
  "prepareMerge base source target =
     (let baseMap = frame_map (flattenTrees (trees base));
          srcMap = frame_map (flattenTrees (trees source));
          tgtMap = frame_map (flattenTrees (trees target));
          allIds = js_set (map fst baseMap @ map fst srcMap @ map fst tgtMap);
          baseRelKeys = map relKey (relations base);
          srcRelKeys = map relKey (relations source);
          tgtRelKeys = map relKey (relations target);
          start = \<lparr>autoKept = [], conflicts = [], onlyInSource = [], onlyInTarget = [],
            relationsOnlyInSource = filter (\<lambda>r. relKey r \<notin> set tgtRelKeys \<and> relKey r \<notin> set baseRelKeys) (relations source),
            relationsOnlyInTarget = filter (\<lambda>r. relKey r \<notin> set srcRelKeys \<and> relKey r \<notin> set baseRelKeys) (relations target),
            relationsInBoth = filter (\<lambda>r. relKey r \<in> set tgtRelKeys) (relations source)\<rparr>
      in foldl (prepare_step baseMap srcMap tgtMap) start allIds)"

section \<open>executeMerge\<close>

record merge_state =
  resultFrames :: "flat_node list"
  editedPaths :: "jstring list"

definition removeFramesAtPath :: "flat_node list \<Rightarrow> jstring \<Rightarrow> flat_node list" where
  "removeFramesAtPath frames path = filter (\<lambda>f. fn_id f \<noteq> path) frames"

definition pushResolvedFrame :: "merge_state \<Rightarrow> flat_node \<Rightarrow> merge_state" where
  "pushResolvedFrame st frame =
     (if fn_id frame \<in> set (editedPaths st)
      then \<lparr>resultFrames = removeFramesAtPath (resultFrames st) (fn_id frame) @ [frame],
            editedPaths = filter (\<lambda>p. p \<noteq> fn_id frame) (editedPaths st)\<rparr>
      else st\<lparr>resultFrames := resultFrames st @ [frame]\<rparr>)"

definition pushEditedFrames :: "merge_state \<Rightarrow> flat_node list \<Rightarrow> merge_state" where
  "pushEditedFrames st frames =
     (let paths = js_set (map fn_id frames)
      in \<lparr>resultFrames = foldl removeFramesAtPath (resultFrames st) paths @ frames,
          editedPaths = js_set (editedPaths st @ paths)\<rparr>)"

definition push_option :: "merge_state \<Rightarrow> flat_node option \<Rightarrow> merge_state" where
  "push_option st f = (case f of None \<Rightarrow> st | Some n \<Rightarrow> pushResolvedFrame st n)"

text \<open>The frame that an automatically kept path contributes.\<close>

definition kept_frame :: "flat_node option \<Rightarrow> flat_node option \<Rightarrow> flat_node option \<Rightarrow> merge_error + flat_node option" where
  "kept_frame baseFrame srcFrame tgtFrame =
     (case (srcFrame, tgtFrame) of
        (Some s, Some t) \<Rightarrow>
          if framesEqual s t then Inr (Some s)
          else (case baseFrame of
              Some b \<Rightarrow>
                (let srcChanged = \<not> framesEqual b s; tgtChanged = \<not> framesEqual b t in
                 if srcChanged \<and> \<not> tgtChanged then Inr (Some s)
                 else if \<not> srcChanged \<and> tgtChanged then Inr (Some t)
                 else bind_result (mergeNonConflicting b s t) (\<lambda>f. Inr (Some f)))
            | None \<Rightarrow> Inr (Some s))
      | (Some s, None) \<Rightarrow> Inr (Some s)
      | (None, Some t) \<Rightarrow> Inr (Some t)
      | (None, None) \<Rightarrow> Inr None)"

definition flattenEditedTreeAtPath :: "tree_node \<Rightarrow> jstring \<Rightarrow> merge_error + flat_node list" where
  "flattenEditedTreeAtPath edit conflictPath =
     (if tn_key edit \<noteq> last (segments conflictPath) then Inl EditKeyMismatch
      else (let frames = flattenTree edit; localRoot = fn_id (hd frames) in
            if localRoot = [] then Inr []
            else Inr (map (\<lambda>frame. frame\<lparr>fn_id :=
                   if fn_id frame = localRoot then conflictPath
                   else conflictPath @ slash # drop (length localRoot + 1) (fn_id frame)\<rparr>) frames)))"

text \<open>
  \<open>decisions.conflictResolutions[path]\<close>: an inherited member is none of the values that the code tests
  for, and nothing is pushed.
\<close>

definition resolve_conflict :: "merge_decision \<Rightarrow> (jstring \<times> flat_node) list \<Rightarrow> (jstring \<times> flat_node) list \<Rightarrow>
    merge_state \<Rightarrow> merge_conflict \<Rightarrow> merge_error + merge_state" where
  "resolve_conflict decisions srcMap tgtMap st conflict =
     (let srcFrame = map_of srcMap (cf_path conflict); tgtFrame = map_of tgtMap (cf_path conflict) in
      case map_of (conflictResolutions decisions) (cf_path conflict) of
        None \<Rightarrow> Inr (if cf_path conflict \<in> set PROTOTYPE_NAMES then st else push_option st srcFrame)
      | Some UseSource \<Rightarrow> Inr (push_option st srcFrame)
      | Some UseTarget \<Rightarrow> Inr (push_option st tgtFrame)
      | Some UseBoth \<Rightarrow> Inr (push_option (push_option st srcFrame) tgtFrame)
      | Some (UseEdit edit) \<Rightarrow>
          bind_result (flattenEditedTreeAtPath edit (cf_path conflict)) (\<lambda>frames. Inr (pushEditedFrames st frames)))"

fun resolve_conflicts :: "merge_decision \<Rightarrow> (jstring \<times> flat_node) list \<Rightarrow> (jstring \<times> flat_node) list \<Rightarrow>
    merge_conflict list \<Rightarrow> merge_state \<Rightarrow> merge_error + merge_state" where
  "resolve_conflicts decisions srcMap tgtMap [] st = Inr st"
| "resolve_conflicts decisions srcMap tgtMap (c # cs) st =
     bind_result (resolve_conflict decisions srcMap tgtMap st c) (resolve_conflicts decisions srcMap tgtMap cs)"

definition keep_selected :: "(jstring \<times> flat_node) list \<Rightarrow> jstring list \<Rightarrow> jstring list \<Rightarrow> merge_state \<Rightarrow> merge_state" where
  "keep_selected frames only keep st =
     foldl (\<lambda>st path. if path \<in> set keep then push_option st (map_of frames path) else st) st only"

definition conflict_depth :: "merge_conflict \<Rightarrow> merge_conflict \<Rightarrow> int" where
  "conflict_depth a b = int (length (segments (cf_path a))) - int (length (segments (cf_path b)))"

definition executeMerge :: "semantic_content \<Rightarrow> semantic_content \<Rightarrow> semantic_content \<Rightarrow> merge_result \<Rightarrow>
    merge_decision \<Rightarrow> merge_error + semantic_content" where
  "executeMerge base source target prepared decisions =
     (let baseMap = frame_map (flattenTrees (trees base));
          srcMap = frame_map (flattenTrees (trees source));
          tgtMap = frame_map (flattenTrees (trees target)) in
      bind_result (traverse (\<lambda>path. kept_frame (map_of baseMap path) (map_of srcMap path) (map_of tgtMap path))
                     (autoKept prepared)) (\<lambda>kept.
      bind_result (resolve_conflicts decisions srcMap tgtMap (js_sort conflict_depth (conflicts prepared))
                     \<lparr>resultFrames = List.map_filter (\<lambda>f. f) kept, editedPaths = []\<rparr>) (\<lambda>st.
      let st1 = keep_selected srcMap (onlyInSource prepared) (keepFromSource decisions) st;
          st2 = keep_selected tgtMap (onlyInTarget prepared) (keepFromTarget decisions) st1;
          rels = relationsInBoth prepared
            @ (if keepRelationsFromSource decisions then relationsOnlyInSource prepared else [])
            @ (if keepRelationsFromTarget decisions then relationsOnlyInTarget prepared else [])
      in (case unflattenToTrees (resultFrames st2) of
            Inl e \<Rightarrow> Inl (RebuildError e)
          | Inr ts \<Rightarrow> Inr \<lparr>trees = ts, relations = rels\<rparr>))))"

end
