(* ===== verification/SemanticMergeLaws.thy ===== *)
theory SemanticMergeLaws
  imports SemanticMerge
begin

text \<open>
  One node under a three-way merge. On slots that the bounded equality can compare, a node that both sides
  changed is kept exactly when no slot was changed on both sides to different values, and the slots of
  the kept node are the three-way merge of the slots.
\<close>

section \<open>Comparable slots\<close>

definition plain_slots :: "yvalue jobject \<Rightarrow> bool" where
  "plain_slots m \<longleftrightarrow> wf_yvalue (YMap m) \<and> (\<forall>(k, v) \<in> set m. k \<notin> set PROTOTYPE_NAMES \<and> fits v 0)"

abbreviation same_slot :: "yvalue option \<Rightarrow> yvalue option \<Rightarrow> bool" where
  "same_slot \<equiv> rel_option same"

definition clean_slot :: "yvalue option \<Rightarrow> yvalue option \<Rightarrow> yvalue option \<Rightarrow> bool" where
  "clean_slot b s t \<longleftrightarrow> same_slot s t \<or> same_slot s b \<or> same_slot t b"

definition merge3 :: "yvalue option \<Rightarrow> yvalue option \<Rightarrow> yvalue option \<Rightarrow> yvalue option" where
  "merge3 b s t = (if same_slot s b then t else s)"

lemma proto_inherited: "u ''__proto__'' \<in> set PROTOTYPE_NAMES"
  by (simp add: PROTOTYPE_NAMES_def)

lemma plain_slot:
  "plain_slots m \<Longrightarrow> map_of m k = Some v \<Longrightarrow> k \<notin> set PROTOTYPE_NAMES \<and> fits v 0 \<and> wf_yvalue v"
  using wf_map_lookup [of m k v] unfolding plain_slots_def by (auto dest: map_of_SomeD)

lemma key_lookup: "k \<in> fst ` set m \<Longrightarrow> \<exists>v. map_of m k = Some v"
  by (induction m) auto

lemma lookup_key: "map_of m k = Some v \<Longrightarrow> k \<in> fst ` set m"
  by (induction m) (auto split: if_splits)

lemma same_slot_refl: "plain_slots m \<Longrightarrow> same_slot (map_of m k) (map_of m k)"
  using plain_slot [of m k] by (cases "map_of m k") auto

lemma same_slot_sym: "same_slot a b \<Longrightarrow> same_slot b a"
  by (cases a; cases b) (auto intro: same_sym)

lemma same_slot_trans: "same_slot a b \<Longrightarrow> same_slot b c \<Longrightarrow> same_slot a c"
  by (cases a; cases b; cases c) (auto intro: same_trans)

lemma absent_member: "js_get [] k \<in> {Undefined, Builtin k, Val (YMap [])}"
  "js_get [] k = Val (YMap []) \<Longrightarrow> k \<in> set PROTOTYPE_NAMES"
  using proto_inherited by (auto simp: js_get_def split: if_splits)

lemma deepEqual_refl_absent: "deepEqual (js_get [] k) (js_get [] k) 0"
  using absent_member(1) [of k] by (auto simp: deepEqual_other deepEqual_Map MAX_DEPTH_def)

lemma deepEqual_absent:
  assumes "k \<notin> set PROTOTYPE_NAMES" "fits v 0"
  shows "\<not> deepEqual (Val v) (js_get [] k) 0" "\<not> deepEqual (js_get [] k) (Val v) 0"
proof -
  have "js_get [] k = Undefined" using assms(1) proto_inherited by (auto simp: js_get_def)
  then show "\<not> deepEqual (Val v) (js_get [] k) 0" "\<not> deepEqual (js_get [] k) (Val v) 0"
    by (simp_all add: deepEqual_Builtin deepEqual_other)
qed

lemma deepEqual_slot:
  assumes "plain_slots m" and "plain_slots n"
  shows "deepEqual (js_get m k) (js_get n k) 0 \<longleftrightarrow> same_slot (map_of m k) (map_of n k)"
proof -
  have m: "js_get m k = (case map_of m k of Some v \<Rightarrow> Val v | None \<Rightarrow> js_get [] k)" for m by (simp add: js_get_def split: option.split)
  show ?thesis
    using plain_slot [OF assms(1), of k] plain_slot [OF assms(2), of k] deepEqual_refl_absent [of k] deepEqual_absent [of k]
    unfolding m [of m] m [of n] by (cases "map_of m k"; cases "map_of n k") (auto simp: deepEqual_same)
qed

lemma same_slots_iff:
  assumes "plain_slots m" and "plain_slots n"
  shows "same (YMap m) (YMap n) \<longleftrightarrow> (\<forall>k. same_slot (map_of m k) (map_of n k))"
proof
  assume all: "\<forall>k. same_slot (map_of m k) (map_of n k)"
  have "map_option abs_val (map_of m k) = map_option abs_val (map_of n k)" for k
    using all [rule_format, of k] by (cases "map_of m k"; cases "map_of n k") (auto simp: same_def)
  then show "same (YMap m) (YMap n)" using assms unfolding same_Map_iff plain_slots_def by blast
qed (blast intro: same_Map_lookup)

lemma framesEqual_plain:
  assumes "plain_slots (fn_slots a)" and "plain_slots (fn_slots b)"
  shows "framesEqual a b \<longleftrightarrow> fn_type a = fn_type b \<and> (\<forall>k. same_slot (map_of (fn_slots a) k) (map_of (fn_slots b) k))"
proof -
  let ?m = "fn_slots a" and ?n = "fn_slots b"
  have wf: "wf_object ?m" "wf_object ?n" using assms by (simp_all add: plain_slots_def)
  have slot: "js_in k ?n \<and> deepEqual (js_get ?m k) (js_get ?n k) 0 \<longleftrightarrow> same_slot (map_of ?m k) (map_of ?n k)"
    if k: "k \<in> fst ` set ?m" for k
  proof -
    obtain v where v: "map_of ?m k = Some v" using key_lookup [OF k] by blast
    then show ?thesis
      by (cases "map_of ?n k") (simp_all add: deepEqual_slot [OF assms] js_in_def has_own_def)
  qed
  have "framesEqual a b \<longleftrightarrow> fn_type a = fn_type b \<and> length ?m = length ?n
      \<and> (\<forall>k \<in> fst ` set ?m. same_slot (map_of ?m k) (map_of ?n k))"
    using slot by (auto simp: framesEqual_def list_all_iff)
  also have "\<dots> \<longleftrightarrow> fn_type a = fn_type b \<and> same (YMap ?m) (YMap ?n)"
  proof -
    have "same (YMap ?m) (YMap ?n)"
      if l: "length ?m = length ?n" and all: "\<forall>k \<in> fst ` set ?m. same_slot (map_of ?m k) (map_of ?n k)"
    proof -
      have "fst ` set ?m \<subseteq> fst ` set ?n"
      proof
        fix k assume k: "k \<in> fst ` set ?m"
        obtain v where "map_of ?m k = Some v" using key_lookup [OF k] by blast
        moreover have "same_slot (map_of ?m k) (map_of ?n k)" using all k by (rule bspec)
        ultimately obtain w where "map_of ?n k = Some w" by (auto simp: option_rel_Some1)
        then show "k \<in> fst ` set ?n" by (rule lookup_key)
      qed
      then have keys: "fst ` set ?m = fst ` set ?n" using wf l by (intro wf_key_subset)
      have "same_slot (map_of ?m k) (map_of ?n k)" for k
      proof (cases "k \<in> fst ` set ?m")
        case False
        then have "map_of ?m k = None" "map_of ?n k = None" using keys by (simp_all add: map_of_eq_None_iff)
        then show ?thesis by simp
      qed (use all in blast)
      then show ?thesis using same_slots_iff [OF assms] by blast
    qed
    then show ?thesis using same_length same_Map_lookup by blast
  qed
  finally show ?thesis using same_slots_iff [OF assms] by blast
qed

section \<open>Conflicts of one node\<close>

lemma concat_map_Nil: "concat (map G ks) = [] \<longleftrightarrow> (\<forall>k \<in> set ks. G k = [])"
  by simp

lemma no_slot_conflicts:
  assumes "plain_slots (fn_slots b)" "plain_slots (fn_slots s)" "plain_slots (fn_slots t)"
  shows "findSlotConflicts (Some b) (Some s) (Some t) = []
    \<longleftrightarrow> (\<forall>k. clean_slot (map_of (fn_slots b) k) (map_of (fn_slots s) k) (map_of (fn_slots t) k))"
proof -
  let ?keys = "fst ` set (fn_slots b) \<union> fst ` set (fn_slots s) \<union> fst ` set (fn_slots t)"
  have at: "slot_conflict_at (Some b) (Some s) (Some t) k = []
      \<longleftrightarrow> clean_slot (map_of (fn_slots b) k) (map_of (fn_slots s) k) (map_of (fn_slots t) k)" for k
    by (simp add: slot_conflict_at_def frame_slot_def clean_slot_def deepEqual_slot assms Let_def)
  have "findSlotConflicts (Some b) (Some s) (Some t) = []
    \<longleftrightarrow> (\<forall>k \<in> ?keys. clean_slot (map_of (fn_slots b) k) (map_of (fn_slots s) k) (map_of (fn_slots t) k))"
    unfolding findSlotConflicts_def concat_map_Nil
    by (simp only: at set_js_set) (simp add: frame_slots_def Un_assoc)
  also have "\<dots> \<longleftrightarrow> (\<forall>k. clean_slot (map_of (fn_slots b) k) (map_of (fn_slots s) k) (map_of (fn_slots t) k))"
  proof -
    have out: "clean_slot (map_of (fn_slots b) k) (map_of (fn_slots s) k) (map_of (fn_slots t) k)" if "k \<notin> ?keys" for k
      using that by (simp add: clean_slot_def map_of_eq_None_iff [THEN iffD2])
    show ?thesis
    proof (intro iffI allI)
      fix k assume all: "\<forall>k \<in> ?keys. clean_slot (map_of (fn_slots b) k) (map_of (fn_slots s) k) (map_of (fn_slots t) k)"
      show "clean_slot (map_of (fn_slots b) k) (map_of (fn_slots s) k) (map_of (fn_slots t) k)"
        by (cases "k \<in> ?keys") (rule bspec [OF all], assumption, rule out, assumption)
    qed simp
  qed
  finally show ?thesis .
qed

theorem kept_iff_clean:
  assumes "plain_slots (fn_slots b)" "plain_slots (fn_slots s)" "plain_slots (fn_slots t)"
    and "fn_type s = fn_type b" "fn_type t = fn_type b"
  shows "classify_node (Some b) (Some s) (Some t) = Kept
    \<longleftrightarrow> (\<forall>k. clean_slot (map_of (fn_slots b) k) (map_of (fn_slots s) k) (map_of (fn_slots t) k))"
  using assms same_slot_sym
  by (auto simp: classify_node_def framesEqual_plain no_slot_conflicts Let_def clean_slot_def)

section \<open>The slots of a merged node\<close>

lemma plain_obj_delete: "plain_slots m \<Longrightarrow> plain_slots (obj_delete m k)"
  using wf_map_obj_delete [of m k] unfolding plain_slots_def by (auto simp: obj_delete_def simp del: wf_yvalue.simps)

lemma plain_obj_assign:
  assumes "plain_slots m" "k \<notin> set PROTOTYPE_NAMES" "fits v 0" "wf_yvalue v"
  shows "obj_assign m k v = obj_set m k v" "plain_slots (obj_set m k v)"
proof -
  show "obj_assign m k v = obj_set m k v" using assms(2) proto_inherited by (auto simp: obj_assign_def)
  have "wf_yvalue (YMap (obj_set m k v))"
    using assms(1,4) unfolding plain_slots_def by (blast intro: wf_map_obj_set)
  moreover have "\<forall>(k', v') \<in> set (obj_set m k v). k' \<notin> set PROTOTYPE_NAMES \<and> fits v' 0"
    using entries_obj_set [of m k v] assms(1-3) unfolding plain_slots_def by blast
  ultimately show "plain_slots (obj_set m k v)" by (simp only: plain_slots_def)
qed

lemma put_slot_plain:
  assumes "plain_slots m" "plain_slots n" "map_of n k \<noteq> None \<or> k \<notin> set PROTOTYPE_NAMES"
  shows "\<exists>m'. put_slot m k (js_get n k) = Inr m' \<and> plain_slots m' \<and> map_of m' = (map_of m)(k := map_of n k)"
proof (cases "map_of n k")
  case None
  then have "js_get n k = Undefined" using assms(3) proto_inherited by (auto simp: js_get_def)
  then show ?thesis using None plain_obj_delete [OF assms(1)] by (simp add: put_slot_def)
next
  case (Some v)
  then show ?thesis
    using plain_slot [OF assms(2) Some] plain_obj_assign [OF assms(1), of k v] by (simp add: put_slot_def js_get_own)
qed

definition chosen :: "flat_node \<Rightarrow> flat_node \<Rightarrow> flat_node \<Rightarrow> jstring \<Rightarrow> yvalue option" where
  "chosen b s t k =
     (if \<not> same_slot (map_of (fn_slots s) k) (map_of (fn_slots b) k) then map_of (fn_slots s) k
      else if \<not> same_slot (map_of (fn_slots t) k) (map_of (fn_slots b) k) then map_of (fn_slots t) k
      else map_of (fn_slots b) k)"

lemma merge_slots_plain:
  assumes "plain_slots (fn_slots b)" "plain_slots (fn_slots s)" "plain_slots (fn_slots t)"
    and "\<forall>k \<in> set keys. k \<notin> set PROTOTYPE_NAMES" and "plain_slots m"
    and "\<forall>k. map_of m k = map_of (fn_slots b) k \<or> map_of m k = chosen b s t k"
  shows "\<exists>m'. merge_slots b s t keys m = Inr m' \<and> plain_slots m'
    \<and> (\<forall>k. map_of m' k = (if k \<in> set keys then chosen b s t k else map_of m k))"
  using assms(4-6)
proof (induction keys arbitrary: m)
  case (Cons key keys)
  let ?r = "if \<not> deepEqual (js_get (fn_slots s) key) (js_get (fn_slots b) key) 0 then put_slot m key (js_get (fn_slots s) key)
    else if \<not> deepEqual (js_get (fn_slots t) key) (js_get (fn_slots b) key) 0 then put_slot m key (js_get (fn_slots t) key)
    else Inr m"
  have key: "key \<notin> set PROTOTYPE_NAMES" using Cons.prems(1) by simp
  have "\<exists>m1. ?r = Inr m1 \<and> plain_slots m1 \<and> map_of m1 = (map_of m)(key := chosen b s t key)"
    using put_slot_plain [OF Cons.prems(2) assms(2), of key] put_slot_plain [OF Cons.prems(2) assms(3), of key]
      key Cons.prems(2) Cons.prems(3) [rule_format, of key]
    by (auto simp: deepEqual_slot assms(1-3) chosen_def fun_upd_idem split: if_splits)
  then obtain m1 where m1: "?r = Inr m1" "plain_slots m1" "map_of m1 = (map_of m)(key := chosen b s t key)" by blast
  have "\<exists>m'. merge_slots b s t keys m1 = Inr m' \<and> plain_slots m'
      \<and> (\<forall>k. map_of m' k = (if k \<in> set keys then chosen b s t k else map_of m1 k))"
    using Cons.prems(1,3) m1(3) by (intro Cons.IH m1(2)) auto
  then show ?case using m1 by (auto simp: Let_def)
qed simp

theorem merged_slots:
  assumes "plain_slots (fn_slots b)" "plain_slots (fn_slots s)" "plain_slots (fn_slots t)"
  obtains f where "mergeNonConflicting b s t = Inr f" and "fn_id f = fn_id s" and "plain_slots (fn_slots f)"
    and "fn_type f = (if fn_type t \<noteq> fn_type b \<and> fn_type s = fn_type b then fn_type t else fn_type s)"
    and "\<And>k. map_of (fn_slots f) k = chosen b s t k"
proof -
  let ?keys = "js_set (map fst (fn_slots s) @ map fst (fn_slots t) @ map fst (fn_slots b))"
  have "\<forall>k \<in> set ?keys. k \<notin> set PROTOTYPE_NAMES" using assms by (fastforce simp: plain_slots_def)
  then obtain m where m: "merge_slots b s t ?keys (fn_slots b) = Inr m" "plain_slots m"
    "\<forall>k. map_of m k = (if k \<in> set ?keys then chosen b s t k else map_of (fn_slots b) k)"
    using merge_slots_plain [OF assms _ assms(1)] by blast
  have "chosen b s t k = map_of (fn_slots b) k" if "k \<notin> set ?keys" for k
    using that by (simp add: chosen_def map_of_eq_None_iff [THEN iffD2])
  then have "map_of m k = chosen b s t k" for k using m(3) by simp
  then show thesis
    using m(1,2) that [of "s\<lparr>fn_type := if fn_type t \<noteq> fn_type b \<and> fn_type s = fn_type b then fn_type t else fn_type s,
      fn_slots := m\<rparr>"]
    by (simp add: mergeNonConflicting_def)
qed

lemma chosen_merge3:
  assumes "plain_slots (fn_slots b)" "plain_slots (fn_slots s)" "plain_slots (fn_slots t)"
  shows "same_slot (chosen b s t k) (merge3 (map_of (fn_slots b) k) (map_of (fn_slots s) k) (map_of (fn_slots t) k))"
  using same_slot_refl [OF assms(1), of k] same_slot_refl [OF assms(2), of k] same_slot_refl [OF assms(3), of k] same_slot_sym
  by (auto simp: chosen_def merge3_def)

end
