(* ===== verification/SemanticMergeResult.thy ===== *)
theory SemanticMergeResult
  imports SemanticMergeLaws
begin

text \<open>
  The three-way merge of whole contents. Abstractly a content is a partial map from paths and slot keys to
  values; a merge without conflicts that keeps what either side added is the three-way merge of these
  maps (\<open>merge_is_three_way\<close>), as long as no side adds a node below one that the other side removed.
\<close>

section \<open>A content as a map\<close>

definition content_node :: "semantic_content \<Rightarrow> jstring \<Rightarrow> flat_node option" where
  "content_node c p = map_of (frame_map (flattenTrees (trees c))) p"

definition content_slot :: "semantic_content \<Rightarrow> jstring \<Rightarrow> jstring \<Rightarrow> yvalue option" where
  "content_slot c p k = (case content_node c p of None \<Rightarrow> None | Some f \<Rightarrow> map_of (fn_slots f) k)"

definition plain_content :: "semantic_content \<Rightarrow> bool" where
  "plain_content c \<longleftrightarrow> wf_forest (trees c) \<and> (\<forall>f \<in> set (flattenTrees (trees c)). plain_slots (fn_slots f))"

lemma update_new: "k \<notin> fst ` set m \<Longrightarrow> AList.update k v m = m @ [(k, v)]"
  by (induction m) auto

lemma frame_map_distinct: "distinct (map fn_id F) \<Longrightarrow> frame_map F = map (\<lambda>f. (fn_id f, f)) F"
proof (induction F rule: rev_induct)
  case Nil
  show ?case by (simp add: frame_map_def)
next
  case (snoc f F)
  have "frame_map (F @ [f]) = AList.update (fn_id f) f (frame_map F)" by (simp add: frame_map_def)
  also have "frame_map F = map (\<lambda>f. (fn_id f, f)) F" using snoc by simp
  also have "AList.update (fn_id f) f \<dots> = map (\<lambda>f. (fn_id f, f)) (F @ [f])"
    using snoc.prems by (subst update_new) (auto simp: image_image)
  finally show ?case .
qed

lemma map_of_frames: "distinct (map fn_id F) \<Longrightarrow> map_of (map (\<lambda>f. (fn_id f, f)) F) p = Some f \<longleftrightarrow> f \<in> set F \<and> fn_id f = p"
  by (subst map_of_eq_Some_iff) (auto simp: comp_def)

lemma forest_frames:
  assumes "wf_forest (trees c)"
  shows "distinct (map fn_id (flattenTrees (trees c)))" and "f \<in> set (flattenTrees (trees c)) \<Longrightarrow> named f"
    and "frame_map (flattenTrees (trees c)) = map (\<lambda>f. (fn_id f, f)) (flattenTrees (trees c))"
  using flat_forest_distinct [OF assms] flat_forest_named assms frame_map_distinct
  by (auto simp: flattenTrees_flat wf_forest_def)

lemma content_node_iff:
  "wf_forest (trees c) \<Longrightarrow> content_node c p = Some f \<longleftrightarrow> f \<in> set (flattenTrees (trees c)) \<and> fn_id f = p"
  by (simp add: content_node_def forest_frames map_of_frames)

lemma content_paths:
  "wf_forest (trees c) \<Longrightarrow> p \<in> set (map fst (frame_map (flattenTrees (trees c)))) \<longleftrightarrow> content_node c p \<noteq> None"
  unfolding content_node_def by (simp only: key_lookup_iff not_None_eq)

lemma plain_node:
  assumes "plain_content c" and "content_node c p = Some f"
  shows "fn_id f = p" "named f" "plain_slots (fn_slots f)" "fn_type f = last (segments p)"
proof -
  have wf: "wf_forest (trees c)" using assms(1) by (simp add: plain_content_def)
  have f: "f \<in> set (flattenTrees (trees c))" "fn_id f = p" using assms(2) content_node_iff [OF wf] by auto
  then show "fn_id f = p" "named f" "plain_slots (fn_slots f)" "fn_type f = last (segments p)"
    using assms(1) forest_frames(2) [OF wf f(1)] by (auto simp: plain_content_def named_def)
qed

section \<open>What prepareMerge collects\<close>

abbreviation node_class_at :: "semantic_content \<Rightarrow> semantic_content \<Rightarrow> semantic_content \<Rightarrow> jstring \<Rightarrow> node_class" where
  "node_class_at b s t p \<equiv> classify_node (content_node b p) (content_node s p) (content_node t p)"

definition all_paths :: "semantic_content \<Rightarrow> semantic_content \<Rightarrow> semantic_content \<Rightarrow> jstring list" where
  "all_paths b s t = js_set (map fst (frame_map (flattenTrees (trees b)))
     @ map fst (frame_map (flattenTrees (trees s))) @ map fst (frame_map (flattenTrees (trees t))))"

definition is_conflict :: "node_class \<Rightarrow> bool" where
  "is_conflict c \<longleftrightarrow> (case c of Conflict _ \<Rightarrow> True | _ \<Rightarrow> False)"

lemma prepare_fold:
  fixes B S T defines "class \<equiv> \<lambda>p. classify_node (map_of B p) (map_of S p) (map_of T p)"
  shows "autoKept (foldl (prepare_step B S T) r ps) = autoKept r @ filter (\<lambda>p. class p = Kept) ps"
    and "map cf_path (conflicts (foldl (prepare_step B S T) r ps))
       = map cf_path (conflicts r) @ filter (\<lambda>p. is_conflict (class p)) ps"
    and "onlyInSource (foldl (prepare_step B S T) r ps) = onlyInSource r @ filter (\<lambda>p. class p = SourceOnly) ps"
    and "onlyInTarget (foldl (prepare_step B S T) r ps) = onlyInTarget r @ filter (\<lambda>p. class p = TargetOnly) ps"
    and "relationsOnlyInSource (foldl (prepare_step B S T) r ps) = relationsOnlyInSource r"
    and "relationsOnlyInTarget (foldl (prepare_step B S T) r ps) = relationsOnlyInTarget r"
    and "relationsInBoth (foldl (prepare_step B S T) r ps) = relationsInBoth r"
  unfolding class_def
  by (induction ps arbitrary: r) (auto simp: prepare_step_def is_conflict_def split: node_class.split)

lemma prepared:
  "autoKept (prepareMerge b s t) = filter (\<lambda>p. node_class_at b s t p = Kept) (all_paths b s t)"
  "map cf_path (conflicts (prepareMerge b s t)) = filter (\<lambda>p. is_conflict (node_class_at b s t p)) (all_paths b s t)"
  "onlyInSource (prepareMerge b s t) = filter (\<lambda>p. node_class_at b s t p = SourceOnly) (all_paths b s t)"
  "onlyInTarget (prepareMerge b s t) = filter (\<lambda>p. node_class_at b s t p = TargetOnly) (all_paths b s t)"
  by (simp_all add: prepareMerge_def prepare_fold Let_def all_paths_def content_node_def)

lemma all_paths_iff:
  assumes "wf_forest (trees b)" "wf_forest (trees s)" "wf_forest (trees t)"
  shows "p \<in> set (all_paths b s t) \<longleftrightarrow> content_node b p \<noteq> None \<or> content_node s p \<noteq> None \<or> content_node t p \<noteq> None"
  unfolding all_paths_def set_js_set set_append Un_iff content_paths [OF assms(1)] content_paths [OF assms(2)] content_paths [OF assms(3)]
  ..

section \<open>The frames of a merge without conflicts\<close>

definition merged_path :: "semantic_content \<Rightarrow> semantic_content \<Rightarrow> semantic_content \<Rightarrow> jstring \<Rightarrow> bool" where
  "merged_path b s t p \<longleftrightarrow>
     (if content_node s p = None then content_node t p \<noteq> None \<and> content_node b p = None
      else content_node t p \<noteq> None \<or> content_node b p = None)"

definition merged_slot :: "semantic_content \<Rightarrow> semantic_content \<Rightarrow> semantic_content \<Rightarrow> jstring \<Rightarrow> jstring \<Rightarrow> yvalue option" where
  "merged_slot b s t p k = merge3 (content_slot b p k) (content_slot s p k) (content_slot t p k)"

definition merged_frame :: "semantic_content \<Rightarrow> semantic_content \<Rightarrow> semantic_content \<Rightarrow> jstring \<Rightarrow> flat_node \<Rightarrow> bool" where
  "merged_frame b s t p f \<longleftrightarrow> fn_id f = p \<and> named f \<and> (\<forall>k. same_slot (map_of (fn_slots f) k) (merged_slot b s t p k))"

lemma merged_path_class:
  assumes "\<not> is_conflict (node_class_at b s t p)"
  shows "merged_path b s t p \<longleftrightarrow> node_class_at b s t p \<in> {Kept, SourceOnly, TargetOnly}"
  using assms by (auto simp: merged_path_def classify_node_def is_conflict_def Let_def split: option.splits if_splits)

lemma kept_merged_frame:
  assumes "plain_content b" "plain_content s" "plain_content t" and kept: "node_class_at b s t p = Kept"
  shows "\<exists>f. kept_frame (content_node b p) (content_node s p) (content_node t p) = Inr (Some f) \<and> merged_frame b s t p f"
proof -
  obtain x y where x: "content_node s p = Some x" and y: "content_node t p = Some y"
    using kept by (auto simp: classify_node_def split: option.splits if_splits)
  note px = plain_node [OF assms(2) x] and py = plain_node [OF assms(3) y]
  have sx: "content_slot s p k = map_of (fn_slots x) k" and sy: "content_slot t p k = map_of (fn_slots y) k" for k
    by (simp_all add: content_slot_def x y)
  show ?thesis
  proof (cases "framesEqual x y")
    case True
    then have "same_slot (map_of (fn_slots x) k) (map_of (fn_slots y) k)" for k
      using framesEqual_plain [OF px(3) py(3)] by blast
    then have "merged_frame b s t p x"
      using px same_slot_refl [OF px(3)] by (auto simp: merged_frame_def merged_slot_def merge3_def sx sy)
    then show ?thesis using True by (simp add: kept_frame_def x y)
  next
    case False
    then obtain z where z: "content_node b p = Some z"
      using kept by (auto simp: classify_node_def x y split: option.splits)
    note pz = plain_node [OF assms(1) z]
    have sz: "content_slot b p k = map_of (fn_slots z) k" for k by (simp add: content_slot_def z)
    have slot: "same_slot (chosen z x y k) (merged_slot b s t p k)" for k
      using chosen_merge3 [OF pz(3) px(3) py(3)] by (simp add: merged_slot_def sx sy sz)
    have eq_x: "framesEqual z x \<longleftrightarrow> (\<forall>k. same_slot (map_of (fn_slots z) k) (map_of (fn_slots x) k))"
      and eq_y: "framesEqual z y \<longleftrightarrow> (\<forall>k. same_slot (map_of (fn_slots z) k) (map_of (fn_slots y) k))"
      using framesEqual_plain [OF pz(3) px(3)] framesEqual_plain [OF pz(3) py(3)] px(4) py(4) pz(4) by simp_all
    obtain f where f: "mergeNonConflicting z x y = Inr f" "fn_id f = fn_id x" "plain_slots (fn_slots f)"
      "fn_type f = (if fn_type y \<noteq> fn_type z \<and> fn_type x = fn_type z then fn_type y else fn_type x)"
      "\<And>k. map_of (fn_slots f) k = chosen z x y k"
      using merged_slots [OF pz(3) px(3) py(3)] by blast
    have "merged_frame b s t p f"
      using f(2,4) px py(4) pz(4) slot by (simp add: merged_frame_def named_def f(5))
    moreover have "merged_frame b s t p y" if "framesEqual z x"
    proof -
      have "merge3 (map_of (fn_slots z) k) (map_of (fn_slots x) k) (map_of (fn_slots y) k) = map_of (fn_slots y) k" for k
        using same_slot_sym [OF eq_x [THEN iffD1, OF that, rule_format]] by (simp add: merge3_def)
      then show ?thesis using py same_slot_refl [OF py(3)] by (simp add: merged_frame_def merged_slot_def sx sy sz)
    qed
    moreover have "merged_frame b s t p x" if "framesEqual z y" "\<not> framesEqual z x"
    proof -
      have "same_slot (map_of (fn_slots x) k) (merge3 (map_of (fn_slots z) k) (map_of (fn_slots x) k) (map_of (fn_slots y) k))" for k
        using same_slot_trans [OF _ eq_y [THEN iffD1, OF that(1), rule_format], of "map_of (fn_slots x) k" k]
          same_slot_refl [OF px(3), of k] by (simp add: merge3_def)
      then show ?thesis using px by (simp add: merged_frame_def merged_slot_def sx sy sz)
    qed
    ultimately show ?thesis using False f(1) by (auto simp: kept_frame_def x y z Let_def)
  qed
qed

lemma added_merged_frame:
  assumes "plain_content s" "plain_content t"
  shows "node_class_at b s t p = SourceOnly \<Longrightarrow> \<exists>f. content_node s p = Some f \<and> merged_frame b s t p f"
    and "node_class_at b s t p = TargetOnly \<Longrightarrow> \<exists>f. content_node t p = Some f \<and> merged_frame b s t p f"
proof -
  assume "node_class_at b s t p = SourceOnly"
  then obtain x where x: "content_node s p = Some x" "content_node t p = None" "content_node b p = None"
    by (auto simp: classify_node_def Let_def split: option.splits if_splits)
  then show "\<exists>f. content_node s p = Some f \<and> merged_frame b s t p f"
    using plain_node [OF assms(1) x(1)] same_slot_refl [of "fn_slots x"]
    by (auto simp: merged_frame_def merged_slot_def merge3_def content_slot_def)
next
  assume "node_class_at b s t p = TargetOnly"
  then obtain x where x: "content_node t p = Some x" "content_node s p = None" "content_node b p = None"
    by (auto simp: classify_node_def Let_def split: option.splits if_splits)
  then show "\<exists>f. content_node t p = Some f \<and> merged_frame b s t p f"
    using plain_node [OF assms(2) x(1)] same_slot_refl [of "fn_slots x"]
    by (auto simp: merged_frame_def merged_slot_def merge3_def content_slot_def)
qed

section \<open>Merges without conflicts\<close>

lemma list_all2_map_eq: "list_all2 (\<lambda>p f. p = g f) ps fs \<Longrightarrow> map g fs = ps"
  by (induction ps fs rule: list_all2_induct) simp_all

lemma list_all2_right_mem: "list_all2 P xs ys \<Longrightarrow> y \<in> set ys \<Longrightarrow> \<exists>x \<in> set xs. P x y"
  by (induction xs ys rule: list_all2_induct) auto

lemma traverse_somes:
  "\<forall>x \<in> set xs. \<exists>y. f x = Inr (Some y) \<and> P x y \<Longrightarrow> \<exists>ys. traverse f xs = Inr (map Some ys) \<and> list_all2 P xs ys"
proof (induction xs)
  case (Cons x xs)
  then obtain ys where "traverse f xs = Inr (map Some ys)" "list_all2 P xs ys" by auto
  moreover obtain y where "f x = Inr (Some y)" "P x y" using Cons.prems by auto
  ultimately show ?case by (intro exI [of _ "y # ys"]) simp
qed simp

lemma keep_all:
  assumes "\<forall>p \<in> set only. p \<in> set keep \<and> (\<exists>f. map_of frames p = Some f \<and> P p f)" and "editedPaths st = []"
  shows "\<exists>fs. keep_selected frames only keep st = \<lparr>resultFrames = resultFrames st @ fs, editedPaths = []\<rparr> \<and> list_all2 P only fs"
  using assms
proof (induction only arbitrary: st)
  case Nil
  then show ?case by (cases st) (simp add: keep_selected_def)
next
  case (Cons p only)
  obtain f where f: "map_of frames p = Some f" "P p f" using Cons.prems(1) by auto
  let ?st = "\<lparr>resultFrames = resultFrames st @ [f], editedPaths = []\<rparr>"
  have "push_option st (map_of frames p) = ?st"
    using Cons.prems(2) by (cases st) (simp add: push_option_def pushResolvedFrame_def f)
  then have "keep_selected frames (p # only) keep st = keep_selected frames only keep ?st"
    using Cons.prems(1) by (simp add: keep_selected_def)
  moreover have "\<exists>fs. keep_selected frames only keep ?st = \<lparr>resultFrames = resultFrames ?st @ fs, editedPaths = []\<rparr>
      \<and> list_all2 P only fs"
    using Cons.prems(1) by (intro Cons.IH) simp_all
  ultimately show ?case using f(2) by fastforce
qed

definition closed_paths :: "(jstring \<Rightarrow> bool) \<Rightarrow> bool" where
  "closed_paths P \<longleftrightarrow> (\<forall>p i. P p \<and> 0 < i \<and> i \<le> length (segments p) \<longrightarrow> P (join slash (take i (segments p))))"

lemma rebuild_closed:
  assumes "distinct (map fn_id F)" and "\<forall>f \<in> set F. named f" and "closed_paths (\<lambda>p. p \<in> fn_id ` set F)"
  shows "\<exists>ts. unflattenToTrees F = Inr ts \<and> wf_forest ts \<and> set (flattenTrees ts) = set F"
proof -
  have seg: "has_segs F (take i (segs f))" if "f \<in> set F" "0 < i" "i \<le> length (segs f)" for f i
  proof -
    have "join slash (take i (segs f)) \<in> fn_id ` set F"
      using assms(3) that by (auto simp: closed_paths_def)
    then obtain g where g: "fn_id g = join slash (take i (segs f))" "g \<in> set F" by (auto elim!: imageE)
    have "segments (join slash (take i (segs f))) = take i (segs f)"
      using that(2) by (intro split_join) (auto dest: in_set_takeD split_on_parts)
    then have "segs g = take i (segs f)" by (simp only: g(1))
    then show ?thesis unfolding has_segs_def by (rule bexI) (rule g(2))
  qed
  have "has_segs F [root_segment f]" if "f \<in> set F" for f
    using seg [OF that, of 1] by (cases "segs f") (auto simp: root_segment_def)
  then have "rooted F" by (simp add: rooted_def)
  then obtain ts where "unflattenToTrees F = Inr ts" "wf_forest ts" "set (flattenTrees ts) = {f \<in> set F. grounded F f}"
    using rebuild_grounded [OF assms(1,2)] by blast
  moreover have "{f \<in> set F. grounded F f} = set F" using seg by (auto simp: grounded_def)
  ultimately show ?thesis by blast
qed

theorem merge_three_way:
  assumes plain: "plain_content b" "plain_content s" "plain_content t"
    and clean: "conflicts (prepareMerge b s t) = []"
    and keep: "set (onlyInSource (prepareMerge b s t)) \<subseteq> set (keepFromSource d)"
      "set (onlyInTarget (prepareMerge b s t)) \<subseteq> set (keepFromTarget d)"
    and closed: "closed_paths (merged_path b s t)"
  shows "\<exists>c. executeMerge b s t (prepareMerge b s t) d = Inr c \<and> wf_forest (trees c)
    \<and> (\<forall>p. content_node c p \<noteq> None \<longleftrightarrow> merged_path b s t p)
    \<and> (\<forall>p k. merged_path b s t p \<longrightarrow> same_slot (content_slot c p k) (merged_slot b s t p k))"
proof -
  let ?P = "prepareMerge b s t" and ?ps = "all_paths b s t" and ?R = "merged_frame b s t"
  have wf: "wf_forest (trees b)" "wf_forest (trees s)" "wf_forest (trees t)" using plain by (simp_all add: plain_content_def)
  have "filter (\<lambda>p. is_conflict (node_class_at b s t p)) ?ps = []" using clean prepared(2) [of b s t] by simp
  then have nc: "\<not> is_conflict (node_class_at b s t p)" for p
    using all_paths_iff [OF wf, of p] by (auto simp: filter_empty_conv is_conflict_def classify_node_def)
  have "\<forall>p \<in> set (autoKept ?P). \<exists>f. kept_frame (content_node b p) (content_node s p) (content_node t p) = Inr (Some f) \<and> ?R p f"
    using kept_merged_frame [OF plain] by (simp add: prepared(1))
  from traverse_somes [OF this] obtain fs1 where fs1: "traverse (\<lambda>p. kept_frame (content_node b p) (content_node s p) (content_node t p)) (autoKept ?P)
      = Inr (map Some fs1)" "list_all2 ?R (autoKept ?P) fs1"
    by blast
  let ?st = "\<lparr>resultFrames = fs1, editedPaths = []\<rparr>"
  have "\<forall>p \<in> set (onlyInSource ?P). p \<in> set (keepFromSource d)
      \<and> (\<exists>f. map_of (frame_map (flattenTrees (trees s))) p = Some f \<and> ?R p f)"
    using keep(1) added_merged_frame(1) [OF plain(2,3)] by (auto simp: prepared(3) content_node_def)
  from keep_all [OF this, of ?st] obtain fs2 where fs2:
    "keep_selected (frame_map (flattenTrees (trees s))) (onlyInSource ?P) (keepFromSource d) ?st
      = \<lparr>resultFrames = fs1 @ fs2, editedPaths = []\<rparr>" "list_all2 ?R (onlyInSource ?P) fs2" by auto
  have "\<forall>p \<in> set (onlyInTarget ?P). p \<in> set (keepFromTarget d)
      \<and> (\<exists>f. map_of (frame_map (flattenTrees (trees t))) p = Some f \<and> ?R p f)"
    using keep(2) added_merged_frame(2) [OF plain(2,3)] by (auto simp: prepared(4) content_node_def)
  from keep_all [OF this, of "\<lparr>resultFrames = fs1 @ fs2, editedPaths = []\<rparr>"] obtain fs3 where fs3:
    "keep_selected (frame_map (flattenTrees (trees t))) (onlyInTarget ?P) (keepFromTarget d) \<lparr>resultFrames = fs1 @ fs2, editedPaths = []\<rparr>
      = \<lparr>resultFrames = fs1 @ fs2 @ fs3, editedPaths = []\<rparr>" "list_all2 ?R (onlyInTarget ?P) fs3" by auto
  let ?F = "fs1 @ fs2 @ fs3" and ?qs = "autoKept ?P @ onlyInSource ?P @ onlyInTarget ?P"
  have rel: "list_all2 ?R ?qs ?F" using fs1(2) fs2(2) fs3(2) by (intro list_all2_appendI)
  then have "list_all2 (\<lambda>p f. p = fn_id f) ?qs ?F" by (rule list_all2_mono) (simp add: merged_frame_def)
  then have ids: "map fn_id ?F = ?qs" by (rule list_all2_map_eq)
  have dq: "distinct ?qs" by (auto simp: prepared all_paths_def)
  have path: "p \<in> set ?qs \<longleftrightarrow> merged_path b s t p" for p
  proof -
    have "p \<in> set ?ps" if "merged_path b s t p" using that all_paths_iff [OF wf] by (auto simp: merged_path_def split: if_splits)
    then show ?thesis using merged_path_class [OF nc, of p] by (auto simp: prepared)
  qed
  have frame: "?R (fn_id f) f" if f: "f \<in> set ?F" for f
  proof -
    obtain p where "?R p f" using list_all2_right_mem [OF rel f] by blast
    then show ?thesis by (simp add: merged_frame_def)
  qed
  have dF: "distinct (map fn_id ?F)" using dq by (simp only: ids)
  have "fn_id ` set ?F = set ?qs" by (simp only: ids [symmetric] set_map)
  then have at: "p \<in> fn_id ` set ?F \<longleftrightarrow> merged_path b s t p" for p using path by simp
  have "\<forall>f \<in> set ?F. named f" using frame by (simp add: merged_frame_def)
  moreover have "closed_paths (\<lambda>p. p \<in> fn_id ` set ?F)" using closed by (simp only: at)
  ultimately obtain ts where ts: "unflattenToTrees ?F = Inr ts" "wf_forest ts" "set (flattenTrees ts) = set ?F"
    using rebuild_closed [OF dF] by blast
  obtain c where c: "executeMerge b s t ?P d = Inr c" "trees c = ts"
    using fs1(1) fs2(1) fs3(1) ts(1)
    by (simp add: executeMerge_def clean Let_def content_node_def List.map_filter_def comp_def)
  have node: "content_node c p = Some f \<longleftrightarrow> f \<in> set ?F \<and> fn_id f = p" for p f
    using content_node_iff [of c] ts c(2) by simp
  have present: "content_node c p \<noteq> None \<longleftrightarrow> merged_path b s t p" for p
    using at [of p] node [of p] by (metis (no_types, lifting) imageE imageI option.exhaust option.distinct(1))
  have "same_slot (content_slot c p k) (merged_slot b s t p k)" if "merged_path b s t p" for p k
  proof -
    obtain f where f: "content_node c p = Some f" using present [of p] \<open>merged_path b s t p\<close> by blast
    then show ?thesis using frame [of f] node [of p f] by (simp add: content_slot_def merged_frame_def)
  qed
  with c ts(2) present show ?thesis by auto
qed

section \<open>Merges with an unchanged side\<close>

lemma flatten_closed:
  "wf_tree t \<Longrightarrow> good_path ps \<Longrightarrow> f \<in> set (flattenNode t (join slash ps)) \<Longrightarrow> length ps < i \<Longrightarrow>
     i \<le> length (segs f) \<Longrightarrow> has_segs (flattenNode t (join slash ps)) (take i (segs f))"
proof (induction t arbitrary: ps f i rule: wf_tree.induct)
  case (1 key slots children)
  let ?t = "TreeNode key slots children" and ?ps = "ps @ [key]"
  have good: "good_path ?ps" using "1.prems"(1,2) by simp
  have flat: "flattenNode ?t (join slash ps) = top_node ps ?t
      # concat (map (\<lambda>c. flattenNode c (join slash ?ps)) children)"
    using flattenNode_top [OF "1.prems"(2), of ?t] by simp
  have top: "segs (top_node ps ?t) = ?ps" using segs_top [OF "1.prems"(1,2)] by simp
  obtain qs where f: "segs f = ?ps @ qs" using flatten_prefix [OF "1.prems"(1-3)] by auto
  show ?case
  proof (cases "i = Suc (length ps)")
    case True
    then have "take i (segs f) = segs (top_node ps ?t)" by (simp add: f top)
    then show ?thesis by (auto simp: flat has_segs_def)
  next
    case False
    then have i: "length ?ps < i" using "1.prems"(4) by simp
    then have "f \<noteq> top_node ps ?t" using "1.prems"(5) top by auto
    then obtain c where c: "c \<in> set children" "f \<in> set (flattenNode c (join slash ?ps))"
      using "1.prems"(3) by (auto simp: flat)
    have "wf_tree c" using "1.prems"(1) c(1) by (simp add: list_all_iff)
    then have "has_segs (flattenNode c (join slash ?ps)) (take i (segs f))"
      using "1.IH" [OF c(1) _ good c(2) i "1.prems"(5)] by blast
    then show ?thesis using c(1) by (auto simp: flat has_segs_def)
  qed
qed

lemma content_closed: "plain_content c \<Longrightarrow> closed_paths (\<lambda>p. content_node c p \<noteq> None)"
  unfolding closed_paths_def
proof (intro allI impI, elim conjE)
  fix p i assume c: "plain_content c" and p: "content_node c p \<noteq> None" and i: "0 < i" "i \<le> length (segments p)"
  have wf: "wf_forest (trees c)" using c by (simp add: plain_content_def)
  obtain f where f: "f \<in> set (flattenTrees (trees c))" "fn_id f = p" using p content_node_iff [OF wf] by auto
  then obtain t where t: "t \<in> set (trees c)" "f \<in> set (flattenNode t (join slash []))"
    unfolding flattenTrees_flat by auto
  have "wf_tree t" using wf t(1) by (simp add: wf_forest_def list_all_iff)
  then have "has_segs (flattenNode t (join slash [])) (take i (segs f))"
    using flatten_closed [OF _ _ t(2)] i f(2) by simp
  then obtain g where g: "g \<in> set (flattenNode t (join slash []))" "segs g = take i (segments p)"
    using f(2) by (auto simp: has_segs_def)
  have "fn_id g = join slash (take i (segments p))" using g(2) by (metis join_split_on)
  moreover have "g \<in> set (flattenTrees (trees c))" using g(1) t(1) by (auto simp: flattenTrees_flat)
  ultimately show "content_node c (join slash (take i (segments p))) \<noteq> None"
    using content_node_iff [OF wf] by auto
qed

lemma framesEqual_refl: "plain_slots (fn_slots f) \<Longrightarrow> framesEqual f f"
  using framesEqual_plain same_slot_refl by blast

lemma unchanged_side:
  assumes "plain_content b" and "plain_content t"
  shows "\<not> is_conflict (node_class_at b b t p)" "\<not> is_conflict (node_class_at b t b p)"
    and "merged_path b b t p \<longleftrightarrow> content_node t p \<noteq> None" "merged_path b t b p \<longleftrightarrow> content_node t p \<noteq> None"
    and "same_slot (merged_slot b b t p k) (content_slot t p k)" "same_slot (merged_slot b t b p k) (content_slot t p k)"
proof -
  have refl: "framesEqual f f" if "content_node b p = Some f" for f
    using framesEqual_refl plain_node(3) [OF assms(1) that] .
  then show "\<not> is_conflict (node_class_at b b t p)" "\<not> is_conflict (node_class_at b t b p)"
    by (auto simp: classify_node_def is_conflict_def Let_def split: option.splits)
  show "merged_path b b t p \<longleftrightarrow> content_node t p \<noteq> None" "merged_path b t b p \<longleftrightarrow> content_node t p \<noteq> None"
    by (auto simp: merged_path_def)
  have slot: "same_slot (content_slot c p k) (content_slot c p k)" if "plain_content c" for c
    using plain_node(3) [OF that] same_slot_refl by (auto simp: content_slot_def split: option.split)
  show "same_slot (merged_slot b b t p k) (content_slot t p k)"
    using slot [OF assms(1)] slot [OF assms(2)] by (simp add: merged_slot_def merge3_def)
  show "same_slot (merged_slot b t b p k) (content_slot t p k)"
    using slot [OF assms(2)] same_slot_sym by (auto simp: merged_slot_def merge3_def)
qed

lemma no_conflicts:
  assumes "\<And>p. \<not> is_conflict (node_class_at b s t p)" shows "conflicts (prepareMerge b s t) = []"
proof -
  have "map cf_path (conflicts (prepareMerge b s t)) = []" using assms by (simp add: prepared(2))
  then show ?thesis by simp
qed

lemma merge_unchanged:
  assumes plain: "plain_content b" "plain_content t" and s: "s = b \<and> t' = t \<or> s = t \<and> t' = b"
    and keep: "set (onlyInSource (prepareMerge b s t')) \<subseteq> set (keepFromSource d)"
      "set (onlyInTarget (prepareMerge b s t')) \<subseteq> set (keepFromTarget d)"
  shows "\<exists>c. executeMerge b s t' (prepareMerge b s t') d = Inr c \<and> wf_forest (trees c)
    \<and> (\<forall>p. content_node c p \<noteq> None \<longleftrightarrow> content_node t p \<noteq> None)
    \<and> (\<forall>p k. same_slot (content_slot c p k) (content_slot t p k))"
proof -
  note u = unchanged_side [OF plain]
  have plains: "plain_content s" "plain_content t'" using plain s by auto
  have nc: "conflicts (prepareMerge b s t') = []" using s u(1,2) by (intro no_conflicts) auto
  have path: "merged_path b s t' p \<longleftrightarrow> content_node t p \<noteq> None" for p using s u(3,4) by blast
  have slot: "same_slot (merged_slot b s t' p k) (content_slot t p k)" for p k using s u(5,6) by blast
  have "merged_path b s t' = (\<lambda>p. content_node t p \<noteq> None)" by (rule ext) (rule path)
  then have closed: "closed_paths (merged_path b s t')" using content_closed [OF plain(2)] by simp
  obtain c where c: "executeMerge b s t' (prepareMerge b s t') d = Inr c" "wf_forest (trees c)"
    "\<forall>p. content_node c p \<noteq> None \<longleftrightarrow> merged_path b s t' p"
    "\<forall>p k. merged_path b s t' p \<longrightarrow> same_slot (content_slot c p k) (merged_slot b s t' p k)"
    using merge_three_way [OF plain(1) plains nc keep closed] by blast
  have "same_slot (content_slot c p k) (content_slot t p k)" for p k
  proof (cases "content_node t p = None")
    case True
    then have "content_node c p = None" using c(3) path by blast
    then show ?thesis using True by (simp add: content_slot_def)
  next
    case False
    then show ?thesis using c(4) path slot same_slot_trans by blast
  qed
  then show ?thesis using c path by auto
qed

end
