(* ===== verification/SemanticDiff.thy ===== *)
theory SemanticDiff
  imports SemanticMergeResult
begin

text \<open>
  packages/core/src/semantic/diff.ts: the difference of two semantic contents. The function that marks the
  changed words of two strings is the argument \<open>wordDiffFn\<close>, \<open>None\<close> when the caller gives none. On slots that
  the bounded equality can compare, the difference is a patch: applied to the source it gives the target.
\<close>

section \<open>diffSlots\<close>

datatype diff_type = DiffAdded | DiffRemoved | DiffChanged

record 'w slot_diff =
  sd_key :: jstring
  sd_type :: diff_type
  oldValue :: js_ref
  newValue :: js_ref
  wordDiff :: "'w option"

definition WORD_DIFF_THRESHOLD :: nat where
  "WORD_DIFF_THRESHOLD = 5"

text \<open>The number of pieces of a string split at runs of white space, one more than there are runs.\<close>

fun space_runs :: "bool \<Rightarrow> jstring \<Rightarrow> nat" where
  "space_runs inside [] = 0"
| "space_runs inside (c # s) =
     (if is_js_space c then (if inside then 0 else 1) + space_runs True s else space_runs False s)"

definition word_count :: "jstring \<Rightarrow> nat" where
  "word_count s = Suc (space_runs False s)"

definition word_diff :: "(jstring \<Rightarrow> jstring \<Rightarrow> 'w) option \<Rightarrow> js_ref \<Rightarrow> js_ref \<Rightarrow> 'w option" where
  "word_diff wordDiffFn a b = (case (wordDiffFn, a, b) of
       (Some f, Val (YStr s), Val (YStr t)) \<Rightarrow> if WORD_DIFF_THRESHOLD \<le> word_count s then Some (f s t) else None
     | _ \<Rightarrow> None)"

definition diff_slot :: "(jstring \<Rightarrow> jstring \<Rightarrow> 'w) option \<Rightarrow> yvalue jobject \<Rightarrow> yvalue jobject \<Rightarrow> jstring \<Rightarrow> 'w slot_diff list" where
  "diff_slot wordDiffFn source target key =
     (let hasSource = js_in key source; hasTarget = js_in key target;
          a = js_get source key; b = js_get target key in
      if hasSource \<and> \<not> hasTarget
      then [\<lparr>sd_key = key, sd_type = DiffRemoved, oldValue = a, newValue = Undefined, wordDiff = None\<rparr>]
      else if \<not> hasSource \<and> hasTarget
      then [\<lparr>sd_key = key, sd_type = DiffAdded, oldValue = Undefined, newValue = b, wordDiff = None\<rparr>]
      else if hasSource \<and> hasTarget \<and> \<not> deepEqual a b 0
      then [\<lparr>sd_key = key, sd_type = DiffChanged, oldValue = a, newValue = b, wordDiff = word_diff wordDiffFn a b\<rparr>]
      else [])"

definition diffSlots :: "(jstring \<Rightarrow> jstring \<Rightarrow> 'w) option \<Rightarrow> yvalue jobject \<Rightarrow> yvalue jobject \<Rightarrow> 'w slot_diff list" where
  "diffSlots wordDiffFn source target =
     concat (map (diff_slot wordDiffFn source target) (js_set (map fst source @ map fst target)))"

section \<open>diffCommits\<close>

record 'w tree_diff =
  identical :: "jstring list"
  modified :: "(jstring \<times> 'w slot_diff list) list"
  diffOnlyInSource :: "jstring list"
  diffOnlyInTarget :: "jstring list"
  relationsAdded :: "relation list"
  relationsRemoved :: "relation list"

definition diff_step :: "(jstring \<Rightarrow> jstring \<Rightarrow> 'w) option \<Rightarrow> (jstring \<times> flat_node) list \<Rightarrow> 'w tree_diff \<Rightarrow>
    jstring \<times> flat_node \<Rightarrow> 'w tree_diff" where
  "diff_step wordDiffFn targetMap d entry =
     (case entry of (path, srcFrame) \<Rightarrow>
        (case map_of targetMap path of
           None \<Rightarrow> d\<lparr>diffOnlyInSource := diffOnlyInSource d @ [path]\<rparr>
         | Some tgtFrame \<Rightarrow>
             (let slotDiffs = diffSlots wordDiffFn (fn_slots srcFrame) (fn_slots tgtFrame) in
              if slotDiffs = [] \<and> fn_type srcFrame = fn_type tgtFrame
              then d\<lparr>identical := identical d @ [path]\<rparr>
              else d\<lparr>modified := modified d @ [(path, slotDiffs)]\<rparr>)))"

definition diffCommits :: "(jstring \<Rightarrow> jstring \<Rightarrow> 'w) option \<Rightarrow> semantic_content \<Rightarrow> semantic_content \<Rightarrow> 'w tree_diff" where
  "diffCommits wordDiffFn source target =
     (let sourceMap = frame_map (flattenTrees (trees source));
          targetMap = frame_map (flattenTrees (trees target));
          srcRelKeys = map relKey (relations source);
          tgtRelKeys = map relKey (relations target);
          start = \<lparr>identical = [], modified = [], diffOnlyInSource = [], diffOnlyInTarget = [],
                   relationsAdded = filter (\<lambda>r. relKey r \<notin> set srcRelKeys) (relations target),
                   relationsRemoved = filter (\<lambda>r. relKey r \<notin> set tgtRelKeys) (relations source)\<rparr>;
          d = foldl (diff_step wordDiffFn targetMap) start sourceMap
      in d\<lparr>diffOnlyInTarget := filter (\<lambda>path. map_of sourceMap path = None) (map fst targetMap)\<rparr>)"

section \<open>The difference of slots as a patch\<close>

definition patch_slot :: "yvalue jobject \<Rightarrow> 'w slot_diff \<Rightarrow> yvalue jobject" where
  "patch_slot m d = (case newValue d of Val v \<Rightarrow> obj_set m (sd_key d) v | _ \<Rightarrow> obj_delete m (sd_key d))"

definition patch_slots :: "yvalue jobject \<Rightarrow> 'w slot_diff list \<Rightarrow> yvalue jobject" where
  "patch_slots m ds = foldl patch_slot m ds"

lemma plain_in: "plain_slots m \<Longrightarrow> k \<notin> set PROTOTYPE_NAMES \<Longrightarrow> js_in k m \<longleftrightarrow> map_of m k \<noteq> None"
  by (simp add: js_in_def has_own_def)

lemma plain_js_get: "k \<notin> set PROTOTYPE_NAMES \<Longrightarrow> js_get m k = (case map_of m k of None \<Rightarrow> Undefined | Some v \<Rightarrow> Val v)"
  using proto_inherited by (auto simp: js_get_def split: option.split)

lemma diff_slot_plain:
  assumes "plain_slots m" "plain_slots n" "k \<notin> set PROTOTYPE_NAMES"
  shows "diff_slot w m n k = [] \<longleftrightarrow> same_slot (map_of m k) (map_of n k)"
    and "d \<in> set (diff_slot w m n k) \<Longrightarrow> sd_key d = k \<and> newValue d = js_get n k"
  using deepEqual_slot [OF assms(1,2), of k] plain_js_get [OF assms(3)]
  by (cases "map_of m k"; cases "map_of n k"; auto simp: diff_slot_def plain_in assms Let_def split: if_splits)+

lemma diff_slot_length: "diff_slot w m n k = [] \<or> (\<exists>d. diff_slot w m n k = [d])"
  by (auto simp: diff_slot_def Let_def)

lemma plain_slot_keys: "plain_slots m \<Longrightarrow> plain_slots n \<Longrightarrow> k \<in> set (js_set (map fst m @ map fst n)) \<Longrightarrow> k \<notin> set PROTOTYPE_NAMES"
  by (fastforce simp: plain_slots_def)

lemma absent_key: "k \<notin> set (js_set (map fst m @ map fst n)) \<Longrightarrow> map_of m k = None \<and> map_of n k = None"
  by (simp add: map_of_eq_None_iff)

lemma diffSlots_empty:
  assumes "plain_slots m" "plain_slots n"
  shows "diffSlots w m n = [] \<longleftrightarrow> (\<forall>k. same_slot (map_of m k) (map_of n k))"
proof -
  have "diffSlots w m n = [] \<longleftrightarrow> (\<forall>k \<in> set (js_set (map fst m @ map fst n)). same_slot (map_of m k) (map_of n k))"
    unfolding diffSlots_def concat_map_Nil
    using diff_slot_plain(1) [OF assms] plain_slot_keys [OF assms] by (intro ball_cong refl) blast
  also have "\<dots> \<longleftrightarrow> (\<forall>k. same_slot (map_of m k) (map_of n k))"
    using absent_key by (metis option.rel_inject(1))
  finally show ?thesis .
qed

lemma patch_slot_plain:
  "newValue d = js_get n (sd_key d) \<Longrightarrow> sd_key d \<notin> set PROTOTYPE_NAMES \<Longrightarrow>
     map_of (patch_slot m d) = (map_of m)(sd_key d := map_of n (sd_key d))"
  by (simp add: patch_slot_def plain_js_get split: option.split)

lemma patch_keys:
  assumes "plain_slots m" "plain_slots n"
  shows "\<forall>k \<in> set ks. k \<notin> set PROTOTYPE_NAMES \<Longrightarrow> distinct ks \<Longrightarrow>
    map_of (patch_slots x (concat (map (diff_slot w m n) ks))) k
      = (if k \<in> set ks \<and> \<not> same_slot (map_of m k) (map_of n k) then map_of n k else map_of x k)"
proof (induction ks arbitrary: x)
  case Nil
  show ?case by (simp add: patch_slots_def)
next
  case (Cons key ks)
  have key: "key \<notin> set PROTOTYPE_NAMES" using Cons.prems(1) by simp
  let ?x = "patch_slots x (diff_slot w m n key)"
  have x: "map_of ?x = (if same_slot (map_of m key) (map_of n key) then map_of x else (map_of x)(key := map_of n key))"
  proof (cases "diff_slot w m n key = []")
    case True
    then show ?thesis using diff_slot_plain(1) [OF assms key, of w] by (simp add: patch_slots_def)
  next
    case False
    then obtain d where d: "diff_slot w m n key = [d]" using diff_slot_length [of w m n key] by blast
    then have "sd_key d = key" "newValue d = js_get n key" using diff_slot_plain(2) [OF assms key, of d w] by auto
    then have "map_of (patch_slot x d) = (map_of x)(key := map_of n key)" using patch_slot_plain [of d n x] key by simp
    then show ?thesis using False d diff_slot_plain(1) [OF assms key, of w] by (simp add: patch_slots_def)
  qed
  have "patch_slots x (concat (map (diff_slot w m n) (key # ks))) = patch_slots ?x (concat (map (diff_slot w m n) ks))"
    by (simp add: patch_slots_def)
  then show ?case using Cons.IH [of ?x] Cons.prems x by auto
qed

theorem diff_patches:
  assumes "plain_slots m" "plain_slots n"
  shows "same_slot (map_of (patch_slots m (diffSlots w m n)) k) (map_of n k)"
proof -
  let ?ks = "js_set (map fst m @ map fst n)"
  have "map_of (patch_slots m (diffSlots w m n)) k
      = (if k \<in> set ?ks \<and> \<not> same_slot (map_of m k) (map_of n k) then map_of n k else map_of m k)"
    unfolding diffSlots_def using plain_slot_keys [OF assms] by (intro patch_keys assms) simp_all
  moreover have "same_slot (map_of n k) (map_of n k)" using same_slot_refl [OF assms(2)] .
  moreover have "map_of m k = None \<and> map_of n k = None" if "k \<notin> set ?ks" using absent_key [OF that] .
  ultimately show ?thesis by auto
qed

section \<open>The classes of diffCommits\<close>

lemma diff_fold:
  "set (identical (foldl (diff_step w T) d es)) = set (identical d)
     \<union> {p. \<exists>x y. (p, x) \<in> set es \<and> map_of T p = Some y \<and> diffSlots w (fn_slots x) (fn_slots y) = [] \<and> fn_type x = fn_type y}"
  "set (modified (foldl (diff_step w T) d es)) = set (modified d)
     \<union> {(p, ds). \<exists>x y. (p, x) \<in> set es \<and> map_of T p = Some y \<and> ds = diffSlots w (fn_slots x) (fn_slots y)
          \<and> \<not> (ds = [] \<and> fn_type x = fn_type y)}"
  "set (diffOnlyInSource (foldl (diff_step w T) d es)) = set (diffOnlyInSource d)
     \<union> {p. p \<in> fst ` set es \<and> map_of T p = None}"
proof (induction es arbitrary: d)
  case (Cons e es)
  obtain p x where e: "e = (p, x)" by fastforce
  case 1
  show ?case unfolding foldl.simps Cons.IH(1) by (auto simp: e diff_step_def Let_def split: option.splits)
  case 2
  show ?case unfolding foldl.simps Cons.IH(2) by (auto simp: e diff_step_def Let_def split: option.splits)
  case 3
  show ?case unfolding foldl.simps Cons.IH(3) by (auto simp: e diff_step_def Let_def split: option.splits)
qed simp_all

lemma frame_entry:
  "plain_content c \<Longrightarrow> (p, x) \<in> set (frame_map (flattenTrees (trees c))) \<longleftrightarrow> content_node c p = Some x"
  using content_node_iff [of c p x] by (auto simp: plain_content_def forest_frames(3))

lemma same_frames:
  assumes "plain_content s" "plain_content t" "content_node s p = Some x" "content_node t p = Some y"
  shows "diffSlots w (fn_slots x) (fn_slots y) = [] \<and> fn_type x = fn_type y
    \<longleftrightarrow> (\<forall>k. same_slot (content_slot s p k) (content_slot t p k))"
  using plain_node [OF assms(1,3)] plain_node [OF assms(2,4)]
  by (simp add: diffSlots_empty content_slot_def assms(3,4))

lemma diff_classes:
  assumes "plain_content s" "plain_content t"
  shows "p \<in> set (identical (diffCommits w s t)) \<longleftrightarrow> content_node s p \<noteq> None \<and> content_node t p \<noteq> None
      \<and> (\<forall>k. same_slot (content_slot s p k) (content_slot t p k))"
    and "(p, ds) \<in> set (modified (diffCommits w s t)) \<longleftrightarrow> (\<exists>x y. content_node s p = Some x \<and> content_node t p = Some y
      \<and> ds = diffSlots w (fn_slots x) (fn_slots y)) \<and> \<not> (\<forall>k. same_slot (content_slot s p k) (content_slot t p k))"
    and "p \<in> set (diffOnlyInSource (diffCommits w s t)) \<longleftrightarrow> content_node s p \<noteq> None \<and> content_node t p = None"
    and "p \<in> set (diffOnlyInTarget (diffCommits w s t)) \<longleftrightarrow> content_node s p = None \<and> content_node t p \<noteq> None"
proof -
  have wf: "wf_forest (trees s)" "wf_forest (trees t)" using assms(1,2) by (simp_all add: plain_content_def)
  note entry = frame_entry [OF assms(1)] and look = content_node_def [of t, symmetric]
  show "p \<in> set (identical (diffCommits w s t)) \<longleftrightarrow> content_node s p \<noteq> None \<and> content_node t p \<noteq> None
      \<and> (\<forall>k. same_slot (content_slot s p k) (content_slot t p k))"
    unfolding diffCommits_def Let_def
    by (simp add: diff_fold(1) entry look del: not_None_eq) (use same_frames [OF assms(1,2)] in blast)
  show "(p, ds) \<in> set (modified (diffCommits w s t)) \<longleftrightarrow> (\<exists>x y. content_node s p = Some x \<and> content_node t p = Some y
      \<and> ds = diffSlots w (fn_slots x) (fn_slots y)) \<and> \<not> (\<forall>k. same_slot (content_slot s p k) (content_slot t p k))"
    unfolding diffCommits_def Let_def
    by (simp add: diff_fold(2) entry look) (use same_frames [OF assms(1,2)] in blast)
  have keys: "p \<in> fst ` set (frame_map (flattenTrees (trees c))) \<longleftrightarrow> content_node c p \<noteq> None" if "wf_forest (trees c)" for c
    using content_paths [OF that] by (simp only: set_map)
  show "p \<in> set (diffOnlyInSource (diffCommits w s t)) \<longleftrightarrow> content_node s p \<noteq> None \<and> content_node t p = None"
    unfolding diffCommits_def Let_def by (simp add: diff_fold(3) look keys [OF wf(1)])
  show "p \<in> set (diffOnlyInTarget (diffCommits w s t)) \<longleftrightarrow> content_node s p = None \<and> content_node t p \<noteq> None"
    unfolding diffCommits_def Let_def using keys [OF wf(2)] by (auto simp: content_node_def [of s])
qed

end
