(* ===== verification/SemanticProperties.thy ===== *)
theory SemanticProperties
  imports SemanticDiff
begin

text \<open>
  The properties of the semantic trees, their merge and their difference, with witnesses on a tree of one
  node that the source changes and the target extends; and merges whose result differs from what the
  decisions ask for.
\<close>

section \<open>Sample contents\<close>

definition sample_node :: "string \<Rightarrow> (jstring \<times> yvalue) list \<Rightarrow> tree_node list \<Rightarrow> tree_node" where
  "sample_node k slots cs = TreeNode (u k) slots cs"

definition sample_content :: "tree_node list \<Rightarrow> semantic_content" where
  "sample_content ts = \<lparr>trees = ts, relations = []\<rparr>"

definition sample_base :: semantic_content where
  "sample_base = sample_content [sample_node ''a'' [(u ''x'', YBool False)] []]"

definition sample_source :: semantic_content where
  "sample_source = sample_content [sample_node ''a'' [(u ''x'', YBool True)] []]"

definition sample_target :: semantic_content where
  "sample_target = sample_content
     [sample_node ''a'' [(u ''x'', YBool False), (u ''y'', YBool True)] [sample_node ''b'' [] []]]"

definition keep_everything :: "semantic_content \<Rightarrow> semantic_content \<Rightarrow> semantic_content \<Rightarrow> merge_decision" where
  "keep_everything b s t = \<lparr>conflictResolutions = [], keepFromSource = onlyInSource (prepareMerge b s t),
     keepFromTarget = onlyInTarget (prepareMerge b s t), keepRelationsFromSource = True, keepRelationsFromTarget = True\<rparr>"

lemmas sample_defs = sample_base_def sample_source_def sample_target_def sample_content_def sample_node_def

lemma plain_slots_letters:
  "plain_slots []" "plain_slots [(u ''x'', YBool b)]" "plain_slots [(u ''x'', YBool b), (u ''y'', YBool c)]"
proof -
  have index: "array_index (u ''x'') = None" "array_index (u ''y'') = None" by (rule alpha_index; simp add: is_digit_cu)+
  have "u ''x'' \<notin> set PROTOTYPE_NAMES" "u ''y'' \<notin> set PROTOTYPE_NAMES" by (simp_all add: PROTOTYPE_NAMES_def)
  then show "plain_slots []" "plain_slots [(u ''x'', YBool b)]" "plain_slots [(u ''x'', YBool b), (u ''y'', YBool c)]"
    by (simp_all add: plain_slots_def wf_keys_def key_before_def index MAX_DEPTH_def)
qed

lemma flatten_sample:
  "flattenTrees (trees sample_base) = [\<lparr>fn_id = u ''a'', fn_type = u ''a'', fn_slots = [(u ''x'', YBool False)]\<rparr>]"
  "flattenTrees (trees sample_source) = [\<lparr>fn_id = u ''a'', fn_type = u ''a'', fn_slots = [(u ''x'', YBool True)]\<rparr>]"
  "flattenTrees (trees sample_target) =
     [\<lparr>fn_id = u ''a'', fn_type = u ''a'', fn_slots = [(u ''x'', YBool False), (u ''y'', YBool True)]\<rparr>,
      \<lparr>fn_id = u ''a/b'', fn_type = u ''b'', fn_slots = []\<rparr>]"
  by (simp_all add: sample_defs flattenTrees_def flattenNode.simps u_def Let_def)

lemma sample_plain: "plain_content sample_base" "plain_content sample_source" "plain_content sample_target"
proof -
  have "slash \<notin> set (u ''a'')" "slash \<notin> set (u ''b'')" by (simp_all add: u_def)
  then have "wf_forest (trees sample_base)" "wf_forest (trees sample_source)" "wf_forest (trees sample_target)"
    by (simp_all add: sample_defs wf_forest_def)
  then show "plain_content sample_base" "plain_content sample_source" "plain_content sample_target"
    by (simp_all add: plain_content_def flatten_sample plain_slots_letters)
qed

lemma sample_nodes:
  "content_node sample_base p = (if p = u ''a'' then Some \<lparr>fn_id = u ''a'', fn_type = u ''a'', fn_slots = [(u ''x'', YBool False)]\<rparr> else None)"
  "content_node sample_source p = (if p = u ''a'' then Some \<lparr>fn_id = u ''a'', fn_type = u ''a'', fn_slots = [(u ''x'', YBool True)]\<rparr> else None)"
  "content_node sample_target p =
     (if p = u ''a'' then Some \<lparr>fn_id = u ''a'', fn_type = u ''a'', fn_slots = [(u ''x'', YBool False), (u ''y'', YBool True)]\<rparr>
      else if p = u ''a/b'' then Some \<lparr>fn_id = u ''a/b'', fn_type = u ''b'', fn_slots = []\<rparr> else None)"
  by (simp_all add: content_node_def frame_map_def flatten_sample)

lemma sample_conflicts: "\<not> is_conflict (node_class_at sample_base sample_source sample_target p)"
proof (cases "p = u ''a''")
  case True
  have "classify_node (content_node sample_base p) (content_node sample_source p) (content_node sample_target p) = Kept"
    unfolding True sample_nodes using plain_slots_letters
    by (simp add: kept_iff_clean clean_slot_def)
  then show ?thesis by (simp add: is_conflict_def)
qed (simp add: sample_nodes classify_node_def is_conflict_def)

lemma sample_paths: "merged_path sample_base sample_source sample_target = (\<lambda>p. content_node sample_target p \<noteq> None)"
  by (rule ext) (simp add: merged_path_def sample_nodes)

section \<open>Properties\<close>

text \<open>C5: executeMerge after a prepareMerge without conflicts, with every added node kept, is the three-way
  merge of the contents as maps from paths and slot keys to values: the nodes are those of both sides and
  those that one side added, each slot is the target's where the source did not change it and the source's
  otherwise, and the result is a well-formed forest. The slots are within the depth bound of deepEqual
  and under no inherited name, and no side adds a node below one that the other removed.\<close>
theorem merge_is_three_way:
  assumes "plain_content b" and "plain_content s" and "plain_content t"
    and "conflicts (prepareMerge b s t) = []"
    and "set (onlyInSource (prepareMerge b s t)) \<subseteq> set (keepFromSource d)"
    and "set (onlyInTarget (prepareMerge b s t)) \<subseteq> set (keepFromTarget d)"
    and "closed_paths (merged_path b s t)"
  shows "\<exists>c. executeMerge b s t (prepareMerge b s t) d = Inr c \<and> wf_forest (trees c)
    \<and> (\<forall>p. content_node c p \<noteq> None \<longleftrightarrow> merged_path b s t p)
    \<and> (\<forall>p k. merged_path b s t p \<longrightarrow> same_slot (content_slot c p k) (merged_slot b s t p k))"
  using merge_three_way [OF assms] .

theorem merge_is_three_way_witness:
  "\<exists>c. executeMerge sample_base sample_source sample_target (prepareMerge sample_base sample_source sample_target)
         (keep_everything sample_base sample_source sample_target) = Inr c
     \<and> content_slot c (u ''a'') (u ''x'') = Some (YBool True) \<and> content_slot c (u ''a'') (u ''y'') = Some (YBool True)"
proof -
  let ?b = sample_base and ?s = sample_source and ?t = sample_target
  have closed: "closed_paths (merged_path ?b ?s ?t)"
    using content_closed [OF sample_plain(3)] by (simp add: sample_paths)
  have nc: "conflicts (prepareMerge ?b ?s ?t) = []" by (rule no_conflicts) (rule sample_conflicts)
  obtain c where c: "executeMerge ?b ?s ?t (prepareMerge ?b ?s ?t) (keep_everything ?b ?s ?t) = Inr c"
    and slot: "\<forall>p k. merged_path ?b ?s ?t p \<longrightarrow> same_slot (content_slot c p k) (merged_slot ?b ?s ?t p k)"
    using merge_is_three_way [OF sample_plain nc _ _ closed, of "keep_everything ?b ?s ?t"]
    by (auto simp: keep_everything_def)
  have "same_slot (content_slot c (u ''a'') (u ''x'')) (Some (YBool True))"
    "same_slot (content_slot c (u ''a'') (u ''y'')) (Some (YBool True))"
    using slot [rule_format, of "u ''a''" "u ''x''"] slot [rule_format, of "u ''a''" "u ''y''"]
    by (simp_all add: sample_paths merged_slot_def merge3_def content_slot_def sample_nodes same_scalar)
  then show ?thesis using c by (auto simp: option_rel_Some2 elim: same_cases)
qed

text \<open>C11: when one side of a merge is the common base, the merge that keeps every added node succeeds and has
  the nodes and slots of the other side.\<close>
theorem merge_with_unchanged_side:
  assumes "plain_content b" and "plain_content t" and "s = b \<and> t' = t \<or> s = t \<and> t' = b"
    and "set (onlyInSource (prepareMerge b s t')) \<subseteq> set (keepFromSource d)"
    and "set (onlyInTarget (prepareMerge b s t')) \<subseteq> set (keepFromTarget d)"
  shows "\<exists>c. executeMerge b s t' (prepareMerge b s t') d = Inr c \<and> wf_forest (trees c)
    \<and> (\<forall>p. content_node c p \<noteq> None \<longleftrightarrow> content_node t p \<noteq> None)
    \<and> (\<forall>p k. same_slot (content_slot c p k) (content_slot t p k))"
  using merge_unchanged [OF assms] .

theorem merge_with_unchanged_side_witness:
  "\<exists>c. executeMerge sample_base sample_base sample_target (prepareMerge sample_base sample_base sample_target)
         (keep_everything sample_base sample_base sample_target) = Inr c \<and> content_node c (u ''a/b'') \<noteq> None"
  using merge_with_unchanged_side [OF sample_plain(1,3), of sample_base sample_target
      "keep_everything sample_base sample_base sample_target"]
  by (auto simp: keep_everything_def sample_nodes)

text \<open>C12: unflattenToTrees rebuilds from the flat nodes of a forest the forest itself, with the order of
  children, when keys are non-empty, free of slashes and distinct among siblings.\<close>
theorem trees_roundtrip:
  assumes "wf_forest ts"
  shows "unflattenToTrees (flattenTrees ts) = Inr ts"
  using unflatten_flatten [OF assms] .

theorem trees_roundtrip_witness:
  "unflattenToTrees (flattenTrees (trees sample_target)) = Inr (trees sample_target)"
  by (rule trees_roundtrip) (use sample_plain(3) in \<open>simp add: plain_content_def\<close>)

text \<open>C24: diffCommits puts every path into the class it belongs to, identical, modified, only in the source or
  only in the target, and the slot differences of a modified node, applied to the slots of the source,
  give those of the target.\<close>
theorem diff_describes:
  assumes "plain_content s" and "plain_content t"
  shows "(p \<in> set (identical (diffCommits w s t)) \<longleftrightarrow> content_node s p \<noteq> None \<and> content_node t p \<noteq> None
      \<and> (\<forall>k. same_slot (content_slot s p k) (content_slot t p k)))
    \<and> (p \<in> fst ` set (modified (diffCommits w s t)) \<longleftrightarrow> content_node s p \<noteq> None \<and> content_node t p \<noteq> None
      \<and> (\<exists>k. \<not> same_slot (content_slot s p k) (content_slot t p k)))
    \<and> (p \<in> set (diffOnlyInSource (diffCommits w s t)) \<longleftrightarrow> content_node s p \<noteq> None \<and> content_node t p = None)
    \<and> (p \<in> set (diffOnlyInTarget (diffCommits w s t)) \<longleftrightarrow> content_node s p = None \<and> content_node t p \<noteq> None)
    \<and> (\<forall>ds f. (p, ds) \<in> set (modified (diffCommits w s t)) \<and> content_node s p = Some f \<longrightarrow>
        (\<forall>k. same_slot (map_of (patch_slots (fn_slots f) ds) k) (content_slot t p k)))"
proof -
  have patch: "same_slot (map_of (patch_slots (fn_slots f) ds) k) (content_slot t p k)"
    if m: "(p, ds) \<in> set (modified (diffCommits w s t))" "content_node s p = Some f" for ds f k
  proof -
    obtain y where y: "content_node t p = Some y" "ds = diffSlots w (fn_slots f) (fn_slots y)"
      using m by (auto simp: diff_classes(2) [OF assms])
    show ?thesis
      using diff_patches [OF plain_node(3) [OF assms(1) m(2)] plain_node(3) [OF assms(2) y(1)]]
      by (simp add: y content_slot_def)
  qed
  have "p \<in> fst ` set (modified (diffCommits w s t)) \<longleftrightarrow> (\<exists>ds. (p, ds) \<in> set (modified (diffCommits w s t)))" by force
  also have "\<dots> \<longleftrightarrow> content_node s p \<noteq> None \<and> content_node t p \<noteq> None
      \<and> (\<exists>k. \<not> same_slot (content_slot s p k) (content_slot t p k))"
    unfolding diff_classes(2) [OF assms] by auto
  finally have modified: "p \<in> fst ` set (modified (diffCommits w s t)) \<longleftrightarrow> content_node s p \<noteq> None
      \<and> content_node t p \<noteq> None \<and> (\<exists>k. \<not> same_slot (content_slot s p k) (content_slot t p k))" .
  show ?thesis
    by (intro conjI diff_classes [OF assms] modified allI impI, elim conjE) (rule patch)
qed

theorem diff_describes_witness:
  "u ''a'' \<in> fst ` set (modified (diffCommits None sample_source sample_target))
     \<and> u ''a/b'' \<in> set (diffOnlyInTarget (diffCommits None sample_source sample_target))"
  using diff_describes [OF sample_plain(2,3), of "u ''a''" None] diff_describes [OF sample_plain(2,3), of "u ''a/b''" None]
  by (auto simp: sample_nodes content_slot_def same_scalar intro!: exI [of _ "u ''y''"])

section \<open>Results that the decisions do not ask for\<close>

definition one_root :: "yvalue \<Rightarrow> tree_node list \<Rightarrow> semantic_content" where
  "one_root v cs = sample_content [sample_node ''a'' [(u ''x'', v)] cs]"

definition resolving :: "string \<Rightarrow> merge_resolution \<Rightarrow> merge_decision" where
  "resolving p r = \<lparr>conflictResolutions = [(u p, r)], keepFromSource = [], keepFromTarget = [],
     keepRelationsFromSource = False, keepRelationsFromTarget = False\<rparr>"

text \<open>
  The resolution \<open>both\<close> of a conflict at a root: the second frame of the root is in no tree, yet it takes the
  children of the first, so the child that nobody changed is lost.
\<close>

lemma both_loses_children:
  fixes b defines "child \<equiv> sample_node ''b'' [] []"
  shows "executeMerge (one_root (YStr []) [child]) (one_root (YBool True) [child]) (one_root (YBool False) [child])
      (prepareMerge (one_root (YStr []) [child]) (one_root (YBool True) [child]) (one_root (YBool False) [child]))
      (resolving ''a'' UseBoth)
    = Inr (one_root (YBool True) [])"
  unfolding child_def by code_simp

text \<open>
  The source removed the root, the target changed its child, and the conflict is resolved for the target:
  the root stays removed, and the child becomes a root of its own.
\<close>

lemma child_of_removed_root_moves:
  "executeMerge (one_root YNull [sample_node ''b'' [(u ''y'', YBool False)] []]) (sample_content [])
      (one_root YNull [sample_node ''b'' [(u ''y'', YBool True)] []])
      (prepareMerge (one_root YNull [sample_node ''b'' [(u ''y'', YBool False)] []]) (sample_content [])
         (one_root YNull [sample_node ''b'' [(u ''y'', YBool True)] []]))
      (resolving ''a/b'' UseTarget)
    = Inr (sample_content [sample_node ''b'' [(u ''y'', YBool True)] []])"
  by code_simp

text \<open>Two equal values nested deeper than the bound are a conflict although nobody changed them.\<close>

lemma deep_equal_values_differ:
  "\<not> deepEqual (Val (((\<lambda>v. YSeq [v]) ^^ 11) YNull)) (Val (((\<lambda>v. YSeq [v]) ^^ 11) YNull)) 0"
  by code_simp

end
