(* ===== verification/Spec2Isabelle.thy ===== *)
theory Spec2Isabelle
  imports YopsProperties YopsFindings TransitionProperties AdapterProperties SemanticProperties
begin

text \<open>
  A verification library of t3x-core, a TypeScript monorepo for versioned, reviewable edits of
  structured documents. Two packages are modelled, and the part of a third that joins them.
  packages/yops (src/packages/yops/src) is what every edit goes through: documents are YAML values, an
  edit is a list of operations, and the engine applies the list to a document, all or nothing.
  packages/transition (src/packages/transition/src) is the protocol that records edits: states, effects,
  statements and commits are content-addressed objects, an effect is verified by replaying it, and a
  commit by following the chain of its references. Of packages/core, transition-adapters and
  transition-commits (src/packages/core/src) make the engine a driver of the protocol and create the
  effects and commits that the protocol then verifies, and semantic holds the trees that projects edit,
  their difference and their three-way merge.

  How the parts of packages/yops interact. \<open>applyYOps\<close> (engine.ts) takes a document and a list of raw operations. For
  each it finds the operation's name (opShape.ts), its handler and its Zod schema in the registry
  (registry.ts, schema.ts, bootstrapped by index.ts from the specification yops.yaml that spec.ts
  parses), rejects what the schema or the path parser rejects, and runs the handler (handlers/*.ts).
  A handler reads and writes the document through paths (paths.ts). The validator (validator.ts,
  format.ts, yamlProfile.ts) reports what is wrong with a list before it is applied; recipes
  (recipes.ts) compile larger intentions, and native operations, into a small profile of primitive
  operations, and compare documents by their canonical text (canonical.ts).

  How the parts of packages/transition interact. Values are encoded canonically (canonical.ts) and read by
  a strict parser (json.ts); parse.ts accepts the closed shapes of the protocol objects (contracts.ts);
  identity.ts hashes the canonical bytes of an object under a prefix of its kind; resolver.ts fetches
  bytes by descriptor from a store that it does not trust; replay.ts runs the registered driver (ports.ts)
  of an effect on its base and compares the result with the claim; integrity.ts verifies a commit through
  its decision, proposal, effect, states and parents.

  How the adapters of packages/core interact with both. stateCodec.ts turns a document into the value of
  a protocol state and back; yopsDriver.ts reads the plan of an effect (program, state profile,
  registry), decodes the base state, parses each operation with its Zod schema, runs \<open>applyYOps\<close>, and
  encodes the result for replay.ts to compare; it also creates such effects, and the plan that replaces
  one state by another. stateImportDriver.ts is the driver of effects whose target comes from outside.
  commit.ts creates the objects of a commit from a base and an effect, stores them, and asks integrity.ts
  to verify what it stored; projection.ts reads the state of a verified commit.

  How the semantic trees work. tree.ts flattens a forest to nodes named by their paths and rebuilds forests
  from such nodes; merge.ts compares base, source and target path by path, reports the conflicts, and
  executes the decisions of a user into a list of nodes that tree.ts rebuilds; diff.ts compares two
  contents in the same way, slot by slot with the bounded equality of utils.ts.

  Theories, from the language up:
    Prelude, JsString, JsNumber, JsSort, JsObject - lists and sums; JavaScript strings as lists of
      16-bit code units; numbers as the JSON-visible doubles and their texts; the stable sort with a
      comparator (locale \<open>js_comparator\<close>); objects as association lists in the order in which the
      runtime enumerates keys, integer keys first (locale \<open>keyed_store\<close>).
    YValue, Canonical - YAML values (types.ts), the clone and equality of paths.ts, and canonical.ts:
      the canonical text decides equality up to the order of keys.
    DocModel - the abstract documents: trees with finite maps instead of ordered objects, with their
      own resolve, set and delete (locale \<open>document_store\<close>).
    Paths, PathLaws, PathFormat - paths.ts: the path parser, resolve, set and delete; the operations
      refine those of DocModel; the path printer of recipes.ts and its round trip with the parser
      (locale \<open>delimited_text\<close>).
    YopsTypes, Handlers - types.ts, errors.ts and the eighteen handlers, one definition each.
    SameDoc, HandlerLaws, HandlerSpecs - what every handler keeps (well-formed documents, the unchanged
      document on an error, results independent of key order: locale \<open>op_handler\<close>) and what each
      handler does to its place and to all others.
    Spec, Registry, Schema - spec.ts on the operations of yops.yaml, opShape.ts, registry.ts, classify.ts,
      the bootstrap of index.ts, the Zod schemas as data.
    Engine, TypedOps - engine.ts with every guard in the code's order; the encoding of the typed
      operations as raw values (locale \<open>sound_registry\<close>, interpreted on the package's registry).
    Recipes, RecipeProfile, RecipeLaws - recipes.ts: the compilers, expansions and the primitive
      profile, and that they keep the outcome of a run.
    Validator, ValidatorLaws - the diagnostics, and that a raw operation without errors holds one admissible
      operation (\<open>holds_op\<close> of OperationData) and passes every guard of the engine.
    Samples, YopsProperties, YopsFindings - documents for the witnesses, the properties, and behaviours
      that differ from what the code or its documentation says.
    JsUnicode, JsDouble, Sha256 - code unit order, well-formed strings, UTF-8; \<open>Number\<close> as rounding to the
      nearest binary64 and printing its shortest decimal; SHA-256.
    TransitionTypes - contracts.ts and errors.ts: the protocol objects as typed records, and the protocol
      value that the runtime holds for each.
    ProtocolJson, ProtocolJsonLaws, JsonRoundtrip - canonical.ts and json.ts on values: canonical text and
      bytes decide equality, the parser always returns and reads canonical text back.
    NumberGrammar - the numbers of JSON as a grammar with the real number that a token spells, and the nearest
      binary64; the number scanner of json.ts takes the longest token and rounds what it spells.
    RuntimeValues - canonicalJson of canonical.ts on a heap with shared and cyclic objects, property
      descriptors, prototypes and symbols: it accepts exactly the trees.
    ProtocolParse, ProtocolParseLaws, ProtocolSame - parse.ts: every schema returns a record that denotes
      its input and is accepted again (locale \<open>lossless\<close>), and none looks at the order of keys (\<open>agree\<close>).
    ProtocolIdentity, Resolver - identity.ts and resolver.ts: what is hashed determines the object;
      resolving is sound for every resolver; the in-memory store (locale \<open>content_store\<close>).
    Replay, Integrity - ports.ts, replay.ts and integrity.ts: verified effects and commits, and the chain of a
      commit as a declarative predicate (\<open>chain\<close>).
    TransitionSamples, TransitionProperties - objects for the witnesses, and the properties.
    ValueAtoms, ProfileAtoms, OperationData - every string and number of a result occurs in the document
      or in the operations (ValueAtoms for the handlers, ProfileAtoms for the expansions), so a run on
      protocol values ends in a protocol value; typed operations as protocol values (\<open>encodes\<close>).
    YopsAdapter, YopsAdapterLaws - stateCodec.ts and yopsDriver.ts; decoding the encoded state, and which
      errors the driver answers.
    YopsAdapterOutcome, YopsReplacement - the outcome of a driver run is that of the engine on the decoded
      base, and the replacement plan reaches its target from every base.
    StateImport, TransitionCommits - stateImportDriver.ts; commit.ts and projection.ts: a created effect
      verifies, a stored commit verifies and is the chain that integrity.ts describes.
    CommitSamples, AdapterProperties - the graph of a first commit and the creation of that commit, and the
      properties.
    SemanticTypes, SemanticTree - types.ts, utils.ts and tree.ts of semantic; on values within the depth
      bound \<open>deepEqual\<close> is equality up to key order.
    SemanticTreeLaws, SemanticBuild, SemanticForest, SemanticRebuild - which tree a list of nodes
      \<open>represents\<close>, that rebuilding builds it, undoes flattening, and keeps the nodes whose ancestors
      are all there.
    SemanticMerge, SemanticMergeLaws, SemanticMergeResult - merge.ts, the merge of one node, and the merge of
      whole contents as maps from paths and slot keys to values.
    SemanticDiff, SemanticProperties - diff.ts, whose slot differences are patches; the properties.

  Errors are values: \<open>OpResult d (Some e)\<close> is a returned error, \<open>Throws\<close> an exception out of a handler,
  which the engine turns into \<open>INVALID_OP\<close>; parsers and the protocol return sums. Recursion is structural
  or has a termination proof; only the strict JSON parser has fuel, twice the length of its input, and
  \<open>strict_json_total\<close> shows that this is enough. Documents are assumed \<open>wf_yvalue\<close>: unique keys in enumeration
  order, the state every JavaScript object is in; every operation keeps it (\<open>apply_wf\<close>
  of the locale \<open>sound_registry\<close>).

  Parameters. The Zod library is the argument \<open>acc\<close> of the engine: \<open>acc s v\<close> says that the schema \<open>s\<close>
  accepts \<open>v\<close>. Where a property needs its documented behaviour, it is the hypothesis \<open>zod_spec acc\<close>,
  with the executable instance \<open>zod_eval\<close>. The YAML parser is the argument \<open>parse\<close> of the entry points
  in Validator; nothing is assumed of it. A resolver and the drivers and codecs of a registry are
  arguments of the protocol functions; a resolver is a function that may throw, and nothing is assumed
  of what it answers. In the adapters, \<open>data\<close> is the parsed operation that Zod
  answers for a value it accepts; the documented behaviour used is the hypothesis \<open>zod_copies acc data\<close>,
  that a strict schema without transforms answers a copy of what it accepts, with the executable instance
  \<open>zod_read\<close>. The digest of the specification yops.yaml, which names the driver, is an argument too.
  That SHA-256 has no collisions is nowhere assumed; properties name the collision.

  Not modelled in packages/yops: the texts of messages and suggestions; descriptions, rules, examples
  and tests in yops.yaml, which no code under src reads back; \<open>formatYOps\<close>, a call of the YAML printer.
  In packages/transition: messages and diagnostic paths of errors, the awaiting of promises, proxies, and
  exhaustion of the call stack; a descriptor is typed, its schema being the one of its kind. In
  packages/core: sharing of objects between the contents of a merge (each is decoded from its own bytes),
  the YAML source driver, which is a call of the YAML parser and printer, the decision
  policies, the merge driver over semantic trees, their integrity gates, and the extraction, prompt and
  provider code. The other packages of the repository (schemas, application services, storage, the HTTP API, the web application
  and the command line) are not modelled: they call what is modelled here or do input and output.
\<close>

end
